(* ===== verification/Prelude.thy ===== *)
theory Prelude
  imports
    "HOL-Library.Word"
    "HOL-Library.Char_ord"
    "HOL-Library.List_Lexorder"
    "HOL-Library.Product_Lexorder"
    "HOL-Library.Multiset"
begin

text \<open>
  Prelude of the aloelite development: the names of the basic types, the two theorem
  collections the component proofs draw on, and the generic facts on lists that several
  components need.

  \<^item> \<open>byte\<close> and \<open>bytes\<close> are Python's \<open>bytes\<close>; Python's \<open>str\<close> is HOL's \<open>string\<close>.
  \<^item> \<open>split_on\<close> and \<open>join_with\<close> are \<open>str.split(sep)\<close> and \<open>sep.join\<close> for a
    separator of one character.
  \<^item> \<open>row_at\<close> is "the row whose primary key is \<open>k\<close>" of a table kept as the list of its
    rows in insertion order; the lemmas say how it reads INSERT, UPDATE and DELETE.
  \<^item> the last section is the order of equal-length strings, which is what makes ids sort.
\<close>

type_synonym byte = "8 word"
type_synonym bytes = "byte list"

named_theorems op_simps \<open>execution rules for the operation combinators\<close>
named_theorems row_simps \<open>reading a table after INSERT, UPDATE and DELETE\<close>

section \<open>Splitting and joining strings\<close>

fun split_on :: "'a \<Rightarrow> 'a list \<Rightarrow> 'a list list" where
  "split_on c [] = [[]]"
| "split_on c (x # xs) =
     (if x = c then [] # split_on c xs
      else (case split_on c xs of [] \<Rightarrow> [[x]] | s # ss \<Rightarrow> (x # s) # ss))"

fun join_with :: "'a \<Rightarrow> 'a list list \<Rightarrow> 'a list" where
  "join_with c [] = []"
| "join_with c [s] = s"
| "join_with c (s # t # ss) = s @ c # join_with c (t # ss)"

lemma split_on_not_Nil [simp]: "split_on c xs \<noteq> []"
  by (induction xs) (auto split: list.splits)

lemma split_on_no_sep: "s \<in> set (split_on c xs) \<Longrightarrow> c \<notin> set s"
proof (induction xs arbitrary: s)
  case (Cons x xs)
  show ?case
  proof (cases "x = c")
    case True
    with Cons show ?thesis by auto
  next
    case False
    obtain t ts where t: "split_on c xs = t # ts"
      by (meson neq_Nil_conv split_on_not_Nil)
    with Cons False show ?thesis by auto
  qed
qed auto

lemma split_on_id: "c \<notin> set s \<Longrightarrow> split_on c s = [s]"
  by (induction s) auto

lemma split_on_append_sep:
  "c \<notin> set s \<Longrightarrow> split_on c (s @ c # xs) = s # split_on c xs"
  by (induction s) auto

lemma split_on_join:
  "ss \<noteq> [] \<Longrightarrow> \<forall>s \<in> set ss. c \<notin> set s \<Longrightarrow> split_on c (join_with c ss) = ss"
  by (induction c ss rule: join_with.induct) (auto simp: split_on_id split_on_append_sep)

lemma join_split_on: "join_with c (split_on c xs) = xs"
proof (induction xs)
  case (Cons x xs)
  obtain t ts where t: "split_on c xs = t # ts"
    by (meson neq_Nil_conv split_on_not_Nil)
  with Cons show ?case by (cases ts) auto
qed simp

lemma join_with_append:
  "xs \<noteq> [] \<Longrightarrow> ys \<noteq> [] \<Longrightarrow> join_with c (xs @ ys) = join_with c xs @ c # join_with c ys"
proof (induction c xs rule: join_with.induct)
  case (2 c s)
  then show ?case by (cases ys) auto
qed auto

lemma split_on_append:
  "split_on c (xs @ c # ys) = split_on c xs @ split_on c ys"
proof (induction xs)
  case (Cons x xs)
  obtain t ts where t: "split_on c xs = t # ts"
    by (meson neq_Nil_conv split_on_not_Nil)
  with Cons show ?case by auto
qed simp

section \<open>Tables as lists of rows\<close>

definition row_at :: "('r \<Rightarrow> 'k) \<Rightarrow> 'k \<Rightarrow> 'r list \<Rightarrow> 'r option" where
  "row_at key k rows = find (\<lambda>r. key r = k) rows"

lemma row_at_Nil [simp]: "row_at key k [] = None"
  by (simp add: row_at_def)

lemma row_at_Cons [simp]:
  "row_at key k (r # rs) = (if key r = k then Some r else row_at key k rs)"
  by (simp add: row_at_def)

lemma row_at_insert [row_simps]:
  "row_at key k (rs @ [r]) =
     (case row_at key k rs of Some q \<Rightarrow> Some q | None \<Rightarrow> if key r = k then Some r else None)"
  by (induction rs) auto

lemma row_at_update [row_simps]:
  "(\<And>r. key (f r) = key r) \<Longrightarrow> row_at key k (map f rs) = map_option f (row_at key k rs)"
  by (induction rs) auto

lemma row_at_SomeD: "row_at key k rs = Some r \<Longrightarrow> r \<in> set rs \<and> key r = k"
  by (induction rs) (auto split: if_splits)

lemma row_at_None_iff: "row_at key k rs = None \<longleftrightarrow> k \<notin> key ` set rs"
  by (induction rs) auto

lemma row_at_ex_iff: "(\<exists>r. row_at key k rs = Some r) \<longleftrightarrow> k \<in> key ` set rs"
  using row_at_None_iff [of key k rs] by (cases "row_at key k rs") auto

lemma row_at_mem:
  "distinct (map key rs) \<Longrightarrow> r \<in> set rs \<Longrightarrow> row_at key (key r) rs = Some r"
  by (induction rs) (auto simp: rev_image_eqI)

lemma row_at_delete [row_simps]:
  "distinct (map key rs) \<Longrightarrow>
   row_at key k (filter P rs) =
     (case row_at key k rs of None \<Rightarrow> None | Some r \<Rightarrow> if P r then Some r else None)"
proof (induction rs)
  case (Cons r rs)
  then have fresh: "row_at key (key r) rs = None"
    by (simp add: row_at_None_iff)
  then have "row_at key (key r) (filter P rs) = None"
    by (auto simp: row_at_None_iff)
  with Cons fresh show ?case by (auto split: option.splits)
qed simp

lemma distinct_insert_row:
  "distinct (map key rs) \<Longrightarrow> row_at key (key r) rs = None \<Longrightarrow> distinct (map key (rs @ [r]))"
  by (auto simp: row_at_None_iff)

lemma map_key_update: "(\<And>r. key (f r) = key r) \<Longrightarrow> map key (map f rs) = map key rs"
  by simp

section \<open>The order of strings of equal length\<close>

lemma less_append_same_length:
  fixes xs ys us vs :: "'a::linorder list"
  shows "length xs = length ys \<Longrightarrow> xs < ys \<Longrightarrow> xs @ us < ys @ vs"
  by (induction xs ys rule: list_induct2) auto

lemma less_append_prefix:
  fixes us vs :: "'a::linorder list"
  shows "us < vs \<Longrightarrow> xs @ us < xs @ vs"
  by (induction xs) auto

lemma append_less_iff_same_length:
  fixes xs ys us vs :: "'a::linorder list"
  shows "length xs = length ys \<Longrightarrow> xs @ us < ys @ vs \<longleftrightarrow> xs < ys \<or> xs = ys \<and> us < vs"
  by (induction xs ys rule: list_induct2) auto

end
