(* ===== verification/Vocabulary.thy ===== *)
theory Vocabulary
  imports Prelude
begin

text \<open>
  The vocabulary of the Mount API: the opaque ids and the closed enums of
  \<open>aloelite/types.py\<close> and the closed error set of \<open>aloelite/errors.py\<close>.

  Ids are strings at run time in the code and here; they are only named apart. The enums
  are datatypes with their database token as a function and the token's parser beside it.
  An \<open>fs_error\<close> is the exception that leaves an operation: \<open>FsError\<close>, its nineteen
  subclasses, and below them the exceptions of the standard library and of SQLite that
  the modelled code lets through. An error's message and keyword context are not modelled.
\<close>

section \<open>Ids and enums\<close>

type_synonym node_id = string
type_synonym edge_id = string
type_synonym volume_id = string
type_synonym mount_id = string
type_synonym lock_id = string
type_synonym fd_id = string
type_synonym timestamp = int

datatype node_type = CONTAINER | ENTRY | SYMLINK | FIFO | SOCKET

fun node_type_value :: "node_type \<Rightarrow> string" where
  "node_type_value CONTAINER = ''container''"
| "node_type_value ENTRY = ''entry''"
| "node_type_value SYMLINK = ''symlink''"
| "node_type_value FIFO = ''fifo''"
| "node_type_value SOCKET = ''socket''"

definition all_node_types :: "node_type list" where
  "all_node_types = [CONTAINER, ENTRY, SYMLINK, FIFO, SOCKET]"

text \<open>\<open>NodeType(s)\<close>: the member whose value is \<open>s\<close>, a ValueError (\<open>None\<close>) otherwise.\<close>

definition node_type_of :: "string \<Rightarrow> node_type option" where
  "node_type_of s = find (\<lambda>t. node_type_value t = s) all_node_types"

lemma node_type_of_value [simp]: "node_type_of (node_type_value t) = Some t"
  by (cases t) (simp_all add: node_type_of_def all_node_types_def)

datatype mount_state = NEW | ACTIVE | UNMOUNTED

datatype whence = SET | CUR | END

datatype write_mode = TRUNCATE | APPEND

section \<open>Errors\<close>

datatype fs_error =
    FsError | NotFound | NotAContainer | NotAnEntry | Nameless | WouldCycle | VolumeMismatch
  | ContainerExists | ReadOnlyMount | MountConflict | AlreadyExists | NotEmpty
  | MountInvalid | MountPointArchived | LockHeld | LockInvalid | Corrupt | Unsupported
  | BadKey | EncryptionRequired
  | ValueError | ZeroDivisionError | IndexError | TypeError | KeyError
  | FileExistsError | RecursionError | InvalidTag | IntegrityError | OperationalError

text \<open>The stable \<open>code\<close> of each \<open>FsError\<close>; the others have none.\<close>

fun error_code :: "fs_error \<Rightarrow> string option" where
  "error_code FsError = Some ''error''"
| "error_code NotFound = Some ''not_found''"
| "error_code NotAContainer = Some ''not_a_container''"
| "error_code NotAnEntry = Some ''not_an_entry''"
| "error_code Nameless = Some ''nameless''"
| "error_code WouldCycle = Some ''would_cycle''"
| "error_code VolumeMismatch = Some ''volume_mismatch''"
| "error_code ContainerExists = Some ''container_exists''"
| "error_code ReadOnlyMount = Some ''read_only''"
| "error_code MountConflict = Some ''mount_conflict''"
| "error_code AlreadyExists = Some ''already_exists''"
| "error_code NotEmpty = Some ''not_empty''"
| "error_code MountInvalid = Some ''mount_invalid''"
| "error_code MountPointArchived = Some ''mount_point_archived''"
| "error_code LockHeld = Some ''lock_held''"
| "error_code LockInvalid = Some ''lock_invalid''"
| "error_code Corrupt = Some ''corrupt''"
| "error_code Unsupported = Some ''unsupported''"
| "error_code BadKey = Some ''bad_key''"
| "error_code EncryptionRequired = Some ''encryption_required''"
| "error_code _ = None"

definition fs_errors :: "fs_error list" where
  "fs_errors =
     [FsError, NotFound, NotAContainer, NotAnEntry, Nameless, WouldCycle, VolumeMismatch,
      ContainerExists, ReadOnlyMount, MountConflict, AlreadyExists, NotEmpty, MountInvalid,
      MountPointArchived, LockHeld, LockInvalid, Corrupt, Unsupported, BadKey,
      EncryptionRequired]"

text \<open>The \<open>BY_CODE\<close> registry: the base class is in it too.\<close>

definition by_code :: "string \<rightharpoonup> fs_error" where
  "by_code c = find (\<lambda>e. error_code e = Some c) fs_errors"

lemma error_code_listed: "error_code e = Some c \<Longrightarrow> e \<in> set fs_errors"
  by (cases e) (simp_all add: fs_errors_def)

lemma fs_errors_registered:
  "list_all (\<lambda>e. case error_code e of None \<Rightarrow> False | Some c \<Rightarrow> by_code c = Some e) fs_errors"
  by code_simp

lemma by_code_error_code: "error_code e = Some c \<Longrightarrow> by_code c = Some e"
  using fs_errors_registered error_code_listed [of e c] by (fastforce simp: list_all_iff)

end
