(* ===== verification/Crypto.thy ===== *)
theory Crypto
  imports Ids
begin

text \<open>
  At-rest encryption (\<open>aloelite/crypto.py\<close>): the chunk-cipher seam and the key ladder.

  The primitives come from \<open>hashlib\<close> and from the third-party package \<open>cryptography\<close>:
  they are the fields of \<open>crypto_lib\<close>, an argument of every definition that uses one.
  \<open>lib_ok\<close> is what the code relies on (a seal opens under its own key and nonce and is
  sixteen bytes longer than what it seals), \<open>lib_rejects L K\<close> that what one key of the
  set \<open>K\<close> of keys in use seals opens under no other key of \<open>K\<close>.
  \<open>os.urandom(n)\<close> is the next \<open>n\<close> draws of the stream \<open>rnd\<close>.

  The locale \<open>chunk_seam\<close> is the \<open>Cipher\<close> protocol the engine relies on; it is
  interpreted on \<open>encrypt_chunk\<close> and \<open>decrypt_chunk\<close>, which cover the identity
  cipher, the convergent and the random chunk cipher.
\<close>

record crypto_lib =
  sha256 :: "bytes \<Rightarrow> bytes"
  argon2id :: "bytes \<Rightarrow> nat \<Rightarrow> nat \<Rightarrow> nat \<Rightarrow> nat \<Rightarrow> bytes \<Rightarrow> bytes"
    \<comment> \<open>salt, length, iterations, lanes, memory cost, and the secret\<close>
  hkdf_sha256 :: "nat \<Rightarrow> bytes option \<Rightarrow> bytes \<Rightarrow> bytes \<Rightarrow> bytes"
    \<comment> \<open>length, salt, info, and the key\<close>
  aead_encrypt :: "bytes \<Rightarrow> bytes \<Rightarrow> bytes \<Rightarrow> bytes"
    \<comment> \<open>ChaCha20Poly1305(key).encrypt(nonce, plaintext, None)\<close>
  aead_decrypt :: "bytes \<Rightarrow> bytes \<Rightarrow> bytes \<Rightarrow> bytes option"
    \<comment> \<open>ChaCha20Poly1305(key).decrypt(nonce, sealed, None), \<open>None\<close> for InvalidTag\<close>

definition NONCE_LEN :: nat where
  "NONCE_LEN = 12"

definition TAG_LEN :: nat where
  "TAG_LEN = 16"

definition TOKEN_LEN :: nat where
  "TOKEN_LEN = 16"

definition MOUNT_NONCE_LEN :: nat where
  "MOUNT_NONCE_LEN = 16"

definition lib_ok :: "crypto_lib \<Rightarrow> bool" where
  "lib_ok L \<longleftrightarrow>
     (\<forall>k n p. aead_decrypt L k n (aead_encrypt L k n p) = Some p
        \<and> length (aead_encrypt L k n p) = length p + TAG_LEN)"

definition lib_rejects :: "crypto_lib \<Rightarrow> bytes set \<Rightarrow> bool" where
  "lib_rejects L K \<longleftrightarrow>
     (\<forall>k \<in> K. \<forall>k' \<in> K. \<forall>n p. k \<noteq> k' \<longrightarrow> aead_decrypt L k' n (aead_encrypt L k n p) = None)"

definition urandom :: "(nat \<Rightarrow> int) \<Rightarrow> nat \<Rightarrow> nat \<Rightarrow> bytes" where
  "urandom rnd i n = map (\<lambda>k. word_of_int (rnd (i + k))) [0..<n]"

definition encode_str :: "string \<Rightarrow> bytes" where
  "encode_str s = map of_char s"

text \<open>\<open>x.to_bytes(n, "big")\<close>\<close>

fun be_bytes :: "nat \<Rightarrow> nat \<Rightarrow> bytes" where
  "be_bytes 0 x = []"
| "be_bytes (Suc n) x = be_bytes n (x div 256) @ [of_nat x]"

section \<open>The chunk ciphers\<close>

definition hkdf :: "crypto_lib \<Rightarrow> bytes \<Rightarrow> bytes option \<Rightarrow> bytes \<Rightarrow> bytes" where
  "hkdf L key salt info = hkdf_sha256 L 32 salt info key"

text \<open>\<open>ChunkCipher k conv\<close>: the derived subkey and whether the nonce is convergent.\<close>

datatype cipher = IdentityCipher | ChunkCipher (ck_key: bytes) (ck_convergent: bool)

definition new_chunk_cipher :: "crypto_lib \<Rightarrow> bytes \<Rightarrow> string \<Rightarrow> bool \<Rightarrow> cipher" where
  "new_chunk_cipher L volume_key volume conv =
     ChunkCipher (hkdf L volume_key None (encode_str ''aloelite-chunk:'' @ encode_str volume))
       conv"

fun encrypts :: "cipher \<Rightarrow> bool" where
  "encrypts IdentityCipher = False"
| "encrypts (ChunkCipher k conv) = True"

fun dedup :: "cipher \<Rightarrow> bool" where
  "dedup IdentityCipher = True"
| "dedup (ChunkCipher k conv) = conv"

definition convergent_nonce :: "crypto_lib \<Rightarrow> bytes \<Rightarrow> bytes" where
  "convergent_nonce L p =
     take NONCE_LEN (sha256 L (encode_str ''aloelite-nc'' @ be_bytes 8 (length p) @ p))"

text \<open>
  \<open>encrypt_chunk L rnd i c p\<close> is (ciphertext, nonce, tag), with the draws from position
  \<open>i\<close> on; \<open>nonce_draws c\<close> is how many of them it uses.
\<close>

fun nonce_draws :: "cipher \<Rightarrow> nat" where
  "nonce_draws IdentityCipher = 0"
| "nonce_draws (ChunkCipher k conv) = (if conv then 0 else NONCE_LEN)"

fun encrypt_chunk ::
  "crypto_lib \<Rightarrow> (nat \<Rightarrow> int) \<Rightarrow> nat \<Rightarrow> cipher \<Rightarrow> bytes \<Rightarrow> bytes \<times> bytes \<times> bytes" where
  "encrypt_chunk L rnd i IdentityCipher p = (p, [], [])"
| "encrypt_chunk L rnd i (ChunkCipher k conv) p =
     (let nonce = (if conv then convergent_nonce L p else urandom rnd i NONCE_LEN);
          sealed = aead_encrypt L k nonce p
      in (take (length sealed - TAG_LEN) sealed, nonce, drop (length sealed - TAG_LEN) sealed))"

fun decrypt_chunk :: "crypto_lib \<Rightarrow> cipher \<Rightarrow> bytes \<Rightarrow> bytes \<Rightarrow> bytes \<Rightarrow> bytes option" where
  "decrypt_chunk L IdentityCipher ct nonce tag = Some ct"
| "decrypt_chunk L (ChunkCipher k conv) ct nonce tag = aead_decrypt L k nonce (ct @ tag)"

section \<open>The seam as an interface\<close>

locale chunk_seam =
  fixes enc :: "'l \<Rightarrow> (nat \<Rightarrow> int) \<Rightarrow> nat \<Rightarrow> 'c \<Rightarrow> bytes \<Rightarrow> bytes \<times> bytes \<times> bytes"
    and dec :: "'l \<Rightarrow> 'c \<Rightarrow> bytes \<Rightarrow> bytes \<Rightarrow> bytes \<Rightarrow> bytes option"
    and good :: "'l \<Rightarrow> bool"
  assumes dec_enc: "good L \<Longrightarrow> enc L rnd i c p = (ct, n, t) \<Longrightarrow> dec L c ct n t = Some p"
    and enc_length: "good L \<Longrightarrow> enc L rnd i c p = (ct, n, t) \<Longrightarrow> length ct = length p"
begin

lemma seal_inj:
  "good L \<Longrightarrow> enc L rnd i c p = x \<Longrightarrow> enc L rnd' i' c q = x \<Longrightarrow> p = q"
  by (metis dec_enc option.inject prod_cases3)

lemma dec_all:
  assumes "good L" and "length is = length ps"
  shows "map (\<lambda>(ct, n, t). dec L c ct n t) (map2 (\<lambda>i p. enc L rnd i c p) is ps) = map Some ps"
  using assms(2)
proof (induction "is" ps rule: list_induct2)
  case (Cons i "is" p ps)
  obtain ct n t where e: "enc L rnd i c p = (ct, n, t)" by (cases "enc L rnd i c p") auto
  with Cons show ?case using dec_enc [OF assms(1) e] by simp
qed simp

end

lemma decrypt_encrypt:
  "lib_ok L \<Longrightarrow> encrypt_chunk L rnd i c p = (ct, n, t) \<Longrightarrow> decrypt_chunk L c ct n t = Some p"
  by (cases c) (auto simp: lib_ok_def Let_def)

lemma encrypt_length:
  "lib_ok L \<Longrightarrow> encrypt_chunk L rnd i c p = (ct, n, t) \<Longrightarrow> length ct = length p"
  by (cases c) (auto simp: lib_ok_def Let_def)

interpretation seam: chunk_seam encrypt_chunk decrypt_chunk lib_ok
  by unfold_locales (erule (1) decrypt_encrypt, erule (1) encrypt_length)

section \<open>The key ladder\<close>

definition volume_hash :: "crypto_lib \<Rightarrow> string \<Rightarrow> string \<Rightarrow> bytes" where
  "volume_hash L volume root = sha256 L (encode_str volume @ encode_str root)"

definition derive_unlock_key :: "crypto_lib \<Rightarrow> bytes \<Rightarrow> bytes \<Rightarrow> bytes" where
  "derive_unlock_key L pin h_v = argon2id L h_v 32 3 4 65536 pin"

definition aead_wrap ::
  "crypto_lib \<Rightarrow> (nat \<Rightarrow> int) \<Rightarrow> nat \<Rightarrow> bytes \<Rightarrow> bytes \<Rightarrow> bytes \<times> bytes" where
  "aead_wrap L rnd i key plaintext =
     (let nonce = urandom rnd i NONCE_LEN in (aead_encrypt L key nonce plaintext, nonce))"

definition aead_unwrap :: "crypto_lib \<Rightarrow> bytes \<Rightarrow> bytes \<Rightarrow> bytes \<Rightarrow> bytes option" where
  "aead_unwrap L key wrapped nonce = aead_decrypt L key nonce wrapped"

definition wrap_volume_key where
  "wrap_volume_key L rnd i unlock_key volume_key = aead_wrap L rnd i unlock_key volume_key"

definition unwrap_volume_key where
  "unwrap_volume_key L unlock_key wrapped wrap_nonce = aead_unwrap L unlock_key wrapped wrap_nonce"

definition new_volume_key :: "(nat \<Rightarrow> int) \<Rightarrow> nat \<Rightarrow> bytes" where
  "new_volume_key rnd i = urandom rnd i 32"

definition new_token :: "(nat \<Rightarrow> int) \<Rightarrow> nat \<Rightarrow> bytes" where
  "new_token rnd i = urandom rnd i TOKEN_LEN"

definition new_mount_nonce :: "(nat \<Rightarrow> int) \<Rightarrow> nat \<Rightarrow> bytes" where
  "new_mount_nonce rnd i = urandom rnd i MOUNT_NONCE_LEN"

definition session_kek :: "crypto_lib \<Rightarrow> bytes \<Rightarrow> bytes \<Rightarrow> bytes" where
  "session_kek L token mount_nonce =
     hkdf L token (Some mount_nonce) (encode_str ''aloelite-session'')"

definition seal_mount_secret where
  "seal_mount_secret L rnd i token mount_nonce volume_key =
     aead_wrap L rnd i (session_kek L token mount_nonce) volume_key"

definition open_mount_secret where
  "open_mount_secret L token mount_nonce mount_secret sess_nonce =
     aead_unwrap L (session_kek L token mount_nonce) mount_secret sess_nonce"

lemma unwrap_wrap [simp]:
  "lib_ok L \<Longrightarrow> aead_wrap L rnd i k p = (w, n) \<Longrightarrow> aead_unwrap L k w n = Some p"
  by (auto simp: aead_wrap_def aead_unwrap_def lib_ok_def Let_def)

lemma unwrap_wrong_key [simp]:
  "lib_rejects L K \<Longrightarrow> k \<in> K \<Longrightarrow> k' \<in> K \<Longrightarrow> k \<noteq> k' \<Longrightarrow> aead_wrap L rnd i k p = (w, n) \<Longrightarrow> aead_unwrap L k' w n = None"
  by (auto simp: aead_wrap_def aead_unwrap_def lib_rejects_def Let_def)

end
