(* ===== verification/Schema.thy ===== *)
theory Schema
  imports Crypto
begin

text \<open>
  The file: the base tables, constraints, triggers and views of
  \<open>aloelite/sql/schema.sql\<close>.

  A table is the list of its rows in insertion order, a row a record with the table's
  columns. Every constraint is written out where a row is inserted: primary keys, foreign
  keys, CHECKs and the refuse-only guard triggers all answer \<open>IntegrityError\<close>. The touch
  triggers run after the change they watch and take SQLite's clock as an argument. Columns
  the code never reads (\<open>content_hash\<close>, \<open>proof\<close>, the two lock counters, which the code
  never writes either) are left out, \<open>wm_ts\<close> and \<open>wm_seq\<close> are one \<open>stamp\<close>, and the
  wrapped key and its nonce, always written together, are one optional pair. The JSON text
  of \<open>metadata\<close> is the association list it denotes.

  The views are functions of the tables. The recursive ones keep the depth bound of 256
  of their definitions as fuel.
\<close>

section \<open>Rows and tables\<close>

record node_row =
  nd_id :: node_id
  nd_type :: node_type
  nd_name :: string
  nd_created :: timestamp
  nd_modified :: "timestamp option"
  nd_volume :: "volume_id option"
  nd_metadata :: "(string \<times> string) list option"
  nd_uid :: "int option"
  nd_gid :: "int option"
  nd_mode :: "int option"
  nd_atime :: "timestamp option"
  nd_ctime :: "timestamp option"

record content_row =
  ct_node :: node_id
  ct_version :: nat
  ct_size :: nat
  ct_keep :: "int option"

record chunk_row =
  ch_hash :: string
  ch_data :: bytes
  ch_length :: nat
  ch_nonce :: bytes
  ch_tag :: bytes

record version_row =
  cv_node :: node_id
  cv_version :: nat
  cv_index :: nat
  cv_hash :: string

record edge_row =
  eg_id :: edge_id
  eg_from :: node_id
  eg_to :: node_id
  eg_volume :: volume_id
  eg_archived :: bool
  eg_name :: string

record volume_row =
  vl_id :: volume_id
  vl_root :: "node_id option"
  vl_name :: "string option"
  vl_created :: timestamp
  vl_api :: int
  vl_chunk_size :: nat
  vl_wm :: stamp
  vl_enc_mode :: string
  vl_wrapped :: "(bytes \<times> bytes) option"

record mount_row =
  mt_id :: mount_id
  mt_volume :: volume_id
  mt_point :: node_id
  mt_state :: mount_state
  mt_expires :: "timestamp option"
  mt_created :: timestamp
  mt_nonce :: bytes
  mt_access :: string
  mt_principal :: "string option"

record lock_row =
  lk_id :: lock_id
  lk_mount :: mount_id
  lk_node :: node_id
  lk_expires :: "timestamp option"
  lk_created :: timestamp

record xattr_row =
  xa_node :: node_id
  xa_name :: string
  xa_value :: bytes

record tables =
  nodes :: "node_row list"
  contents :: "content_row list"
  chunks :: "chunk_row list"
  versions :: "version_row list"
  edges :: "edge_row list"
  volumes :: "volume_row list"
  mounts :: "mount_row list"
  locks :: "lock_row list"
  xattrs :: "xattr_row list"

definition empty_tables :: tables where
  "empty_tables = \<lparr>nodes = [], contents = [], chunks = [], versions = [], edges = [],
     volumes = [], mounts = [], locks = [], xattrs = []\<rparr>"

abbreviation node_at :: "tables \<Rightarrow> node_id \<Rightarrow> node_row option" where
  "node_at t n \<equiv> row_at nd_id n (nodes t)"

abbreviation content_at :: "tables \<Rightarrow> node_id \<Rightarrow> content_row option" where
  "content_at t n \<equiv> row_at ct_node n (contents t)"

abbreviation chunk_at :: "tables \<Rightarrow> string \<Rightarrow> chunk_row option" where
  "chunk_at t h \<equiv> row_at ch_hash h (chunks t)"

abbreviation edge_at :: "tables \<Rightarrow> edge_id \<Rightarrow> edge_row option" where
  "edge_at t e \<equiv> row_at eg_id e (edges t)"

abbreviation volume_at :: "tables \<Rightarrow> volume_id \<Rightarrow> volume_row option" where
  "volume_at t v \<equiv> row_at vl_id v (volumes t)"

abbreviation mount_at :: "tables \<Rightarrow> mount_id \<Rightarrow> mount_row option" where
  "mount_at t m \<equiv> row_at mt_id m (mounts t)"

abbreviation lock_at :: "tables \<Rightarrow> lock_id \<Rightarrow> lock_row option" where
  "lock_at t l \<equiv> row_at lk_id l (locks t)"

section \<open>Triggers\<close>

text \<open>\<open>node_touch_content\<close> and \<open>node_touch_name\<close>; the three ctime triggers.\<close>

definition touch_modified :: "timestamp \<Rightarrow> node_id \<Rightarrow> tables \<Rightarrow> tables" where
  "touch_modified ts n t = t\<lparr>nodes := map (\<lambda>r. if nd_id r = n
     then r\<lparr>nd_modified := Some ts, nd_ctime := Some ts\<rparr> else r) (nodes t)\<rparr>"

definition touch_ctime :: "timestamp \<Rightarrow> node_id \<Rightarrow> tables \<Rightarrow> tables" where
  "touch_ctime ts n t = t\<lparr>nodes := map (\<lambda>r. if nd_id r = n
     then r\<lparr>nd_ctime := Some ts\<rparr> else r) (nodes t)\<rparr>"

section \<open>Constrained inserts\<close>

definition insert_node :: "node_row \<Rightarrow> tables \<Rightarrow> fs_error + tables" where
  "insert_node r t =
     (if node_at t (nd_id r) \<noteq> None
         \<or> (case nd_volume r of None \<Rightarrow> False | Some v \<Rightarrow> volume_at t v = None)
      then Inl IntegrityError
      else Inr (t\<lparr>nodes := nodes t @ [r]\<rparr>))"

definition insert_content :: "content_row \<Rightarrow> tables \<Rightarrow> fs_error + tables" where
  "insert_content r t =
     (if content_at t (ct_node r) \<noteq> None \<or> node_at t (ct_node r) = None
      then Inl IntegrityError
      else Inr (t\<lparr>contents := contents t @ [r]\<rparr>))"

text \<open>INSERT ... ON CONFLICT(chunk_hash) DO NOTHING\<close>

definition upsert_chunk_row :: "chunk_row \<Rightarrow> tables \<Rightarrow> tables" where
  "upsert_chunk_row r t =
     (if chunk_at t (ch_hash r) \<noteq> None then t else t\<lparr>chunks := chunks t @ [r]\<rparr>)"

definition version_key :: "version_row \<Rightarrow> node_id \<times> nat \<times> nat" where
  "version_key r = (cv_node r, cv_version r, cv_index r)"

definition insert_version :: "version_row \<Rightarrow> tables \<Rightarrow> fs_error + tables" where
  "insert_version r t =
     (if row_at version_key (version_key r) (versions t) \<noteq> None
         \<or> node_at t (cv_node r) = None \<or> chunk_at t (cv_hash r) = None
      then Inl IntegrityError
      else Inr (t\<lparr>versions := versions t @ [r]\<rparr>))"

fun insert_versions :: "version_row list \<Rightarrow> tables \<Rightarrow> fs_error + tables" where
  "insert_versions [] t = Inr t"
| "insert_versions (r # rs) t =
     (case insert_version r t of Inl e \<Rightarrow> Inl e | Inr t' \<Rightarrow> insert_versions rs t')"

text \<open>
  The guards of an edge insert: EDGE-4 (\<open>edge_guard_from_type\<close>), PI-1
  (\<open>edge_guard_single_parent\<close>), PI-6 (\<open>edge_guard_volume\<close>) and the foreign keys.
\<close>

definition has_active_parent :: "tables \<Rightarrow> node_id \<Rightarrow> bool" where
  "has_active_parent t n \<longleftrightarrow> (\<exists>e \<in> set (edges t). eg_to e = n \<and> \<not> eg_archived e)"

definition volume_agrees :: "node_row \<Rightarrow> volume_id \<Rightarrow> bool" where
  "volume_agrees r v \<longleftrightarrow> nd_volume r = None \<or> nd_volume r = Some v"

definition edge_guards :: "tables \<Rightarrow> edge_row \<Rightarrow> bool" where
  "edge_guards t r \<longleftrightarrow>
     (case (node_at t (eg_from r), node_at t (eg_to r)) of
        (Some f, Some c) \<Rightarrow>
          nd_type f = CONTAINER
          \<and> \<not> (\<not> eg_archived r \<and> nd_type c = CONTAINER \<and> has_active_parent t (eg_to r))
          \<and> volume_agrees f (eg_volume r) \<and> volume_agrees c (eg_volume r)
      | _ \<Rightarrow> False)
     \<and> volume_at t (eg_volume r) \<noteq> None"

definition insert_edge :: "timestamp \<Rightarrow> edge_row \<Rightarrow> tables \<Rightarrow> fs_error + tables" where
  "insert_edge ts r t =
     (if edge_at t (eg_id r) \<noteq> None \<or> \<not> edge_guards t r then Inl IntegrityError
      else (let t' = t\<lparr>edges := edges t @ [r]\<rparr>
            in Inr (if eg_archived r then t' else touch_ctime ts (eg_to r) t')))"

definition enc_modes :: "string list" where
  "enc_modes = [''none'', ''convergent'', ''random'']"

definition insert_volume :: "volume_row \<Rightarrow> tables \<Rightarrow> fs_error + tables" where
  "insert_volume r t =
     (if volume_at t (vl_id r) \<noteq> None \<or> vl_enc_mode r \<notin> set enc_modes then Inl IntegrityError
      else Inr (t\<lparr>volumes := volumes t @ [r]\<rparr>))"

definition insert_mount :: "mount_row \<Rightarrow> tables \<Rightarrow> fs_error + tables" where
  "insert_mount r t =
     (if mount_at t (mt_id r) \<noteq> None \<or> volume_at t (mt_volume r) = None
         \<or> node_at t (mt_point r) = None \<or> mt_access r \<notin> {''ro'', ''rw''}
      then Inl IntegrityError
      else Inr (t\<lparr>mounts := mounts t @ [r]\<rparr>))"

definition insert_lock :: "lock_row \<Rightarrow> tables \<Rightarrow> fs_error + tables" where
  "insert_lock r t =
     (if lock_at t (lk_id r) \<noteq> None \<or> mount_at t (lk_mount r) = None
         \<or> node_at t (lk_node r) = None
      then Inl IntegrityError
      else Inr (t\<lparr>locks := locks t @ [r]\<rparr>))"

section \<open>Views\<close>

definition active_edge :: "tables \<Rightarrow> edge_row list" where
  "active_edge t = filter (\<lambda>e. \<not> eg_archived e) (edges t)"

definition parents :: "tables \<Rightarrow> node_id \<Rightarrow> node_id list" where
  "parents t n = map eg_from (filter (\<lambda>e. eg_to e = n) (active_edge t))"

text \<open>\<open>node_ancestor\<close>: the ancestors of the nodes \<open>ns\<close>, level by level.\<close>

fun ancestors :: "tables \<Rightarrow> nat \<Rightarrow> node_id list \<Rightarrow> node_id list" where
  "ancestors t 0 ns = []"
| "ancestors t (Suc k) ns =
     (if ns = [] then [] else
      (let ps = concat (map (parents t) ns) in ps @ ancestors t k ps))"

definition depth_bound :: nat where
  "depth_bound = 256"

definition node_ancestor :: "tables \<Rightarrow> node_id \<Rightarrow> node_id list" where
  "node_ancestor t n = ancestors t depth_bound [n]"

record subtree_row =
  st_node :: node_id
  st_parent :: "node_id option"
  st_edge :: "edge_id option"
  st_depth :: nat

definition child_rows :: "tables \<Rightarrow> subtree_row \<Rightarrow> subtree_row list" where
  "child_rows t w =
     map (\<lambda>e. \<lparr>st_node = eg_to e, st_parent = Some (eg_from e), st_edge = Some (eg_id e),
                st_depth = Suc (st_depth w)\<rparr>)
       (filter (\<lambda>e. eg_from e = st_node w) (active_edge t))"

fun subtree_levels :: "tables \<Rightarrow> nat \<Rightarrow> subtree_row list \<Rightarrow> subtree_row list" where
  "subtree_levels t 0 ws = ws"
| "subtree_levels t (Suc k) ws =
     (if ws = [] then [] else ws @ subtree_levels t k (concat (map (child_rows t) ws)))"

definition subtree :: "tables \<Rightarrow> node_id \<Rightarrow> subtree_row list" where
  "subtree t root =
     (if node_at t root = None then []
      else subtree_levels t depth_bound
             [\<lparr>st_node = root, st_parent = None, st_edge = None, st_depth = 0\<rparr>])"

record listing_row =
  ls_node :: node_id
  ls_name :: string
  ls_type :: node_type
  ls_edge :: edge_id
  ls_visible :: bool

text \<open>
  \<open>directory_listing\<close>, restricted to one container: the window maximum of the node ids
  over the placements of the same name decides visibility.
\<close>

definition joined_children :: "tables \<Rightarrow> node_id \<Rightarrow> (edge_row \<times> node_row) list" where
  "joined_children t c =
     concat (map (\<lambda>e. case node_at t (eg_to e) of None \<Rightarrow> [] | Some r \<Rightarrow> [(e, r)])
       (filter (\<lambda>e. eg_from e = c) (active_edge t)))"

definition max_id :: "string list \<Rightarrow> string option" where
  "max_id xs = (case xs of [] \<Rightarrow> None | x # r \<Rightarrow> Some (fold max r x))"

definition directory_listing :: "tables \<Rightarrow> node_id \<Rightarrow> listing_row list" where
  "directory_listing t c =
     sort_key (\<lambda>r. (ls_edge r, ls_node r))
       (map (\<lambda>(e, r). \<lparr>ls_node = nd_id r, ls_name = eg_name e, ls_type = nd_type r,
               ls_edge = eg_id e,
               ls_visible = (Some (nd_id r) = max_id (map (nd_id \<circ> snd)
                  (filter (\<lambda>(e', _). eg_name e' = eg_name e) (joined_children t c))))\<rparr>)
         (joined_children t c))"

definition volatile_node :: "tables \<Rightarrow> node_id \<Rightarrow> bool" where
  "volatile_node t n \<longleftrightarrow>
     (\<forall>e \<in> set (edges t). eg_to e \<noteq> n) \<and> (\<forall>v \<in> set (volumes t). vl_root v \<noteq> Some n)"

definition mount_live :: "timestamp \<Rightarrow> mount_row \<Rightarrow> bool" where
  "mount_live ts m \<longleftrightarrow>
     mt_state m \<noteq> UNMOUNTED \<and> (case mt_expires m of None \<Rightarrow> True | Some x \<Rightarrow> x > ts)"

definition valid_mount :: "timestamp \<Rightarrow> tables \<Rightarrow> mount_row list" where
  "valid_mount ts t = filter (mount_live ts) (mounts t)"

definition lock_live :: "timestamp \<Rightarrow> tables \<Rightarrow> lock_row \<Rightarrow> bool" where
  "lock_live ts t l \<longleftrightarrow>
     (case mount_at t (lk_mount l) of None \<Rightarrow> False | Some m \<Rightarrow> mount_live ts m)
     \<and> (case lk_expires l of None \<Rightarrow> True | Some x \<Rightarrow> x > ts)"

definition valid_lock :: "timestamp \<Rightarrow> tables \<Rightarrow> lock_row list" where
  "valid_lock ts t = filter (lock_live ts t) (locks t)"

text \<open>\<open>retained_version\<close>: does version \<open>v\<close> of \<open>n\<close> survive a content prune?\<close>

definition version_numbers :: "tables \<Rightarrow> node_id \<Rightarrow> nat list" where
  "version_numbers t n = remdups (map cv_version (filter (\<lambda>r. cv_node r = n) (versions t)))"

definition superseded_rank :: "tables \<Rightarrow> node_id \<Rightarrow> nat \<Rightarrow> nat \<Rightarrow> nat" where
  "superseded_rank t n committed v =
     length (filter (\<lambda>w. v \<le> w \<and> w < committed) (version_numbers t n))"

definition retained_version :: "tables \<Rightarrow> node_id \<Rightarrow> nat \<Rightarrow> bool" where
  "retained_version t n v \<longleftrightarrow>
     (case content_at t n of
        None \<Rightarrow> False
      | Some c \<Rightarrow> v \<in> set (version_numbers t n)
          \<and> (v = ct_version c
             \<or> v < ct_version c
               \<and> (case ct_keep c of None \<Rightarrow> True
                  | Some k \<Rightarrow> int (superseded_rank t n (ct_version c) v) \<le> max (k - 1) 0)))"

end
