(* ===== verification/Engine.thy ===== *)
theory Engine
  imports Schema "HOL-Library.AList"
begin

text \<open>
  The substrate of the function layer (\<open>aloelite/db.py\<close>): one connection, the SQL
  templates it runs, host-minted ids with the volume's high-water mark, the transaction
  boundary, and the content-chunk primitives.

  \<open>db\<close> is the state of one \<open>Db\<close>: the file's tables, the two clocks it reads (the host's
  \<open>time_ns\<close> and SQLite's \<open>unixepoch('subsec')\<close>; an operation runs at one reading of
  each, and between operations both may change arbitrarily), the random stream with the
  number of draws taken, the mints, the pending high-water marks, whether a transaction is
  open, the installed cipher and the session. An operation is a function of type
  \<open>'a op\<close>: it returns an exception or a value, and the new state either way, so that what
  survives an exception (a mint, a draw) is explicit. \<open>bind_op\<close> is Python's sequencing.
\<close>

section \<open>State and operations\<close>

record session =
  ss_mount :: mount_id
  ss_token :: bytes
  ss_nonce :: bytes
  ss_secret :: bytes
  ss_sess_nonce :: bytes
  ss_enc_mode :: string
  ss_volume :: volume_id

record db =
  tabs :: tables
  now :: timestamp
  sql_now :: timestamp
  entropy :: "nat \<Rightarrow> int"
  draws :: nat
  mints :: "volume_id \<rightharpoonup> stamp"
  pending_wm :: "(volume_id \<times> stamp) list"
  in_txn :: bool
  cipher_of :: cipher
  session_of :: "session option"

type_synonym 'a op = "db \<Rightarrow> (fs_error + 'a) \<times> db"

definition ret :: "'a \<Rightarrow> 'a op" where
  "ret x s = (Inr x, s)"

definition fail :: "fs_error \<Rightarrow> 'a op" where
  "fail e s = (Inl e, s)"

definition bind_op :: "'a op \<Rightarrow> ('a \<Rightarrow> 'b op) \<Rightarrow> 'b op" where
  "bind_op m f s = (case m s of (Inl e, s') \<Rightarrow> (Inl e, s') | (Inr x, s') \<Rightarrow> f x s')"

definition guard_op :: "bool \<Rightarrow> fs_error \<Rightarrow> unit op" where
  "guard_op b e = (if b then ret () else fail e)"

definition gets :: "(db \<Rightarrow> 'a) \<Rightarrow> 'a op" where
  "gets f s = (Inr (f s), s)"

definition get_sum :: "(db \<Rightarrow> fs_error + 'a) \<Rightarrow> 'a op" where
  "get_sum f s = (f s, s)"

definition get_opt :: "fs_error \<Rightarrow> (db \<Rightarrow> 'a option) \<Rightarrow> 'a op" where
  "get_opt e f s = (case f s of None \<Rightarrow> (Inl e, s) | Some x \<Rightarrow> (Inr x, s))"

text \<open>A statement that can violate a constraint, and one that cannot.\<close>

definition sql :: "(tables \<Rightarrow> fs_error + tables) \<Rightarrow> unit op" where
  "sql f s = (case f (tabs s) of Inl e \<Rightarrow> (Inl e, s) | Inr t \<Rightarrow> (Inr (), s\<lparr>tabs := t\<rparr>))"

definition sql_update :: "(tables \<Rightarrow> tables) \<Rightarrow> unit op" where
  "sql_update f s = (Inr (), s\<lparr>tabs := f (tabs s)\<rparr>)"

fun each_op :: "('a \<Rightarrow> unit op) \<Rightarrow> 'a list \<Rightarrow> unit op" where
  "each_op f [] = ret ()"
| "each_op f (x # xs) = bind_op (f x) (\<lambda>_. each_op f xs)"

lemma bind_op_Inr [op_simps]: "m s = (Inr x, s') \<Longrightarrow> bind_op m f s = f x s'"
  by (simp add: bind_op_def)

lemma bind_op_Inl [op_simps]: "m s = (Inl e, s') \<Longrightarrow> bind_op m f s = (Inl e, s')"
  by (simp add: bind_op_def)

lemma bind_op_eq_Inr:
  "bind_op m f s = (Inr y, s'') \<longleftrightarrow> (\<exists>x s'. m s = (Inr x, s') \<and> f x s' = (Inr y, s''))"
  by (auto simp: bind_op_def split: prod.splits sum.splits)

lemma bind_op_eq_Inl:
  "bind_op m f s = (Inl e, s'') \<longleftrightarrow>
     m s = (Inl e, s'') \<or> (\<exists>x s'. m s = (Inr x, s') \<and> f x s' = (Inl e, s''))"
  by (auto simp: bind_op_def split: prod.splits sum.splits)

lemma bind_assoc: "bind_op (bind_op m f) g = bind_op m (\<lambda>x. bind_op (f x) g)"
  by (rule ext) (auto simp: bind_op_def split: prod.splits sum.splits)

lemma basic_ops [op_simps]:
  "ret x s = (Inr x, s)"
  "fail e s = (Inl e, s)"
  "guard_op True e = ret ()"
  "guard_op False e = fail e"
  "gets g s = (Inr (g s), s)"
  "get_sum h s = (h s, s)"
  "sql_update u s = (Inr (), s\<lparr>tabs := u (tabs s)\<rparr>)"
  by (simp_all add: ret_def fail_def guard_op_def gets_def get_sum_def sql_update_def)

lemma basic_ops_eq:
  "ret x s = (r1, s') \<longleftrightarrow> r1 = Inr x \<and> s' = s"
  "fail e s = (r2, s') \<longleftrightarrow> r2 = Inl e \<and> s' = s"
  "guard_op b e s = (r3, s') \<longleftrightarrow> s' = s \<and> r3 = (if b then Inr () else Inl e)"
  "gets g s = (r4, s') \<longleftrightarrow> r4 = Inr (g s) \<and> s' = s"
  "get_sum h s = (r5, s') \<longleftrightarrow> r5 = h s \<and> s' = s"
  "get_opt e k s = (r6, s') \<longleftrightarrow> s' = s \<and> r6 = (case k s of None \<Rightarrow> Inl e | Some y \<Rightarrow> Inr y)"
  "sql_update u s = (r7, s') \<longleftrightarrow> r7 = Inr () \<and> s' = s\<lparr>tabs := u (tabs s)\<rparr>"
  by (auto simp: ret_def fail_def guard_op_def gets_def get_sum_def get_opt_def sql_update_def
      split: option.splits)

lemma sql_eq:
  "sql f s = (Inr x, s') \<longleftrightarrow> (\<exists>t. f (tabs s) = Inr t \<and> s' = s\<lparr>tabs := t\<rparr>)"
  "sql f s = (Inl e, s') \<longleftrightarrow> f (tabs s) = Inl e \<and> s' = s"
  by (auto simp: sql_def split: sum.splits)

lemmas op_elims = bind_op_eq_Inr basic_ops_eq sql_eq

section \<open>Invariants of operations\<close>

definition preserves :: "(db \<Rightarrow> bool) \<Rightarrow> 'a op \<Rightarrow> bool" where
  "preserves P m \<longleftrightarrow> (\<forall>s. P s \<longrightarrow> P (snd (m s)))"

named_theorems preserving \<open>operations that preserve an invariant\<close>

lemma preserves_bind [preserving]:
  "preserves P m \<Longrightarrow> (\<And>x. preserves P (f x)) \<Longrightarrow> preserves P (bind_op m f)"
  by (fastforce simp: preserves_def bind_op_def split: prod.splits sum.splits)

lemma preserves_read [preserving]:
  "preserves P (ret x)" "preserves P (fail e)" "preserves P (guard_op b e)"
  "preserves P (gets g)" "preserves P (get_sum h)" "preserves P (get_opt e k)"
  by (auto simp: preserves_def op_simps guard_op_def get_opt_def split: option.splits)

lemma preserves_each [preserving]:
  "(\<And>x. preserves P (f x)) \<Longrightarrow> preserves P (each_op f xs)"
  by (induction xs) (auto intro: preserving)

lemma preserves_if [preserving]:
  "preserves P m \<Longrightarrow> preserves P m' \<Longrightarrow> preserves P (if b then m else m')"
  by simp

section \<open>Transactions and the high-water mark\<close>

definition raise_wm :: "volume_id \<Rightarrow> stamp \<Rightarrow> tables \<Rightarrow> tables" where
  "raise_wm v st t = t\<lparr>volumes := map (\<lambda>r. if vl_id r = v \<and> vl_wm r < st
     then r\<lparr>vl_wm := st\<rparr> else r) (volumes t)\<rparr>"

definition flush_watermarks :: "db \<Rightarrow> db" where
  "flush_watermarks s =
     s\<lparr>tabs := fold (\<lambda>(v, st). raise_wm v st) (pending_wm s) (tabs s), pending_wm := []\<rparr>"

definition txn :: "'a op \<Rightarrow> 'a op" where
  "txn m s =
     (if in_txn s then (Inl OperationalError, s)
      else case m (s\<lparr>in_txn := True\<rparr>) of
        (Inl e, s') \<Rightarrow> (Inl e, s'\<lparr>tabs := tabs s, pending_wm := [], in_txn := False\<rparr>)
      | (Inr x, s') \<Rightarrow> (Inr x, (flush_watermarks s')\<lparr>in_txn := False\<rparr>))"

definition draw :: "nat \<Rightarrow> unit op" where
  "draw k s = (Inr (), s\<lparr>draws := draws s + k\<rparr>)"

definition now_ms :: "db \<Rightarrow> int" where
  "now_ms s = now s div 1000000"

definition gen_id :: "string op" where
  "gen_id s = (stateless_uuid7 (entropy s) (draws s) (now_ms s), s\<lparr>draws := draws s + 4\<rparr>)"

definition mint_for :: "volume_id \<Rightarrow> db \<Rightarrow> stamp" where
  "mint_for v s =
     (case mints s v of
        Some m \<Rightarrow> m
      | None \<Rightarrow> (case volume_at (tabs s) v of
                  None \<Rightarrow> new_mint
                | Some r \<Rightarrow> fence (st_ts (vl_wm r)) (st_seq (vl_wm r)) new_mint))"

definition mint_id :: "volume_id \<Rightarrow> string op" where
  "mint_id v s =
     (let (r, m') = mint (entropy s) (draws s) (now_ms s) (mint_for v s)
      in (case r of
            Inl e \<Rightarrow> (Inl e, s\<lparr>mints := (mints s)(v \<mapsto> m')\<rparr>)
          | Inr i \<Rightarrow> (Inr i, s\<lparr>mints := (mints s)(v \<mapsto> m'), draws := draws s + 3,
                            pending_wm := AList.update v m' (pending_wm s)\<rparr>)))"

definition flush_if_idle :: "unit op" where
  "flush_if_idle s = (Inr (), if in_txn s then s else flush_watermarks s)"

definition create_monotonic ::
  "(string \<Rightarrow> tables \<Rightarrow> fs_error + tables) \<Rightarrow> volume_id option \<Rightarrow> string op" where
  "create_monotonic ins volume =
     bind_op (case volume of None \<Rightarrow> gen_id | Some v \<Rightarrow> mint_id v) (\<lambda>new_id.
     bind_op (sql (ins new_id)) (\<lambda>_.
     bind_op flush_if_idle (\<lambda>_.
     ret new_id)))"

section \<open>Content templates\<close>

definition next_version :: "tables \<Rightarrow> node_id \<Rightarrow> nat" where
  "next_version t n =
     max (case content_at t n of None \<Rightarrow> 0 | Some c \<Rightarrow> ct_version c)
         (fold max (version_numbers t n) 0) + 1"

definition update_content :: "timestamp \<Rightarrow> node_id \<Rightarrow> nat \<Rightarrow> nat \<Rightarrow> tables \<Rightarrow> tables" where
  "update_content ts n v sz t =
     (if content_at t n = None then t
      else touch_modified ts n (t\<lparr>contents := map (\<lambda>r. if ct_node r = n
             then r\<lparr>ct_version := v, ct_size := sz\<rparr> else r) (contents t)\<rparr>))"

definition copy_chunk_refs ::
  "node_id \<Rightarrow> nat \<Rightarrow> node_id \<Rightarrow> nat \<Rightarrow> tables \<Rightarrow> fs_error + tables" where
  "copy_chunk_refs dst dst_version src src_version t =
     insert_versions
       (map (\<lambda>r. r\<lparr>cv_node := dst, cv_version := dst_version\<rparr>)
         (filter (\<lambda>r. cv_node r = src \<and> cv_version r = src_version) (versions t))) t"

definition copy_chunk_refs_range ::
  "node_id \<Rightarrow> nat \<Rightarrow> nat \<Rightarrow> nat \<Rightarrow> nat \<Rightarrow> tables \<Rightarrow> fs_error + tables" where
  "copy_chunk_refs_range n dst_version src_version lo hi t =
     insert_versions
       (map (\<lambda>r. r\<lparr>cv_version := dst_version\<rparr>)
         (filter (\<lambda>r. cv_node r = n \<and> cv_version r = src_version
             \<and> lo \<le> cv_index r \<and> cv_index r \<le> hi) (versions t))) t"

definition version_rows :: "tables \<Rightarrow> node_id \<Rightarrow> nat \<Rightarrow> version_row list" where
  "version_rows t n v =
     sort_key cv_index (filter (\<lambda>r. cv_node r = n \<and> cv_version r = v) (versions t))"

definition join_chunks :: "tables \<Rightarrow> version_row list \<Rightarrow> (nat \<times> chunk_row) list" where
  "join_chunks t rs =
     concat (map (\<lambda>r. case chunk_at t (cv_hash r) of
         None \<Rightarrow> [] | Some c \<Rightarrow> [(cv_index r, c)]) rs)"

definition read_chunks_range ::
  "tables \<Rightarrow> node_id \<Rightarrow> nat \<Rightarrow> nat \<Rightarrow> nat \<Rightarrow> (nat \<times> chunk_row) list" where
  "read_chunks_range t n v lo hi =
     join_chunks t (filter (\<lambda>r. lo \<le> cv_index r \<and> cv_index r \<le> hi) (version_rows t n v))"

section \<open>Chunking\<close>

definition hexdigest :: "bytes \<Rightarrow> string" where
  "hexdigest bs = concat (map (\<lambda>b. hex_fixed 2 (uint b)) bs)"

lemma hex_fixed_two_inj:
  assumes "hex_fixed 2 (uint (a :: byte)) = hex_fixed 2 (uint b)"
  shows "a = b"
proof (rule ccontr)
  assume "a \<noteq> b"
  then have "uint a < uint b \<or> uint b < uint a" by (metis linorder_less_linear word_uint_eqI)
  moreover have "uint x < 16 ^ 2" for x :: byte using uint_lt2p [of x] by simp
  ultimately show False
    using hex_fixed_less [of "uint a" "uint b" 2] hex_fixed_less [of "uint b" "uint a" 2] assms by auto
qed

lemma hexdigest_inj: "hexdigest xs = hexdigest ys \<Longrightarrow> xs = ys"
proof (induction xs arbitrary: ys)
  case Nil
  then show ?case by (cases ys) (auto simp: hexdigest_def numeral_2_eq_2)
next
  case (Cons x xs)
  from Cons.prems obtain y zs where ys: "ys = y # zs"
    by (cases ys) (auto simp: hexdigest_def numeral_2_eq_2)
  with Cons.prems have "hex_fixed 2 (uint x) = hex_fixed 2 (uint y) \<and> hexdigest xs = hexdigest zs"
    by (auto simp: hexdigest_def)
  with Cons.IH hex_fixed_two_inj ys show ?case by auto
qed

definition chunk_hash :: "crypto_lib \<Rightarrow> bytes \<Rightarrow> string" where
  "chunk_hash L data = hexdigest (sha256 L (be_bytes 8 (length data) @ data))"

function split_chunks :: "nat \<Rightarrow> 'a list \<Rightarrow> 'a list list" where
  "split_chunks cs data =
     (if data = [] \<or> cs = 0 then [] else take cs data # split_chunks cs (drop cs data))"
  by pat_completeness auto
termination
  by (relation "measure (\<lambda>(cs, data). length data)") auto

declare split_chunks.simps [simp del]

text \<open>\<open>range(0, len, 0)\<close> raises.\<close>

definition split_op :: "nat \<Rightarrow> bytes \<Rightarrow> bytes list op" where
  "split_op cs data = (if data \<noteq> [] \<and> cs = 0 then fail ValueError else ret (split_chunks cs data))"

definition chunk_size_of :: "volume_id \<Rightarrow> nat op" where
  "chunk_size_of v = get_opt TypeError (\<lambda>s. map_option vl_chunk_size (volume_at (tabs s) v))"

definition alloc_version :: "node_id \<Rightarrow> nat op" where
  "alloc_version n = gets (\<lambda>s. next_version (tabs s) n)"

definition encrypt_op :: "crypto_lib \<Rightarrow> bytes \<Rightarrow> (bytes \<times> bytes \<times> bytes) op" where
  "encrypt_op L p s =
     (Inr (encrypt_chunk L (entropy s) (draws s) (cipher_of s) p),
      s\<lparr>draws := draws s + nonce_draws (cipher_of s)\<rparr>)"

definition stage_chunk :: "crypto_lib \<Rightarrow> node_id \<Rightarrow> nat \<Rightarrow> nat \<Rightarrow> bytes \<Rightarrow> unit op" where
  "stage_chunk L n version index data =
     bind_op (encrypt_op L data) (\<lambda>(ct, n_c, tag).
     let ch = chunk_hash L ct in
     bind_op (sql_update (upsert_chunk_row
        \<lparr>ch_hash = ch, ch_data = ct, ch_length = length data, ch_nonce = n_c, ch_tag = tag\<rparr>)) (\<lambda>_.
     sql (insert_version \<lparr>cv_node = n, cv_version = version, cv_index = index, cv_hash = ch\<rparr>)))"

fun stage_list :: "crypto_lib \<Rightarrow> node_id \<Rightarrow> nat \<Rightarrow> nat \<Rightarrow> bytes list \<Rightarrow> unit op" where
  "stage_list L n version index [] = ret ()"
| "stage_list L n version index (p # ps) =
     bind_op (stage_chunk L n version index p) (\<lambda>_. stage_list L n version (Suc index) ps)"

definition stage_chunks :: "crypto_lib \<Rightarrow> node_id \<Rightarrow> nat \<Rightarrow> volume_id \<Rightarrow> bytes \<Rightarrow> nat op" where
  "stage_chunks L n version volume data =
     bind_op (if data = [] then ret [] else bind_op (chunk_size_of volume) (\<lambda>cs. split_op cs data)) (\<lambda>ps.
     bind_op (stage_list L n version 0 ps) (\<lambda>_.
     ret (length data)))"

definition read_content_meta :: "tables \<Rightarrow> node_id \<Rightarrow> (nat \<times> nat) option" where
  "read_content_meta t n = map_option (\<lambda>c. (ct_version c, ct_size c)) (content_at t n)"

fun decrypt_rows ::
  "crypto_lib \<Rightarrow> cipher \<Rightarrow> (nat \<times> chunk_row) list \<Rightarrow> fs_error + (nat \<times> bytes) list" where
  "decrypt_rows L c [] = Inr []"
| "decrypt_rows L c ((i, ch) # rows) =
     (case decrypt_chunk L c (ch_data ch) (ch_nonce ch) (ch_tag ch) of
        None \<Rightarrow> Inl InvalidTag
      | Some p \<Rightarrow> (case decrypt_rows L c rows of Inl e \<Rightarrow> Inl e | Inr ps \<Rightarrow> Inr ((i, p) # ps)))"

definition read_chunk_range ::
  "crypto_lib \<Rightarrow> node_id \<Rightarrow> nat \<Rightarrow> nat \<Rightarrow> nat \<Rightarrow> db \<Rightarrow> fs_error + (nat \<times> bytes) list" where
  "read_chunk_range L n v lo hi s =
     decrypt_rows L (cipher_of s) (read_chunks_range (tabs s) n v lo hi)"

definition read_content_bytes :: "crypto_lib \<Rightarrow> node_id \<Rightarrow> db \<Rightarrow> fs_error + bytes" where
  "read_content_bytes L n s =
     (case content_at (tabs s) n of
        None \<Rightarrow> Inr []
      | Some c \<Rightarrow>
          (case decrypt_rows L (cipher_of s)
                  (join_chunks (tabs s) (version_rows (tabs s) n (ct_version c))) of
             Inl e \<Rightarrow> Inl e
           | Inr ps \<Rightarrow> Inr (concat (map snd ps))))"

end
