(* ===== verification/Resolve.thy ===== *)
theory Resolve
  imports Engine
begin

text \<open>
  Path resolution (\<open>aloelite/resolve.py\<close> over the templates \<open>resolve_segment\<close> and
  \<open>resolve_path\<close>): the walk of a whole path in one recursive query, and the parent of a
  path.

  \<open>walk_rows\<close> is the recursive common table expression, row by row, on the string
  \<open>a/b/c/\<close> it consumes; \<open>walk\<close> reads its last row as \<open>_walk\<close> does. \<open>fold_segments\<close> is
  the per-segment fold that the one query replaced. The lemmas: both agree on every result
  and every error; a resolved node is below the mount point along active placements, so no
  path leaves the subtree of a mount; and what resolution finds is what a listing shows as
  visible.
\<close>

section \<open>Splitting a path\<close>

definition split_path :: "string \<Rightarrow> string list" where
  "split_path path = filter (\<lambda>s. s \<noteq> []) (split_on CHR ''/'' path)"

definition join_path :: "string list \<Rightarrow> string" where
  "join_path segs = join_with CHR ''/'' segs"

definition segment_ok :: "string \<Rightarrow> bool" where
  "segment_ok s \<longleftrightarrow> s \<noteq> [] \<and> CHR ''/'' \<notin> set s"

lemma split_path_ok: "s \<in> set (split_path p) \<Longrightarrow> segment_ok s"
  by (auto simp: split_path_def segment_ok_def dest: split_on_no_sep)

lemma split_join_path: "\<forall>s \<in> set ss. segment_ok s \<Longrightarrow> split_path (join_path ss) = ss"
  by (cases "ss = []")
    (auto simp: split_path_def join_path_def split_on_join segment_ok_def filter_id_conv)

lemma split_path_append:
  "split_path (p @ CHR ''/'' # q) = split_path p @ split_path q"
  by (simp add: split_path_def split_on_append)

lemma split_path_slash [simp]: "split_path (CHR ''/'' # q) = split_path q"
  by (simp add: split_path_def)

lemma split_path_Nil [simp]: "split_path [] = []"
  by (simp add: split_path_def)

lemma split_path_segment: "segment_ok s \<Longrightarrow> split_path s = [s]"
  by (simp add: split_path_def segment_ok_def split_on_id)

section \<open>The templates\<close>

definition named_children :: "tables \<Rightarrow> node_id \<Rightarrow> string \<Rightarrow> node_row list" where
  "named_children t c nm =
     map snd (filter (\<lambda>(e, r). eg_name e = nm) (joined_children t c))"

text \<open>\<open>resolve_segment\<close>: ORDER BY node_id DESC LIMIT 1\<close>

definition resolve_segment :: "tables \<Rightarrow> node_id \<Rightarrow> string \<Rightarrow> (node_id \<times> node_type) option" where
  "resolve_segment t c nm =
     (case rev (sort_key nd_id (named_children t c nm)) of
        [] \<Rightarrow> None | r # _ \<Rightarrow> Some (nd_id r, nd_type r))"

record walk_row =
  wk_idx :: nat
  wk_seg :: string
  wk_parent :: node_id
  wk_hit :: "(node_id \<times> node_type) option"

text \<open>The subquery: the greatest node id, joined back to its row.\<close>

definition best_child :: "tables \<Rightarrow> node_id \<Rightarrow> string \<Rightarrow> (node_id \<times> node_type) option" where
  "best_child t c nm =
     (case max_id (map nd_id (named_children t c nm)) of
        None \<Rightarrow> None
      | Some n \<Rightarrow> map_option (\<lambda>r. (nd_id r, nd_type r)) (node_at t n))"

function walk_rows ::
  "tables \<Rightarrow> nat \<Rightarrow> node_id \<Rightarrow> node_type \<Rightarrow> string \<Rightarrow> walk_row list" where
  "walk_rows t idx n ty rest =
     (if rest = [] \<or> ty \<noteq> CONTAINER then []
      else (let seg = takeWhile (\<lambda>c. c \<noteq> CHR ''/'') rest;
                rest' = drop (Suc (length seg)) rest;
                hit = best_child t n seg
            in \<lparr>wk_idx = Suc idx, wk_seg = seg, wk_parent = n, wk_hit = hit\<rparr> #
               (case hit of None \<Rightarrow> []
                | Some (n', ty') \<Rightarrow> walk_rows t (Suc idx) n' ty' rest')))"
  by pat_completeness auto
termination
  by (relation "measure (\<lambda>(t, idx, n, ty, rest). length rest)") (auto simp: length_greater_0_conv)

declare walk_rows.simps [simp del]

lemma walk_rows_done [simp]: "walk_rows t idx n ty [] = []"
  by (subst walk_rows.simps) simp

section \<open>Resolution\<close>

record resolved =
  rs_node :: node_id
  rs_type :: node_type

definition walk :: "tables \<Rightarrow> node_id \<Rightarrow> string list \<Rightarrow> fs_error + resolved" where
  "walk t root segments =
     (let rows = walk_rows t 0 root CONTAINER (join_path segments @ ''/'');
          final = last rows
      in (case wk_hit final of
            None \<Rightarrow> Inl NotFound
          | Some (n, ty) \<Rightarrow>
              if wk_idx final < length segments then Inl NotAContainer
              else Inr \<lparr>rs_node = n, rs_type = ty\<rparr>))"

definition resolve :: "tables \<Rightarrow> node_id \<Rightarrow> string \<Rightarrow> fs_error + resolved" where
  "resolve t mount_point path =
     (let segments = split_path path
      in if segments = []
         then (case node_at t mount_point of
                 None \<Rightarrow> Inl NotFound
               | Some r \<Rightarrow> Inr \<lparr>rs_node = mount_point, rs_type = nd_type r\<rparr>)
         else walk t mount_point segments)"

definition resolve_parent :: "tables \<Rightarrow> node_id \<Rightarrow> string \<Rightarrow> fs_error + (node_id \<times> string)" where
  "resolve_parent t mount_point path =
     (let segments = split_path path
      in if segments = [] then Inl NotFound
         else (let head = butlast segments; final = last segments
               in if head = [] then Inr (mount_point, final)
                  else (case walk t mount_point head of
                          Inl e \<Rightarrow> Inl e
                        | Inr found \<Rightarrow>
                            if rs_type found \<noteq> CONTAINER then Inl NotAContainer
                            else Inr (rs_node found, final))))"

text \<open>The per-segment fold that \<open>resolve_path\<close> replaced.\<close>

fun fold_segments ::
  "tables \<Rightarrow> node_id \<Rightarrow> node_type \<Rightarrow> string list \<Rightarrow> fs_error + resolved" where
  "fold_segments t n ty [] = Inr \<lparr>rs_node = n, rs_type = ty\<rparr>"
| "fold_segments t n ty (s # ss) =
     (if ty \<noteq> CONTAINER then Inl NotAContainer
      else (case resolve_segment t n s of
              None \<Rightarrow> Inl NotFound
            | Some (n', ty') \<Rightarrow> fold_segments t n' ty' ss))"

section \<open>The greatest id wins\<close>

lemma max_id_eq: "max_id xs = (if xs = [] then None else Some (Max (set xs)))"
  by (cases xs) (simp_all add: max_id_def Max.set_eq_fold [symmetric] del: Max.set_eq_fold)

lemma last_sort_key:
  "xs \<noteq> [] \<Longrightarrow> last (sort_key f xs) \<in> set xs \<and> f (last (sort_key f xs)) = Max (f ` set xs)"
proof -
  assume ne: "xs \<noteq> []"
  let ?ys = "sort_key f xs"
  have ne': "?ys \<noteq> []" using ne by (metis length_0_conv length_sort)
  then have mem: "last ?ys \<in> set xs" by (metis last_in_set set_sort)
  moreover have "f x \<le> f (last ?ys)" if "x \<in> set xs" for x
  proof -
    from that obtain i where i: "i < length ?ys" "?ys ! i = x"
      by (metis in_set_conv_nth set_sort)
    have "map f ?ys ! i \<le> map f ?ys ! (length ?ys - 1)"
      using i ne' by (intro sorted_nth_mono) auto
    then show ?thesis using i ne' by (simp add: last_conv_nth)
  qed
  ultimately show ?thesis by (auto intro!: Max_eqI [symmetric])
qed

lemma joined_childrenD:
  "(e, r) \<in> set (joined_children t c) \<Longrightarrow>
     e \<in> set (active_edge t) \<and> eg_from e = c \<and> node_at t (eg_to e) = Some r \<and> nd_id r = eg_to e"
  by (auto simp: joined_children_def split: option.splits dest!: sym [of "Some _"] dest: row_at_SomeD)

lemma joined_childrenI:
  "e \<in> set (active_edge t) \<Longrightarrow> eg_from e = c \<Longrightarrow> node_at t (eg_to e) = Some r \<Longrightarrow>
     (e, r) \<in> set (joined_children t c)"
  by (force simp: joined_children_def)

lemma named_childrenD:
  "r \<in> set (named_children t c nm) \<Longrightarrow>
     \<exists>e \<in> set (active_edge t). eg_from e = c \<and> eg_to e = nd_id r \<and> eg_name e = nm
        \<and> node_at t (nd_id r) = Some r"
  by (auto simp: named_children_def dest!: joined_childrenD)

lemma named_children_iff:
  "r \<in> set (named_children t c nm) \<longleftrightarrow>
     (\<exists>e \<in> set (active_edge t). eg_from e = c \<and> eg_to e = nd_id r \<and> eg_name e = nm)
        \<and> node_at t (nd_id r) = Some r"
  by (auto simp: named_children_def image_iff dest!: joined_childrenD)
    (metis (mono_tags) case_prodI joined_childrenI snd_conv)

lemma best_child_eq_resolve_segment: "best_child t c nm = resolve_segment t c nm"
proof (cases "named_children t c nm = []")
  case True
  then show ?thesis by (simp add: best_child_def resolve_segment_def max_id_def)
next
  case False
  let ?rs = "named_children t c nm"
  have l: "last (sort_key nd_id ?rs) \<in> set ?rs"
    "nd_id (last (sort_key nd_id ?rs)) = Max (nd_id ` set ?rs)"
    using last_sort_key [OF False, of nd_id] by auto
  then have "node_at t (Max (nd_id ` set ?rs)) = Some (last (sort_key nd_id ?rs))"
    by (metis named_childrenD)
  moreover have "sort_key nd_id ?rs \<noteq> []" using False by (metis length_0_conv length_sort)
  then obtain ys y where "sort_key nd_id ?rs = ys @ [y]" by (metis rev_exhaust)
  ultimately show ?thesis using False l
    by (simp add: best_child_def resolve_segment_def max_id_eq)
qed

lemma resolve_segment_Some_iff:
  "resolve_segment t c nm = Some (n, ty) \<longleftrightarrow>
     (\<exists>r \<in> set (named_children t c nm). nd_id r = n \<and> nd_type r = ty
        \<and> (\<forall>q \<in> set (named_children t c nm). nd_id q \<le> n))" (is "_ = ?rhs")
proof (cases "named_children t c nm = []")
  case False
  let ?rs = "named_children t c nm"
  have eq: "resolve_segment t c nm = map_option (\<lambda>r. (nd_id r, nd_type r)) (node_at t (Max (nd_id ` set ?rs)))"
    using False by (simp add: best_child_eq_resolve_segment [symmetric] best_child_def max_id_eq)
  show ?thesis
  proof
    assume "resolve_segment t c nm = Some (n, ty)"
    then obtain r where r: "node_at t (Max (nd_id ` set ?rs)) = Some r" "nd_id r = n" "nd_type r = ty"
      by (auto simp: eq)
    have "Max (nd_id ` set ?rs) \<in> nd_id ` set ?rs" using False by (intro Max_in) auto
    then obtain q where q: "q \<in> set ?rs" "nd_id q = Max (nd_id ` set ?rs)" by auto
    then have "node_at t (nd_id q) = Some q" by (auto dest: named_childrenD)
    with q r have "q = r" by simp
    with q r show ?rhs by (metis False List.finite_set Max_ge finite_imageI image_eqI)
  next
    assume ?rhs
    then obtain r where r: "r \<in> set ?rs" "nd_id r = n" "nd_type r = ty" "\<forall>q \<in> set ?rs. nd_id q \<le> n"
      by blast
    then have "Max (nd_id ` set ?rs) = n" by (auto intro!: Max_eqI)
    moreover have "node_at t n = Some r" using r by (auto dest: named_childrenD)
    ultimately show "resolve_segment t c nm = Some (n, ty)" using r by (simp add: eq)
  qed
qed (simp add: resolve_segment_def)

lemma resolve_segment_None_iff:
  "resolve_segment t c nm = None \<longleftrightarrow> named_children t c nm = []"
  by (auto simp: resolve_segment_def split: list.splits)
    (metis length_0_conv length_sort)

section \<open>One query is the fold\<close>

lemma takeWhile_segment:
  "CHR ''/'' \<notin> set s \<Longrightarrow> takeWhile (\<lambda>c. c \<noteq> CHR ''/'') (s @ CHR ''/'' # r) = s"
  by (induction s) auto

lemma walk_rows_fold:
  "segs \<noteq> [] \<Longrightarrow> \<forall>s \<in> set segs. segment_ok s \<Longrightarrow>
   (let final = last (walk_rows t idx n CONTAINER (join_path segs @ ''/''))
    in (case wk_hit final of
          None \<Rightarrow> Inl NotFound
        | Some (n', ty') \<Rightarrow>
            if wk_idx final < idx + length segs then Inl NotAContainer
            else Inr \<lparr>rs_node = n', rs_type = ty'\<rparr>))
    = fold_segments t n CONTAINER segs"
proof (induction segs arbitrary: idx n)
  case (Cons s ss)
  then have ok: "CHR ''/'' \<notin> set s" "s \<noteq> []" by (auto simp: segment_ok_def)
  show ?case
  proof (cases ss)
    case Nil
    have rows: "walk_rows t idx n CONTAINER (join_path (s # ss) @ ''/'') =
        [\<lparr>wk_idx = Suc idx, wk_seg = s, wk_parent = n, wk_hit = best_child t n s\<rparr>]"
      using ok Nil by (subst walk_rows.simps)
        (auto simp: join_path_def takeWhile_segment Let_def Suc_diff_le split: option.splits)
    show ?thesis
      unfolding rows using Nil by (auto simp: best_child_eq_resolve_segment split: option.splits)
  next
    case (Cons s' ss')
    let ?rest = "join_path ss @ ''/''"
    have jp: "join_path (s # ss) @ ''/'' = s @ CHR ''/'' # ?rest"
      using Cons by (simp add: join_path_def)
    have rows: "walk_rows t idx n CONTAINER (join_path (s # ss) @ ''/'') =
        \<lparr>wk_idx = Suc idx, wk_seg = s, wk_parent = n, wk_hit = best_child t n s\<rparr> #
        (case best_child t n s of None \<Rightarrow> []
         | Some (n', ty') \<Rightarrow> walk_rows t (Suc idx) n' ty' ?rest)"
      unfolding jp using ok
      by (subst walk_rows.simps) (simp add: takeWhile_segment Let_def Suc_diff_le cong: option.case_cong)
    show ?thesis
    proof (cases "best_child t n s")
      case None
      then show ?thesis by (simp add: rows best_child_eq_resolve_segment)
    next
      case (Some h)
      obtain n' ty' where h: "h = (n', ty')" by force
      show ?thesis
      proof (cases "ty' = CONTAINER")
        case True
        have ne: "walk_rows t (Suc idx) n' CONTAINER ?rest \<noteq> []"
          by (subst walk_rows.simps) (simp add: Let_def)
        have final: "last (walk_rows t idx n CONTAINER (join_path (s # ss) @ ''/'')) =
            last (walk_rows t (Suc idx) n' CONTAINER ?rest)"
          unfolding rows using Some h True ne by simp
        have "ss \<noteq> []" using \<open>ss = s' # ss'\<close> by simp
        then show ?thesis unfolding final
          using Cons.IH [of "Suc idx" n'] Cons.prems Some h True
          by (simp add: best_child_eq_resolve_segment Let_def cong: option.case_cong)
      next
        case False
        then have "walk_rows t (Suc idx) n' ty' ?rest = []"
          by (subst walk_rows.simps) simp
        then show ?thesis unfolding rows using Some h False \<open>ss = s' # ss'\<close>
          by (simp add: best_child_eq_resolve_segment)
      qed
    qed
  qed
qed simp

lemma walk_eq_fold:
  "segs \<noteq> [] \<Longrightarrow> \<forall>s \<in> set segs. segment_ok s \<Longrightarrow>
     walk t root segs = fold_segments t root CONTAINER segs"
  by (drule (1) walk_rows_fold [where t = t and idx = 0 and n = root, unfolded add_0])
    (simp add: walk_def Let_def)

lemma resolve_eq_fold:
  "split_path path \<noteq> [] \<Longrightarrow>
     resolve t mp path = fold_segments t mp CONTAINER (split_path path)"
  by (auto simp: resolve_def Let_def intro!: walk_eq_fold dest: split_path_ok)

lemma resolve_root: "split_path path = [] \<Longrightarrow>
   resolve t mp path = (case node_at t mp of None \<Rightarrow> Inl NotFound
     | Some r \<Rightarrow> Inr \<lparr>rs_node = mp, rs_type = nd_type r\<rparr>)"
  by (simp add: resolve_def)

lemma fold_segments_append:
  "fold_segments t n ty (xs @ ys) =
     (case fold_segments t n ty xs of Inl e \<Rightarrow> Inl e
      | Inr r \<Rightarrow> fold_segments t (rs_node r) (rs_type r) ys)"
  by (induction xs arbitrary: n ty) (auto split: option.splits)

lemma fold_segments_snoc:
  "fold_segments t n ty (xs @ [s]) = Inr r \<longleftrightarrow>
     (\<exists>p. fold_segments t n ty xs = Inr p \<and> rs_type p = CONTAINER
        \<and> resolve_segment t (rs_node p) s = Some (rs_node r, rs_type r))"
  by (cases r) (auto simp: fold_segments_append split: sum.splits option.splits)

text \<open>The parent of a path that has segments, in terms of the fold.\<close>

lemma resolve_parent_eq_fold:
  "split_path path \<noteq> [] \<Longrightarrow>
     resolve_parent t mp path =
       (case fold_segments t mp CONTAINER (butlast (split_path path)) of
          Inl e \<Rightarrow> Inl e
        | Inr p \<Rightarrow> if rs_type p \<noteq> CONTAINER then Inl NotAContainer
                  else Inr (rs_node p, last (split_path path)))"
proof -
  assume ne: "split_path path \<noteq> []"
  have ok: "\<forall>s \<in> set (butlast (split_path path)). segment_ok s"
    using split_path_ok by (blast dest: in_set_butlastD)
  show ?thesis
  proof (cases "butlast (split_path path) = []")
    case True
    with ne show ?thesis by (simp add: resolve_parent_def Let_def)
  next
    case False
    with ne walk_eq_fold [OF False ok] show ?thesis
      by (simp add: resolve_parent_def Let_def)
  qed
qed

lemma resolve_via_parent:
  assumes "resolve t mp path = Inr r" and "split_path path \<noteq> []"
  shows "\<exists>p. resolve_parent t mp path = Inr (p, last (split_path path))
     \<and> resolve_segment t p (last (split_path path)) = Some (rs_node r, rs_type r)"
proof -
  have "fold_segments t mp CONTAINER (butlast (split_path path) @ [last (split_path path)]) = Inr r"
    using assms by (simp add: resolve_eq_fold)
  then obtain p where
    "fold_segments t mp CONTAINER (butlast (split_path path)) = Inr p" "rs_type p = CONTAINER"
    "resolve_segment t (rs_node p) (last (split_path path)) = Some (rs_node r, rs_type r)"
    by (auto simp only: fold_segments_snoc)
  then show ?thesis using assms(2) by (simp add: resolve_parent_eq_fold)
qed

lemma resolve_parent_segment:
  assumes "resolve_parent t mp path = Inr (p, nm)"
  shows "segment_ok nm"
    and "resolve t mp path =
       (case resolve_segment t p nm of None \<Rightarrow> Inl NotFound
        | Some (n, ty) \<Rightarrow> Inr \<lparr>rs_node = n, rs_type = ty\<rparr>)"
proof -
  have ne: "split_path path \<noteq> []" using assms by (auto simp: resolve_parent_def Let_def split: if_splits)
  then have nm: "nm = last (split_path path)"
    and q: "\<exists>q. fold_segments t mp CONTAINER (butlast (split_path path)) = Inr q
          \<and> rs_type q = CONTAINER \<and> rs_node q = p"
    using assms by (auto simp: resolve_parent_eq_fold split: sum.splits if_splits)
  show "segment_ok nm" using ne nm split_path_ok by (metis last_in_set)
  from q obtain q where "fold_segments t mp CONTAINER (butlast (split_path path)) = Inr q"
    "rs_type q = CONTAINER" "rs_node q = p" by blast
  then have "fold_segments t mp CONTAINER (butlast (split_path path) @ [last (split_path path)]) =
     (case resolve_segment t p nm of None \<Rightarrow> Inl NotFound
      | Some (n, ty) \<Rightarrow> Inr \<lparr>rs_node = n, rs_type = ty\<rparr>)"
    using nm by (simp add: fold_segments_append split: option.splits)
  then show "resolve t mp path =
       (case resolve_segment t p nm of None \<Rightarrow> Inl NotFound
        | Some (n, ty) \<Rightarrow> Inr \<lparr>rs_node = n, rs_type = ty\<rparr>)"
    using ne by (simp add: resolve_eq_fold)
qed

section \<open>Containment\<close>

definition placement :: "tables \<Rightarrow> (node_id \<times> node_id) set" where
  "placement t = {(eg_from e, eg_to e) | e. e \<in> set (active_edge t)}"

lemma resolve_segment_placed:
  "resolve_segment t c nm = Some (n, ty) \<Longrightarrow> (c, n) \<in> placement t \<and>
     (\<exists>r. node_at t n = Some r \<and> nd_type r = ty)"
  by (auto simp: resolve_segment_Some_iff placement_def dest!: named_childrenD)

lemma fold_segments_contained:
  "fold_segments t n ty segs = Inr r \<Longrightarrow> (n, rs_node r) \<in> (placement t)\<^sup>*"
proof (induction segs arbitrary: n ty)
  case (Cons s ss)
  then obtain n' ty' where s: "resolve_segment t n s = Some (n', ty')"
    and "fold_segments t n' ty' ss = Inr r"
    by (auto split: if_splits option.splits)
  with Cons.IH have "(n', rs_node r) \<in> (placement t)\<^sup>*" by blast
  with s show ?case by (auto dest: resolve_segment_placed intro: converse_rtrancl_into_rtrancl)
qed auto

lemma resolve_contained: "resolve t mp path = Inr r \<Longrightarrow> (mp, rs_node r) \<in> (placement t)\<^sup>*"
  by (cases "split_path path = []")
    (auto simp: resolve_root resolve_eq_fold split: option.splits dest: fold_segments_contained)

lemma resolve_parent_contained:
  "resolve_parent t mp path = Inr (p, nm) \<Longrightarrow> (mp, p) \<in> (placement t)\<^sup>*"
proof -
  assume a: "resolve_parent t mp path = Inr (p, nm)"
  then have "split_path path \<noteq> []" by (auto simp: resolve_parent_def Let_def split: if_splits)
  with a show ?thesis
    by (auto simp: resolve_parent_eq_fold split: sum.splits if_splits dest: fold_segments_contained)
qed

lemma resolved_node_exists:
  "resolve t mp path = Inr r \<Longrightarrow> \<exists>q. node_at t (rs_node r) = Some q \<and> nd_type q = rs_type r"
proof (cases "split_path path = []")
  case False
  assume a: "resolve t mp path = Inr r"
  with False obtain p where "resolve_segment t p (last (split_path path)) = Some (rs_node r, rs_type r)"
    using resolve_via_parent by blast
  then show ?thesis by (auto dest: resolve_segment_placed)
qed (auto simp: resolve_root split: option.splits)

section \<open>Resolution and listing agree\<close>

lemma listing_rows:
  "w \<in> set (directory_listing t c) \<longleftrightarrow>
     (\<exists>e r. (e, r) \<in> set (joined_children t c) \<and>
        w = \<lparr>ls_node = nd_id r, ls_name = eg_name e, ls_type = nd_type r, ls_edge = eg_id e,
             ls_visible = (Some (nd_id r) = max_id (map nd_id (named_children t c (eg_name e))))\<rparr>)"
proof -
  have names: "map (nd_id \<circ> snd) (filter (\<lambda>(e', _). eg_name e' = nm) (joined_children t c)) =
      map nd_id (named_children t c nm)" for nm
    by (simp add: named_children_def)
  show ?thesis unfolding directory_listing_def names
    by (simp only: set_sort set_map image_iff Bex_def split_paired_Ex prod.case)
qed

lemma listing_visible_iff:
  "(\<exists>w \<in> set (directory_listing t c). ls_name w = nm \<and> ls_visible w \<and> ls_node w = n \<and> ls_type w = ty)
   \<longleftrightarrow> resolve_segment t c nm = Some (n, ty)" (is "?L \<longleftrightarrow> ?R")
proof
  assume ?L
  then obtain e r where j: "(e, r) \<in> set (joined_children t c)" "eg_name e = nm" "nd_id r = n"
    "nd_type r = ty" "Some n = max_id (map nd_id (named_children t c nm))"
    by (auto simp: listing_rows)
  then have "r \<in> set (named_children t c nm)" by (auto simp: named_children_def image_iff)
  moreover from j have "\<forall>q \<in> set (named_children t c nm). nd_id q \<le> n"
    by (auto simp: max_id_eq split: if_splits)
  ultimately show ?R using j by (auto simp: resolve_segment_Some_iff)
next
  assume ?R
  then obtain r where r: "r \<in> set (named_children t c nm)" "nd_id r = n" "nd_type r = ty"
    "\<forall>q \<in> set (named_children t c nm). nd_id q \<le> n"
    by (auto simp: resolve_segment_Some_iff)
  then obtain e where e: "(e, r) \<in> set (joined_children t c)" "eg_name e = nm"
    by (auto simp: named_children_def)
  have "max_id (map nd_id (named_children t c nm)) = Some n"
    using r by (auto simp: max_id_eq intro!: Max_eqI)
  with r e show ?L by (auto simp: listing_rows intro!: exI [of _ e] bexI)
qed

end
