(* ===== verification/Session.thy ===== *)
theory Session
  imports Resolve
begin

text \<open>
  Sessions and their lifecycle (\<open>aloelite/operations.py\<close>, from \<open>_require_mount\<close> to
  \<open>path_of\<close>): the precondition every operation starts with, volumes, mounts, PIN
  rotation, and the absolute and mount-relative path of a node.

  \<open>require_mount\<close> answers the mount's anchor, volume and encryption mode or refuses:
  an invalid mount, a cipher that does not match the volume, a write through a read-only
  mount. The recursive query \<open>path_of\<close> is \<open>up_rows\<close>, with its depth bound of 256.
\<close>

section \<open>The mount precondition\<close>

record mnt =
  m_id :: mount_id
  m_point :: node_id
  m_volume :: volume_id
  m_enc_mode :: string

definition get_valid_mount :: "mount_id \<Rightarrow> db \<Rightarrow> (mount_row \<times> volume_row) option" where
  "get_valid_mount mount s =
     (case row_at mt_id mount (valid_mount (sql_now s) (tabs s)) of
        None \<Rightarrow> None
      | Some m \<Rightarrow> map_option (\<lambda>v. (m, v)) (volume_at (tabs s) (mt_volume m)))"

definition require_mount :: "mount_id \<Rightarrow> bool \<Rightarrow> mnt op" where
  "require_mount mount write =
     bind_op (get_opt MountInvalid (get_valid_mount mount)) (\<lambda>(row, v).
     bind_op (gets cipher_of) (\<lambda>c.
     bind_op (guard_op ((vl_enc_mode v \<noteq> ''none'') = encrypts c) EncryptionRequired) (\<lambda>_.
     bind_op (guard_op (\<not> (write \<and> mt_access row = ''ro'')) ReadOnlyMount) (\<lambda>_.
     ret \<lparr>m_id = mount, m_point = mt_point row, m_volume = mt_volume row,
          m_enc_mode = vl_enc_mode v\<rparr>))))"

definition resolve_op :: "node_id \<Rightarrow> string \<Rightarrow> resolved op" where
  "resolve_op mp path = get_sum (\<lambda>s. resolve (tabs s) mp path)"

definition resolve_parent_op :: "node_id \<Rightarrow> string \<Rightarrow> (node_id \<times> string) op" where
  "resolve_parent_op mp path = get_sum (\<lambda>s. resolve_parent (tabs s) mp path)"

definition require_name :: "string \<Rightarrow> unit op" where
  "require_name nm = guard_op (nm \<noteq> []) Nameless"

text \<open>\<open>_meta_to_json\<close>: an empty or absent map is NULL, keys are sorted.\<close>

definition meta_to_json ::
  "(string \<times> string) list option \<Rightarrow> (string \<times> string) list option" where
  "meta_to_json m = (case m of None \<Rightarrow> None | Some [] \<Rightarrow> None | Some kvs \<Rightarrow> Some (sort_key fst kvs))"

section \<open>New nodes, placements and initial content\<close>

definition create_node_sql ::
  "node_type \<Rightarrow> string \<Rightarrow> timestamp \<Rightarrow> timestamp option \<Rightarrow> volume_id option
     \<Rightarrow> (string \<times> string) list option \<Rightarrow> string \<Rightarrow> tables \<Rightarrow> fs_error + tables" where
  "create_node_sql ty nm created modified volume meta nid =
     insert_node \<lparr>nd_id = nid, nd_type = ty, nd_name = nm, nd_created = created,
       nd_modified = Some (case modified of None \<Rightarrow> created | Some x \<Rightarrow> x),
       nd_volume = volume, nd_metadata = meta, nd_uid = None, nd_gid = None,
       nd_mode = None, nd_atime = None, nd_ctime = None\<rparr>"

definition new_node ::
  "mnt \<Rightarrow> node_type \<Rightarrow> string \<Rightarrow> timestamp option \<Rightarrow> timestamp option
     \<Rightarrow> (string \<times> string) list option \<Rightarrow> node_id op" where
  "new_node m ty nm created modified meta =
     bind_op (gets now) (\<lambda>ts.
     create_monotonic
       (create_node_sql ty nm (case created of None \<Rightarrow> ts | Some x \<Rightarrow> x) modified
          (Some (m_volume m)) (meta_to_json meta))
       (Some (m_volume m)))"

definition create_edge_sql ::
  "timestamp \<Rightarrow> node_id \<Rightarrow> node_id \<Rightarrow> volume_id \<Rightarrow> string option \<Rightarrow> string
     \<Rightarrow> tables \<Rightarrow> fs_error + tables" where
  "create_edge_sql ts from to volume nm eid t =
     (case (case nm of Some x \<Rightarrow> Some x | None \<Rightarrow> map_option nd_name (node_at t to)) of
        None \<Rightarrow> Inl IntegrityError
      | Some x \<Rightarrow> insert_edge ts \<lparr>eg_id = eid, eg_from = from, eg_to = to, eg_volume = volume,
                    eg_archived = False, eg_name = x\<rparr> t)"

definition link_node :: "mnt \<Rightarrow> node_id \<Rightarrow> node_id \<Rightarrow> string option \<Rightarrow> edge_id op" where
  "link_node m parent child nm =
     bind_op (gets sql_now) (\<lambda>ts.
     create_monotonic (create_edge_sql ts parent child (m_volume m) nm) (Some (m_volume m)))"

definition put_initial_content :: "crypto_lib \<Rightarrow> mnt \<Rightarrow> node_id \<Rightarrow> bytes \<Rightarrow> unit op" where
  "put_initial_content L m n data =
     (let version = (if data = [] then 0 else 1)
      in bind_op (sql (insert_content \<lparr>ct_node = n, ct_version = version, ct_size = length data,
                         ct_keep = None\<rparr>)) (\<lambda>_.
         if data = [] then ret ()
         else bind_op (stage_chunks L n version (m_volume m) data) (\<lambda>_. ret ())))"

section \<open>Volumes\<close>

record volume_info =
  vi_id :: volume_id
  vi_name :: "string option"
  vi_root :: "node_id option"
  vi_api_version :: int
  vi_created_at :: timestamp

definition volume_info_of :: "volume_row \<Rightarrow> volume_info" where
  "volume_info_of r = \<lparr>vi_id = vl_id r, vi_name = vl_name r, vi_root = vl_root r,
     vi_api_version = vl_api r, vi_created_at = vl_created r\<rparr>"

text \<open>\<open>link_root\<close>, with the UNIQUE and foreign-key constraints of \<open>root_node_id\<close>\<close>

definition link_root :: "volume_id \<Rightarrow> node_id \<Rightarrow> tables \<Rightarrow> fs_error + tables" where
  "link_root v root t =
     (if node_at t root = None \<or> (\<exists>r \<in> set (volumes t). vl_id r \<noteq> v \<and> vl_root r = Some root)
      then Inl IntegrityError
      else Inr (t\<lparr>volumes := map (\<lambda>r. if vl_id r = v then r\<lparr>vl_root := Some root\<rparr> else r)
                  (volumes t)\<rparr>))"

definition update_volume_crypto ::
  "volume_id \<Rightarrow> string \<Rightarrow> bytes \<times> bytes \<Rightarrow> tables \<Rightarrow> fs_error + tables" where
  "update_volume_crypto v mode wrapped t =
     (if volume_at t v \<noteq> None \<and> mode \<notin> set enc_modes then Inl IntegrityError
      else Inr (t\<lparr>volumes := map (\<lambda>r. if vl_id r = v
             then r\<lparr>vl_enc_mode := mode, vl_wrapped := Some wrapped\<rparr> else r) (volumes t)\<rparr>))"

text \<open>Sealing a key draws \<open>NONCE_LEN\<close> bytes.\<close>

definition wrap_op :: "crypto_lib \<Rightarrow> bytes \<Rightarrow> bytes \<Rightarrow> (bytes \<times> bytes) op" where
  "wrap_op L key plaintext s =
     (Inr (wrap_volume_key L (entropy s) (draws s) key plaintext),
      s\<lparr>draws := draws s + NONCE_LEN\<rparr>)"

definition random_bytes :: "nat \<Rightarrow> bytes op" where
  "random_bytes k s = (Inr (urandom (entropy s) (draws s) k), s\<lparr>draws := draws s + k\<rparr>)"

definition create_volume ::
  "crypto_lib \<Rightarrow> string option \<Rightarrow> nat \<Rightarrow> bytes option \<Rightarrow> string \<Rightarrow> volume_info op" where
  "create_volume L nm chunk_size pin enc_mode =
     (let mode = (if pin \<noteq> None then enc_mode else ''none'')
      in bind_op (txn (
           bind_op gen_id (\<lambda>vid.
           bind_op (gets now) (\<lambda>ts.
           bind_op (sql (insert_volume \<lparr>vl_id = vid, vl_root = None, vl_name = nm,
              vl_created = ts, vl_api = 2, vl_chunk_size = chunk_size, vl_wm = Stamp 0 0,
              vl_enc_mode = mode, vl_wrapped = None\<rparr>)) (\<lambda>_.
           bind_op (create_monotonic
              (create_node_sql CONTAINER ''/'' ts None (Some vid) None) (Some vid)) (\<lambda>root.
           bind_op (sql (link_root vid root)) (\<lambda>_.
           bind_op (case pin of
              None \<Rightarrow> ret ()
            | Some p \<Rightarrow>
                let k_u = derive_unlock_key L p (volume_hash L vid root) in
                bind_op (random_bytes 32) (\<lambda>k_v.
                bind_op (wrap_op L k_u k_v) (\<lambda>wrapped.
                sql (update_volume_crypto vid mode wrapped)))) (\<lambda>_.
           ret vid)))))))) (\<lambda>vid.
         get_opt TypeError (\<lambda>s. map_option volume_info_of (volume_at (tabs s) vid))))"

text \<open>\<open>crow is None or crow["root_node_id"] is None\<close>\<close>

definition volume_with_root :: "volume_id \<Rightarrow> (volume_row \<times> node_id) op" where
  "volume_with_root volume =
     get_opt NotFound (\<lambda>s. case volume_at (tabs s) volume of
        None \<Rightarrow> None | Some r \<Rightarrow> map_option (\<lambda>root. (r, root)) (vl_root r))"

text \<open>Unwrapping a NULL key raises, which \<open>except Exception\<close> also answers with BadKey.\<close>

definition unlock_volume :: "crypto_lib \<Rightarrow> bytes \<Rightarrow> volume_row \<Rightarrow> bytes op" where
  "unlock_volume L k_u r =
     get_opt BadKey (\<lambda>s. case vl_wrapped r of
        None \<Rightarrow> None | Some (w, n) \<Rightarrow> unwrap_volume_key L k_u w n)"

definition change_pin :: "crypto_lib \<Rightarrow> volume_id \<Rightarrow> bytes \<Rightarrow> bytes \<Rightarrow> unit op" where
  "change_pin L volume old_pin new_pin = txn (
     bind_op (volume_with_root volume) (\<lambda>(crow, root).
     bind_op (guard_op (vl_enc_mode crow \<noteq> ''none'') EncryptionRequired) (\<lambda>_.
     let h_v = volume_hash L volume root in
     bind_op (unlock_volume L (derive_unlock_key L old_pin h_v) crow) (\<lambda>k_v.
     bind_op (wrap_op L (derive_unlock_key L new_pin h_v) k_v) (\<lambda>wrapped.
     sql (update_volume_crypto volume (vl_enc_mode crow) wrapped))))))"

definition list_volumes :: "volume_info list op" where
  "list_volumes = gets (\<lambda>s. map volume_info_of (sort_key vl_id (volumes (tabs s))))"

section \<open>Mounts\<close>

definition check_rw_overlap :: "timestamp \<Rightarrow> tables \<Rightarrow> volume_id \<Rightarrow> node_id \<Rightarrow> mount_id option" where
  "check_rw_overlap ts t volume anchor =
     (case filter (\<lambda>m. mt_volume m = volume \<and> mt_access m = ''rw''
            \<and> (mt_point m = anchor \<or> mt_point m \<in> set (node_ancestor t anchor)
               \<or> anchor \<in> set (node_ancestor t (mt_point m))))
         (valid_mount ts t) of
        [] \<Rightarrow> None | m # _ \<Rightarrow> Some (mt_id m))"

definition expiry :: "timestamp \<Rightarrow> int option \<Rightarrow> timestamp option" where
  "expiry ts ttl_ms = map_option (\<lambda>ttl. ts + ttl * 1000000) ttl_ms"

definition set_mount_state :: "mount_id \<Rightarrow> mount_state \<Rightarrow> tables \<Rightarrow> tables" where
  "set_mount_state mount st t = t\<lparr>mounts := map (\<lambda>m. if mt_id m = mount
     then m\<lparr>mt_state := st\<rparr> else m) (mounts t)\<rparr>"

definition install :: "cipher \<Rightarrow> session option \<Rightarrow> unit op" where
  "install c ss s = (Inr (), s\<lparr>cipher_of := c, session_of := ss\<rparr>)"

definition unlock_session ::
  "crypto_lib \<Rightarrow> volume_id \<Rightarrow> node_id \<Rightarrow> volume_row \<Rightarrow> mount_id \<Rightarrow> bytes \<Rightarrow> bytes option \<Rightarrow> unit op" where
  "unlock_session L volume root crow mid n_m pin =
     (if vl_enc_mode crow = ''none''
      then bind_op (guard_op (pin = None) EncryptionRequired) (\<lambda>_. install IdentityCipher None)
      else (case pin of
          None \<Rightarrow> fail EncryptionRequired
        | Some p \<Rightarrow>
            bind_op (unlock_volume L (derive_unlock_key L p (volume_hash L volume root)) crow) (\<lambda>k_v.
            bind_op (random_bytes TOKEN_LEN) (\<lambda>token.
            bind_op (gets (\<lambda>s. seal_mount_secret L (entropy s) (draws s) token n_m k_v))
              (\<lambda>(mount_secret, sess_nonce).
            bind_op (draw NONCE_LEN) (\<lambda>_.
            install (new_chunk_cipher L k_v volume (vl_enc_mode crow = ''convergent''))
              (Some \<lparr>ss_mount = mid, ss_token = token, ss_nonce = n_m, ss_secret = mount_secret,
                 ss_sess_nonce = sess_nonce, ss_enc_mode = vl_enc_mode crow,
                 ss_volume = volume\<rparr>)))))))"

definition mount_volume ::
  "crypto_lib \<Rightarrow> volume_id \<Rightarrow> string \<Rightarrow> int option \<Rightarrow> bytes option \<Rightarrow> string
     \<Rightarrow> string option \<Rightarrow> bool \<Rightarrow> mount_id op" where
  "mount_volume L volume at_path ttl_ms pin access who allow_overlap = txn (
     bind_op (volume_with_root volume) (\<lambda>(crow, root).
     bind_op (resolve_op root at_path) (\<lambda>found.
     let anchor = rs_node found in
     bind_op (gets (\<lambda>s. check_rw_overlap (sql_now s) (tabs s) volume anchor)) (\<lambda>clash.
     bind_op (guard_op (\<not> (access = ''rw'' \<and> \<not> allow_overlap \<and> clash \<noteq> None)) MountConflict) (\<lambda>_.
     bind_op (gets now) (\<lambda>ts.
     bind_op gen_id (\<lambda>mid.
     bind_op (random_bytes MOUNT_NONCE_LEN) (\<lambda>n_m.
     bind_op (sql (insert_mount \<lparr>mt_id = mid, mt_volume = volume, mt_point = anchor,
        mt_state = NEW, mt_expires = expiry ts ttl_ms, mt_created = ts, mt_nonce = n_m,
        mt_access = access, mt_principal = who\<rparr>)) (\<lambda>_.
     bind_op (unlock_session L volume root crow mid n_m pin) (\<lambda>_.
     bind_op (sql_update (set_mount_state mid ACTIVE)) (\<lambda>_.
     ret mid)))))))))))"

definition unmount :: "mount_id \<Rightarrow> unit op" where
  "unmount mount =
     bind_op (txn (sql_update (set_mount_state mount UNMOUNTED))) (\<lambda>_.
     bind_op (gets session_of) (\<lambda>ss.
     case ss of None \<Rightarrow> ret ()
     | Some x \<Rightarrow> if ss_mount x = mount then install IdentityCipher None else ret ()))"

section \<open>Ancestor paths\<close>

record up_row =
  up_node :: node_id
  up_name :: string
  up_parent :: "node_id option"
  up_depth :: nat
  up_is_root :: bool

text \<open>The newest active placement: ORDER BY edge_id DESC LIMIT 1.\<close>

definition newest_placement :: "tables \<Rightarrow> node_id \<Rightarrow> edge_row option" where
  "newest_placement t n =
     (case rev (sort_key eg_id (filter (\<lambda>e. eg_to e = n) (active_edge t))) of
        [] \<Rightarrow> None | e # _ \<Rightarrow> Some e)"

definition is_volume_root :: "tables \<Rightarrow> node_id \<Rightarrow> bool" where
  "is_volume_root t n \<longleftrightarrow> (\<exists>v \<in> set (volumes t). vl_root v = Some n)"

text \<open>
  The recursive query: \<open>up_rows t k d n\<close> with \<open>k + d = 256\<close>; it goes on from a row that is
  not a root, below the depth bound, whose parent exists.
\<close>

fun up_rows :: "tables \<Rightarrow> nat \<Rightarrow> nat \<Rightarrow> node_id \<Rightarrow> up_row list" where
  "up_rows t k d n =
     (case node_at t n of
        None \<Rightarrow> []
      | Some r \<Rightarrow>
          let e = newest_placement t n;
              row = \<lparr>up_node = n,
                     up_name = (case e of None \<Rightarrow> nd_name r | Some x \<Rightarrow> eg_name x),
                     up_parent = map_option eg_from e, up_depth = d,
                     up_is_root = is_volume_root t n\<rparr>
          in row # (case k of
                0 \<Rightarrow> []
              | Suc k' \<Rightarrow>
                  if up_is_root row then []
                  else (case up_parent row of None \<Rightarrow> [] | Some p \<Rightarrow> up_rows t k' (Suc d) p)))"

declare up_rows.simps [simp del]

definition path_of_rows :: "tables \<Rightarrow> node_id \<Rightarrow> up_row list" where
  "path_of_rows t n = up_rows t depth_bound 0 n"

text \<open>The loop of \<open>_build_path\<close>: the names collected, and whether the anchor was met.\<close>

fun collect_names :: "node_id option \<Rightarrow> bool \<Rightarrow> up_row list \<Rightarrow> string list \<times> bool" where
  "collect_names stop_at reached [] = ([], reached)"
| "collect_names stop_at reached (r # rs) =
     (if stop_at \<noteq> None \<and> Some (up_node r) = stop_at then ([], True)
      else if stop_at = None \<and> up_is_root r then ([], reached)
      else (let (ns, b) = collect_names stop_at reached rs in (up_name r # ns, b)))"

definition build_path :: "tables \<Rightarrow> node_id \<Rightarrow> node_id option \<Rightarrow> fs_error + string" where
  "build_path t n stop_at =
     (let rows = path_of_rows t n
      in if rows = [] then Inl NotFound
         else if \<not> up_is_root (last rows) then Inl Corrupt
         else (let (names, reached) = collect_names stop_at (stop_at = None) rows
               in if \<not> reached then Inl NotFound
                  else Inr (CHR ''/'' # join_path (rev names))))"

definition abs_path :: "tables \<Rightarrow> node_id \<Rightarrow> fs_error + string" where
  "abs_path t n = build_path t n None"

record mount_info =
  mi_id :: mount_id
  mi_volume :: volume_id
  mi_mount_point :: node_id
  mi_mount_path :: "string option"
  mi_state :: mount_state
  mi_expires_at :: "timestamp option"
  mi_created_at :: timestamp

definition mount_info_of :: "mount_row \<Rightarrow> string option \<Rightarrow> mount_info" where
  "mount_info_of m p = \<lparr>mi_id = mt_id m, mi_volume = mt_volume m, mi_mount_point = mt_point m,
     mi_mount_path = p, mi_state = mt_state m, mi_expires_at = mt_expires m,
     mi_created_at = mt_created m\<rparr>"

definition mount_info :: "mount_id \<Rightarrow> mount_info op" where
  "mount_info mount =
     bind_op (get_opt NotFound (\<lambda>s. mount_at (tabs s) mount)) (\<lambda>row.
     bind_op (get_sum (\<lambda>s. abs_path (tabs s) (mt_point row))) (\<lambda>p.
     ret (mount_info_of row (Some p))))"

definition renew_mount_sql :: "mount_id \<Rightarrow> timestamp option \<Rightarrow> tables \<Rightarrow> tables" where
  "renew_mount_sql mount x t = t\<lparr>mounts := map (\<lambda>m. if mt_id m = mount
     then m\<lparr>mt_expires := x\<rparr> else m) (mounts t)\<rparr>"

definition renew_mount :: "mount_id \<Rightarrow> int option \<Rightarrow> mount_info op" where
  "renew_mount mount ttl_ms =
     bind_op (txn (
       bind_op (require_mount mount False) (\<lambda>_.
       bind_op (gets now) (\<lambda>ts.
       sql_update (renew_mount_sql mount (expiry ts ttl_ms)))))) (\<lambda>_.
     mount_info mount)"

text \<open>An anchor whose path is gone is listed with no path; NotFound and Corrupt only.\<close>

definition list_mounts :: "volume_id option \<Rightarrow> bool \<Rightarrow> mount_info list op" where
  "list_mounts volume include_unmounted = gets (\<lambda>s.
     map (\<lambda>m. mount_info_of m (case abs_path (tabs s) (mt_point m) of
             Inl e \<Rightarrow> None | Inr p \<Rightarrow> Some p))
       (sort_key (\<lambda>m. (mt_created m, mt_id m))
         (filter (\<lambda>m. (volume = None \<or> volume = Some (mt_volume m))
             \<and> (include_unmounted \<or> mt_state m \<noteq> UNMOUNTED)) (mounts (tabs s)))))"

section \<open>Reading the tree\<close>

record node_info =
  ni_id :: node_id
  ni_type :: node_type
  ni_name :: string
  ni_created_at :: timestamp
  ni_modified_at :: timestamp
  ni_volume :: "volume_id option"
  ni_size :: "nat option"
  ni_version :: "nat option"
  ni_metadata :: "(string \<times> string) list"
  ni_uid :: "int option"
  ni_gid :: "int option"
  ni_mode :: "int option"
  ni_atime :: timestamp
  ni_ctime :: timestamp
  ni_nlink :: nat

definition or_else :: "'a option \<Rightarrow> 'a \<Rightarrow> 'a" where
  "or_else x d = (case x of None \<Rightarrow> d | Some y \<Rightarrow> y)"

text \<open>\<open>get_node\<close> and \<open>NodeInfo.from_row\<close> (\<open>nlink or 1\<close>).\<close>

definition nlink :: "tables \<Rightarrow> node_id \<Rightarrow> nat" where
  "nlink t n = length (filter (\<lambda>e. eg_to e = n) (active_edge t))"

definition node_info_of :: "tables \<Rightarrow> node_row \<Rightarrow> node_info" where
  "node_info_of t r =
     (let modified = or_else (nd_modified r) (nd_created r); k = nlink t (nd_id r)
      in \<lparr>ni_id = nd_id r, ni_type = nd_type r, ni_name = nd_name r,
          ni_created_at = nd_created r, ni_modified_at = modified, ni_volume = nd_volume r,
          ni_size = map_option ct_size (content_at t (nd_id r)),
          ni_version = map_option ct_version (content_at t (nd_id r)),
          ni_metadata = or_else (nd_metadata r) [],
          ni_uid = nd_uid r, ni_gid = nd_gid r, ni_mode = nd_mode r,
          ni_atime = or_else (nd_atime r) modified, ni_ctime = or_else (nd_ctime r) modified,
          ni_nlink = (if k = 0 then 1 else k)\<rparr>)"

definition stat_by_id :: "mount_id \<Rightarrow> node_id \<Rightarrow> node_info op" where
  "stat_by_id mount n =
     bind_op (require_mount mount False) (\<lambda>_.
     get_opt NotFound (\<lambda>s. map_option (node_info_of (tabs s)) (node_at (tabs s) n)))"

definition stat :: "mount_id \<Rightarrow> string \<Rightarrow> node_info op" where
  "stat mount path =
     bind_op (require_mount mount False) (\<lambda>m.
     bind_op (resolve_op (m_point m) path) (\<lambda>found.
     stat_by_id mount (rs_node found)))"

text \<open>\<open>resolve\<close> raises nothing but NotFound and NotAContainer.\<close>

definition exists_path :: "mount_id \<Rightarrow> string \<Rightarrow> bool op" where
  "exists_path mount path =
     bind_op (require_mount mount False) (\<lambda>m.
     get_sum (\<lambda>s. case resolve (tabs s) (m_point m) path of
        Inr r \<Rightarrow> Inr True
      | Inl e \<Rightarrow> if e \<in> {NotFound, NotAContainer} then Inr False else Inl e))"

record dir_entry = listing_row +
  de_directory :: string

definition list_dir :: "mount_id \<Rightarrow> string \<Rightarrow> dir_entry list op" where
  "list_dir mount path =
     bind_op (require_mount mount False) (\<lambda>m.
     bind_op (resolve_op (m_point m) path) (\<lambda>found.
     bind_op (guard_op (rs_type found = CONTAINER) NotAContainer) (\<lambda>_.
     gets (\<lambda>s. map (\<lambda>r. listing_row.extend r
                 \<lparr>de_directory = CHR ''/'' # join_path (split_path path)\<rparr>)
               (directory_listing (tabs s) (rs_node found))))))"

definition read_all :: "crypto_lib \<Rightarrow> mount_id \<Rightarrow> string \<Rightarrow> bytes op" where
  "read_all L mount path =
     bind_op (require_mount mount False) (\<lambda>m.
     bind_op (resolve_op (m_point m) path) (\<lambda>found.
     bind_op (guard_op (rs_type found \<noteq> CONTAINER) NotAnEntry) (\<lambda>_.
     get_sum (read_content_bytes L (rs_node found)))))"

definition path_of :: "mount_id \<Rightarrow> node_id \<Rightarrow> string op" where
  "path_of mount n =
     bind_op (require_mount mount False) (\<lambda>m.
     get_sum (\<lambda>s. build_path (tabs s) n (Some (m_point m))))"

end
