(* ===== verification/Manifest.thy ===== *)
theory Manifest
  imports Session
begin

text \<open>
  The content store of \<open>db.py\<close> as an abstract data type: what a version of an entry
  stores, and what staging a chunk does to it.

  \<open>manifest t n v\<close> is the table \<open>content_version\<close> read as a map from chunk index to
  address, \<open>piece\<close> the plaintext behind an address, and \<open>stored L c t n v ps\<close> says that
  version \<open>v\<close> of \<open>n\<close> is exactly the plaintext chunks \<open>ps\<close> under cipher \<open>c\<close>.
  \<open>content_is\<close> adds the committed row: the entry's bytes are \<open>B\<close>, cut into uniform
  chunks. \<open>collision_free\<close> is what the address of a chunk must provide: an address already
  in the pool, or given to another plaintext, never belongs to different content.
\<close>

section \<open>Lists of chunks\<close>

lemma split_chunks_Nil [simp]: "split_chunks cs [] = []"
  by (subst split_chunks.simps) simp

lemma split_chunks_zero [simp]: "split_chunks 0 xs = []"
  by (subst split_chunks.simps) simp

lemma split_chunks_ne:
  "xs \<noteq> [] \<Longrightarrow> 0 < cs \<Longrightarrow> split_chunks cs xs = take cs xs # split_chunks cs (drop cs xs)"
  by (subst split_chunks.simps) simp

lemma concat_split_chunks: "0 < cs \<Longrightarrow> concat (split_chunks cs xs) = xs"
proof (induction cs xs rule: split_chunks.induct)
  case (1 cs xs)
  then show ?case by (cases "xs = []") (simp_all add: split_chunks_ne)
qed

lemma split_chunks_append:
  "0 < cs \<Longrightarrow> cs dvd length xs \<Longrightarrow> split_chunks cs (xs @ ys) = split_chunks cs xs @ split_chunks cs ys"
proof (induction cs xs rule: split_chunks.induct)
  case (1 cs xs)
  show ?case
  proof (cases "xs = []")
    case False
    with 1 have le: "cs \<le> length xs" by (auto intro: dvd_imp_le)
    with 1 False have "split_chunks cs (drop cs xs @ ys) =
        split_chunks cs (drop cs xs) @ split_chunks cs ys"
      by (intro "1.IH") (auto simp: dvd_diff_nat)
    with False le 1 show ?thesis by (simp add: split_chunks_ne)
  qed simp
qed

lemma length_split_chunks:
  "0 < cs \<Longrightarrow> length (split_chunks cs xs) = (length xs + cs - 1) div cs"
proof (induction cs xs rule: split_chunks.induct)
  case (1 cs xs)
  show ?case
  proof (cases "xs = []")
    case True
    with 1 show ?thesis by simp
  next
    case False
    with 1 have "length (split_chunks cs (drop cs xs)) = (length xs - cs + cs - 1) div cs" by simp
    moreover have "Suc ((length xs - cs + cs - 1) div cs) = (length xs + cs - 1) div cs"
    proof (cases "cs \<le> length xs")
      case True
      have e: "length xs + cs - 1 = (length xs - 1) + cs" using False by (cases xs) auto
      have l: "length xs - cs + cs - 1 = length xs - 1" using True by simp
      show ?thesis unfolding e l using 1 by (subst div_add_self2) auto
    next
      case False
      have e: "length xs + cs - 1 = (length xs - 1) + cs"
        using \<open>xs \<noteq> []\<close> by (cases xs) auto
      have l: "length xs - cs + cs - 1 = cs - 1" using False by simp
      have "(length xs - 1) div cs = 0" "(cs - 1) div cs = 0" using False 1 by auto
      with 1 show ?thesis unfolding e l by (subst div_add_self2) auto
    qed
    ultimately show ?thesis using False 1 by (simp add: split_chunks_ne)
  qed
qed

lemma nth_split_chunks:
  "0 < cs \<Longrightarrow> i < length (split_chunks cs xs) \<Longrightarrow>
     split_chunks cs xs ! i = take cs (drop (i * cs) xs)"
proof (induction cs xs arbitrary: i rule: split_chunks.induct)
  case (1 cs xs)
  show ?case
  proof (cases "xs = []")
    case False
    with 1 show ?thesis
      by (cases i) (auto simp: split_chunks_ne add.commute)
  qed (use 1 in simp)
qed

lemma split_chunks_nonempty: "p \<in> set (split_chunks cs xs) \<Longrightarrow> p \<noteq> [] \<and> length p \<le> cs"
proof (induction cs xs rule: split_chunks.induct)
  case (1 cs xs)
  then show ?case
    by (cases "xs = [] \<or> cs = 0") (auto simp: split_chunks_ne)
qed

text \<open>The first \<open>k\<close> chunks are the chunks of the first \<open>k * cs\<close> bytes.\<close>

lemma take_split_chunks:
  "0 < cs \<Longrightarrow> take k (split_chunks cs xs) = split_chunks cs (take (k * cs) xs)"
proof (induction k arbitrary: xs)
  case (Suc k)
  show ?case
  proof (cases "xs = []")
    case False
    then have "take (cs + k * cs) xs \<noteq> []" using Suc by auto
    with False Suc show ?thesis
      by (simp add: split_chunks_ne min_absorb1 drop_take)
  qed simp
qed simp

lemma drop_split_chunks:
  "0 < cs \<Longrightarrow> drop k (split_chunks cs xs) = split_chunks cs (drop (k * cs) xs)"
proof (induction k arbitrary: xs)
  case (Suc k)
  then show ?case
    by (cases "xs = []") (simp_all add: split_chunks_ne add.commute)
qed simp

section \<open>The manifest as a map\<close>

definition manifest :: "tables \<Rightarrow> node_id \<Rightarrow> nat \<Rightarrow> nat \<rightharpoonup> string" where
  "manifest t n v i = map_option cv_hash (row_at version_key (n, v, i) (versions t))"

definition piece :: "crypto_lib \<Rightarrow> cipher \<Rightarrow> tables \<Rightarrow> string \<rightharpoonup> bytes" where
  "piece L c t h =
     (case chunk_at t h of None \<Rightarrow> None
      | Some ch \<Rightarrow> decrypt_chunk L c (ch_data ch) (ch_nonce ch) (ch_tag ch))"

definition stored ::
  "crypto_lib \<Rightarrow> cipher \<Rightarrow> tables \<Rightarrow> node_id \<Rightarrow> nat \<Rightarrow> bytes list \<Rightarrow> bool" where
  "stored L c t n v ps \<longleftrightarrow>
     (\<forall>i. case manifest t n v i of
            None \<Rightarrow> length ps \<le> i
          | Some h \<Rightarrow> i < length ps \<and> piece L c t h = Some (ps ! i))"

definition content_is ::
  "crypto_lib \<Rightarrow> cipher \<Rightarrow> nat \<Rightarrow> tables \<Rightarrow> node_id \<Rightarrow> bytes \<Rightarrow> bool" where
  "content_is L c cs t n B \<longleftrightarrow>
     (\<exists>r. content_at t n = Some r \<and> ct_size r = length B
        \<and> stored L c t n (ct_version r) (split_chunks cs B))"

definition keys_ok :: "tables \<Rightarrow> bool" where
  "keys_ok t \<longleftrightarrow> distinct (map version_key (versions t))"

lemma row_key:
  "row_at version_key (n, v, i) rs = Some r \<Longrightarrow> cv_node r = n \<and> cv_version r = v \<and> cv_index r = i"
  by (drule row_at_SomeD) (simp add: version_key_def)

lemma stored_length: "stored L c t n v ps \<Longrightarrow> manifest t n v i = None \<longleftrightarrow> length ps \<le> i"
  by (auto simp: stored_def dest!: spec [of _ i] split: option.splits)

lemma stored_nth:
  "stored L c t n v ps \<Longrightarrow> i < length ps \<Longrightarrow>
     \<exists>h. manifest t n v i = Some h \<and> piece L c t h = Some (ps ! i)"
  by (auto simp: stored_def dest!: spec [of _ i] split: option.splits)

lemma stored_unique: "stored L c t n v ps \<Longrightarrow> stored L c t n v qs \<Longrightarrow> ps = qs"
proof (rule nth_equalityI)
  assume a: "stored L c t n v ps" "stored L c t n v qs"
  then show "length ps = length qs"
    using stored_length by (metis linorder_not_less nat_less_le order_refl)
  fix i assume "i < length ps"
  with a show "ps ! i = qs ! i"
    using stored_nth [of L c t n v ps i] stored_nth [of L c t n v qs i] stored_length
    by (metis linorder_not_le option.distinct(1) option.inject)
qed

text \<open>The rows of a version that stores \<open>m\<close> chunks, in order.\<close>

lemma version_rows_eq:
  assumes keys: "keys_ok t" and dom: "\<And>i. manifest t n v i = None \<longleftrightarrow> m \<le> i"
  shows "version_rows t n v =
    map (\<lambda>i. the (row_at version_key (n, v, i) (versions t))) [0..<m]"
proof -
  let ?rs = "filter (\<lambda>r. cv_node r = n \<and> cv_version r = v) (versions t)"
  have at: "row_at version_key (n, v, cv_index r) (versions t) = Some r" if "r \<in> set ?rs" for r
    using that row_at_mem [of version_key "versions t" r] keys
    by (auto simp: keys_ok_def version_key_def)
  have dist: "distinct (map cv_index ?rs)"
  proof -
    have "distinct (map version_key ?rs)"
      using keys by (auto simp: keys_ok_def distinct_map intro: inj_on_subset)
    moreover have "map version_key ?rs = map (\<lambda>i. (n, v, i)) (map cv_index ?rs)"
      by (auto simp: version_key_def)
    ultimately have "distinct (map (\<lambda>i. (n, v, i)) (map cv_index ?rs))" by (simp only:)
    then show ?thesis by (simp only: distinct_map)
  qed
  have set: "set (map cv_index ?rs) = {0..<m}"
  proof (intro equalityI subsetI)
    fix i assume "i \<in> set (map cv_index ?rs)"
    then have "manifest t n v i \<noteq> None" using at by (force simp: manifest_def)
    with dom show "i \<in> {0..<m}" by auto
  next
    fix i assume "i \<in> {0..<m}"
    then obtain r where "row_at version_key (n, v, i) (versions t) = Some r"
      using dom [of i] by (auto simp: manifest_def)
    then have "r \<in> set (versions t)" "version_key r = (n, v, i)" by (auto dest: row_at_SomeD)
    then show "i \<in> set (map cv_index ?rs)" by (auto simp: version_key_def image_iff)
  qed
  have "map cv_index (version_rows t n v) = [0..<m]"
    using dist set
    by (intro sorted_distinct_set_unique) (auto simp: version_rows_def distinct_map)
  moreover have "map (\<lambda>r. the (row_at version_key (n, v, cv_index r) (versions t)))
      (version_rows t n v) = version_rows t n v"
    by (rule map_idI) (use at in \<open>auto simp: version_rows_def\<close>)
  ultimately show ?thesis by (metis (no_types, lifting) list.map_comp comp_def map_eq_conv)
qed

lemma join_pieces:
  assumes "\<And>i. i \<in> set is \<Longrightarrow> \<exists>r. row_at version_key (n, v, i) (versions t) = Some r
      \<and> piece L c t (cv_hash r) = Some (f i)"
  shows "decrypt_rows L c (join_chunks t
      (map (\<lambda>i. the (row_at version_key (n, v, i) (versions t))) is)) = Inr (map (\<lambda>i. (i, f i)) is)"
  using assms
proof (induction "is")
  case (Cons i "is")
  then obtain r where r: "row_at version_key (n, v, i) (versions t) = Some r"
    "piece L c t (cv_hash r) = Some (f i)" by auto
  then have "cv_index r = i" by (auto simp: version_key_def dest: row_at_SomeD)
  with r Cons show ?case
    by (auto simp: join_chunks_def piece_def split: option.splits)
qed (simp add: join_chunks_def)

lemma read_stored_range:
  assumes "keys_ok t" and st: "stored L c t n v ps"
  shows "decrypt_rows L c (read_chunks_range t n v lo hi) =
    Inr (map (\<lambda>i. (i, ps ! i)) [lo..<min (length ps) (Suc hi)])"
proof -
  have rows: "version_rows t n v =
      map (\<lambda>i. the (row_at version_key (n, v, i) (versions t))) [0..<length ps]"
    using assms by (intro version_rows_eq) (auto simp: stored_length)
  have at: "\<exists>r. row_at version_key (n, v, i) (versions t) = Some r
      \<and> cv_index r = i \<and> piece L c t (cv_hash r) = Some (ps ! i)" if "i < length ps" for i
    using stored_nth [OF st that] by (auto simp: manifest_def dest: row_key)
  have "filter (\<lambda>r. lo \<le> cv_index r \<and> cv_index r \<le> hi) (version_rows t n v) =
      map (\<lambda>i. the (row_at version_key (n, v, i) (versions t)))
        (filter (\<lambda>i. lo \<le> i \<and> i \<le> hi) [0..<length ps])"
    unfolding rows filter_map
    by (rule arg_cong [where f = "map _"], rule filter_cong) (use at in force)+
  moreover have "filter (\<lambda>i. lo \<le> i \<and> i \<le> hi) [0..<length ps] = [lo..<min (length ps) (Suc hi)]"
    by (rule sorted_distinct_set_unique) (auto intro: sorted_wrt_filter)
  ultimately show ?thesis
    unfolding read_chunks_range_def using at
    by (simp only:) (rule join_pieces, force)
qed

lemma read_stored:
  assumes "keys_ok t" and st: "stored L c t n v ps"
  shows "decrypt_rows L c (join_chunks t (version_rows t n v)) =
    Inr (map (\<lambda>i. (i, ps ! i)) [0..<length ps])"
proof -
  have rows: "version_rows t n v =
      map (\<lambda>i. the (row_at version_key (n, v, i) (versions t))) [0..<length ps]"
    using assms by (intro version_rows_eq) (auto simp: stored_length)
  have at: "\<exists>r. row_at version_key (n, v, i) (versions t) = Some r
      \<and> piece L c t (cv_hash r) = Some (ps ! i)" if "i < length ps" for i
    using stored_nth [OF st that] by (auto simp: manifest_def)
  show ?thesis unfolding rows by (rule join_pieces) (use at in auto)
qed

lemma read_content_is:
  assumes "keys_ok (tabs s)" and "content_is L (cipher_of s) cs (tabs s) n B" and "0 < cs"
  shows "read_content_bytes L n s = Inr B"
proof -
  from assms obtain r where r: "content_at (tabs s) n = Some r"
    "stored L (cipher_of s) (tabs s) n (ct_version r) (split_chunks cs B)"
    by (auto simp: content_is_def)
  from read_stored [OF assms(1) r(2)]
  have "decrypt_rows L (cipher_of s) (join_chunks (tabs s) (version_rows (tabs s) n (ct_version r))) =
    Inr (map (\<lambda>i. (i, split_chunks cs B ! i)) [0..<length (split_chunks cs B)])" .
  moreover have "map (snd \<circ> (\<lambda>i. (i, split_chunks cs B ! i))) [0..<length (split_chunks cs B)] = split_chunks cs B"
    by (simp add: comp_def map_nth)
  ultimately show ?thesis using r assms(3)
    by (simp add: read_content_bytes_def concat_split_chunks)
qed

section \<open>Staging\<close>

definition content_frame :: "db \<Rightarrow> db \<Rightarrow> bool" where
  "content_frame s s' \<longleftrightarrow>
     (\<exists>d cs vs. s' = s\<lparr>draws := d, tabs := (tabs s)\<lparr>chunks := cs, versions := vs\<rparr>\<rparr>)"

definition pool_le :: "tables \<Rightarrow> tables \<Rightarrow> bool" where
  "pool_le t t' \<longleftrightarrow> (\<forall>h ch. chunk_at t h = Some ch \<longrightarrow> chunk_at t' h = Some ch)"

text \<open>
  \<open>U\<close> is the set of plaintext chunks the file is ever given: an address in the pool that
  some encryption of a chunk of \<open>U\<close> gets belongs to a row that decrypts to that chunk, and
  two encryptions with one address are of one chunk.
\<close>

definition collision_free :: "crypto_lib \<Rightarrow> cipher \<Rightarrow> bytes set \<Rightarrow> tables \<Rightarrow> bool" where
  "collision_free L c U t \<longleftrightarrow>
     (\<forall>ch \<in> set (chunks t). \<forall>p \<in> U. \<forall>rnd i.
        chunk_hash L (fst (encrypt_chunk L rnd i c p)) = ch_hash ch \<longrightarrow>
        decrypt_chunk L c (ch_data ch) (ch_nonce ch) (ch_tag ch) = Some p)
     \<and> (\<forall>p \<in> U. \<forall>q \<in> U. \<forall>rnd i rnd' j.
        chunk_hash L (fst (encrypt_chunk L rnd i c p)) = chunk_hash L (fst (encrypt_chunk L rnd' j c q))
          \<longrightarrow> p = q)"

definition staged ::
  "crypto_lib \<Rightarrow> node_id \<Rightarrow> nat \<Rightarrow> nat \<Rightarrow> bytes list \<Rightarrow> db \<Rightarrow> db \<Rightarrow> bool" where
  "staged L n v k ps s s' \<longleftrightarrow>
     content_frame s s' \<and> keys_ok (tabs s') \<and> pool_le (tabs s) (tabs s')
     \<and> (\<forall>m w j. \<not> (m = n \<and> w = v \<and> k \<le> j \<and> j < k + length ps) \<longrightarrow>
          manifest (tabs s') m w j = manifest (tabs s) m w j)
     \<and> (\<forall>i < length ps. \<exists>h. manifest (tabs s') n v (k + i) = Some h
          \<and> piece L (cipher_of s) (tabs s') h = Some (ps ! i))"

lemma content_frame_refl [simp]: "content_frame s s"
  unfolding content_frame_def
  by (rule exI [of _ "draws s"], rule exI [of _ "chunks (tabs s)"], rule exI [of _ "versions (tabs s)"]) simp

lemma content_frame_trans: "content_frame s s' \<Longrightarrow> content_frame s' s'' \<Longrightarrow> content_frame s s''"
  by (clarsimp simp: content_frame_def) blast

lemma content_frameD:
  assumes "content_frame s s'"
  shows "nodes (tabs s') = nodes (tabs s)" "contents (tabs s') = contents (tabs s)"
    "edges (tabs s') = edges (tabs s)" "volumes (tabs s') = volumes (tabs s)"
    "mounts (tabs s') = mounts (tabs s)" "locks (tabs s') = locks (tabs s)"
    "xattrs (tabs s') = xattrs (tabs s)" "now s' = now s" "sql_now s' = sql_now s"
    "entropy s' = entropy s" "mints s' = mints s" "pending_wm s' = pending_wm s"
    "in_txn s' = in_txn s" "cipher_of s' = cipher_of s" "session_of s' = session_of s"
  using assms by (auto simp: content_frame_def)

lemma pool_le_refl [simp]: "pool_le t t"
  by (simp add: pool_le_def)

lemma pool_le_trans: "pool_le t t' \<Longrightarrow> pool_le t' t'' \<Longrightarrow> pool_le t t''"
  by (auto simp: pool_le_def)

lemma piece_mono: "pool_le t t' \<Longrightarrow> piece L c t h = Some p \<Longrightarrow> piece L c t' h = Some p"
  by (auto simp: piece_def pool_le_def split: option.splits)

lemma stored_frame:
  assumes "stored L c t n v ps" and "pool_le t t'" and "\<And>j. manifest t' n v j = manifest t n v j"
  shows "stored L c t' n v ps"
  unfolding stored_def
proof
  fix i
  show "case manifest t' n v i of None \<Rightarrow> length ps \<le> i
      | Some h \<Rightarrow> i < length ps \<and> piece L c t' h = Some (ps ! i)"
    using assms(1) [unfolded stored_def, rule_format, of i] assms(2,3)
    by (auto split: option.splits dest: piece_mono)
qed

lemma staged_trans:
  assumes "staged L n v k ps s s'" and "staged L n v (k + length ps) qs s' s''"
  shows "staged L n v k (ps @ qs) s s''"
  unfolding staged_def
proof (intro conjI allI impI)
  from assms have fr: "content_frame s s'" "content_frame s' s''"
    and pl: "pool_le (tabs s) (tabs s')" "pool_le (tabs s') (tabs s'')"
    by (auto simp: staged_def)
  then show "content_frame s s''" "pool_le (tabs s) (tabs s'')"
    by (auto intro: content_frame_trans pool_le_trans)
  show "keys_ok (tabs s'')" using assms by (simp add: staged_def)
  fix m w j assume "\<not> (m = n \<and> w = v \<and> k \<le> j \<and> j < k + length (ps @ qs))"
  with assms show "manifest (tabs s'') m w j = manifest (tabs s) m w j"
    by (auto simp: staged_def)
next
  fix i assume i: "i < length (ps @ qs)"
  have c: "cipher_of s' = cipher_of s" using assms by (auto simp: staged_def dest: content_frameD)
  show "\<exists>h. manifest (tabs s'') n v (k + i) = Some h
      \<and> piece L (cipher_of s) (tabs s'') h = Some ((ps @ qs) ! i)"
  proof (cases "i < length ps")
    case True
    with assms(1) obtain h where "manifest (tabs s') n v (k + i) = Some h"
      "piece L (cipher_of s) (tabs s') h = Some (ps ! i)" by (auto simp: staged_def)
    with True assms(2) show ?thesis
      by (auto simp: staged_def nth_append intro: piece_mono)
  next
    case False
    then obtain j where j: "i = length ps + j" "j < length qs" using i
      by (metis add_diff_inverse_nat length_append nat_add_left_cancel_less)
    with assms(2) c show ?thesis
      by (auto simp: staged_def nth_append add.assoc)
  qed
qed

lemma row_at_append:
  "row_at key k (xs @ ys) = (case row_at key k xs of None \<Rightarrow> row_at key k ys | Some r \<Rightarrow> Some r)"
  by (induction xs) auto

lemma stage_chunk_ok:
  assumes lib: "lib_ok L" and keys: "keys_ok (tabs s)"
    and cf: "collision_free L (cipher_of s) U (tabs s)" and U: "p \<in> U"
    and node: "node_at (tabs s) n \<noteq> None" and free: "manifest (tabs s) n v k = None"
  shows "\<exists>s'. stage_chunk L n v k p s = (Inr (), s') \<and> staged L n v k [p] s s'
           \<and> collision_free L (cipher_of s) U (tabs s')"
proof -
  let ?c = "cipher_of s" and ?t = "tabs s"
  obtain ct nc tg where e: "encrypt_chunk L (entropy s) (draws s) ?c p = (ct, nc, tg)"
    by (metis prod_cases3)
  let ?h = "chunk_hash L ct"
  let ?row = "\<lparr>ch_hash = ?h, ch_data = ct, ch_length = length p, ch_nonce = nc, ch_tag = tg\<rparr>"
  let ?cv = "\<lparr>cv_node = n, cv_version = v, cv_index = k, cv_hash = ?h\<rparr>"
  let ?t1 = "upsert_chunk_row ?row ?t"
  let ?t2 = "?t1\<lparr>versions := versions ?t1 @ [?cv]\<rparr>"
  let ?s' = "s\<lparr>draws := draws s + nonce_draws ?c, tabs := ?t2\<rparr>"
  have dec: "decrypt_chunk L ?c ct nc tg = Some p" using lib e by (rule seam.dec_enc)
  have fr1: "versions ?t1 = versions ?t" "nodes ?t1 = nodes ?t" "chunks ?t2 = chunks ?t1"
    by (simp_all add: upsert_chunk_row_def)
  obtain ch where ch: "chunk_at ?t1 ?h = Some ch"
      "decrypt_chunk L ?c (ch_data ch) (ch_nonce ch) (ch_tag ch) = Some p"
  proof (cases "chunk_at ?t ?h")
    case None
    then have "chunk_at ?t1 ?h = Some ?row" by (simp add: upsert_chunk_row_def row_simps)
    with dec that show ?thesis by simp
  next
    case (Some q)
    then have "q \<in> set (chunks ?t)" "ch_hash q = ?h" by (auto dest: row_at_SomeD)
    with cf U e have "decrypt_chunk L ?c (ch_data q) (ch_nonce q) (ch_tag q) = Some p"
      unfolding collision_free_def by (metis fst_conv)
    with Some that show ?thesis by (simp add: upsert_chunk_row_def)
  qed
  have run: "stage_chunk L n v k p s = (Inr (), ?s')"
    using free node ch e
    by (simp add: stage_chunk_def encrypt_op_def bind_op_def sql_update_def sql_def
        insert_version_def Let_def version_key_def manifest_def fr1 split: option.splits)
  have pl: "pool_le ?t ?t1"
    by (auto simp: pool_le_def upsert_chunk_row_def row_simps)
  have man: "manifest ?t2 m w j = (if m = n \<and> w = v \<and> j = k then Some ?h else manifest ?t m w j)"
    for m w j
    using free by (auto simp: manifest_def fr1 row_at_append version_key_def split: option.splits)
  have pc: "piece L ?c ?t2 ?h = Some p" using ch by (simp add: piece_def fr1)
  have k2: "keys_ok ?t2"
    using keys free by (auto simp: keys_ok_def fr1 manifest_def row_at_None_iff version_key_def)
  have "content_frame s ?s'"
    unfolding content_frame_def
    by (rule exI [of _ "draws s + nonce_draws ?c"], rule exI [of _ "chunks ?t1"],
        rule exI [of _ "versions ?t @ [?cv]"]) (simp add: upsert_chunk_row_def)
  then have "staged L n v k [p] s ?s'"
    unfolding staged_def using man pc k2 pl by (auto simp: pool_le_def fr1)
  moreover have "collision_free L ?c U ?t2"
  proof -
    have "set (chunks ?t2) \<subseteq> insert ?row (set (chunks ?t))"
      by (auto simp: upsert_chunk_row_def)
    moreover have "q = p" if "q \<in> U" "chunk_hash L (fst (encrypt_chunk L rnd i ?c q)) = ?h" for q rnd i
      using cf U that e unfolding collision_free_def by (metis fst_conv)
    ultimately show ?thesis using cf dec unfolding collision_free_def by fastforce
  qed
  ultimately show ?thesis using run by auto
qed

lemma stage_list_ok:
  assumes "lib_ok L" and "keys_ok (tabs s)" and "collision_free L (cipher_of s) U (tabs s)"
    and "set ps \<subseteq> U" and "node_at (tabs s) n \<noteq> None"
    and "\<And>i. i < length ps \<Longrightarrow> manifest (tabs s) n v (k + i) = None"
  shows "\<exists>s'. stage_list L n v k ps s = (Inr (), s') \<and> staged L n v k ps s s'
           \<and> collision_free L (cipher_of s) U (tabs s')"
  using assms
proof (induction ps arbitrary: s k)
  case Nil
  then show ?case by (auto simp: op_simps staged_def)
next
  case (Cons p ps)
  have "manifest (tabs s) n v k = None" using Cons.prems(6) [of 0] by simp
  with Cons.prems obtain s1 where s1: "stage_chunk L n v k p s = (Inr (), s1)"
    "staged L n v k [p] s s1" "collision_free L (cipher_of s) U (tabs s1)"
    using stage_chunk_ok [of L s U p n v k] by auto
  have fr: "content_frame s s1" using s1 by (simp add: staged_def)
  note D = content_frameD [OF fr]
  have "manifest (tabs s1) n v (Suc k + i) = None" if "i < length ps" for i
    using Cons.prems(6) [of "Suc i"] that s1(2) by (auto simp: staged_def)
  with Cons s1 D obtain s2 where s2: "stage_list L n v (Suc k) ps s1 = (Inr (), s2)"
    "staged L n v (Suc k) ps s1 s2" "collision_free L (cipher_of s) U (tabs s2)"
    using Cons.IH [of s1 "Suc k"] by (auto simp: staged_def)
  have "staged L n v k ([p] @ ps) s s2" using s1(2) s2(2) by (intro staged_trans) auto
  with s1 s2 show ?case by (auto simp: op_simps)
qed

section \<open>Carrying chunks by reference\<close>

lemma insert_versions_ok:
  "\<lbrakk>\<forall>r \<in> set rs. node_at t (cv_node r) \<noteq> None \<and> chunk_at t (cv_hash r) \<noteq> None
      \<and> row_at version_key (version_key r) (versions t) = None;
    distinct (map version_key rs)\<rbrakk> \<Longrightarrow>
   insert_versions rs t = Inr (t\<lparr>versions := versions t @ rs\<rparr>)"
proof (induction rs arbitrary: t)
  case (Cons r rs)
  have "insert_version r t = Inr (t\<lparr>versions := versions t @ [r]\<rparr>)"
    using Cons.prems by (simp add: insert_version_def)
  moreover have "insert_versions rs (t\<lparr>versions := versions t @ [r]\<rparr>) =
      Inr (t\<lparr>versions := versions t @ [r]\<rparr>\<lparr>versions := versions (t\<lparr>versions := versions t @ [r]\<rparr>) @ rs\<rparr>)"
    using Cons.prems by (intro Cons.IH) (auto simp: row_simps split: option.splits)
  ultimately show ?case by simp
qed simp

lemma version_key_eq:
  "version_key r = (n, v, i) \<longleftrightarrow> cv_node r = n \<and> cv_version r = v \<and> cv_index r = i"
  by (simp add: version_key_def)

lemma row_at_relabel:
  "row_at version_key (m, w, j) (map (\<lambda>r. r\<lparr>cv_version := dst\<rparr>)
     (filter (\<lambda>r. cv_node r = n \<and> cv_version r = src \<and> lo \<le> cv_index r \<and> cv_index r \<le> hi) rs)) =
   (if m = n \<and> w = dst \<and> lo \<le> j \<and> j \<le> hi
    then map_option (\<lambda>r. r\<lparr>cv_version := dst\<rparr>) (row_at version_key (n, src, j) rs) else None)"
  by (induction rs) (auto simp: version_key_eq)

lemma copy_chunk_refs_range_ok:
  assumes keys: "keys_ok t" and node: "node_at t n \<noteq> None"
    and st: "stored L c t n src ps"
    and free: "\<And>j. lo \<le> j \<Longrightarrow> j \<le> hi \<Longrightarrow> manifest t n dst j = None"
  shows "\<exists>vs. copy_chunk_refs_range n dst src lo hi t = Inr (t\<lparr>versions := vs\<rparr>)
     \<and> keys_ok (t\<lparr>versions := vs\<rparr>)
     \<and> (\<forall>m w j. manifest (t\<lparr>versions := vs\<rparr>) m w j =
          (if m = n \<and> w = dst \<and> lo \<le> j \<and> j \<le> hi then manifest t n src j else manifest t m w j))"
proof -
  let ?f = "\<lambda>r. r\<lparr>cv_version := dst\<rparr>"
  let ?src = "filter (\<lambda>r. cv_node r = n \<and> cv_version r = src \<and> lo \<le> cv_index r \<and> cv_index r \<le> hi) (versions t)"
  let ?rs = "map ?f ?src"
  have ch: "chunk_at t (cv_hash r) \<noteq> None" if "r \<in> set ?src" for r
  proof -
    have "row_at version_key (n, src, cv_index r) (versions t) = Some r"
      using that row_at_mem [of version_key "versions t" r] keys
      by (auto simp: keys_ok_def version_key_def)
    then have m: "manifest t n src (cv_index r) = Some (cv_hash r)" by (simp add: manifest_def)
    then have "piece L c t (cv_hash r) \<noteq> None"
      using st [unfolded stored_def, rule_format, of "cv_index r"] by auto
    then show ?thesis by (auto simp: piece_def split: option.splits)
  qed
  have fresh: "row_at version_key (version_key (?f r)) (versions t) = None" if "r \<in> set ?src" for r
    using that free [of "cv_index r"] by (auto simp: manifest_def version_key_def)
  have dist: "distinct (map version_key ?rs)"
  proof -
    have "distinct (map version_key ?src)"
      using keys by (auto simp: keys_ok_def distinct_map intro: inj_on_subset)
    then have "inj_on version_key (set ?src)" "distinct ?src" by (auto simp: distinct_map)
    then show ?thesis
      by (auto simp: distinct_map inj_on_def version_key_def intro!: inj_onI)
  qed
  have run: "copy_chunk_refs_range n dst src lo hi t = Inr (t\<lparr>versions := versions t @ ?rs\<rparr>)"
    unfolding copy_chunk_refs_range_def
    by (rule insert_versions_ok) (use ch fresh node dist in auto)
  have k: "keys_ok (t\<lparr>versions := versions t @ ?rs\<rparr>)"
    using keys dist fresh by (fastforce simp: keys_ok_def row_at_None_iff)
  have "manifest (t\<lparr>versions := versions t @ ?rs\<rparr>) m w j =
      (if m = n \<and> w = dst \<and> lo \<le> j \<and> j \<le> hi then manifest t n src j else manifest t m w j)" for m w j
    using free [of j]
    by (auto simp: manifest_def row_at_append row_at_relabel option.map_comp comp_def
        split: option.splits)
  with run k show ?thesis by blast
qed

section \<open>Growing a version\<close>

text \<open>
  \<open>grown L n v f s s'\<close>: from \<open>s\<close> to \<open>s'\<close> version \<open>v\<close> of \<open>n\<close> got the chunks of the finite map
  \<open>f\<close>, and nothing else of the file changed but the pool, which only grew.
\<close>

definition grown ::
  "crypto_lib \<Rightarrow> node_id \<Rightarrow> nat \<Rightarrow> (nat \<rightharpoonup> bytes) \<Rightarrow> db \<Rightarrow> db \<Rightarrow> bool" where
  "grown L n v f s s' \<longleftrightarrow>
     content_frame s s' \<and> keys_ok (tabs s') \<and> pool_le (tabs s) (tabs s')
     \<and> (\<forall>m w j. \<not> (m = n \<and> w = v \<and> f j \<noteq> None) \<longrightarrow>
          manifest (tabs s') m w j = manifest (tabs s) m w j)
     \<and> (\<forall>j p. f j = Some p \<longrightarrow> (\<exists>h. manifest (tabs s') n v j = Some h
          \<and> piece L (cipher_of s) (tabs s') h = Some p))"

definition slots :: "nat \<Rightarrow> 'a list \<Rightarrow> nat \<rightharpoonup> 'a" where
  "slots k ps j = (if k \<le> j \<and> j < k + length ps then Some (ps ! (j - k)) else None)"

lemma grown_refl: "keys_ok (tabs s) \<Longrightarrow> grown L n v Map.empty s s"
  by (simp add: grown_def)

lemma staged_grown: "staged L n v k ps s s' \<Longrightarrow> grown L n v (slots k ps) s s'"
  unfolding staged_def grown_def slots_def
  by (auto split: if_splits) (metis le_add_diff_inverse nat_add_left_cancel_less)+

lemma grown_trans:
  assumes "grown L n v f s s'" and "grown L n v g s' s''" and "dom f \<inter> dom g = {}"
  shows "grown L n v (f ++ g) s s''"
  unfolding grown_def
proof (intro conjI allI impI)
  from assms have fr: "content_frame s s'" "content_frame s' s''"
    and pl: "pool_le (tabs s) (tabs s')" "pool_le (tabs s') (tabs s'')"
    by (auto simp: grown_def)
  then show "content_frame s s''" "pool_le (tabs s) (tabs s'')"
    by (auto intro: content_frame_trans pool_le_trans)
  show "keys_ok (tabs s'')" using assms by (simp add: grown_def)
  fix m w j assume "\<not> (m = n \<and> w = v \<and> (f ++ g) j \<noteq> None)"
  with assms show "manifest (tabs s'') m w j = manifest (tabs s) m w j"
    by (auto simp: grown_def map_add_None)
next
  fix j p assume "(f ++ g) j = Some p"
  then consider "g j = Some p" | "g j = None" "f j = Some p" by (auto simp: map_add_Some_iff)
  then show "\<exists>h. manifest (tabs s'') n v j = Some h \<and> piece L (cipher_of s) (tabs s'') h = Some p"
  proof cases
    case 1
    have "cipher_of s' = cipher_of s" using assms by (auto simp: grown_def dest: content_frameD)
    with 1 assms(2) show ?thesis by (auto simp: grown_def)
  next
    case 2
    with assms(1) obtain h where "manifest (tabs s') n v j = Some h"
      "piece L (cipher_of s) (tabs s') h = Some p" unfolding grown_def by blast
    with 2 assms(2) show ?thesis unfolding grown_def by (metis piece_mono)
  qed
qed

lemma grown_stored:
  assumes "grown L n v (slots 0 qs) s s'" and "\<And>j. manifest (tabs s) n v j = None"
  shows "stored L (cipher_of s) (tabs s') n v qs"
  unfolding stored_def
proof
  fix i
  show "case manifest (tabs s') n v i of None \<Rightarrow> length qs \<le> i
      | Some h \<Rightarrow> i < length qs \<and> piece L (cipher_of s) (tabs s') h = Some (qs ! i)"
  proof (cases "i < length qs")
    case True
    then have "slots 0 qs i = Some (qs ! i)" by (simp add: slots_def)
    with assms(1) True show ?thesis by (fastforce simp: grown_def)
  next
    case False
    then have "slots 0 qs i = None" by (simp add: slots_def)
    with assms False have "manifest (tabs s') n v i = None" by (simp add: grown_def)
    with False show ?thesis by simp
  qed
qed

lemma copy_grown:
  assumes "keys_ok (tabs s)" and "node_at (tabs s) n \<noteq> None"
    and st: "stored L (cipher_of s) (tabs s) n src ps"
    and "\<And>j. lo \<le> j \<Longrightarrow> j \<le> hi \<Longrightarrow> manifest (tabs s) n dst j = None"
  shows "\<exists>s'. sql (copy_chunk_refs_range n dst src lo hi) s = (Inr (), s')
     \<and> grown L n dst (\<lambda>j. if lo \<le> j \<and> j \<le> hi \<and> j < length ps then Some (ps ! j) else None) s s'
     \<and> chunks (tabs s') = chunks (tabs s)"
proof -
  from copy_chunk_refs_range_ok [OF assms] obtain vs where
    run: "copy_chunk_refs_range n dst src lo hi (tabs s) = Inr ((tabs s)\<lparr>versions := vs\<rparr>)"
    and keys: "keys_ok ((tabs s)\<lparr>versions := vs\<rparr>)"
    and man: "\<And>m w j. manifest ((tabs s)\<lparr>versions := vs\<rparr>) m w j =
          (if m = n \<and> w = dst \<and> lo \<le> j \<and> j \<le> hi then manifest (tabs s) n src j
           else manifest (tabs s) m w j)" by blast
  let ?s' = "s\<lparr>tabs := (tabs s)\<lparr>versions := vs\<rparr>\<rparr>"
  have pc: "piece L c (tabs ?s') = piece L c (tabs s)" for c by (rule ext) (simp add: piece_def)
  have "content_frame s ?s'"
    unfolding content_frame_def
    by (rule exI [of _ "draws s"], rule exI [of _ "chunks (tabs s)"], rule exI [of _ vs]) simp
  moreover have "pool_le (tabs s) (tabs ?s')" by (simp add: pool_le_def)
  moreover have "manifest (tabs ?s') m w j = manifest (tabs s) m w j"
    if "\<not> (m = n \<and> w = dst \<and> lo \<le> j \<and> j \<le> hi \<and> j < length ps)" for m w j
    using that man [of m w j] stored_length [OF st, of j] assms(4) [of j]
    by (auto simp: not_less)
  moreover have "\<exists>h. manifest (tabs ?s') n dst j = Some h \<and> piece L (cipher_of s) (tabs ?s') h = Some (ps ! j)"
    if "lo \<le> j" "j \<le> hi" "j < length ps" for j
    using that man [of n dst j] stored_nth [OF st that(3)] pc by auto
  ultimately have "grown L n dst (\<lambda>j. if lo \<le> j \<and> j \<le> hi \<and> j < length ps then Some (ps ! j) else None) s ?s'"
    using keys unfolding grown_def by (auto split: if_splits)
  moreover have "sql (copy_chunk_refs_range n dst src lo hi) s = (Inr (), ?s')"
    using run by (simp add: sql_def)
  ultimately show ?thesis by auto
qed

section \<open>Fresh versions and the pointer swap\<close>

lemma fold_max_ge: "x \<in> set xs \<Longrightarrow> (x::nat) \<le> fold max xs k" "k \<le> fold max xs k"
proof (induction xs arbitrary: k)
  case (Cons y ys)
  { case 1
    then show ?case using Cons.IH(1) [of "max y k"] Cons.IH(2) [of "max y k"] by auto }
  { case 2
    show ?case using Cons.IH(2) [of "max y k"] by auto }
qed auto

lemma next_version_fresh: "manifest t n (next_version t n) j = None"
proof (rule ccontr)
  assume "manifest t n (next_version t n) j \<noteq> None"
  then obtain r where "r \<in> set (versions t)" "cv_node r = n" "cv_version r = next_version t n"
    by (auto simp: manifest_def version_key_def dest!: row_at_SomeD)
  then have "next_version t n \<in> set (version_numbers t n)" by (force simp: version_numbers_def)
  then have "next_version t n \<le> fold max (version_numbers t n) 0" by (rule fold_max_ge)
  then show False by (simp add: next_version_def)
qed

lemma next_version_gt: "content_at t n = Some r \<Longrightarrow> ct_version r < next_version t n"
  by (simp add: next_version_def)

definition type_at :: "tables \<Rightarrow> node_id \<Rightarrow> node_type option" where
  "type_at t n = map_option nd_type (node_at t n)"

lemma touch_frame [simp]:
  "contents (touch_modified ts n t) = contents t" "versions (touch_modified ts n t) = versions t"
  "chunks (touch_modified ts n t) = chunks t" "edges (touch_modified ts n t) = edges t"
  "volumes (touch_modified ts n t) = volumes t" "mounts (touch_modified ts n t) = mounts t"
  "locks (touch_modified ts n t) = locks t" "xattrs (touch_modified ts n t) = xattrs t"
  "type_at (touch_modified ts n t) m = type_at t m"
  by (auto simp: touch_modified_def type_at_def row_at_update option.map_comp comp_def
      intro!: option.map_cong)

lemma update_content_frame [simp]:
  "versions (update_content ts n v sz t) = versions t"
  "chunks (update_content ts n v sz t) = chunks t" "edges (update_content ts n v sz t) = edges t"
  "volumes (update_content ts n v sz t) = volumes t" "mounts (update_content ts n v sz t) = mounts t"
  "locks (update_content ts n v sz t) = locks t" "xattrs (update_content ts n v sz t) = xattrs t"
  "type_at (update_content ts n v sz t) m = type_at t m"
  by (auto simp: update_content_def) (simp add: type_at_def)

lemma update_content_row:
  "content_at (update_content ts n v sz t) m =
     (if m = n then map_option (\<lambda>r. r\<lparr>ct_version := v, ct_size := sz\<rparr>) (content_at t n)
      else content_at t m)"
  by (auto simp: update_content_def row_at_update dest: row_at_SomeD intro!: option.map_cong option.map_ident_strong)

end
