(* ===== verification/Content.thy ===== *)
theory Content
  imports Manifest
begin

text \<open>
  The content writes of \<open>aloelite/operations.py\<close>: \<open>write_all\<close>, \<open>append\<close>,
  \<open>write_range\<close>, \<open>truncate\<close>. Each stages a whole new version in one transaction, carrying
  what it can by reference, and then swaps the committed pointer.

  \<open>file_at L U cs s mount path n B\<close> says that in \<open>s\<close>, with no transaction open, \<open>path\<close>
  names through \<open>mount\<close> the writable leaf \<open>n\<close> whose bytes are \<open>B\<close>; \<open>Writes\<close> proves the
  incremental writes against it.
\<close>

section \<open>The operations\<close>

definition check_lock_held :: "timestamp \<Rightarrow> tables \<Rightarrow> node_id \<Rightarrow> mount_id \<Rightarrow> bool" where
  "check_lock_held ts t node mount \<longleftrightarrow>
     (\<exists>l \<in> set (valid_lock ts t). lk_node l = node \<and> lk_mount l \<noteq> mount)"

definition refuse_if_held :: "node_id \<Rightarrow> mount_id \<Rightarrow> unit op" where
  "refuse_if_held node mount =
     bind_op (gets (\<lambda>s. check_lock_held (sql_now s) (tabs s) node mount)) (\<lambda>held.
     guard_op (\<not> held) LockHeld)"

text \<open>The prologue the four operations share: a writable mount, and a leaf to write.\<close>

definition resolve_leaf :: "mount_id \<Rightarrow> string \<Rightarrow> bool \<Rightarrow> (mnt \<times> node_id) op" where
  "resolve_leaf mount path write =
     bind_op (require_mount mount write) (\<lambda>m.
     bind_op (resolve_op (m_point m) path) (\<lambda>found.
     bind_op (guard_op (rs_type found \<noteq> CONTAINER) NotAnEntry) (\<lambda>_.
     ret (m, rs_node found))))"

definition leaf_for_write :: "mount_id \<Rightarrow> string \<Rightarrow> (mnt \<times> node_id) op" where
  "leaf_for_write mount path =
     bind_op (resolve_leaf mount path True) (\<lambda>(m, n).
     bind_op (refuse_if_held n mount) (\<lambda>_.
     ret (m, n)))"

definition commit_content :: "node_id \<Rightarrow> nat \<Rightarrow> nat \<Rightarrow> unit op" where
  "commit_content n version sz =
     bind_op (gets sql_now) (\<lambda>ts. sql_update (update_content ts n version sz))"

text \<open>\<open>meta if meta is not None else (0, 0)\<close>\<close>

definition content_meta :: "node_id \<Rightarrow> (nat \<times> nat) op" where
  "content_meta n = gets (\<lambda>s. or_else (read_content_meta (tabs s) n) (0, 0))"

definition write_all :: "crypto_lib \<Rightarrow> mount_id \<Rightarrow> string \<Rightarrow> bytes \<Rightarrow> unit op" where
  "write_all L mount path data = txn (
     bind_op (leaf_for_write mount path) (\<lambda>(m, n).
     bind_op (alloc_version n) (\<lambda>version.
     bind_op (stage_chunks L n version (m_volume m) data) (\<lambda>sz.
     commit_content n version sz))))"

definition carry :: "node_id \<Rightarrow> nat \<Rightarrow> nat \<Rightarrow> nat \<Rightarrow> nat \<Rightarrow> unit op" where
  "carry n dst_version src_version lo hi =
     sql (copy_chunk_refs_range n dst_version src_version lo hi)"

definition read_range_op :: "crypto_lib \<Rightarrow> node_id \<Rightarrow> nat \<Rightarrow> nat \<Rightarrow> nat \<Rightarrow> (nat \<times> bytes) list op" where
  "read_range_op L n version lo hi = get_sum (read_chunk_range L n version lo hi)"

text \<open>\<open>for chunk in split_chunks(data, cs): stage_chunk(...); index += 1\<close>\<close>

definition stage_from :: "crypto_lib \<Rightarrow> node_id \<Rightarrow> nat \<Rightarrow> nat \<Rightarrow> nat \<Rightarrow> bytes \<Rightarrow> unit op" where
  "stage_from L n version index cs data =
     bind_op (split_op cs data) (\<lambda>ps. stage_list L n version index ps)"

text \<open>\<open>rows[0][1] if rows else b""\<close>\<close>

definition first_piece :: "(nat \<times> bytes) list \<Rightarrow> bytes" where
  "first_piece rows = (case rows of [] \<Rightarrow> [] | (i, d) # _ \<Rightarrow> d)"

definition size_only :: "mount_id \<Rightarrow> string \<Rightarrow> nat op" where
  "size_only mount path =
     bind_op (resolve_leaf mount path True) (\<lambda>(m, n).
     bind_op (content_meta n) (\<lambda>(v, sz). ret sz))"

definition append_op :: "crypto_lib \<Rightarrow> mount_id \<Rightarrow> string \<Rightarrow> bytes \<Rightarrow> nat op" where
  "append_op L mount path data =
     (if data = [] then size_only mount path
      else txn (
        bind_op (leaf_for_write mount path) (\<lambda>(m, n).
        bind_op (chunk_size_of (m_volume m)) (\<lambda>cs.
        bind_op (content_meta n) (\<lambda>(src_version, sz).
        bind_op (alloc_version n) (\<lambda>new_version.
        bind_op (guard_op (cs \<noteq> 0) ZeroDivisionError) (\<lambda>_.
        let full = sz div cs; partial = sz mod cs in
        bind_op (if full > 0 then carry n new_version src_version 0 (full - 1) else ret ()) (\<lambda>_.
        bind_op (if partial > 0 then read_range_op L n src_version full full else ret []) (\<lambda>rows.
        bind_op (stage_from L n new_version full cs (first_piece rows @ data)) (\<lambda>_.
        bind_op (commit_content n new_version (sz + length data)) (\<lambda>_.
        ret (sz + length data))))))))))))"

text \<open>\<open>buf.extend(zeros)\<close> up to \<open>i\<close>, then \<open>buf[i:j] = data\<close>.\<close>

definition patch :: "nat \<Rightarrow> bytes \<Rightarrow> bytes \<Rightarrow> bytes" where
  "patch i data buf =
     (let b = buf @ replicate (i - length buf) 0
      in take i b @ data @ drop (i + length data) b)"

definition write_range :: "crypto_lib \<Rightarrow> mount_id \<Rightarrow> string \<Rightarrow> int \<Rightarrow> bytes \<Rightarrow> nat op" where
  "write_range L mount path offset data =
     (if offset < 0 then fail ValueError
      else if data = [] then size_only mount path
      else txn (
        bind_op (leaf_for_write mount path) (\<lambda>(m, n).
        bind_op (chunk_size_of (m_volume m)) (\<lambda>cs.
        bind_op (content_meta n) (\<lambda>(src_version, sz).
        let off = nat offset; stop = off + length data; new_size = max sz stop in
        bind_op (alloc_version n) (\<lambda>new_version.
        bind_op (guard_op (cs \<noteq> 0) ZeroDivisionError) (\<lambda>_.
        let lo = off div cs; hi = (stop - 1) div cs;
            window_lo = min lo (sz div cs);
            src_last = (if sz > 0 then int ((sz - 1) div cs) else -1) in
        bind_op (if window_lo > 0 then carry n new_version src_version 0 (window_lo - 1)
                 else ret ()) (\<lambda>_.
        bind_op (if src_last > int hi then carry n new_version src_version (hi + 1) (nat src_last)
                 else ret ()) (\<lambda>_.
        let base = window_lo * cs; win_src_hi = min (int hi) src_last in
        bind_op (if win_src_hi \<ge> int window_lo
                 then read_range_op L n src_version window_lo (nat win_src_hi)
                 else ret []) (\<lambda>rows.
        let buf = patch (off - base) data (concat (map snd rows)) in
        bind_op (stage_from L n new_version window_lo cs buf) (\<lambda>_.
        bind_op (commit_content n new_version new_size) (\<lambda>_.
        ret new_size))))))))))))"

definition truncate_op :: "crypto_lib \<Rightarrow> mount_id \<Rightarrow> string \<Rightarrow> int \<Rightarrow> unit op" where
  "truncate_op L mount path new_size =
     (if new_size < 0 then fail ValueError
      else txn (
        bind_op (leaf_for_write mount path) (\<lambda>(m, n).
        bind_op (chunk_size_of (m_volume m)) (\<lambda>cs.
        bind_op (content_meta n) (\<lambda>(src_version, cur).
        let sz = nat new_size in
        if sz = cur then ret ()
        else
        bind_op (alloc_version n) (\<lambda>new_version.
        bind_op (guard_op (cs \<noteq> 0) ZeroDivisionError) (\<lambda>_.
        bind_op (if sz < cur then
            (let full = sz div cs; rem = sz mod cs in
             bind_op (if full > 0 then carry n new_version src_version 0 (full - 1) else ret ()) (\<lambda>_.
             if rem \<noteq> 0
             then bind_op (read_range_op L n src_version full full) (\<lambda>rows.
                  case rows of [] \<Rightarrow> fail IndexError
                  | (i, d) # _ \<Rightarrow> stage_chunk L n new_version full (take rem d))
             else ret ()))
          else
            (let full = cur div cs in
             bind_op (if full > 0 then carry n new_version src_version 0 (full - 1) else ret ()) (\<lambda>_.
             bind_op (if cur mod cs \<noteq> 0 then read_range_op L n src_version full full else ret []) (\<lambda>rows.
             let tail = first_piece rows in
             stage_from L n new_version full cs
               (tail @ replicate (sz - full * cs - length tail) 0))))) (\<lambda>_.
        commit_content n new_version sz))))))))"

section \<open>Resolution does not look at content\<close>

definition child_ids :: "tables \<Rightarrow> node_id \<Rightarrow> string \<Rightarrow> node_id list" where
  "child_ids t c nm =
     map eg_to (filter (\<lambda>e. eg_from e = c \<and> eg_name e = nm \<and> type_at t (eg_to e) \<noteq> None)
       (active_edge t))"

lemma named_children_ids: "map nd_id (named_children t c nm) = child_ids t c nm"
proof -
  have "map nd_id (map snd (filter (\<lambda>(e, r). eg_name e = nm)
      (concat (map (\<lambda>e. case node_at t (eg_to e) of None \<Rightarrow> [] | Some r \<Rightarrow> [(e, r)])
        (filter (\<lambda>e. eg_from e = c) es))))) =
    map eg_to (filter (\<lambda>e. eg_from e = c \<and> eg_name e = nm \<and> type_at t (eg_to e) \<noteq> None) es)" for es
    by (induction es) (auto simp: type_at_def split: option.splits dest: row_at_SomeD)
  then show ?thesis by (simp add: named_children_def joined_children_def child_ids_def)
qed

lemma resolve_segment_ids:
  "resolve_segment t c nm =
     (case max_id (child_ids t c nm) of None \<Rightarrow> None
      | Some n \<Rightarrow> map_option (\<lambda>ty. (n, ty)) (type_at t n))"
proof -
  have "map_option (\<lambda>r. (nd_id r, nd_type r)) (node_at t n) = map_option (\<lambda>ty. (n, ty)) (type_at t n)" for n
    by (cases "node_at t n") (auto simp: type_at_def dest: row_at_SomeD)
  then show ?thesis
    by (simp add: best_child_eq_resolve_segment [symmetric] best_child_def named_children_ids
        cong: option.case_cong)
qed

definition same_tree :: "tables \<Rightarrow> tables \<Rightarrow> bool" where
  "same_tree t t' \<longleftrightarrow> edges t' = edges t \<and> type_at t' = type_at t \<and> mounts t' = mounts t
     \<and> volumes t' = volumes t"

lemma same_tree_refl [simp]: "same_tree t t"
  by (simp add: same_tree_def)

lemma same_tree_trans: "same_tree t t' \<Longrightarrow> same_tree t' t'' \<Longrightarrow> same_tree t t''"
  by (simp add: same_tree_def)

lemma fold_segments_same:
  "same_tree t t' \<Longrightarrow> fold_segments t' n ty segs = fold_segments t n ty segs"
  by (induction segs arbitrary: n ty)
    (auto simp: resolve_segment_ids same_tree_def child_ids_def active_edge_def cong: option.case_cong)

lemma resolve_same: "same_tree t t' \<Longrightarrow> resolve t' mp path = resolve t mp path"
proof -
  assume st: "same_tree t t'"
  have "(case node_at u mp of None \<Rightarrow> Inl NotFound
     | Some r \<Rightarrow> Inr \<lparr>rs_node = mp, rs_type = nd_type r\<rparr>) =
     (case type_at u mp of None \<Rightarrow> Inl NotFound | Some ty \<Rightarrow> Inr \<lparr>rs_node = mp, rs_type = ty\<rparr>)" for u
    by (simp add: type_at_def split: option.splits)
  then show ?thesis using st fold_segments_same [OF st]
    by (cases "split_path path = []") (simp_all add: resolve_root resolve_eq_fold same_tree_def)
qed

section \<open>What the prologue reads\<close>

definition same_view :: "db \<Rightarrow> db \<Rightarrow> bool" where
  "same_view s s' \<longleftrightarrow> same_tree (tabs s) (tabs s') \<and> sql_now s' = sql_now s
     \<and> cipher_of s' = cipher_of s"

lemma require_mount_reads: "snd (require_mount mount w s) = s"
  by (auto simp: require_mount_def bind_op_def get_opt_def gets_def guard_op_def ret_def fail_def
      split: option.splits)

lemma require_mount_same:
  "same_view s s' \<Longrightarrow> fst (require_mount mount w s') = fst (require_mount mount w s)"
  by (auto simp: require_mount_def bind_op_def get_opt_def gets_def guard_op_def ret_def fail_def
      get_valid_mount_def valid_mount_def same_view_def same_tree_def split: option.splits)

lemma resolve_leaf_reads: "snd (resolve_leaf mount path w s) = s"
  using require_mount_reads [of mount w s]
  by (auto simp: resolve_leaf_def bind_op_def resolve_op_def get_sum_def guard_op_def ret_def fail_def
      split: prod.splits sum.splits)

lemma resolve_leaf_same:
  "same_view s s' \<Longrightarrow> fst (resolve_leaf mount path w s') = fst (resolve_leaf mount path w s)"
  using require_mount_same [of s s' mount w] require_mount_reads [of mount w s]
    require_mount_reads [of mount w s'] resolve_same [of "tabs s" "tabs s'"]
  by (auto simp: resolve_leaf_def bind_op_def resolve_op_def get_sum_def guard_op_def ret_def fail_def
      same_view_def split: prod.splits sum.splits)

lemma leaf_for_write_reads: "snd (leaf_for_write mount path s) = s"
  using resolve_leaf_reads [of mount path True s]
  by (auto simp: leaf_for_write_def refuse_if_held_def bind_op_def gets_def guard_op_def ret_def fail_def
      split: prod.splits sum.splits)

lemma check_lock_held_same:
  "same_tree t t' \<Longrightarrow> locks t' = locks t \<Longrightarrow> check_lock_held ts t' n mount = check_lock_held ts t n mount"
proof -
  assume "same_tree t t'" "locks t' = locks t"
  then have "valid_lock ts t' = valid_lock ts t"
    by (simp add: same_tree_def valid_lock_def lock_live_def cong: filter_cong)
  then show ?thesis by (simp add: check_lock_held_def)
qed

lemma leaf_for_write_iff:
  "leaf_for_write mount path s = (Inr (m, n), s') \<longleftrightarrow> s' = s \<and>
     fst (resolve_leaf mount path True s) = Inr (m, n) \<and> \<not> check_lock_held (sql_now s) (tabs s) n mount"
  using resolve_leaf_reads [of mount path True s]
  by (cases "resolve_leaf mount path True s")
    (auto simp: leaf_for_write_def refuse_if_held_def op_elims split: if_splits)

lemma require_mount_iff:
  "require_mount mount w s = (Inr m, s') \<longleftrightarrow> s' = s \<and>
     (\<exists>row v. get_valid_mount mount s = Some (row, v)
        \<and> (vl_enc_mode v \<noteq> ''none'') = encrypts (cipher_of s) \<and> \<not> (w \<and> mt_access row = ''ro'')
        \<and> m = \<lparr>m_id = mount, m_point = mt_point row, m_volume = mt_volume row,
                m_enc_mode = vl_enc_mode v\<rparr>)"
  by (cases "get_valid_mount mount s")
    (auto simp: require_mount_def op_elims guard_op_def split: if_splits)

lemma resolve_leaf_iff:
  "resolve_leaf mount path w s = (Inr (m, n), s') \<longleftrightarrow> s' = s \<and>
     require_mount mount w s = (Inr m, s) \<and>
     (\<exists>r. resolve (tabs s) (m_point m) path = Inr r \<and> rs_type r \<noteq> CONTAINER \<and> rs_node r = n)"
  by (auto simp: resolve_leaf_def op_elims resolve_op_def require_mount_iff split: if_splits)
    (metis (no_types))+

lemma resolve_leaf_ro:
  "resolve_leaf mount path True s = (Inr (m, n), s) \<Longrightarrow> resolve_leaf mount path False s = (Inr (m, n), s)"
  by (auto simp: resolve_leaf_iff require_mount_iff)

lemma resolve_leaf_node:
  "resolve_leaf mount path w s = (Inr (m, n), s) \<Longrightarrow> node_at (tabs s) n \<noteq> None"
  by (auto simp: resolve_leaf_iff dest!: resolved_node_exists)

lemma resolve_leaf_volume:
  "resolve_leaf mount path w s = (Inr (m, n), s) \<Longrightarrow> \<exists>vr. volume_at (tabs s) (m_volume m) = Some vr"
  by (auto simp: resolve_leaf_iff require_mount_iff get_valid_mount_def split: option.splits)

lemma leaf_for_write_leaf:
  "leaf_for_write mount path s = (Inr (m, n), s) \<Longrightarrow> resolve_leaf mount path True s = (Inr (m, n), s)"
  using resolve_leaf_reads [of mount path True s] by (metis leaf_for_write_iff prod.collapse)

section \<open>A writable file\<close>

definition fits :: "bytes set \<Rightarrow> nat \<Rightarrow> bytes \<Rightarrow> bool" where
  "fits U cs B \<longleftrightarrow> set (split_chunks cs B) \<subseteq> U"

definition file_at ::
  "crypto_lib \<Rightarrow> bytes set \<Rightarrow> nat \<Rightarrow> db \<Rightarrow> mount_id \<Rightarrow> string \<Rightarrow> node_id \<Rightarrow> bytes \<Rightarrow> bool" where
  "file_at L U cs s mount path n B \<longleftrightarrow>
     (\<exists>m vr. leaf_for_write mount path s = (Inr (m, n), s)
        \<and> volume_at (tabs s) (m_volume m) = Some vr \<and> vl_chunk_size vr = cs)
     \<and> 0 < cs \<and> \<not> in_txn s \<and> pending_wm s = [] \<and> keys_ok (tabs s)
     \<and> collision_free L (cipher_of s) U (tabs s)
     \<and> content_is L (cipher_of s) cs (tabs s) n B"

text \<open>What a write to \<open>n\<close> leaves alone: everything but a fresh version of \<open>n\<close>.\<close>

definition rewrote :: "node_id \<Rightarrow> db \<Rightarrow> db \<Rightarrow> bool" where
  "rewrote n s s' \<longleftrightarrow> same_view s s' \<and> locks (tabs s') = locks (tabs s) \<and> xattrs (tabs s') = xattrs (tabs s)
     \<and> pool_le (tabs s) (tabs s')
     \<and> (\<forall>m. m \<noteq> n \<longrightarrow> content_at (tabs s') m = content_at (tabs s) m)
     \<and> (\<forall>m v. m \<noteq> n \<or> v \<noteq> next_version (tabs s) n \<longrightarrow> manifest (tabs s') m v = manifest (tabs s) m v)"

lemma flush_nothing: "pending_wm s = [] \<Longrightarrow> flush_watermarks s = s"
  by (simp add: flush_watermarks_def)

lemma txn_Inr:
  "\<not> in_txn s \<Longrightarrow> m (s\<lparr>in_txn := True\<rparr>) = (Inr x, s') \<Longrightarrow> pending_wm s' = [] \<Longrightarrow>
     txn m s = (Inr x, s'\<lparr>in_txn := False\<rparr>)"
  by (simp add: txn_def flush_nothing)

lemma collision_free_chunks:
  "chunks t' = chunks t \<Longrightarrow> collision_free L c U t' = collision_free L c U t"
  by (simp add: collision_free_def)

lemma leaf_for_write_view:
  assumes "leaf_for_write mount path s = (Inr (m, n), s)" and "same_view s s'"
    and "\<not> check_lock_held (sql_now s') (tabs s') n mount"
  shows "leaf_for_write mount path s' = (Inr (m, n), s')"
  using assms resolve_leaf_same [OF assms(2), of mount path True] by (simp add: leaf_for_write_iff)

lemma leaf_for_write_in_txn:
  assumes "leaf_for_write mount path s = (Inr (m, n), s)" and "same_view s s'"
    and "locks (tabs s') = locks (tabs s)"
  shows "leaf_for_write mount path s' = (Inr (m, n), s')"
  using assms check_lock_held_same [of "tabs s" "tabs s'"]
  by (intro leaf_for_write_view [OF assms(1,2)]) (simp add: leaf_for_write_iff same_view_def)

lemma same_view_txn [simp]: "same_view s (s\<lparr>in_txn := b\<rparr>)"
  by (simp add: same_view_def)

lemma content_frame_view:
  "content_frame s s' \<Longrightarrow> same_view s s'"
  using content_frameD [of s s'] by (simp add: same_view_def same_tree_def type_at_def fun_eq_iff)

lemma same_view_trans: "same_view s s' \<Longrightarrow> same_view s' s'' \<Longrightarrow> same_view s s''"
  by (auto simp: same_view_def intro: same_tree_trans)

lemma stored_other:
  "stored L c t n v ps \<Longrightarrow> pool_le t t' \<Longrightarrow> manifest t' n v = manifest t n v \<Longrightarrow> stored L c t' n v ps"
  by (erule stored_frame) auto

lemma stored_cong:
  "chunks t' = chunks t \<Longrightarrow> versions t' = versions t \<Longrightarrow> stored L c t' n v ps = stored L c t n v ps"
  by (simp add: stored_def manifest_def piece_def cong: option.case_cong)

lemma commit_ok:
  assumes fl: "file_at L U cs s mount path n B"
    and grown: "grown L n (next_version (tabs s) n) (slots 0 (split_chunks cs B')) (s\<lparr>in_txn := True\<rparr>) s2"
    and cf: "collision_free L (cipher_of s) U (tabs s2)"
    and s3: "s3 = s2\<lparr>tabs := update_content ts n (next_version (tabs s) n) (length B') (tabs s2)\<rparr>"
  shows "file_at L U cs (s3\<lparr>in_txn := False\<rparr>) mount path n B' \<and> rewrote n s (s3\<lparr>in_txn := False\<rparr>)
     \<and> pending_wm s3 = []"
proof -
  let ?v = "next_version (tabs s) n"
  let ?s' = "s3\<lparr>in_txn := False\<rparr>"
  obtain m vr where leaf: "leaf_for_write mount path s = (Inr (m, n), s)"
    "volume_at (tabs s) (m_volume m) = Some vr" "vl_chunk_size vr = cs"
    and ok: "0 < cs" "\<not> in_txn s" "pending_wm s = []" "keys_ok (tabs s)"
    and c: "content_is L (cipher_of s) cs (tabs s) n B"
    using fl by (auto simp: file_at_def)
  obtain r where r: "content_at (tabs s) n = Some r" using c by (auto simp: content_is_def)
  have fr: "content_frame (s\<lparr>in_txn := True\<rparr>) s2" using grown by (simp add: grown_def)
  note D = content_frameD [OF fr]
  have v1: "same_view s s2" using content_frame_view [OF fr] by (simp add: same_view_def)
  have v2: "same_view s2 ?s'" unfolding s3 by (simp add: same_view_def same_tree_def fun_eq_iff)
  have v: "same_view s ?s'" using v1 v2 by (rule same_view_trans)
  have ver: "versions (tabs ?s') = versions (tabs s2)" "chunks (tabs ?s') = chunks (tabs s2)"
    unfolding s3 by simp_all
  have row: "content_at (tabs ?s') q = (if q = n then map_option (\<lambda>r. r\<lparr>ct_version := ?v, ct_size := length B'\<rparr>)
       (content_at (tabs s) n) else content_at (tabs s) q)" for q
    unfolding s3 using D by (simp add: update_content_row)
  have "stored L (cipher_of s) (tabs s2) n ?v (split_chunks cs B')"
    using grown_stored [OF grown] next_version_fresh by simp
  then have "stored L (cipher_of s) (tabs ?s') n ?v (split_chunks cs B')"
    unfolding stored_cong [OF ver(2,1)] .
  moreover have c3: "cipher_of ?s' = cipher_of s" using D s3 by simp
  ultimately have "content_is L (cipher_of ?s') cs (tabs ?s') n B'"
    using r row [of n] unfolding content_is_def c3 by auto
  moreover have "keys_ok (tabs ?s')" using grown ver by (simp add: grown_def keys_ok_def)
  moreover have "collision_free L (cipher_of ?s') U (tabs ?s')"
    using cf unfolding c3 collision_free_chunks [OF ver(2)] .
  moreover have "leaf_for_write mount path ?s' = (Inr (m, n), ?s')"
    using leaf(1) v by (rule leaf_for_write_in_txn) (use D s3 in simp)
  moreover have "volume_at (tabs ?s') (m_volume m) = Some vr"
    using v leaf by (simp add: same_view_def same_tree_def)
  moreover have "pending_wm s3 = []" using D ok s3 by simp
  ultimately have "file_at L U cs ?s' mount path n B'"
    using ok leaf by (auto simp: file_at_def)
  moreover have "rewrote n s ?s'"
    unfolding rewrote_def
  proof (intro conjI allI impI)
    show "same_view s ?s'" by (rule v)
    show "locks (tabs ?s') = locks (tabs s)" unfolding s3 using D by simp
    show "xattrs (tabs ?s') = xattrs (tabs s)" unfolding s3 using D by simp
    show "pool_le (tabs s) (tabs ?s')" using grown ver(2) by (simp add: grown_def pool_le_def)
    show "content_at (tabs ?s') q = content_at (tabs s) q" if "q \<noteq> n" for q using that row by simp
    show "manifest (tabs ?s') q w = manifest (tabs s) q w" if "q \<noteq> n \<or> w \<noteq> ?v" for q w
      using grown that ver by (auto simp: grown_def manifest_def fun_eq_iff)
  qed
  ultimately show ?thesis using \<open>pending_wm s3 = []\<close> by simp
qed

section \<open>Slots\<close>

lemma slots_append: "slots k ps ++ slots (k + length ps) qs = slots k (ps @ qs)"
  by (rule ext) (auto simp: slots_def map_add_def nth_append split: option.splits)

lemma slots_Nil [simp]: "slots k [] = Map.empty"
  by (rule ext) (simp add: slots_def)

lemma slots_disjoint: "k + length ps \<le> j \<Longrightarrow> dom (slots k ps) \<inter> dom (slots j qs) = {}"
  by (auto simp: slots_def split: if_splits)

lemma slots_window:
  "a \<le> b \<Longrightarrow> slots 0 (take a Q) ++ slots b (drop b Q) ++ slots a (take (b - a) (drop a Q)) = slots 0 Q"
  by (rule ext) (auto simp: slots_def map_add_def split: option.splits)

lemma copied_slots:
  "(\<lambda>j. if lo \<le> j \<and> j \<le> hi \<and> j < length ps then Some (ps ! j) else None) =
     slots lo (take (Suc hi - lo) (drop lo ps))"
  by (rule ext) (auto simp: slots_def)

lemma concat_range:
  "concat (map snd (map (\<lambda>i. (i, ps ! i)) [lo..<min (length ps) (Suc hi)])) =
     concat (take (Suc hi - lo) (drop lo ps))"
proof -
  have "map (\<lambda>i. ps ! i) [lo..<min (length ps) (Suc hi)] = take (Suc hi - lo) (drop lo ps)"
    by (rule nth_equalityI) (auto simp: less_diff_conv add.commute)
  then show ?thesis by (simp add: comp_def)
qed

lemma split_window:
  "0 < cs \<Longrightarrow> take k (drop a (split_chunks cs B)) = split_chunks cs (take (k * cs) (drop (a * cs) B))"
  by (simp add: take_split_chunks drop_split_chunks)

section \<open>Staging and carrying, in a transaction on the file\<close>

lemma carry_ok:
  assumes "keys_ok (tabs s)" and "node_at (tabs s) n \<noteq> None"
    and "stored L (cipher_of s) (tabs s) n src ps"
    and "\<And>j. lo \<le> j \<Longrightarrow> j \<le> hi \<Longrightarrow> manifest (tabs s) n dst j = None"
  shows "\<exists>s'. carry n dst src lo hi s = (Inr (), s')
     \<and> grown L n dst (slots lo (take (Suc hi - lo) (drop lo ps))) s s'
     \<and> chunks (tabs s') = chunks (tabs s)"
  using copy_grown [OF assms] unfolding carry_def copied_slots .

lemma stage_from_ok:
  assumes "lib_ok L" and "keys_ok (tabs s)" and "collision_free L (cipher_of s) U (tabs s)"
    and "fits U cs data" and "node_at (tabs s) n \<noteq> None" and "0 < cs"
    and "\<And>i. i < length (split_chunks cs data) \<Longrightarrow> manifest (tabs s) n v (k + i) = None"
  shows "\<exists>s'. stage_from L n v k cs data s = (Inr (), s')
     \<and> grown L n v (slots k (split_chunks cs data)) s s'
     \<and> collision_free L (cipher_of s) U (tabs s')"
proof -
  from stage_list_ok [of L s U "split_chunks cs data" n v k] assms
  obtain s' where "stage_list L n v k (split_chunks cs data) s = (Inr (), s')"
    "staged L n v k (split_chunks cs data) s s'" "collision_free L (cipher_of s) U (tabs s')"
    by (auto simp: fits_def)
  moreover have "stage_from L n v k cs data s = stage_list L n v k (split_chunks cs data) s"
    using \<open>0 < cs\<close> by (simp add: stage_from_def split_op_def op_simps)
  ultimately show ?thesis by (auto intro: staged_grown)
qed

lemma chunk_size_ok:
  "volume_at (tabs s) v = Some vr \<Longrightarrow> chunk_size_of v s = (Inr (vl_chunk_size vr), s)"
  by (simp add: chunk_size_of_def get_opt_def)

lemma stage_chunks_ok:
  assumes "lib_ok L" and "keys_ok (tabs s)" and "collision_free L (cipher_of s) U (tabs s)"
    and "fits U cs data" and "node_at (tabs s) n \<noteq> None" and "0 < cs"
    and "volume_at (tabs s) vol = Some vr" "vl_chunk_size vr = cs"
    and "\<And>j. manifest (tabs s) n v j = None"
  shows "\<exists>s'. stage_chunks L n v vol data s = (Inr (length data), s')
     \<and> grown L n v (slots 0 (split_chunks cs data)) s s'
     \<and> collision_free L (cipher_of s) U (tabs s')"
proof -
  from stage_list_ok [of L s U "split_chunks cs data" n v 0] assms
  obtain s' where "stage_list L n v 0 (split_chunks cs data) s = (Inr (), s')"
    "staged L n v 0 (split_chunks cs data) s s'" "collision_free L (cipher_of s) U (tabs s')"
    by (auto simp: fits_def)
  note st = this staged_grown [OF this(2)]
  have "stage_chunks L n v vol data s = (Inr (length data), s')"
    using assms chunk_size_ok [OF assms(7)] st(1)
    by (cases "data = []") (auto simp: stage_chunks_def split_op_def op_simps)
  with st show ?thesis by blast
qed

text \<open>The facts about an open transaction on the file that the four proofs start from.\<close>

lemma file_at_open:
  assumes "file_at L U cs s mount path n B"
  obtains m vr r where "leaf_for_write mount path (s\<lparr>in_txn := True\<rparr>) = (Inr (m, n), s\<lparr>in_txn := True\<rparr>)"
    and "chunk_size_of (m_volume m) (s\<lparr>in_txn := True\<rparr>) = (Inr cs, s\<lparr>in_txn := True\<rparr>)"
    and "volume_at (tabs s) (m_volume m) = Some vr" "vl_chunk_size vr = cs"
    and "content_at (tabs s) n = Some r"
    and "content_meta n (s\<lparr>in_txn := True\<rparr>) = (Inr (ct_version r, length B), s\<lparr>in_txn := True\<rparr>)"
    and "stored L (cipher_of s) (tabs s) n (ct_version r) (split_chunks cs B)"
    and "node_at (tabs s) n \<noteq> None" "0 < cs" "\<not> in_txn s" "pending_wm s = []" "keys_ok (tabs s)"
    and "collision_free L (cipher_of s) U (tabs s)"
proof -
  from assms obtain m vr r where *: "leaf_for_write mount path s = (Inr (m, n), s)"
    "volume_at (tabs s) (m_volume m) = Some vr" "vl_chunk_size vr = cs"
    "content_at (tabs s) n = Some r" "ct_size r = length B"
    "stored L (cipher_of s) (tabs s) n (ct_version r) (split_chunks cs B)"
    "0 < cs" "\<not> in_txn s" "pending_wm s = []" "keys_ok (tabs s)"
    "collision_free L (cipher_of s) U (tabs s)"
    unfolding file_at_def content_is_def by blast
  show thesis
  proof (rule that [OF _ _ *(2,3,4) _ *(6)])
    show "leaf_for_write mount path (s\<lparr>in_txn := True\<rparr>) = (Inr (m, n), s\<lparr>in_txn := True\<rparr>)"
      using *(1) by (rule leaf_for_write_in_txn) simp_all
    show "chunk_size_of (m_volume m) (s\<lparr>in_txn := True\<rparr>) = (Inr cs, s\<lparr>in_txn := True\<rparr>)"
      using chunk_size_ok [where s = "s\<lparr>in_txn := True\<rparr>"] * by simp
    show "content_meta n (s\<lparr>in_txn := True\<rparr>) = (Inr (ct_version r, length B), s\<lparr>in_txn := True\<rparr>)"
      using * by (simp add: content_meta_def op_simps read_content_meta_def or_else_def)
    show "node_at (tabs s) n \<noteq> None" by (rule resolve_leaf_node [OF leaf_for_write_leaf [OF *(1)]])
  qed (use * in simp_all)
qed

lemma fits_sub: "fits U cs B \<Longrightarrow> set ps \<subseteq> set (split_chunks cs B) \<Longrightarrow> set ps \<subseteq> U"
  by (auto simp: fits_def)

lemma alloc_ok: "alloc_version n (s\<lparr>in_txn := b\<rparr>) = (Inr (next_version (tabs s) n), s\<lparr>in_txn := b\<rparr>)"
  by (simp add: alloc_version_def op_simps)

lemma bind_opI: "m s = (Inr x, s1) \<Longrightarrow> f x s1 = y \<Longrightarrow> bind_op m f s = y"
  by (simp add: bind_op_Inr)

lemma commit_run:
  "commit_content n v sz s = (Inr (), s\<lparr>tabs := update_content (sql_now s) n v sz (tabs s)\<rparr>)"
  by (simp add: commit_content_def op_simps)

section \<open>The four operations write what they say\<close>

lemma write_all_ok:
  assumes lib: "lib_ok L" and fl: "file_at L U cs s mount path n B" and fit: "fits U cs data"
  shows "\<exists>s'. write_all L mount path data s = (Inr (), s')
     \<and> file_at L U cs s' mount path n data \<and> rewrote n s s'"
proof -
  let ?s1 = "s\<lparr>in_txn := True\<rparr>" and ?v = "next_version (tabs s) n"
  from fl obtain m vr r where o: "leaf_for_write mount path ?s1 = (Inr (m, n), ?s1)"
    "volume_at (tabs s) (m_volume m) = Some vr" "vl_chunk_size vr = cs"
    "node_at (tabs s) n \<noteq> None" "0 < cs" "\<not> in_txn s" "keys_ok (tabs s)"
    "collision_free L (cipher_of s) U (tabs s)"
    by (rule file_at_open)
  from stage_chunks_ok [of L ?s1 U cs data n "m_volume m" vr ?v] lib fit o next_version_fresh
  obtain s2 where s2: "stage_chunks L n ?v (m_volume m) data ?s1 = (Inr (length data), s2)"
    "grown L n ?v (slots 0 (split_chunks cs data)) ?s1 s2"
    "collision_free L (cipher_of s) U (tabs s2)" by auto
  let ?s3 = "s2\<lparr>tabs := update_content (sql_now s2) n ?v (length data) (tabs s2)\<rparr>"
  have c: "file_at L U cs (?s3\<lparr>in_txn := False\<rparr>) mount path n data
      \<and> rewrote n s (?s3\<lparr>in_txn := False\<rparr>) \<and> pending_wm ?s3 = []"
    by (rule commit_ok [OF fl s2(2,3) refl])
  have "write_all L mount path data s = (Inr (), ?s3\<lparr>in_txn := False\<rparr>)"
    unfolding write_all_def using c o(6)
    by (intro txn_Inr) (simp_all add: op_simps o(1) alloc_ok s2(1) commit_run)
  with c show ?thesis by blast
qed

text \<open>Steps of a transaction that has so far grown the fresh version by \<open>f\<close>.\<close>

lemma slots_cut: "slots 0 (take a Q) ++ slots a (drop a Q) = slots 0 Q"
  by (rule ext) (auto simp: slots_def map_add_def split: option.splits)

lemma grown_free:
  "grown L n v f s s' \<Longrightarrow> f j = None \<Longrightarrow> manifest (tabs s') n v j = manifest (tabs s) n v j"
  by (simp add: grown_def)

lemma grown_stored_other:
  "grown L n v f s s' \<Longrightarrow> stored L c (tabs s) m w ps \<Longrightarrow> (m, w) \<noteq> (n, v) \<Longrightarrow> stored L c (tabs s') m w ps"
  by (rule stored_other) (auto simp: grown_def fun_eq_iff)

lemma grown_node: "grown L n v f s s' \<Longrightarrow> node_at (tabs s') m = node_at (tabs s) m"
  using content_frameD(1) [of s s'] by (auto simp: grown_def)

lemma grown_cipher: "grown L n v f s s' \<Longrightarrow> cipher_of s' = cipher_of s"
  using content_frameD(14) [of s s'] by (auto simp: grown_def)

lemma carry_prefix_ok:
  assumes "keys_ok (tabs s)" and "node_at (tabs s) n \<noteq> None"
    and "stored L (cipher_of s) (tabs s) n src ps" and "\<And>j. manifest (tabs s) n dst j = None"
  shows "\<exists>s'. (if a > 0 then carry n dst src 0 (a - 1) else ret ()) s = (Inr (), s')
     \<and> grown L n dst (slots 0 (take a ps)) s s' \<and> chunks (tabs s') = chunks (tabs s)"
proof (cases "a > 0")
  case True
  with carry_ok [OF assms(1-3), of 0 "a - 1" dst] assms(4) show ?thesis by auto
next
  case False
  with assms grown_refl show ?thesis by (auto simp: op_simps)
qed

lemma stage_after:
  assumes g: "grown L n v f s s1" and f: "\<And>j. k \<le> j \<Longrightarrow> j < k + length (split_chunks cs data) \<Longrightarrow> f j = None"
    and "\<And>j. manifest (tabs s) n v j = None" and "node_at (tabs s) n \<noteq> None"
    and "lib_ok L" "0 < cs" "fits U cs data" "collision_free L (cipher_of s) U (tabs s1)"
  shows "\<exists>s2. stage_from L n v k cs data s1 = (Inr (), s2)
     \<and> grown L n v (f ++ slots k (split_chunks cs data)) s s2
     \<and> collision_free L (cipher_of s) U (tabs s2)"
proof -
  have k: "keys_ok (tabs s1)" using g by (simp add: grown_def)
  from stage_from_ok [OF \<open>lib_ok L\<close> k, of U cs data n v k] assms grown_cipher [OF g] grown_node [OF g, of n]
    grown_free [OF g]
  obtain s2 where "stage_from L n v k cs data s1 = (Inr (), s2)"
    "grown L n v (slots k (split_chunks cs data)) s1 s2" "collision_free L (cipher_of s) U (tabs s2)"
    by auto
  moreover have "dom f \<inter> dom (slots k (split_chunks cs data)) = {}"
    using f by (fastforce simp: slots_def split: if_splits)
  ultimately show ?thesis using grown_trans [OF g] by blast
qed

lemma stage_after_slots:
  assumes "grown L n v (slots 0 ps) (s\<lparr>in_txn := True\<rparr>) s1" and "length ps \<le> k"
    and "\<And>j. manifest (tabs s) n v j = None" and "node_at (tabs s) n \<noteq> None"
    and "lib_ok L" "0 < cs" "fits U cs data" "collision_free L (cipher_of s) U (tabs s)"
    and "chunks (tabs s1) = chunks (tabs s)"
  shows "\<exists>s2. stage_from L n v k cs data s1 = (Inr (), s2)
     \<and> grown L n v (slots 0 ps ++ slots k (split_chunks cs data)) (s\<lparr>in_txn := True\<rparr>) s2
     \<and> collision_free L (cipher_of s) U (tabs s2)"
proof -
  have "slots 0 ps j = None" if "k \<le> j" for j using that assms(2) by (simp add: slots_def)
  moreover have "collision_free L (cipher_of (s\<lparr>in_txn := True\<rparr>)) U (tabs s1)"
    using assms(8) by (simp add: collision_free_chunks [OF assms(9)])
  ultimately show ?thesis
    using stage_after [OF assms(1), where k = k and cs = cs and data = data and U = U] assms(3-7) by auto
qed

lemma read_range_ok:
  assumes "grown L n v f s s1" and "stored L (cipher_of s) (tabs s) n src ps" and "src \<noteq> v"
  shows "read_range_op L n src lo hi s1 = (Inr (map (\<lambda>i. (i, ps ! i)) [lo..<min (length ps) (Suc hi)]), s1)"
proof -
  have "stored L (cipher_of s1) (tabs s1) n src ps"
    using grown_stored_other [OF assms(1,2)] assms(3) grown_cipher [OF assms(1)] by simp
  moreover have "keys_ok (tabs s1)" using assms(1) by (simp add: grown_def)
  ultimately show ?thesis
    by (simp add: read_range_op_def op_simps read_chunk_range_def read_stored_range)
qed

lemma partial_tail:
  fixes B :: "'a list"
  assumes "0 < cs" and ps: "ps = split_chunks cs B" and full: "full = length B div cs"
  shows "length ps = full + (if length B mod cs = 0 then 0 else 1)"
    and "length B mod cs \<noteq> 0 \<Longrightarrow> ps ! full = drop (full * cs) B"
proof -
  have len: "length B = full * cs + length B mod cs" unfolding full by simp
  show l: "length ps = full + (if length B mod cs = 0 then 0 else 1)"
  proof (cases "length B mod cs = 0")
    case True
    then have "length B + cs - 1 = full * cs + (cs - 1)" using len assms(1) by simp
    also have "\<dots> div cs = full + (cs - 1) div cs"
      using assms(1) by (subst div_mult_self3) auto
    finally show ?thesis using True assms(1) by (simp add: ps length_split_chunks)
  next
    case False
    have "length B + cs - 1 = (full + 1) * cs + (length B mod cs - 1)"
      using len False by (simp add: algebra_simps)
    also have "\<dots> div cs = full + 1 + (length B mod cs - 1) div cs"
      using assms(1) by (subst div_mult_self3) auto
    finally show ?thesis using False assms(1)
      by (simp add: ps length_split_chunks less_imp_diff_less)
  qed
  show "length B mod cs \<noteq> 0 \<Longrightarrow> ps ! full = drop (full * cs) B"
    using assms l by (simp add: nth_split_chunks less_imp_le minus_div_mult_eq_mod)
qed

end
