(* ===== verification/Writes.thy ===== *)
theory Writes
  imports Content
begin

text \<open>
  The three incremental writes of \<open>aloelite/operations.py\<close> proved against the plain bytes
  of the file: \<open>append\<close> leaves \<open>B @ data\<close>, \<open>write_range\<close> the patched bytes \<open>patched\<close> and
  \<open>truncate\<close> the resized bytes \<open>resized\<close>, although each carries most chunks by reference
  and rebuilds only a window. The last section says that a file reads back what it holds
  and that writing one file leaves every other file as it was.
\<close>

section \<open>append\<close>

lemma append_ok:
  assumes lib: "lib_ok L" and fl: "file_at L U cs s mount path n B"
    and fit: "fits U cs (B @ data)" and ne: "data \<noteq> []"
  shows "\<exists>s'. append_op L mount path data s = (Inr (length (B @ data)), s')
     \<and> file_at L U cs s' mount path n (B @ data) \<and> rewrote n s s'"
proof -
  let ?s1 = "s\<lparr>in_txn := True\<rparr>" and ?v = "next_version (tabs s) n"
  let ?Q = "split_chunks cs (B @ data)" and ?P = "split_chunks cs B"
  from fl obtain m vr r where o: "leaf_for_write mount path ?s1 = (Inr (m, n), ?s1)"
    "chunk_size_of (m_volume m) ?s1 = (Inr cs, ?s1)" "content_at (tabs s) n = Some r"
    "content_meta n ?s1 = (Inr (ct_version r, length B), ?s1)"
    "stored L (cipher_of s) (tabs s) n (ct_version r) ?P"
    "node_at (tabs s) n \<noteq> None" "0 < cs" "\<not> in_txn s" "keys_ok (tabs s)"
    "collision_free L (cipher_of s) U (tabs s)"
    by (rule file_at_open)
  have fr: "manifest (tabs s) n ?v j = None" for j by (rule next_version_fresh)
  define full where "full = length B div cs"
  have old: "ct_version r \<noteq> ?v" using next_version_gt [OF o(3)] by simp
  have le: "full * cs \<le> length B" by (simp add: full_def)
  have pre: "take full ?P = take full ?Q"
    using \<open>0 < cs\<close> le by (simp add: take_split_chunks)
  from carry_prefix_ok [of ?s1 n L "ct_version r" ?P ?v full] o next_version_fresh
  obtain s2 where s2: "(if full > 0 then carry n ?v (ct_version r) 0 (full - 1) else ret ()) ?s1 = (Inr (), s2)"
    "grown L n ?v (slots 0 (take full ?Q)) ?s1 s2" "chunks (tabs s2) = chunks (tabs s)"
    by (auto simp: pre)
  define rows where "rows = (if length B mod cs > 0 then [(full, drop (full * cs) B)] else [])"
  have rd: "(if length B mod cs > 0 then read_range_op L n (ct_version r) full full else ret []) s2 =
      (Inr rows, s2)"
    using read_range_ok [OF s2(2), of "ct_version r" ?P full full] o(5) old
      partial_tail [OF \<open>0 < cs\<close> refl full_def]
    by (auto simp: rows_def op_simps)
  have g0: "guard_op (cs \<noteq> 0) ZeroDivisionError ?s1 = (Inr (), ?s1)"
    using \<open>0 < cs\<close> by (simp add: op_simps)
  have tl: "first_piece rows @ data = drop (full * cs) (B @ data)"
    using le by (auto simp: rows_def first_piece_def full_def minus_div_mult_eq_mod [symmetric])
  have Q: "split_chunks cs (first_piece rows @ data) = drop full ?Q"
    using \<open>0 < cs\<close> unfolding tl by (simp add: drop_split_chunks)
  have ft: "fits U cs (first_piece rows @ data)"
    using fit unfolding fits_def Q by (meson set_drop_subset subset_trans)
  have len: "length (take full ?Q) \<le> full" by simp
  obtain s3 where s3: "stage_from L n ?v full cs (first_piece rows @ data) s2 = (Inr (), s3)"
    "grown L n ?v (slots 0 (take full ?Q) ++ slots full (split_chunks cs (first_piece rows @ data))) ?s1 s3"
    "collision_free L (cipher_of s) U (tabs s3)"
    using stage_after_slots [OF s2(2) len fr o(6) lib \<open>0 < cs\<close> ft o(10) s2(3)] by blast
  note g3 = s3(2) [unfolded Q slots_cut]
  let ?s4 = "s3\<lparr>tabs := update_content (sql_now s3) n ?v (length (B @ data)) (tabs s3)\<rparr>"
  have c: "file_at L U cs (?s4\<lparr>in_txn := False\<rparr>) mount path n (B @ data)
      \<and> rewrote n s (?s4\<lparr>in_txn := False\<rparr>) \<and> pending_wm ?s4 = []"
    by (rule commit_ok [OF fl g3 s3(3) refl])
  have "append_op L mount path data s = (Inr (length (B @ data)), ?s4\<lparr>in_txn := False\<rparr>)"
    unfolding append_op_def if_not_P [OF ne]
    by (rule txn_Inr [OF o(8)], rule bind_opI, rule o(1), simp only: prod.case, rule bind_opI, rule o(2),
        rule bind_opI, rule o(4), simp only: prod.case, rule bind_opI, rule alloc_ok, rule bind_opI, rule g0,
        simp only: Let_def full_def [symmetric], rule bind_opI, rule s2(1), rule bind_opI, rule rd,
        rule bind_opI, rule s3(1), rule bind_opI, rule commit_run, simp add: op_simps) (use c in simp)
  with c show ?thesis by blast
qed

section \<open>write_range\<close>

text \<open>The bytes after \<open>write_range\<close>: the gap is zero-filled.\<close>

definition patched :: "nat \<Rightarrow> bytes \<Rightarrow> bytes \<Rightarrow> bytes" where
  "patched off data B = take off (B @ replicate (off - length B) 0) @ data @ drop (off + length data) B"

lemma length_patched: "length (patched off data B) = max (length B) (off + length data)"
  by (simp add: patched_def)

lemma nth_patched:
  "j < length (patched off data B) \<Longrightarrow> patched off data B ! j =
     (if j < off then (if j < length B then B ! j else 0)
      else if j < off + length data then data ! (j - off) else B ! j)"
  by (cases "off \<le> length B") (auto simp: patched_def nth_append)

lemma patch_eq: "patch i data buf = patched i data buf"
  by (cases "i \<le> length buf") (auto simp: patch_def patched_def Let_def)

lemma take_patched: "k \<le> off \<Longrightarrow> k \<le> length B \<Longrightarrow> take k (patched off data B) = take k B"
  by (simp add: patched_def min_def)

lemma drop_patched: "off + length data \<le> k \<Longrightarrow> drop k (patched off data B) = drop k B"
  by (cases "off \<le> length B") (auto simp: patched_def)

text \<open>Patching the window gives the window of the patched bytes.\<close>

lemma patch_window:
  assumes "base \<le> off" and "base \<le> length B" and "off + length data \<le> base + w"
  shows "patch (off - base) data (take w (drop base B)) = take w (drop base (patched off data B))"
  unfolding patch_eq
proof (rule nth_equalityI)
  let ?R = "take w (drop base B)"
  show len: "length (patched (off - base) data ?R) = length (take w (drop base (patched off data B)))"
    using assms by (auto simp: length_patched)
  fix j assume j: "j < length (patched (off - base) data ?R)"
  then have j2: "j < w" "base + j < length (patched off data B)" using len by auto
  have r: "take w (drop base (patched off data B)) ! j = patched off data B ! (base + j)"
    using j2 by simp
  have R: "j < length ?R \<longleftrightarrow> base + j < length B" "j < length ?R \<Longrightarrow> ?R ! j = B ! (base + j)"
    using j2 by auto
  have e: "j < off - base \<longleftrightarrow> base + j < off" "j < off - base + length data \<longleftrightarrow> base + j < off + length data"
    "j - (off - base) = base + j - off" using assms by auto
  have "base + j < length B" if "\<not> base + j < off + length data"
    using that j2 by (simp add: length_patched)
  then show "patched (off - base) data ?R ! j = take w (drop base (patched off data B)) ! j"
    unfolding r nth_patched [OF j] nth_patched [OF j2(2)] e using R by auto
qed

lemma carry_after:
  assumes g: "grown L n v f s s1" and free: "\<And>j. lo \<le> j \<Longrightarrow> j < length ps \<Longrightarrow> f j = None"
    and fr: "\<And>j. manifest (tabs s) n v j = None" and nd: "node_at (tabs s) n \<noteq> None"
    and st: "stored L (cipher_of s) (tabs s) n src ps" and ne: "src \<noteq> v"
    and free': "\<And>j. lo \<le> j \<Longrightarrow> j \<le> hi \<Longrightarrow> f j = None"
  shows "\<exists>s2. carry n v src lo hi s1 = (Inr (), s2)
     \<and> grown L n v (f ++ slots lo (take (Suc hi - lo) (drop lo ps))) s s2
     \<and> chunks (tabs s2) = chunks (tabs s1)"
proof -
  have "keys_ok (tabs s1)" using g by (simp add: grown_def)
  moreover have "node_at (tabs s1) n \<noteq> None" using nd grown_node [OF g] by simp
  moreover have "stored L (cipher_of s1) (tabs s1) n src ps"
    using grown_stored_other [OF g st] ne grown_cipher [OF g] by simp
  moreover have "manifest (tabs s1) n v j = None" if "lo \<le> j" "j \<le> hi" for j
    using grown_free [OF g free' [OF that]] fr by simp
  ultimately obtain s2 where s2: "carry n v src lo hi s1 = (Inr (), s2)"
    "grown L n v (slots lo (take (Suc hi - lo) (drop lo ps))) s1 s2"
    "chunks (tabs s2) = chunks (tabs s1)"
    using carry_ok [of s1 n L src ps lo hi v] by blast
  have "f j = None" if "slots lo (take (Suc hi - lo) (drop lo ps)) j \<noteq> None" for j
    using that free [of j] by (simp add: slots_def less_diff_conv add.commute split: if_splits)
  then have "dom f \<inter> dom (slots lo (take (Suc hi - lo) (drop lo ps))) = {}" by (force simp: dom_def)
  with s2 grown_trans [OF g s2(2)] show ?thesis by blast
qed

lemma length_split_last:
  "0 < cs \<Longrightarrow> length (split_chunks cs xs) = (if xs = [] then 0 else (length xs - 1) div cs + 1)"
proof -
  assume cs: "0 < cs"
  have "(length xs + cs - 1) div cs = (length xs - 1) div cs + 1" if "xs \<noteq> []"
  proof -
    from that have e: "length xs + cs - 1 = (length xs - 1) + cs" by (cases xs) auto
    show ?thesis unfolding e using cs by (subst div_add_self2) auto
  qed
  then show ?thesis using length_split_chunks [OF cs, of xs] by (cases "xs = []") simp_all
qed

text \<open>The window of \<open>write_range\<close>, and where it lies.\<close>

lemma window_bounds:
  fixes off len sz cs :: nat
  assumes "0 < cs" "0 < len" and lo: "lo = off div cs" and hi: "hi = (off + len - 1) div cs"
    and wlo: "wlo = min lo (sz div cs)"
  shows "wlo \<le> hi" "wlo * cs \<le> off" "wlo * cs \<le> sz" "off + len \<le> Suc hi * cs"
proof -
  have "lo \<le> hi" unfolding lo hi using assms(2) by (intro div_le_mono) simp
  then show "wlo \<le> hi" by (simp add: wlo)
  have "wlo * cs \<le> lo * cs" "wlo * cs \<le> (sz div cs) * cs" unfolding wlo by (intro mult_le_mono1; simp)+
  moreover have "lo * cs \<le> off" "(sz div cs) * cs \<le> sz" by (simp_all add: lo)
  ultimately show "wlo * cs \<le> off" "wlo * cs \<le> sz" by linarith+
  have "(off + len - 1) mod cs < cs" using assms(1) by simp
  then have "off + len - 1 < hi * cs + cs"
    using div_mult_mod_eq [of "off + len - 1" cs] unfolding hi by linarith
  then show "off + len \<le> Suc hi * cs" by simp
qed

lemma window_read:
  assumes cs: "0 < cs" and b: "wlo \<le> hi" "wlo * cs \<le> length B"
    and P: "P = split_chunks cs B" and src: "src_last = (if length B > 0 then int ((length B - 1) div cs) else -1)"
  shows "concat (map snd (if min (int hi) src_last \<ge> int wlo
            then map (\<lambda>i. (i, P ! i)) [wlo..<min (length P) (Suc (nat (min (int hi) src_last)))] else []))
       = take ((Suc hi - wlo) * cs) (drop (wlo * cs) B)"
proof -
  have len: "int (length P) = src_last + 1" using cs by (auto simp: P src length_split_last)
  have all: "concat (take (Suc hi - wlo) (drop wlo P)) = take ((Suc hi - wlo) * cs) (drop (wlo * cs) B)"
    using cs by (simp add: P split_window concat_split_chunks)
  show ?thesis
  proof (cases "min (int hi) src_last \<ge> int wlo")
    case True
    let ?m = "nat (min (int hi) src_last)"
    have "take (Suc ?m - wlo) (drop wlo P) = take (Suc hi - wlo) (drop wlo P)"
      using True len by (cases "src_last \<le> int hi") auto
    with True all show ?thesis by (simp only: if_True concat_range)
  next
    case False
    then have "length P \<le> wlo" using len b by auto
    then have "drop wlo P = []" by simp
    with all have "take ((Suc hi - wlo) * cs) (drop (wlo * cs) B) = []" by simp
    then show ?thesis unfolding if_not_P [OF False] by simp
  qed
qed

lemma write_range_ok:
  assumes lib: "lib_ok L" and fl: "file_at L U cs s mount path n B"
    and off: "0 \<le> offset" and fit: "fits U cs (patched (nat offset) data B)" and ne: "data \<noteq> []"
  shows "\<exists>s'. write_range L mount path offset data s = (Inr (max (length B) (nat offset + length data)), s')
     \<and> file_at L U cs s' mount path n (patched (nat offset) data B) \<and> rewrote n s s'"
proof -
  let ?s1 = "s\<lparr>in_txn := True\<rparr>" and ?v = "next_version (tabs s) n"
  let ?B = "patched (nat offset) data B"
  let ?Q = "split_chunks cs ?B" and ?P = "split_chunks cs B"
  from fl obtain m vr r where o: "leaf_for_write mount path ?s1 = (Inr (m, n), ?s1)"
    "chunk_size_of (m_volume m) ?s1 = (Inr cs, ?s1)" "content_at (tabs s) n = Some r"
    "content_meta n ?s1 = (Inr (ct_version r, length B), ?s1)"
    "stored L (cipher_of s) (tabs s) n (ct_version r) ?P"
    "node_at (tabs s) n \<noteq> None" "0 < cs" "\<not> in_txn s" "keys_ok (tabs s)"
    "collision_free L (cipher_of s) U (tabs s)"
    by (rule file_at_open)
  have fr: "manifest (tabs s) n ?v j = None" for j by (rule next_version_fresh)
  have old: "ct_version r \<noteq> ?v" using next_version_gt [OF o(3)] by simp
  have ld: "0 < length data" using ne by simp
  define lo where "lo = nat offset div cs"
  define hi where "hi = (nat offset + length data - 1) div cs"
  define wlo where "wlo = min lo (length B div cs)"
  define src_last where "src_last = (if length B > 0 then int ((length B - 1) div cs) else -1)"
  note w = window_bounds [OF \<open>0 < cs\<close> ld lo_def hi_def wlo_def]
  have lenP: "int (length ?P) = src_last + 1"
    using \<open>0 < cs\<close> by (auto simp: src_last_def length_split_last)
  have pre: "take wlo ?P = take wlo ?Q"
    using \<open>0 < cs\<close> w by (simp add: take_split_chunks take_patched)
  have suf: "drop (Suc hi) ?P = drop (Suc hi) ?Q"
    using \<open>0 < cs\<close> w(4) by (simp only: drop_split_chunks drop_patched)
  from carry_prefix_ok [of ?s1 n L "ct_version r" ?P ?v wlo] o fr
  obtain s2 where s2: "(if wlo > 0 then carry n ?v (ct_version r) 0 (wlo - 1) else ret ()) ?s1 = (Inr (), s2)"
    "grown L n ?v (slots 0 (take wlo ?Q)) ?s1 s2" "chunks (tabs s2) = chunks (tabs s)"
    by (auto simp: pre)
  obtain s3 where s3: "(if src_last > int hi then carry n ?v (ct_version r) (hi + 1) (nat src_last) else ret ()) s2
      = (Inr (), s3)"
    "grown L n ?v (slots 0 (take wlo ?Q) ++ slots (Suc hi) (drop (Suc hi) ?Q)) ?s1 s3"
    "chunks (tabs s3) = chunks (tabs s)"
  proof (cases "src_last > int hi")
    case True
    have all: "take (Suc (nat src_last) - Suc hi) (drop (Suc hi) ?P) = drop (Suc hi) ?Q"
      unfolding suf [symmetric] using True lenP by auto
    have "\<exists>s3. carry n ?v (ct_version r) (Suc hi) (nat src_last) s2 = (Inr (), s3)
        \<and> grown L n ?v (slots 0 (take wlo ?Q) ++ slots (Suc hi) (take (Suc (nat src_last) - Suc hi) (drop (Suc hi) ?P))) ?s1 s3
        \<and> chunks (tabs s3) = chunks (tabs s2)"
      by (rule carry_after [OF s2(2)]) (use w(1) fr o(5,6) old in \<open>auto simp: slots_def\<close>)
    with True all s2(3) that show ?thesis by auto
  next
    case False
    have "drop (Suc hi) ?Q = []" unfolding suf [symmetric] using False lenP by simp
    with False s2 that show ?thesis by (auto simp: op_simps)
  qed
  let ?rows = "if min (int hi) src_last \<ge> int wlo
    then map (\<lambda>i. (i, ?P ! i)) [wlo..<min (length ?P) (Suc (nat (min (int hi) src_last)))] else []"
  have rd: "(if min (int hi) src_last \<ge> int wlo
      then read_range_op L n (ct_version r) wlo (nat (min (int hi) src_last)) else ret []) s3 = (Inr ?rows, s3)"
    using read_range_ok [OF s3(2)] o(5) old by (simp add: op_simps)
  let ?buf = "patch (nat offset - wlo * cs) data (concat (map snd ?rows))"
  have buf: "?buf = take ((Suc hi - wlo) * cs) (drop (wlo * cs) ?B)"
    unfolding window_read [OF \<open>0 < cs\<close> w(1,3) refl src_last_def]
    using w by (intro patch_window) (auto simp: diff_mult_distrib)
  have Q: "split_chunks cs ?buf = take (Suc hi - wlo) (drop wlo ?Q)"
    unfolding buf by (rule split_window [OF \<open>0 < cs\<close>, symmetric])
  have ft: "fits U cs ?buf"
    using fit unfolding fits_def Q by (meson set_drop_subset set_take_subset subset_trans)
  have "\<exists>s4. stage_from L n ?v wlo cs ?buf s3 = (Inr (), s4)
     \<and> grown L n ?v ((slots 0 (take wlo ?Q) ++ slots (Suc hi) (drop (Suc hi) ?Q)) ++ slots wlo (split_chunks cs ?buf)) ?s1 s4
     \<and> collision_free L (cipher_of ?s1) U (tabs s4)"
  proof (rule stage_after [OF s3(2)])
    fix j assume "wlo \<le> j" "j < wlo + length (split_chunks cs ?buf)"
    then show "(slots 0 (take wlo ?Q) ++ slots (Suc hi) (drop (Suc hi) ?Q)) j = None"
      using w(1) unfolding Q by (simp add: slots_def map_add_def)
  next
    show "collision_free L (cipher_of ?s1) U (tabs s3)"
      using o(10) by (simp add: collision_free_chunks [OF s3(3)])
  qed (use fr o(6) lib \<open>0 < cs\<close> ft in simp_all)
  then obtain s4 where s4: "stage_from L n ?v wlo cs ?buf s3 = (Inr (), s4)"
    "grown L n ?v ((slots 0 (take wlo ?Q) ++ slots (Suc hi) (drop (Suc hi) ?Q)) ++ slots wlo (split_chunks cs ?buf)) ?s1 s4"
    "collision_free L (cipher_of s) U (tabs s4)" by auto
  have g: "grown L n ?v (slots 0 ?Q) ?s1 s4"
    using s4(2) slots_window [of wlo "Suc hi" ?Q] w(1) unfolding Q by simp
  have len: "max (length B) (nat offset + length data) = length ?B" by (simp add: length_patched)
  let ?s5 = "s4\<lparr>tabs := update_content (sql_now s4) n ?v (length ?B) (tabs s4)\<rparr>"
  have c: "file_at L U cs (?s5\<lparr>in_txn := False\<rparr>) mount path n ?B
      \<and> rewrote n s (?s5\<lparr>in_txn := False\<rparr>) \<and> pending_wm ?s5 = []"
    by (rule commit_ok [OF fl g s4(3) refl])
  have g0: "guard_op (cs \<noteq> 0) ZeroDivisionError ?s1 = (Inr (), ?s1)"
    using \<open>0 < cs\<close> by (simp add: op_simps)
  have off': "\<not> offset < 0" using off by simp
  have "write_range L mount path offset data s = (Inr (length ?B), ?s5\<lparr>in_txn := False\<rparr>)"
    unfolding write_range_def if_not_P [OF ne] if_not_P [OF off']
    by (rule txn_Inr [OF o(8)], rule bind_opI, rule o(1), simp only: prod.case, rule bind_opI, rule o(2),
        rule bind_opI, rule o(4), simp only: prod.case Let_def, rule bind_opI, rule alloc_ok, rule bind_opI, rule g0,
        simp only: lo_def [symmetric] hi_def [symmetric] wlo_def [symmetric] src_last_def [symmetric],
        rule bind_opI, rule s2(1), rule bind_opI, rule s3(1), rule bind_opI, rule rd,
        rule bind_opI, rule s4(1), rule bind_opI, simp only: len, rule commit_run, simp add: op_simps len)
      (use c in simp)
  with c show ?thesis unfolding len by blast
qed

section \<open>truncate\<close>

definition resized :: "nat \<Rightarrow> bytes \<Rightarrow> bytes" where
  "resized sz B = take sz B @ replicate (sz - length B) 0"

lemma length_resized [simp]: "length (resized sz B) = sz"
  by (simp add: resized_def)

lemma truncate_same_ok:
  assumes fl: "file_at L U cs s mount path n B" and sz: "0 \<le> sz" "nat sz = length B"
  shows "truncate_op L mount path sz s = (Inr (), s)"
proof -
  let ?s1 = "s\<lparr>in_txn := True\<rparr>"
  from fl obtain m vr r where o: "leaf_for_write mount path ?s1 = (Inr (m, n), ?s1)"
    "chunk_size_of (m_volume m) ?s1 = (Inr cs, ?s1)"
    "content_meta n ?s1 = (Inr (ct_version r, length B), ?s1)" "\<not> in_txn s" "pending_wm s = []"
    "content_at (tabs s) n = Some r"
    by (rule file_at_open)
  have sz': "\<not> sz < 0" using sz by simp
  have "truncate_op L mount path sz s = (Inr (), ?s1\<lparr>in_txn := False\<rparr>)"
    unfolding truncate_op_def if_not_P [OF sz']
    by (rule txn_Inr [OF o(4)], rule bind_opI, rule o(1), simp only: prod.case, rule bind_opI, rule o(2),
        rule bind_opI, rule o(3), simp only: prod.case Let_def sz if_True refl, simp add: op_simps)
      (use o(5) in simp)
  moreover have "?s1\<lparr>in_txn := False\<rparr> = s" using o(4) by simp
  ultimately show ?thesis by simp
qed

text \<open>The boundary chunk of a shrink, or the rebuilt tail of a growth.\<close>

lemma shrink_body:
  assumes lib: "lib_ok L" and cs: "0 < cs" and lt: "sz < length B" and old: "src \<noteq> v"
    and fr: "\<And>j. manifest (tabs s) n v j = None" and nd: "node_at (tabs s) n \<noteq> None"
    and st: "stored L (cipher_of s) (tabs s) n src (split_chunks cs B)" and keys: "keys_ok (tabs s)"
    and cf: "collision_free L (cipher_of s) U (tabs s)" and fit: "fits U cs (take sz B)"
  shows "\<exists>s'. (let full = sz div cs; rem = sz mod cs in
             bind_op (if full > 0 then carry n v src 0 (full - 1) else ret ()) (\<lambda>_.
             if rem \<noteq> 0
             then bind_op (read_range_op L n src full full) (\<lambda>rows.
                  case rows of [] \<Rightarrow> fail IndexError
                  | (i, d) # _ \<Rightarrow> stage_chunk L n v full (take rem d))
             else ret ())) s = (Inr (), s')
     \<and> grown L n v (slots 0 (split_chunks cs (take sz B))) s s'
     \<and> collision_free L (cipher_of s) U (tabs s')"
proof -
  let ?P = "split_chunks cs B" and ?Q = "split_chunks cs (take sz B)"
  define full where "full = sz div cs"
  have le: "full * cs \<le> sz" by (simp add: full_def)
  have "take full ?P = take full ?Q" using cs le by (simp add: take_split_chunks min_absorb1)
  with carry_prefix_ok [OF keys nd st fr, of full]
  obtain s2 where s2: "(if full > 0 then carry n v src 0 (full - 1) else ret ()) s = (Inr (), s2)"
    "grown L n v (slots 0 (take full ?Q)) s s2" "chunks (tabs s2) = chunks (tabs s)" by auto
  have cf2: "collision_free L (cipher_of s) U (tabs s2)" using cf by (simp add: collision_free_chunks [OF s2(3)])
  have lt': "length (take sz B) = sz" using lt by simp
  note pt = partial_tail [OF cs refl, of full "take sz B", unfolded lt', OF full_def]
  show ?thesis
  proof (cases "sz mod cs = 0")
    case True
    then have "take full ?Q = ?Q" using pt(1) by simp
    with s2 cf2 True show ?thesis by (auto simp: Let_def full_def [symmetric] op_simps)
  next
    case False
    let ?p = "take (sz mod cs) (?P ! full)"
    have fP: "full < length ?P"
      using cs lt le by (simp add: length_split_last full_def less_Suc_eq_le div_le_mono)
        (metis One_nat_def Suc_pred div_le_mono gr_implies_not0 less_Suc_eq_le list.size(3) neq0_conv)
    have mm: "sz mod cs = sz - full * cs" by (simp add: full_def minus_div_mult_eq_mod)
    have "?p = drop (full * cs) (take sz B)"
      using cs fP mm by (simp add: nth_split_chunks drop_take min_absorb1 less_imp_le flip: mm)
    then have dQ: "drop full ?Q = [?p]"
      using pt False by (simp add: Cons_nth_drop_Suc [symmetric])
    then have pQ: "?p \<in> set ?Q" by (metis in_set_dropD list.set_intros(1))
    have rd: "read_range_op L n src full full s2 = (Inr [(full, ?P ! full)], s2)"
      using read_range_ok [OF s2(2) st old, of full full] fP by simp
    have "manifest (tabs s2) n v full = None"
      using grown_free [OF s2(2), of full] fr by (simp add: slots_def)
    moreover have "keys_ok (tabs s2)" using s2(2) by (simp add: grown_def)
    moreover have "?p \<in> U" using pQ fit by (auto simp: fits_def)
    ultimately obtain s3 where s3: "stage_chunk L n v full ?p s2 = (Inr (), s3)"
      "staged L n v full [?p] s2 s3" "collision_free L (cipher_of s) U (tabs s3)"
      using stage_chunk_ok [OF lib, of s2 U ?p n v full] cf2 nd grown_cipher [OF s2(2)]
        grown_node [OF s2(2), of n] by auto
    have "grown L n v (slots 0 (take full ?Q) ++ slots full [?p]) s s3"
      by (rule grown_trans [OF s2(2) staged_grown [OF s3(2)] slots_disjoint]) simp
    then have "grown L n v (slots 0 ?Q) s s3" using slots_cut [of full ?Q] by (simp add: dQ)
    moreover have "(let full = sz div cs; rem = sz mod cs in
             bind_op (if full > 0 then carry n v src 0 (full - 1) else ret ()) (\<lambda>_.
             if rem \<noteq> 0
             then bind_op (read_range_op L n src full full) (\<lambda>rows.
                  case rows of [] \<Rightarrow> fail IndexError
                  | (i, d) # _ \<Rightarrow> stage_chunk L n v full (take rem d))
             else ret ())) s = (Inr (), s3)"
      unfolding Let_def full_def [symmetric] if_P [OF False]
      by (rule bind_opI, rule s2(1), rule bind_opI, rule rd, simp only: list.case prod.case, rule s3(1))
    ultimately show ?thesis using s3(3) by blast
  qed
qed

lemma grow_body:
  assumes lib: "lib_ok L" and cs: "0 < cs" and lt: "length B < sz" and old: "src \<noteq> v"
    and fr: "\<And>j. manifest (tabs s) n v j = None" and nd: "node_at (tabs s) n \<noteq> None"
    and st: "stored L (cipher_of s) (tabs s) n src (split_chunks cs B)" and keys: "keys_ok (tabs s)"
    and cf: "collision_free L (cipher_of s) U (tabs s)" and fit: "fits U cs (resized sz B)"
  shows "\<exists>s'. (let full = length B div cs in
             bind_op (if full > 0 then carry n v src 0 (full - 1) else ret ()) (\<lambda>_.
             bind_op (if length B mod cs \<noteq> 0 then read_range_op L n src full full else ret []) (\<lambda>rows.
             let tail = first_piece rows in
             stage_from L n v full cs
               (tail @ replicate (sz - full * cs - length tail) 0)))) s = (Inr (), s')
     \<and> grown L n v (slots 0 (split_chunks cs (resized sz B))) s s'
     \<and> collision_free L (cipher_of s) U (tabs s')"
proof -
  let ?P = "split_chunks cs B" and ?Q = "split_chunks cs (resized sz B)"
  define full where "full = length B div cs"
  have le: "full * cs \<le> length B" by (simp add: full_def)
  have "take full ?P = take full ?Q"
    using cs le lt by (simp add: take_split_chunks resized_def)
  with carry_prefix_ok [OF keys nd st fr, of full]
  obtain s2 where s2: "(if full > 0 then carry n v src 0 (full - 1) else ret ()) s = (Inr (), s2)"
    "grown L n v (slots 0 (take full ?Q)) s s2" "chunks (tabs s2) = chunks (tabs s)" by auto
  have cf2: "collision_free L (cipher_of s) U (tabs s2)" using cf by (simp add: collision_free_chunks [OF s2(3)])
  define rows where "rows = (if length B mod cs \<noteq> 0 then [(full, drop (full * cs) B)] else [])"
  have rd: "(if length B mod cs \<noteq> 0 then read_range_op L n src full full else ret []) s2 = (Inr rows, s2)"
    using read_range_ok [OF s2(2) st old, of full full] partial_tail [OF cs refl full_def]
    by (auto simp: rows_def op_simps)
  have tail: "first_piece rows = drop (full * cs) B"
    by (auto simp: rows_def first_piece_def full_def minus_div_mult_eq_mod [symmetric])
  let ?pad = "first_piece rows @ replicate (sz - full * cs - length (first_piece rows)) 0"
  have "?pad = drop (full * cs) (resized sz B)" using le lt unfolding tail by (simp add: resized_def)
  then have Q: "split_chunks cs ?pad = drop full ?Q" using cs by (simp add: drop_split_chunks)
  have ft: "fits U cs ?pad" using fit unfolding fits_def Q by (meson set_drop_subset subset_trans)
  have "\<exists>s3. stage_from L n v full cs ?pad s2 = (Inr (), s3)
     \<and> grown L n v (slots 0 (take full ?Q) ++ slots full (split_chunks cs ?pad)) s s3
     \<and> collision_free L (cipher_of s) U (tabs s3)"
    by (rule stage_after [OF s2(2)]) (use fr nd lib cs ft cf2 in \<open>simp_all add: slots_def\<close>)
  then obtain s3 where s3: "stage_from L n v full cs ?pad s2 = (Inr (), s3)"
    "grown L n v (slots 0 ?Q) s s3" "collision_free L (cipher_of s) U (tabs s3)"
    unfolding Q slots_cut by blast
  have "(let full = length B div cs in
             bind_op (if full > 0 then carry n v src 0 (full - 1) else ret ()) (\<lambda>_.
             bind_op (if length B mod cs \<noteq> 0 then read_range_op L n src full full else ret []) (\<lambda>rows.
             let tail = first_piece rows in
             stage_from L n v full cs
               (tail @ replicate (sz - full * cs - length tail) 0)))) s = (Inr (), s3)"
    unfolding Let_def full_def [symmetric]
    by (rule bind_opI, rule s2(1), rule bind_opI, rule rd, rule s3(1))
  with s3 show ?thesis by blast
qed

lemma truncate_ok:
  assumes lib: "lib_ok L" and fl: "file_at L U cs s mount path n B"
    and sz0: "0 \<le> new_size" and fit: "fits U cs (resized (nat new_size) B)"
  shows "\<exists>s'. truncate_op L mount path new_size s = (Inr (), s')
     \<and> file_at L U cs s' mount path n (resized (nat new_size) B) \<and> rewrote n s s'"
proof (cases "nat new_size = length B")
  case True
  have "rewrote n s s" by (simp add: rewrote_def same_view_def)
  moreover have "resized (nat new_size) B = B" using True by (simp add: resized_def)
  ultimately show ?thesis using truncate_same_ok [OF fl sz0 True] fl by auto
next
  case ne: False
  let ?s1 = "s\<lparr>in_txn := True\<rparr>" and ?v = "next_version (tabs s) n"
  let ?B = "resized (nat new_size) B"
  from fl obtain m vr r where o: "leaf_for_write mount path ?s1 = (Inr (m, n), ?s1)"
    "chunk_size_of (m_volume m) ?s1 = (Inr cs, ?s1)" "content_at (tabs s) n = Some r"
    "content_meta n ?s1 = (Inr (ct_version r, length B), ?s1)"
    "stored L (cipher_of s) (tabs s) n (ct_version r) (split_chunks cs B)"
    "node_at (tabs s) n \<noteq> None" "0 < cs" "\<not> in_txn s" "keys_ok (tabs s)"
    "collision_free L (cipher_of s) U (tabs s)"
    by (rule file_at_open)
  have o1: "manifest (tabs ?s1) n ?v j = None" "node_at (tabs ?s1) n \<noteq> None" "keys_ok (tabs ?s1)"
    "stored L (cipher_of ?s1) (tabs ?s1) n (ct_version r) (split_chunks cs B)"
    "collision_free L (cipher_of ?s1) U (tabs ?s1)" for j
    using o next_version_fresh by simp_all
  have old: "ct_version r \<noteq> ?v" using next_version_gt [OF o(3)] by simp
  have sz': "\<not> new_size < 0" using sz0 by simp
  have "\<exists>s2. (if nat new_size < length B then
            (let full = nat new_size div cs; rem = nat new_size mod cs in
             bind_op (if full > 0 then carry n ?v (ct_version r) 0 (full - 1) else ret ()) (\<lambda>_.
             if rem \<noteq> 0
             then bind_op (read_range_op L n (ct_version r) full full) (\<lambda>rows.
                  case rows of [] \<Rightarrow> fail IndexError
                  | (i, d) # _ \<Rightarrow> stage_chunk L n ?v full (take rem d))
             else ret ()))
          else
            (let full = length B div cs in
             bind_op (if full > 0 then carry n ?v (ct_version r) 0 (full - 1) else ret ()) (\<lambda>_.
             bind_op (if length B mod cs \<noteq> 0 then read_range_op L n (ct_version r) full full else ret []) (\<lambda>rows.
             let tail = first_piece rows in
             stage_from L n ?v full cs
               (tail @ replicate (nat new_size - full * cs - length tail) 0))))) ?s1 = (Inr (), s2)
     \<and> grown L n ?v (slots 0 (split_chunks cs ?B)) ?s1 s2
     \<and> collision_free L (cipher_of ?s1) U (tabs s2)" (is "\<exists>s2. ?body s2 \<and> _ s2")
  proof (cases "nat new_size < length B")
    case True
    then have e: "?B = take (nat new_size) B" by (simp add: resized_def)
    show ?thesis unfolding if_P [OF True] e
      by (rule shrink_body [OF lib o(7) True old o1(1,2,4,3,5) fit [unfolded e]])
  next
    case False
    with ne have lt: "length B < nat new_size" by simp
    show ?thesis unfolding if_not_P [OF False]
      by (rule grow_body [OF lib o(7) lt old o1(1,2,4,3,5) fit])
  qed
  then obtain s2 where s2: "?body s2" "grown L n ?v (slots 0 (split_chunks cs ?B)) ?s1 s2"
    "collision_free L (cipher_of ?s1) U (tabs s2)" by blast
  have cf2: "collision_free L (cipher_of s) U (tabs s2)" using s2(3) by simp
  let ?s3 = "s2\<lparr>tabs := update_content (sql_now s2) n ?v (length ?B) (tabs s2)\<rparr>"
  have c: "file_at L U cs (?s3\<lparr>in_txn := False\<rparr>) mount path n ?B
      \<and> rewrote n s (?s3\<lparr>in_txn := False\<rparr>) \<and> pending_wm ?s3 = []"
    by (rule commit_ok [OF fl s2(2) cf2 refl])
  have g0: "guard_op (cs \<noteq> 0) ZeroDivisionError ?s1 = (Inr (), ?s1)"
    using o(7) by (simp add: op_simps)
  have "truncate_op L mount path new_size s = (Inr (), ?s3\<lparr>in_txn := False\<rparr>)"
    unfolding truncate_op_def if_not_P [OF sz']
    by (rule txn_Inr [OF o(8)], rule bind_opI, rule o(1), simp only: prod.case, rule bind_opI, rule o(2),
        rule bind_opI, rule o(4), simp only: prod.case Let_def [where s = "nat new_size"] if_not_P [OF ne],
        rule bind_opI, rule alloc_ok, rule bind_opI, rule g0, rule bind_opI, rule s2(1),
        simp only: commit_run length_resized) (use c in simp)
  with c show ?thesis by blast
qed

section \<open>Reading back, and the other files\<close>

lemma file_at_read:
  assumes "file_at L U cs s mount path n B"
  shows "read_all L mount path s = (Inr B, s)"
proof -
  from assms obtain m where leaf: "leaf_for_write mount path s = (Inr (m, n), s)"
    and ok: "keys_ok (tabs s)" "content_is L (cipher_of s) cs (tabs s) n B" "0 < cs"
    by (auto simp: file_at_def)
  from resolve_leaf_ro [OF leaf_for_write_leaf [OF leaf]] obtain r where
    r: "require_mount mount False s = (Inr m, s)" "resolve (tabs s) (m_point m) path = Inr r"
    "rs_type r \<noteq> CONTAINER" "rs_node r = n"
    by (auto simp: resolve_leaf_iff)
  then show ?thesis using read_content_is [OF ok]
    by (simp add: read_all_def op_simps resolve_op_def)
qed

lemma content_is_other:
  assumes "rewrote n s s'" and "m \<noteq> n" and "content_is L c cs (tabs s) m B"
  shows "content_is L c cs (tabs s') m B"
proof -
  from assms obtain r where r: "content_at (tabs s) m = Some r" "ct_size r = length B"
    "stored L c (tabs s) m (ct_version r) (split_chunks cs B)"
    by (auto simp: content_is_def)
  moreover have "content_at (tabs s') m = Some r" using assms r by (simp add: rewrote_def)
  moreover have "stored L c (tabs s') m (ct_version r) (split_chunks cs B)"
    using r(3) by (rule stored_other) (use assms in \<open>auto simp: rewrote_def\<close>)
  ultimately show ?thesis by (auto simp: content_is_def)
qed

lemma file_at_other:
  assumes old: "file_at L U cs s mount' path' m C" and new: "file_at L U cs s' mount path n B"
    and rw: "rewrote n s s'" and ne: "m \<noteq> n"
  shows "file_at L U cs s' mount' path' m C"
proof -
  from old obtain k vr where k: "leaf_for_write mount' path' s = (Inr (k, m), s)"
    "volume_at (tabs s) (m_volume k) = Some vr" "vl_chunk_size vr = cs"
    and c: "content_is L (cipher_of s) cs (tabs s) m C" by (auto simp: file_at_def)
  have v: "same_view s s'" using rw by (simp add: rewrote_def)
  have "leaf_for_write mount' path' s' = (Inr (k, m), s')"
    using k(1) v by (rule leaf_for_write_in_txn) (use rw in \<open>simp add: rewrote_def\<close>)
  moreover have "volume_at (tabs s') (m_volume k) = Some vr"
    using k v by (simp add: same_view_def same_tree_def)
  moreover have "content_is L (cipher_of s') cs (tabs s') m C"
    using content_is_other [OF rw ne c] v by (simp add: same_view_def)
  ultimately show ?thesis using new k by (auto simp: file_at_def)
qed

text \<open>A superseded version is never touched: the history of \<open>n\<close> stays as it was.\<close>

lemma history_kept:
  "rewrote n s s' \<Longrightarrow> stored L c (tabs s) m v ps \<Longrightarrow> v < next_version (tabs s) n \<Longrightarrow> stored L c (tabs s') m v ps"
  by (erule stored_other) (auto simp: rewrote_def)

end
