(* ===== verification/Structural.thy ===== *)
theory Structural
  imports Writes
begin

text \<open>
  The structural operations of \<open>aloelite/operations.py\<close>: creating containers, entries and
  special nodes, hard links, rename, move, remove, ownership, times, extended attributes and
  metadata, with the SQL templates they run. A template that answers its rowcount is a
  function to the count and the new tables.
\<close>

section \<open>Templates\<close>

definition sql_count :: "(tables \<Rightarrow> nat \<times> tables) \<Rightarrow> nat op" where
  "sql_count f s = (Inr (fst (f (tabs s))), s\<lparr>tabs := snd (f (tabs s))\<rparr>)"

text \<open>UPDATE edge SET archived = 1 with its trigger \<open>edge_touch_ctime_arch\<close>.\<close>

definition archive_where ::
  "timestamp \<Rightarrow> (edge_row \<Rightarrow> bool) \<Rightarrow> tables \<Rightarrow> nat \<times> tables" where
  "archive_where ts P t =
     (let hit = filter (\<lambda>e. \<not> eg_archived e \<and> P e) (edges t)
      in (length hit,
          fold (\<lambda>e. touch_ctime ts (eg_to e)) hit
            (t\<lparr>edges := map (\<lambda>e. if \<not> eg_archived e \<and> P e then e\<lparr>eg_archived := True\<rparr> else e)
                 (edges t)\<rparr>)))"

definition archive_placement ::
  "timestamp \<Rightarrow> node_id \<Rightarrow> node_id \<Rightarrow> string \<Rightarrow> tables \<Rightarrow> nat \<times> tables" where
  "archive_placement ts parent node nm =
     archive_where ts (\<lambda>e. eg_from e = parent \<and> eg_to e = node \<and> eg_name e = nm)"

definition archive_edge :: "timestamp \<Rightarrow> edge_id \<Rightarrow> tables \<Rightarrow> nat \<times> tables" where
  "archive_edge ts e = archive_where ts (\<lambda>r. eg_id r = e)"

definition archive_subtree :: "timestamp \<Rightarrow> node_id \<Rightarrow> tables \<Rightarrow> nat \<times> tables" where
  "archive_subtree ts root t =
     (let members = map st_node (subtree t root) in archive_where ts (\<lambda>e. eg_to e \<in> set members) t)"

definition rename_placement ::
  "node_id \<Rightarrow> node_id \<Rightarrow> string \<Rightarrow> string \<Rightarrow> tables \<Rightarrow> tables" where
  "rename_placement parent node old_name nm t =
     t\<lparr>edges := map (\<lambda>e. if eg_from e = parent \<and> eg_to e = node \<and> \<not> eg_archived e
         \<and> eg_name e = old_name then e\<lparr>eg_name := nm\<rparr> else e) (edges t)\<rparr>"

text \<open>With the trigger \<open>node_touch_name\<close>, which skips a rename to the same name.\<close>

definition rename_node_if_sole :: "timestamp \<Rightarrow> node_id \<Rightarrow> string \<Rightarrow> tables \<Rightarrow> tables" where
  "rename_node_if_sole ts node nm t =
     (if nlink t node = 1
      then t\<lparr>nodes := map (\<lambda>r. if nd_id r = node
             then (if nd_name r = nm then r
                   else r\<lparr>nd_name := nm, nd_modified := Some ts, nd_ctime := Some ts\<rparr>)
             else r) (nodes t)\<rparr>
      else t)"

definition update_node :: "node_id \<Rightarrow> (node_row \<Rightarrow> node_row) \<Rightarrow> tables \<Rightarrow> tables" where
  "update_node n f t = t\<lparr>nodes := map (\<lambda>r. if nd_id r = n then f r else r) (nodes t)\<rparr>"

text \<open>coalesce(:new, old), and the trigger \<open>node_touch_owner\<close>.\<close>

definition set_owner_sql ::
  "timestamp \<Rightarrow> node_id \<Rightarrow> int option \<Rightarrow> int option \<Rightarrow> int option \<Rightarrow> tables \<Rightarrow> tables" where
  "set_owner_sql ts n uid gid mode =
     update_node n (\<lambda>r. r\<lparr>nd_uid := (if uid = None then nd_uid r else uid),
        nd_gid := (if gid = None then nd_gid r else gid),
        nd_mode := (if mode = None then nd_mode r else mode), nd_ctime := Some ts\<rparr>)"

definition xattr_row_at :: "tables \<Rightarrow> node_id \<Rightarrow> string \<Rightarrow> xattr_row option" where
  "xattr_row_at t n nm = find (\<lambda>x. xa_node x = n \<and> xa_name x = nm) (xattrs t)"

definition xattr_set_sql :: "node_id \<Rightarrow> string \<Rightarrow> bytes \<Rightarrow> tables \<Rightarrow> fs_error + tables" where
  "xattr_set_sql n nm val t =
     (if xattr_row_at t n nm \<noteq> None
      then Inr (t\<lparr>xattrs := map (\<lambda>x. if xa_node x = n \<and> xa_name x = nm
             then x\<lparr>xa_value := val\<rparr> else x) (xattrs t)\<rparr>)
      else if node_at t n = None then Inl IntegrityError
      else Inr (t\<lparr>xattrs := xattrs t @ [\<lparr>xa_node = n, xa_name = nm, xa_value = val\<rparr>]\<rparr>))"

definition xattr_remove_sql :: "node_id \<Rightarrow> string \<Rightarrow> tables \<Rightarrow> nat \<times> tables" where
  "xattr_remove_sql n nm t =
     (length (filter (\<lambda>x. xa_node x = n \<and> xa_name x = nm) (xattrs t)),
      t\<lparr>xattrs := filter (\<lambda>x. \<not> (xa_node x = n \<and> xa_name x = nm)) (xattrs t)\<rparr>)"

definition check_cycle :: "tables \<Rightarrow> node_id \<Rightarrow> node_id \<Rightarrow> bool" where
  "check_cycle t moving new_parent \<longleftrightarrow>
     moving = new_parent \<or> moving \<in> set (node_ancestor t new_parent)"

definition check_empty :: "tables \<Rightarrow> node_id \<Rightarrow> bool" where
  "check_empty t c \<longleftrightarrow> (\<exists>e \<in> set (active_edge t). eg_from e = c)"

definition check_lock_held_subtree ::
  "timestamp \<Rightarrow> tables \<Rightarrow> node_id \<Rightarrow> mount_id \<Rightarrow> node_id option" where
  "check_lock_held_subtree ts t root mount =
     map_option lk_node
       (find (\<lambda>l. lk_mount l \<noteq> mount \<and> lk_node l \<in> set (map st_node (subtree t root)))
         (valid_lock ts t))"

section \<open>Creation\<close>

definition create_container :: "mount_id \<Rightarrow> string \<Rightarrow> node_id op" where
  "create_container mount path = txn (
     bind_op (require_mount mount True) (\<lambda>m.
     bind_op (resolve_parent_op (m_point m) path) (\<lambda>(parent, nm).
     bind_op (require_name nm) (\<lambda>_.
     bind_op (new_node m CONTAINER nm None None None) (\<lambda>node.
     bind_op (link_node m parent node None) (\<lambda>_.
     ret node))))))"

definition create_entry_internal ::
  "crypto_lib \<Rightarrow> mount_id \<Rightarrow> string \<Rightarrow> bytes \<Rightarrow> node_id op" where
  "create_entry_internal L mount path data =
     bind_op (require_mount mount True) (\<lambda>m.
     bind_op (resolve_parent_op (m_point m) path) (\<lambda>(parent, nm).
     bind_op (require_name nm) (\<lambda>_.
     bind_op (new_node m ENTRY nm None None None) (\<lambda>node.
     bind_op (put_initial_content L m node data) (\<lambda>_.
     bind_op (link_node m parent node None) (\<lambda>_.
     ret node))))))"

definition create_entry :: "crypto_lib \<Rightarrow> mount_id \<Rightarrow> string \<Rightarrow> bytes \<Rightarrow> node_id op" where
  "create_entry L mount path data = txn (create_entry_internal L mount path data)"

definition create_special ::
  "crypto_lib \<Rightarrow> mount_id \<Rightarrow> string \<Rightarrow> node_type \<Rightarrow> bytes \<Rightarrow> node_id op" where
  "create_special L mount path ty data =
     (if ty = CONTAINER \<or> ty = ENTRY then fail Unsupported
      else txn (
        bind_op (require_mount mount True) (\<lambda>m.
        bind_op (resolve_parent_op (m_point m) path) (\<lambda>(parent, nm).
        bind_op (require_name nm) (\<lambda>_.
        bind_op (new_node m ty nm None None None) (\<lambda>node.
        bind_op (put_initial_content L m node data) (\<lambda>_.
        bind_op (link_node m parent node None) (\<lambda>_.
        ret node))))))))"

definition link :: "mount_id \<Rightarrow> string \<Rightarrow> string \<Rightarrow> unit op" where
  "link mount src dst = txn (
     bind_op (require_mount mount True) (\<lambda>m.
     bind_op (resolve_op (m_point m) src) (\<lambda>found.
     bind_op (guard_op (rs_type found \<noteq> CONTAINER) NotAnEntry) (\<lambda>_.
     bind_op (refuse_if_held (rs_node found) mount) (\<lambda>_.
     bind_op (resolve_parent_op (m_point m) dst) (\<lambda>(parent, nm).
     bind_op (require_name nm) (\<lambda>_.
     bind_op (gets (\<lambda>s. resolve_segment (tabs s) parent nm)) (\<lambda>hit.
     bind_op (guard_op (hit = None) AlreadyExists) (\<lambda>_.
     bind_op (gets (\<lambda>s. node_at (tabs s) (rs_node found))) (\<lambda>cur.
     bind_op (link_node m parent (rs_node found)
        (case cur of None \<Rightarrow> Some nm | Some r \<Rightarrow> if nd_name r \<noteq> nm then Some nm else None)) (\<lambda>_.
     ret ())))))))))))"

section \<open>Rename, move, remove\<close>

definition rename :: "mount_id \<Rightarrow> string \<Rightarrow> string \<Rightarrow> unit op" where
  "rename mount path nm = txn (
     bind_op (require_mount mount True) (\<lambda>m.
     bind_op (require_name nm) (\<lambda>_.
     bind_op (resolve_parent_op (m_point m) path) (\<lambda>(parent, old_name).
     bind_op (resolve_op (m_point m) path) (\<lambda>found.
     bind_op (refuse_if_held (rs_node found) mount) (\<lambda>_.
     bind_op (gets sql_now) (\<lambda>ts.
     bind_op (sql_update (rename_placement parent (rs_node found) old_name nm)) (\<lambda>_.
     sql_update (rename_node_if_sole ts (rs_node found) nm)))))))))"

definition move :: "mount_id \<Rightarrow> string \<Rightarrow> string \<Rightarrow> unit op" where
  "move mount src dst = txn (
     bind_op (require_mount mount True) (\<lambda>m.
     bind_op (resolve_op (m_point m) src) (\<lambda>found.
     let node = rs_node found in
     bind_op (refuse_if_held node mount) (\<lambda>_.
     bind_op (resolve_parent_op (m_point m) src) (\<lambda>(src_parent, src_name).
     bind_op (resolve_parent_op (m_point m) dst) (\<lambda>(parent, new_name).
     bind_op (require_name new_name) (\<lambda>_.
     bind_op (gets (\<lambda>s. rs_type found = CONTAINER \<and> check_cycle (tabs s) node parent)) (\<lambda>cyc.
     bind_op (guard_op (\<not> cyc) WouldCycle) (\<lambda>_.
     bind_op (gets sql_now) (\<lambda>ts.
     bind_op (sql_count (archive_placement ts src_parent node src_name)) (\<lambda>moved.
     bind_op (guard_op (moved \<noteq> 0) NotFound) (\<lambda>_.
     bind_op (gets (\<lambda>s. node_at (tabs s) node)) (\<lambda>cur.
     let renamed = (case cur of None \<Rightarrow> False | Some r \<Rightarrow> nd_name r \<noteq> new_name) in
     bind_op (link_node m parent node (if renamed then Some new_name else None)) (\<lambda>_.
     if renamed then sql_update (rename_node_if_sole ts node new_name) else ret ()))))))))))))))"

definition remove :: "mount_id \<Rightarrow> string \<Rightarrow> unit op" where
  "remove mount path = txn (
     bind_op (require_mount mount True) (\<lambda>m.
     bind_op (resolve_op (m_point m) path) (\<lambda>found.
     bind_op (refuse_if_held (rs_node found) mount) (\<lambda>_.
     bind_op (gets (\<lambda>s. rs_type found = CONTAINER \<and> check_empty (tabs s) (rs_node found))) (\<lambda>full.
     bind_op (guard_op (\<not> full) NotEmpty) (\<lambda>_.
     bind_op (resolve_parent_op (m_point m) path) (\<lambda>(parent, nm).
     bind_op (gets sql_now) (\<lambda>ts.
     bind_op (sql_count (archive_placement ts parent (rs_node found) nm)) (\<lambda>removed.
     guard_op (removed \<noteq> 0) NotFound)))))))))"

definition remove_recursive :: "mount_id \<Rightarrow> string \<Rightarrow> unit op" where
  "remove_recursive mount path = txn (
     bind_op (require_mount mount True) (\<lambda>m.
     bind_op (resolve_op (m_point m) path) (\<lambda>found.
     bind_op (gets (\<lambda>s. check_lock_held_subtree (sql_now s) (tabs s) (rs_node found) mount)) (\<lambda>locked.
     bind_op (guard_op (locked = None) LockHeld) (\<lambda>_.
     bind_op (gets sql_now) (\<lambda>ts.
     bind_op (sql_count (archive_subtree ts (rs_node found))) (\<lambda>_.
     ret ())))))))"

section \<open>Attributes\<close>

definition set_mtime :: "mount_id \<Rightarrow> node_id \<Rightarrow> timestamp \<Rightarrow> unit op" where
  "set_mtime mount node ts = txn (
     bind_op (require_mount mount True) (\<lambda>_.
     sql_update (update_node node (\<lambda>r. r\<lparr>nd_modified := Some ts\<rparr>))))"

definition set_atime :: "mount_id \<Rightarrow> node_id \<Rightarrow> timestamp \<Rightarrow> unit op" where
  "set_atime mount node ts = txn (
     bind_op (require_mount mount True) (\<lambda>_.
     sql_update (update_node node (\<lambda>r. r\<lparr>nd_atime := Some ts\<rparr>))))"

definition set_owner ::
  "mount_id \<Rightarrow> string \<Rightarrow> int option \<Rightarrow> int option \<Rightarrow> int option \<Rightarrow> unit op" where
  "set_owner mount path uid gid mode = txn (
     bind_op (require_mount mount True) (\<lambda>m.
     bind_op (resolve_op (m_point m) path) (\<lambda>found.
     bind_op (gets sql_now) (\<lambda>ts.
     sql_update (set_owner_sql ts (rs_node found) uid gid (map_option (\<lambda>x. x mod 4096) mode))))))"

definition set_xattr :: "mount_id \<Rightarrow> string \<Rightarrow> string \<Rightarrow> bytes \<Rightarrow> unit op" where
  "set_xattr mount path nm val = txn (
     bind_op (require_mount mount True) (\<lambda>m.
     bind_op (resolve_op (m_point m) path) (\<lambda>found.
     sql (xattr_set_sql (rs_node found) nm val))))"

definition get_xattr :: "mount_id \<Rightarrow> string \<Rightarrow> string \<Rightarrow> bytes option op" where
  "get_xattr mount path nm =
     bind_op (require_mount mount False) (\<lambda>m.
     bind_op (resolve_op (m_point m) path) (\<lambda>found.
     gets (\<lambda>s. map_option xa_value (xattr_row_at (tabs s) (rs_node found) nm))))"

definition list_xattrs :: "mount_id \<Rightarrow> string \<Rightarrow> string list op" where
  "list_xattrs mount path =
     bind_op (require_mount mount False) (\<lambda>m.
     bind_op (resolve_op (m_point m) path) (\<lambda>found.
     gets (\<lambda>s. sort (map xa_name (filter (\<lambda>x. xa_node x = rs_node found) (xattrs (tabs s)))))))"

definition remove_xattr :: "mount_id \<Rightarrow> string \<Rightarrow> string \<Rightarrow> bool op" where
  "remove_xattr mount path nm = txn (
     bind_op (require_mount mount True) (\<lambda>m.
     bind_op (resolve_op (m_point m) path) (\<lambda>found.
     bind_op (sql_count (xattr_remove_sql (rs_node found) nm)) (\<lambda>k.
     ret (k \<noteq> 0)))))"

definition set_metadata :: "mount_id \<Rightarrow> string \<Rightarrow> (string \<times> string) list \<Rightarrow> unit op" where
  "set_metadata mount path meta = txn (
     bind_op (require_mount mount True) (\<lambda>m.
     bind_op (resolve_op (m_point m) path) (\<lambda>found.
     bind_op (refuse_if_held (rs_node found) mount) (\<lambda>_.
     sql_update (update_node (rs_node found) (\<lambda>r. r\<lparr>nd_metadata := meta_to_json (Some meta)\<rparr>))))))"

end
