(* ===== verification/Locks.thy ===== *)
theory Locks
  imports Structural
begin

text \<open>
  Standalone locks (\<open>lock\<close>, \<open>unlock\<close>, \<open>renew_lock\<close> of \<open>aloelite/operations.py\<close>) and the
  lock half of \<open>open_write\<close>.

  A lock's validity is derived from its mount and its two clocks' ttls (\<open>lock_live\<close>), so
  nothing revokes one but time, \<open>unlock\<close>, the end of its mount, and pruning.
\<close>

section \<open>Templates\<close>

definition check_any_lock :: "timestamp \<Rightarrow> tables \<Rightarrow> node_id \<Rightarrow> bool" where
  "check_any_lock ts t node \<longleftrightarrow> (\<exists>l \<in> set (valid_lock ts t). lk_node l = node)"

text \<open>\<open>get_lock\<close> over the view \<open>mount_lock\<close>: the row and its computed validity.\<close>

definition get_lock :: "timestamp \<Rightarrow> tables \<Rightarrow> lock_id \<Rightarrow> (lock_row \<times> bool) option" where
  "get_lock ts t l =
     (case lock_at t l of
        None \<Rightarrow> None
      | Some r \<Rightarrow> if mount_at t (lk_mount r) = None then None else Some (r, lock_live ts t r))"

definition release_lock :: "lock_id \<Rightarrow> tables \<Rightarrow> tables" where
  "release_lock l t = t\<lparr>locks := filter (\<lambda>r. lk_id r \<noteq> l) (locks t)\<rparr>"

definition renew_lock_sql :: "lock_id \<Rightarrow> timestamp option \<Rightarrow> tables \<Rightarrow> tables" where
  "renew_lock_sql l x t = t\<lparr>locks := map (\<lambda>r. if lk_id r = l then r\<lparr>lk_expires := x\<rparr> else r) (locks t)\<rparr>"

definition create_lock ::
  "lock_id \<Rightarrow> mount_id \<Rightarrow> node_id \<Rightarrow> timestamp option \<Rightarrow> timestamp \<Rightarrow> tables \<Rightarrow> fs_error + tables" where
  "create_lock l mount node x created =
     insert_lock \<lparr>lk_id = l, lk_mount = mount, lk_node = node, lk_expires = x, lk_created = created\<rparr>"

section \<open>Operations\<close>

record lock_info =
  li_id :: lock_id
  li_mount :: mount_id
  li_node :: node_id
  li_expires_at :: "timestamp option"

definition require_own_lock :: "mount_id \<Rightarrow> lock_id \<Rightarrow> lock_row op" where
  "require_own_lock mount l =
     bind_op (gets (\<lambda>s. get_lock (sql_now s) (tabs s) l)) (\<lambda>row.
     case row of
       None \<Rightarrow> fail LockInvalid
     | Some (r, valid) \<Rightarrow>
         if \<not> valid then fail LockInvalid
         else if lk_mount r \<noteq> mount then fail LockHeld
         else ret r)"

definition lock :: "mount_id \<Rightarrow> string \<Rightarrow> int option \<Rightarrow> lock_info op" where
  "lock mount path ttl_ms = txn (
     bind_op (require_mount mount False) (\<lambda>m.
     bind_op (resolve_op (m_point m) path) (\<lambda>found.
     bind_op (gets (\<lambda>s. check_any_lock (sql_now s) (tabs s) (rs_node found))) (\<lambda>held.
     bind_op (guard_op (\<not> held) LockHeld) (\<lambda>_.
     bind_op gen_id (\<lambda>lid.
     bind_op (gets now) (\<lambda>ts.
     bind_op (sql (create_lock lid mount (rs_node found) (expiry ts ttl_ms) ts)) (\<lambda>_.
     ret \<lparr>li_id = lid, li_mount = mount, li_node = rs_node found,
          li_expires_at = expiry ts ttl_ms\<rparr>))))))))"

definition unlock :: "mount_id \<Rightarrow> lock_id \<Rightarrow> unit op" where
  "unlock mount l = txn (
     bind_op (require_mount mount False) (\<lambda>_.
     bind_op (require_own_lock mount l) (\<lambda>_.
     sql_update (release_lock l))))"

definition renew_lock :: "mount_id \<Rightarrow> lock_id \<Rightarrow> int option \<Rightarrow> lock_info op" where
  "renew_lock mount l ttl_ms = txn (
     bind_op (require_mount mount False) (\<lambda>_.
     bind_op (require_own_lock mount l) (\<lambda>row.
     bind_op (gets now) (\<lambda>ts.
     bind_op (sql_update (renew_lock_sql l (expiry ts ttl_ms))) (\<lambda>_.
     ret \<lparr>li_id = l, li_mount = mount, li_node = lk_node row,
          li_expires_at = expiry ts ttl_ms\<rparr>)))))"

end
