(* ===== verification/Streaming.thy ===== *)
theory Streaming
  imports Locks
begin

text \<open>
  Streaming access to an entry: \<open>open_read\<close> and \<open>open_write\<close> of
  \<open>aloelite/operations.py\<close> and the \<open>Descriptor\<close> of \<open>aloelite/descriptor.py\<close>.

  A \<open>descriptor\<close> is a Python object that outlives the transactions it runs, so its methods
  have type \<open>'a dop\<close>: they answer the result, the descriptor and the connection, and what a
  rolled-back transaction undoes in the file it does not undo in the descriptor.
  \<open>stream_is\<close> is the invariant of a writer: the chunks of the stream so far that are full
  are staged in its version, the rest is pending.
\<close>

section \<open>The descriptor\<close>

record descriptor =
  d_node :: node_id
  d_fd :: fd_id
  d_writable :: bool
  d_cs :: nat
  d_lock :: "lock_id option"
  d_owns_lock :: bool
  d_pos :: nat
  d_closed :: bool
  d_version :: "nat option"
  d_size :: nat
  d_carry_src :: nat
  d_carry_full :: nat
  d_carry_done :: bool
  d_chunk_index :: nat
  d_flushed :: nat
  d_pending :: bytes

type_synonym 'a dop = "descriptor \<Rightarrow> db \<Rightarrow> (fs_error + 'a) \<times> descriptor \<times> db"

definition new_reader :: "node_id \<Rightarrow> fd_id \<Rightarrow> nat \<Rightarrow> nat \<Rightarrow> nat \<Rightarrow> descriptor" where
  "new_reader node fd cs version sz =
     \<lparr>d_node = node, d_fd = fd, d_writable = False, d_cs = cs, d_lock = None, d_owns_lock = True,
      d_pos = 0, d_closed = False, d_version = Some version, d_size = sz,
      d_carry_src = 0, d_carry_full = 0, d_carry_done = False, d_chunk_index = 0,
      d_flushed = 0, d_pending = []\<rparr>"

definition new_writer ::
  "node_id \<Rightarrow> fd_id \<Rightarrow> nat \<Rightarrow> lock_id \<Rightarrow> bool \<Rightarrow> nat \<Rightarrow> nat \<Rightarrow> bytes \<Rightarrow> nat \<Rightarrow> descriptor" where
  "new_writer node fd cs l owns carry_src carry_full pending position =
     \<lparr>d_node = node, d_fd = fd, d_writable = True, d_cs = cs, d_lock = Some l, d_owns_lock = owns,
      d_pos = position, d_closed = False, d_version = None, d_size = 0,
      d_carry_src = carry_src, d_carry_full = carry_full, d_carry_done = False,
      d_chunk_index = carry_full, d_flushed = carry_full * cs, d_pending = pending\<rparr>"

section \<open>Opening\<close>

definition open_read :: "mount_id \<Rightarrow> string \<Rightarrow> descriptor op" where
  "open_read mount path =
     bind_op (resolve_leaf mount path False) (\<lambda>(m, n).
     bind_op (content_meta n) (\<lambda>(version, sz).
     bind_op gen_id (\<lambda>fd.
     bind_op (chunk_size_of (m_volume m)) (\<lambda>cs.
     ret (new_reader n fd cs version sz)))))"

text \<open>\<open>try: resolve ... except NotFound\<close>; only the resolution and the type check raise there.\<close>

definition resolve_or_create ::
  "crypto_lib \<Rightarrow> mount_id \<Rightarrow> mnt \<Rightarrow> string \<Rightarrow> write_mode \<Rightarrow> node_id op" where
  "resolve_or_create L mount m path mode =
     bind_op (gets (\<lambda>s. resolve (tabs s) (m_point m) path)) (\<lambda>r.
     case r of
       Inr found \<Rightarrow> if rs_type found = CONTAINER then fail NotAnEntry else ret (rs_node found)
     | Inl e \<Rightarrow> if e = NotFound \<and> mode \<noteq> APPEND then create_entry_internal L mount path []
               else fail e)"

definition writer_lock :: "mount_id \<Rightarrow> node_id \<Rightarrow> lock_id option \<Rightarrow> lock_id op" where
  "writer_lock mount node l =
     (case l of
        Some x \<Rightarrow>
          bind_op (require_own_lock mount x) (\<lambda>row.
          bind_op (guard_op (lk_node row = node) LockInvalid) (\<lambda>_.
          ret x))
      | None \<Rightarrow>
          bind_op (refuse_if_held node mount) (\<lambda>_.
          bind_op gen_id (\<lambda>lid.
          bind_op (gets now) (\<lambda>ts.
          bind_op (sql (create_lock lid mount node None ts)) (\<lambda>_.
          ret lid)))))"

text \<open>What APPEND carries: source version, full chunks, pending tail, position.\<close>

definition append_start :: "crypto_lib \<Rightarrow> node_id \<Rightarrow> nat \<Rightarrow> (nat \<times> nat \<times> bytes \<times> nat) op" where
  "append_start L node cs =
     bind_op (content_meta node) (\<lambda>(src_version, sz).
     bind_op (guard_op (cs \<noteq> 0) ZeroDivisionError) (\<lambda>_.
     bind_op (if sz > 0 \<and> sz mod cs \<noteq> 0
              then read_range_op L node src_version (sz div cs) (sz div cs) else ret []) (\<lambda>tail.
     ret (src_version, sz div cs, first_piece tail, sz))))"

definition open_write ::
  "crypto_lib \<Rightarrow> mount_id \<Rightarrow> string \<Rightarrow> write_mode \<Rightarrow> lock_id option \<Rightarrow> descriptor op" where
  "open_write L mount path mode l =
     bind_op (txn (
       bind_op (require_mount mount True) (\<lambda>m.
       bind_op (resolve_or_create L mount m path mode) (\<lambda>node.
       bind_op (writer_lock mount node l) (\<lambda>lid.
       bind_op (chunk_size_of (m_volume m)) (\<lambda>cs.
       bind_op (if mode = APPEND then append_start L node cs else ret (0, 0, [], 0))
         (\<lambda>(carry_src, carry_full, pending, position).
       ret (node, lid, cs, carry_src, carry_full, pending, position)))))))) (\<lambda>(node, lid, cs, src, full, pending, pos).
     bind_op gen_id (\<lambda>fd.
     ret (new_writer node fd cs lid (l = None) src full pending pos)))"

section \<open>Methods\<close>

text \<open>A step on the connection alone, lifted.\<close>

definition run_op :: "'a op \<Rightarrow> descriptor \<Rightarrow> db \<Rightarrow> (fs_error + 'a) \<times> descriptor \<times> db" where
  "run_op m d s = (case m s of (r, s') \<Rightarrow> (r, d, s'))"

definition d_bind :: "'a dop \<Rightarrow> ('a \<Rightarrow> 'b dop) \<Rightarrow> 'b dop" where
  "d_bind m f d s = (case m d s of (Inl e, d', s') \<Rightarrow> (Inl e, d', s') | (Inr x, d', s') \<Rightarrow> f x d' s')"

definition refresh :: "db \<Rightarrow> descriptor \<Rightarrow> descriptor" where
  "refresh s d = (let (v, sz) = or_else (read_content_meta (tabs s) (d_node d)) (0, 0)
     in d\<lparr>d_version := Some v, d_size := sz\<rparr>)"

definition fetch_range :: "crypto_lib \<Rightarrow> descriptor \<Rightarrow> nat \<Rightarrow> nat \<Rightarrow> db \<Rightarrow> fs_error + bytes" where
  "fetch_range L d start stop s =
     (let cs = d_cs d in
      if cs = 0 then Inl ZeroDivisionError
      else (let lo = start div cs; hi = (stop - 1) div cs; base = lo * cs in
        case read_chunk_range L (d_node d) (or_else (d_version d) 0) lo hi s of
          Inl e \<Rightarrow> Inl e
        | Inr rows \<Rightarrow> Inr (take (stop - start) (drop (start - base) (concat (map snd rows))))))"

text \<open>\<open>read(n)\<close>, \<open>None\<close> for a negative or absent count.\<close>

definition d_read :: "crypto_lib \<Rightarrow> nat option \<Rightarrow> bytes dop" where
  "d_read L n d s =
     (if d_closed d then (Inl ValueError, d, s)
      else if d_writable d then (Inl Unsupported, d, s)
      else (let d1 = refresh s d;
                start = d_pos d1;
                stop = (case n of None \<Rightarrow> d_size d1 | Some k \<Rightarrow> min (d_size d1) (start + k))
            in if stop \<le> start then (Inr [], d1, s)
               else (case fetch_range L d1 start stop s of
                       Inl e \<Rightarrow> (Inl e, d1, s)
                     | Inr data \<Rightarrow> (Inr data, d1\<lparr>d_pos := stop\<rparr>, s))))"

definition d_seek :: "int \<Rightarrow> whence \<Rightarrow> nat dop" where
  "d_seek offset wh d s =
     (if d_closed d then (Inl ValueError, d, s)
      else (let d1 = (if \<not> d_writable d \<and> wh = END then refresh s d else d);
                total = (if d_writable d1 then d_flushed d1 + length (d_pending d1) else d_size d1);
                new = (case wh of SET \<Rightarrow> offset | CUR \<Rightarrow> int (d_pos d1) + offset
                       | END \<Rightarrow> int total + offset)
            in if new < 0 then (Inl ValueError, d1, s)
               else (Inr (nat new), d1\<lparr>d_pos := nat new\<rparr>, s)))"

definition d_tell :: "nat dop" where
  "d_tell d s = (if d_closed d then (Inl ValueError, d, s) else (Inr (d_pos d), d, s))"

text \<open>
  \<open>with self._db.txn():\<close> around descriptor steps: the file rolls back, the descriptor does
  not.
\<close>

definition d_txn :: "'a dop \<Rightarrow> 'a dop" where
  "d_txn m d s =
     (if in_txn s then (Inl OperationalError, d, s)
      else case m d (s\<lparr>in_txn := True\<rparr>) of
        (Inl e, d', s') \<Rightarrow> (Inl e, d', s'\<lparr>tabs := tabs s, pending_wm := [], in_txn := False\<rparr>)
      | (Inr x, d', s') \<Rightarrow> (Inr x, d', (flush_watermarks s')\<lparr>in_txn := False\<rparr>))"

definition claim_version :: "unit dop" where
  "claim_version d s =
     (let d1 = (case d_version d of
                  None \<Rightarrow> d\<lparr>d_version := Some (next_version (tabs s) (d_node d))\<rparr> | Some v \<Rightarrow> d);
          v = or_else (d_version d1) 0
      in if d_carry_done d1 then (Inr (), d1, s)
         else (case (if d_carry_full d1 > 0
                     then carry (d_node d1) v (d_carry_src d1) 0 (d_carry_full d1 - 1) else ret ()) s of
                 (Inl e, s') \<Rightarrow> (Inl e, d1, s')
               | (Inr _, s') \<Rightarrow> (Inr (), d1\<lparr>d_carry_done := True\<rparr>, s')))"

definition stage_own :: "crypto_lib \<Rightarrow> bytes \<Rightarrow> unit dop" where
  "stage_own L p d s =
     run_op (stage_chunk L (d_node d) (or_else (d_version d) 0) (d_chunk_index d) p) d s"

definition flush_one_chunk :: "crypto_lib \<Rightarrow> unit dop" where
  "flush_one_chunk L d s =
     (case d_txn (d_bind claim_version (\<lambda>_. stage_own L (take (d_cs d) (d_pending d)))) d s of
        (Inl e, d', s') \<Rightarrow> (Inl e, d', s')
      | (Inr _, d', s') \<Rightarrow>
          (Inr (), d'\<lparr>d_chunk_index := Suc (d_chunk_index d'), d_flushed := d_flushed d' + d_cs d',
             d_pending := drop (d_cs d') (d_pending d')\<rparr>, s'))"

text \<open>
  \<open>while len(self._pending) >= self._cs\<close>; the fuel is the pending length plus one, which a
  positive chunk size never exhausts. With a chunk size of zero the loop does not end: the
  result is then the error of an exhausted fuel, which no caller sees.
\<close>

fun flush_full :: "crypto_lib \<Rightarrow> nat \<Rightarrow> unit dop" where
  "flush_full L 0 d s = (Inl OperationalError, d, s)"
| "flush_full L (Suc k) d s =
     (if length (d_pending d) \<ge> d_cs d
      then (case flush_one_chunk L d s of
              (Inl e, d', s') \<Rightarrow> (Inl e, d', s')
            | (Inr _, d', s') \<Rightarrow> flush_full L k d' s')
      else (Inr (), d, s))"

definition d_write :: "crypto_lib \<Rightarrow> bytes \<Rightarrow> nat dop" where
  "d_write L data d s =
     (if d_closed d then (Inl ValueError, d, s)
      else if \<not> d_writable d then (Inl ValueError, d, s)
      else if data = [] then (Inr 0, d, s)
      else if d_pos d < d_flushed d then (Inl Unsupported, d, s)
      else (let d1 = d\<lparr>d_pending := patch (d_pos d - d_flushed d) data (d_pending d),
                       d_pos := d_pos d + length data\<rparr>
            in case flush_full L (Suc (length (d_pending d1))) d1 s of
                 (Inl e, d', s') \<Rightarrow> (Inl e, d', s')
               | (Inr _, d', s') \<Rightarrow> (Inr (length data), d', s')))"

definition release_own :: "unit dop" where
  "release_own d s =
     (case d_lock d of
        Some l \<Rightarrow> if d_owns_lock d then run_op (sql_update (release_lock l)) d s else (Inr (), d, s)
      | None \<Rightarrow> (Inr (), d, s))"

definition d_abort :: "unit dop" where
  "d_abort d s =
     (if d_closed d then (Inr (), d, s)
      else (let (r, d', s') = (if d_writable d \<and> d_lock d \<noteq> None \<and> d_owns_lock d
                               then d_txn release_own d s else (Inr (), d, s))
            in (r, d'\<lparr>d_closed := True\<rparr>, s')))"

definition check_own_lock :: "unit dop" where
  "check_own_lock d s =
     (case d_lock d of
        None \<Rightarrow> (Inr (), d, s)
      | Some l \<Rightarrow> (case get_lock (sql_now s) (tabs s) l of
            None \<Rightarrow> (Inl LockInvalid, d, s)
          | Some (r, valid) \<Rightarrow> if valid then (Inr (), d, s) else (Inl LockInvalid, d, s)))"

definition commit_body :: "crypto_lib \<Rightarrow> unit dop" where
  "commit_body L d0 =
     d_bind check_own_lock (\<lambda>_.
     d_bind claim_version (\<lambda>_ d.
     d_bind (if d_pending d \<noteq> [] then stage_own L (d_pending d) else (\<lambda>d s. (Inr (), d, s))) (\<lambda>_.
     d_bind (run_op (commit_content (d_node d) (or_else (d_version d) 0)
               (d_flushed d + length (d_pending d)))) (\<lambda>_.
     release_own)) d)) d0"

definition d_close :: "crypto_lib \<Rightarrow> unit dop" where
  "d_close L d s =
     (if d_closed d then (Inr (), d, s)
      else (let (r, d', s') = (if d_writable d then d_txn (commit_body L) d s else (Inr (), d, s))
            in (r, d'\<lparr>d_closed := True\<rparr>, s')))"

text \<open>\<open>__exit__\<close>: commit on a clean exit, abort when the block is unwinding.\<close>

definition d_exit :: "crypto_lib \<Rightarrow> bool \<Rightarrow> unit dop" where
  "d_exit L failed = (if failed then d_abort else d_close L)"

end
