(* ===== verification/Streams.thy ===== *)
theory Streams
  imports Streaming
begin

text \<open>
  What a \<open>Descriptor\<close> does: a reader serves the bytes of the committed version from its
  cursor; a writer, fed piece by piece, stages full chunks as it goes and leaves the
  committed bytes alone until \<open>d_close\<close> swaps the pointer to exactly the stream.
\<close>

section \<open>Ranged reads\<close>

lemma take_drop_window:
  fixes B :: "'a list"
  assumes "lo * cs \<le> start" and "start \<le> stop" and "stop \<le> Suc hi * cs"
  shows "take (stop - start) (drop (start - lo * cs) (take ((Suc hi - lo) * cs) (drop (lo * cs) B)))
    = take (stop - start) (drop start B)"
proof -
  have "drop (start - lo * cs) (take ((Suc hi - lo) * cs) (drop (lo * cs) B)) =
      take ((Suc hi - lo) * cs - (start - lo * cs)) (drop start B)"
    using assms(1) by (simp add: drop_take)
  moreover have "stop - start \<le> (Suc hi - lo) * cs - (start - lo * cs)"
    using assms by (simp add: diff_mult_distrib)
  ultimately show ?thesis by (simp add: min_absorb1)
qed

lemma fetch_range_ok:
  assumes "keys_ok (tabs s)" and "0 < cs" and "d_cs d = cs" and "start < stop" and "stop \<le> length B"
    and "stored L (cipher_of s) (tabs s) (d_node d) v (split_chunks cs B)" and "d_version d = Some v"
  shows "fetch_range L d start stop s = Inr (take (stop - start) (drop start B))"
proof -
  let ?P = "split_chunks cs B" and ?lo = "start div cs" and ?hi = "(stop - 1) div cs"
  have rows: "read_chunk_range L (d_node d) v ?lo ?hi s =
      Inr (map (\<lambda>i. (i, ?P ! i)) [?lo..<min (length ?P) (Suc ?hi)])"
    using assms by (simp add: read_chunk_range_def read_stored_range)
  have cat: "concat (map snd (map (\<lambda>i. (i, ?P ! i)) [?lo..<min (length ?P) (Suc ?hi)])) =
      take ((Suc ?hi - ?lo) * cs) (drop (?lo * cs) B)"
    unfolding concat_range using assms(2) by (simp add: split_window concat_split_chunks)
  have "(stop - 1) mod cs < cs" using assms(2) by simp
  then have "stop - 1 < ?hi * cs + cs" using div_mult_mod_eq [of "stop - 1" cs] by linarith
  then have "stop \<le> Suc ?hi * cs" using assms(4) by simp
  moreover have "?lo * cs \<le> start" by simp
  ultimately have "take (stop - start) (drop (start - ?lo * cs)
      (take ((Suc ?hi - ?lo) * cs) (drop (?lo * cs) B))) = take (stop - start) (drop start B)"
    using assms(4) by (intro take_drop_window) simp_all
  then show ?thesis using assms(2,3,7) rows cat
    by (simp add: fetch_range_def Let_def or_else_def del: map_map)
qed

definition reader_on ::
  "crypto_lib \<Rightarrow> nat \<Rightarrow> db \<Rightarrow> descriptor \<Rightarrow> node_id \<Rightarrow> bytes \<Rightarrow> bool" where
  "reader_on L cs s d n B \<longleftrightarrow> \<not> d_closed d \<and> \<not> d_writable d \<and> d_node d = n \<and> d_cs d = cs \<and> 0 < cs
     \<and> keys_ok (tabs s) \<and> content_is L (cipher_of s) cs (tabs s) n B"

text \<open>The bytes a read of at most \<open>k\<close> from \<open>pos\<close> serves.\<close>

definition served :: "nat option \<Rightarrow> nat \<Rightarrow> bytes \<Rightarrow> bytes" where
  "served k pos B = (case k of None \<Rightarrow> drop pos B | Some j \<Rightarrow> take j (drop pos B))"

lemma d_read_ok:
  assumes "reader_on L cs s d n B"
  shows "\<exists>d'. d_read L k d s = (Inr (served k (d_pos d) B), d', s) \<and> reader_on L cs s d' n B
     \<and> d_pos d' = d_pos d + length (served k (d_pos d) B)"
proof -
  from assms obtain r where r: "content_at (tabs s) n = Some r" "ct_size r = length B"
    "stored L (cipher_of s) (tabs s) n (ct_version r) (split_chunks cs B)"
    by (auto simp: reader_on_def content_is_def)
  let ?d1 = "d\<lparr>d_version := Some (ct_version r), d_size := length B\<rparr>"
  have d1: "refresh s d = ?d1"
    using assms r by (simp add: refresh_def reader_on_def read_content_meta_def or_else_def)
  define stop where "stop = (case k of None \<Rightarrow> length B | Some j \<Rightarrow> min (length B) (d_pos d + j))"
  have R: "served k (d_pos d) B = (if stop \<le> d_pos d then [] else take (stop - d_pos d) (drop (d_pos d) B))"
    by (auto simp: served_def stop_def min_def split: option.splits)
  show ?thesis
  proof (cases "stop \<le> d_pos d")
    case True
    then show ?thesis using assms d1 R
      by (auto simp: d_read_def reader_on_def Let_def stop_def split: option.splits)
  next
    case False
    have le: "stop \<le> length B" by (auto simp: stop_def split: option.splits)
    have f: "fetch_range L ?d1 (d_pos d) stop s = Inr (take (stop - d_pos d) (drop (d_pos d) B))"
      by (rule fetch_range_ok [where cs = cs and v = "ct_version r"])
        (use assms r False le in \<open>auto simp: reader_on_def\<close>)
    have "d_read L k d s = (Inr (take (stop - d_pos d) (drop (d_pos d) B)), ?d1\<lparr>d_pos := stop\<rparr>, s)"
      using assms False f unfolding stop_def
      by (auto simp: d_read_def reader_on_def Let_def d1 split: option.splits)
    with R False le assms show ?thesis by (auto simp: reader_on_def)
  qed
qed

section \<open>A writer in mid-stream\<close>

definition stream_is ::
  "crypto_lib \<Rightarrow> bytes set \<Rightarrow> nat \<Rightarrow> db \<Rightarrow> node_id \<Rightarrow> nat \<Rightarrow> bytes \<Rightarrow> descriptor \<Rightarrow> db \<Rightarrow> bytes \<Rightarrow> bool" where
  "stream_is L U cs s0 n src B d s S \<longleftrightarrow>
     d_writable d \<and> \<not> d_closed d \<and> d_node d = n \<and> d_cs d = cs \<and> d_pos d = length S
     \<and> d_flushed d = d_chunk_index d * cs \<and> d_flushed d \<le> length S \<and> d_pending d = drop (d_flushed d) S
     \<and> collision_free L (cipher_of s0) U (tabs s)
     \<and> (if d_carry_done d
        then d_version d = Some (next_version (tabs s0) n)
          \<and> grown L n (next_version (tabs s0) n) (slots 0 (take (d_chunk_index d) (split_chunks cs S))) s0 s
        else d_version d = None \<and> s = s0 \<and> d_chunk_index d = d_carry_full d
          \<and> (d_carry_full d = 0 \<or> d_carry_src d = src)
          \<and> take (d_carry_full d) (split_chunks cs B) = take (d_carry_full d) (split_chunks cs S))"

lemma content_frame_txn:
  assumes "content_frame s s'"
  shows "content_frame (s\<lparr>in_txn := b\<rparr>) (s'\<lparr>in_txn := b\<rparr>)"
proof -
  from assms obtain d cs vs where "s' = s\<lparr>draws := d, tabs := (tabs s)\<lparr>chunks := cs, versions := vs\<rparr>\<rparr>"
    by (auto simp: content_frame_def)
  then have "s'\<lparr>in_txn := b\<rparr> = s\<lparr>in_txn := b\<rparr>\<lparr>draws := d,
      tabs := (tabs (s\<lparr>in_txn := b\<rparr>))\<lparr>chunks := cs, versions := vs\<rparr>\<rparr>" by simp
  then show ?thesis unfolding content_frame_def by blast
qed

lemma grown_txn: "grown L n v f s s' \<Longrightarrow> grown L n v f (s\<lparr>in_txn := b\<rparr>) (s'\<lparr>in_txn := b\<rparr>)"
  by (auto simp: grown_def content_frame_txn)

lemma grown_same [simp]: "grown L n v f (s\<lparr>in_txn := in_txn s\<rparr>) s' = grown L n v f s s'"
  by simp

lemma split_chunks_prefix:
  "0 < cs \<Longrightarrow> k * cs \<le> length S \<Longrightarrow> take k (split_chunks cs (S @ r)) = take k (split_chunks cs S)"
  by (simp add: take_split_chunks)

lemma nth_chunk_prefix:
  assumes "0 < cs" and "Suc k * cs \<le> length S"
  shows "split_chunks cs S ! k = take cs (drop (k * cs) S)" and "k < length (split_chunks cs S)"
proof -
  have "Suc k * cs div cs \<le> (length S + cs - 1) div cs"
    using assms by (intro div_le_mono) linarith
  then have "Suc k \<le> (length S + cs - 1) div cs" using assms(1) by (metis nonzero_mult_div_cancel_right not_gr_zero)
  then show l: "k < length (split_chunks cs S)" using assms(1) by (simp add: length_split_chunks)
  show "split_chunks cs S ! k = take cs (drop (k * cs) S)"
    using assms(1) l by (simp add: nth_split_chunks)
qed

text \<open>Claiming the version, inside the descriptor's transaction.\<close>

lemma claim_ok:
  assumes fl: "file_at L U cs s0 mount path n B" and c0: "content_at (tabs s0) n = Some r"
    and st: "stream_is L U cs s0 n (ct_version r) B d s S"
    and sb: "stored L (cipher_of s0) (tabs s0) n (ct_version r) (split_chunks cs B)"
  shows "\<exists>s'. claim_version d (s\<lparr>in_txn := True\<rparr>)
        = (Inr (), d\<lparr>d_version := Some (next_version (tabs s0) n), d_carry_done := True\<rparr>, s')
     \<and> grown L n (next_version (tabs s0) n) (slots 0 (take (d_chunk_index d) (split_chunks cs S)))
         (s0\<lparr>in_txn := True\<rparr>) s'
     \<and> collision_free L (cipher_of s0) U (tabs s')"
proof (cases "d_carry_done d")
  case True
  then have "claim_version d (s\<lparr>in_txn := True\<rparr>) = (Inr (), d\<lparr>d_version := Some (next_version (tabs s0) n), d_carry_done := True\<rparr>, s\<lparr>in_txn := True\<rparr>)"
    using st by (simp add: claim_version_def stream_is_def)
  moreover have "grown L n (next_version (tabs s0) n) (slots 0 (take (d_chunk_index d) (split_chunks cs S)))
      (s0\<lparr>in_txn := True\<rparr>) (s\<lparr>in_txn := True\<rparr>)"
    using st True by (intro grown_txn) (simp add: stream_is_def)
  ultimately show ?thesis using st by (auto simp: stream_is_def)
next
  case False
  let ?s1 = "s0\<lparr>in_txn := True\<rparr>" and ?v = "next_version (tabs s0) n"
  from False st have d: "s = s0" "d_version d = None" "d_chunk_index d = d_carry_full d" "d_node d = n"
    "d_carry_full d = 0 \<or> d_carry_src d = ct_version r"
    "take (d_carry_full d) (split_chunks cs B) = take (d_carry_full d) (split_chunks cs S)"
    by (auto simp: stream_is_def)
  from fl obtain m r' vr where o: "node_at (tabs s0) n \<noteq> None" "keys_ok (tabs s0)"
    "collision_free L (cipher_of s0) U (tabs s0)" by (rule file_at_open)
  from carry_prefix_ok [of ?s1 n L "ct_version r" "split_chunks cs B" ?v "d_carry_full d"] o sb next_version_fresh
  obtain s' where s': "(if d_carry_full d > 0 then carry n ?v (ct_version r) 0 (d_carry_full d - 1) else ret ()) ?s1
        = (Inr (), s')"
    "grown L n ?v (slots 0 (take (d_carry_full d) (split_chunks cs B))) ?s1 s'" "chunks (tabs s') = chunks (tabs s0)"
    by auto
  have "(if d_carry_full d > 0 then carry n ?v (d_carry_src d) 0 (d_carry_full d - 1) else ret ()) ?s1 = (Inr (), s')"
    using s'(1) d(5) by (cases "d_carry_full d = 0") auto
  then have "claim_version d (s\<lparr>in_txn := True\<rparr>) = (Inr (), d\<lparr>d_version := Some ?v, d_carry_done := True\<rparr>, s')"
    using False d(1-4)
    by (cases "d_carry_full d = 0") (simp_all add: claim_version_def or_else_def Let_def)
  moreover have "collision_free L (cipher_of s0) U (tabs s')"
    using o(3) collision_free_chunks [OF s'(3)] by simp
  ultimately show ?thesis using s'(2) d by auto
qed

text \<open>One full chunk leaves the pending buffer in a transaction of its own.\<close>

lemma stage_own_ok:
  assumes fl: "file_at L U cs s0 mount path n B" and lib: "lib_ok L"
    and g: "grown L n (next_version (tabs s0) n) (slots 0 ps) (s0\<lparr>in_txn := True\<rparr>) s"
    and cf: "collision_free L (cipher_of s0) U (tabs s)" and len: "length ps = d_chunk_index d"
    and d: "d_node d = n" "d_version d = Some (next_version (tabs s0) n)" and U: "p \<in> U"
  shows "\<exists>s'. stage_own L p d s = (Inr (), d, s')
     \<and> grown L n (next_version (tabs s0) n) (slots 0 (ps @ [p])) (s0\<lparr>in_txn := True\<rparr>) s'
     \<and> collision_free L (cipher_of s0) U (tabs s')"
proof -
  let ?v = "next_version (tabs s0) n"
  from fl obtain m vr r where nd: "node_at (tabs s0) n \<noteq> None" by (rule file_at_open)
  have "manifest (tabs s) n ?v (d_chunk_index d) = None"
    using grown_free [OF g, of "d_chunk_index d"] next_version_fresh len by (simp add: slots_def)
  moreover have "keys_ok (tabs s)" using g by (simp add: grown_def)
  moreover have "cipher_of s = cipher_of s0" using grown_cipher [OF g] by simp
  moreover have "node_at (tabs s) n \<noteq> None" using grown_node [OF g, of n] nd by simp
  ultimately obtain s' where s': "stage_chunk L n ?v (d_chunk_index d) p s = (Inr (), s')"
    "staged L n ?v (d_chunk_index d) [p] s s'" "collision_free L (cipher_of s0) U (tabs s')"
    using stage_chunk_ok [OF lib, of s U p n ?v "d_chunk_index d"] cf U by auto
  have "grown L n ?v (slots 0 ps ++ slots (d_chunk_index d) [p]) (s0\<lparr>in_txn := True\<rparr>) s'"
    by (rule grown_trans [OF g staged_grown [OF s'(2)] slots_disjoint]) (simp add: len)
  then have "grown L n ?v (slots 0 (ps @ [p])) (s0\<lparr>in_txn := True\<rparr>) s'"
    using slots_append [of 0 ps "[p]"] by (simp add: len)
  with s' d show ?thesis by (simp add: stage_own_def run_op_def or_else_def)
qed

lemma d_txn_Inr:
  "\<not> in_txn s \<Longrightarrow> m d (s\<lparr>in_txn := True\<rparr>) = (Inr x, d', s') \<Longrightarrow> pending_wm s' = [] \<Longrightarrow>
     d_txn m d s = (Inr x, d', s'\<lparr>in_txn := False\<rparr>)"
  by (simp add: d_txn_def flush_nothing)

lemma d_bind_Inr: "m d s = (Inr x, d', s') \<Longrightarrow> f x d' s' = r \<Longrightarrow> d_bind m f d s = r"
  by (simp add: d_bind_def)

lemma grown_txn_facts:
  assumes "grown L n v f (s0\<lparr>in_txn := True\<rparr>) s" and "\<not> in_txn s0"
  shows "grown L n v f s0 (s\<lparr>in_txn := False\<rparr>)" and "pending_wm s = pending_wm s0"
    and "sql_now s = sql_now s0" and "locks (tabs s) = locks (tabs s0)" and "mounts (tabs s) = mounts (tabs s0)"
proof -
  have "s0\<lparr>in_txn := True\<rparr>\<lparr>in_txn := False\<rparr> = s0" using assms(2) by simp
  then show "grown L n v f s0 (s\<lparr>in_txn := False\<rparr>)" using grown_txn [OF assms(1), of False] by simp
  have "content_frame (s0\<lparr>in_txn := True\<rparr>) s" using assms(1) by (simp add: grown_def)
  note D = content_frameD [OF this]
  show "pending_wm s = pending_wm s0" "sql_now s = sql_now s0" "locks (tabs s) = locks (tabs s0)"
    "mounts (tabs s) = mounts (tabs s0)" using D by simp_all
qed

lemma stream_not_in_txn:
  assumes "stream_is L U cs s0 n src B d s S" and "\<not> in_txn s0" and "pending_wm s0 = []"
  shows "\<not> in_txn s" "pending_wm s = []"
proof -
  have "s = s0 \<or> content_frame s0 s" using assms(1) by (auto simp: stream_is_def grown_def split: if_splits)
  then show "\<not> in_txn s" "pending_wm s = []" using content_frameD [of s0 s] assms by auto
qed

lemma flush_one_chunk_ok:
  assumes lib: "lib_ok L" and fl: "file_at L U cs s0 mount path n B" and c0: "content_at (tabs s0) n = Some r"
    and st: "stream_is L U cs s0 n (ct_version r) B d s S"
    and long: "cs \<le> length (d_pending d)" and U: "take cs (d_pending d) \<in> U"
  shows "\<exists>d' s'. flush_one_chunk L d s = (Inr (), d', s') \<and> stream_is L U cs s0 n (ct_version r) B d' s' S
     \<and> length (d_pending d') = length (d_pending d) - cs \<and> d_lock d' = d_lock d \<and> d_owns_lock d' = d_owns_lock d"
proof -
  let ?v = "next_version (tabs s0) n" and ?k = "d_chunk_index d"
  let ?d1 = "d\<lparr>d_version := Some ?v, d_carry_done := True\<rparr>"
  let ?d2 = "?d1\<lparr>d_chunk_index := Suc ?k, d_flushed := d_flushed d + cs, d_pending := drop cs (d_pending d)\<rparr>"
  from fl obtain m vr r' where o: "content_at (tabs s0) n = Some r'"
    "stored L (cipher_of s0) (tabs s0) n (ct_version r') (split_chunks cs B)" "0 < cs" "\<not> in_txn s0" "pending_wm s0 = []"
    by (rule file_at_open)
  have sb: "stored L (cipher_of s0) (tabs s0) n (ct_version r) (split_chunks cs B)" using o c0 by simp
  have d: "d_node d = n" "d_cs d = cs" "d_flushed d = ?k * cs" "?k * cs \<le> length S"
    "d_pending d = drop (?k * cs) S" using st by (auto simp: stream_is_def)
  have k: "Suc ?k * cs \<le> length S" using long d by simp
  note ch = nth_chunk_prefix [OF \<open>0 < cs\<close> k]
  from claim_ok [OF fl c0 st sb] obtain s1 where s1: "claim_version d (s\<lparr>in_txn := True\<rparr>) = (Inr (), ?d1, s1)"
    "grown L n ?v (slots 0 (take ?k (split_chunks cs S))) (s0\<lparr>in_txn := True\<rparr>) s1"
    "collision_free L (cipher_of s0) U (tabs s1)" by blast
  have lt: "length (take ?k (split_chunks cs S)) = ?k" using ch(2) by simp
  have p: "take cs (d_pending d) = split_chunks cs S ! ?k" using ch(1) d by simp
  obtain s2 where s2: "stage_own L (take cs (d_pending d)) ?d1 s1 = (Inr (), ?d1, s2)"
    "grown L n ?v (slots 0 (take ?k (split_chunks cs S) @ [take cs (d_pending d)])) (s0\<lparr>in_txn := True\<rparr>) s2"
    "collision_free L (cipher_of s0) U (tabs s2)"
    using stage_own_ok [OF fl lib s1(2,3), of ?d1 "take cs (d_pending d)"] d lt U by auto
  have g2: "grown L n ?v (slots 0 (take (Suc ?k) (split_chunks cs S))) (s0\<lparr>in_txn := True\<rparr>) s2"
    using s2(2) unfolding p take_Suc_conv_app_nth [OF ch(2)] .
  note gf = grown_txn_facts [OF g2 o(4)]
  have nt: "\<not> in_txn s" by (rule stream_not_in_txn [OF st o(4,5)])
  have "d_txn (d_bind claim_version (\<lambda>_. stage_own L (take (d_cs d) (d_pending d)))) d s =
      (Inr (), ?d1, s2\<lparr>in_txn := False\<rparr>)"
    using nt s1(1) s2(1) gf(2) o(5) d(2) by (intro d_txn_Inr) (simp_all add: d_bind_def)
  then have run: "flush_one_chunk L d s = (Inr (), ?d2, s2\<lparr>in_txn := False\<rparr>)"
    using d(2) by (simp add: flush_one_chunk_def)
  have "stream_is L U cs s0 n (ct_version r) B ?d2 (s2\<lparr>in_txn := False\<rparr>) S"
    using st d k gf(1) s2(3) by (simp add: stream_is_def add.commute)
  with run show ?thesis
    by (intro exI [of _ ?d2] exI [of _ "s2\<lparr>in_txn := False\<rparr>"] conjI) simp_all
qed

lemma flush_full_ok:
  assumes lib: "lib_ok L" and fl: "file_at L U cs s0 mount path n B" and c0: "content_at (tabs s0) n = Some r"
    and cs: "0 < cs" and U: "fits U cs (S @ rest)"
  shows "stream_is L U cs s0 n (ct_version r) B d s S \<Longrightarrow> length (d_pending d) < k \<Longrightarrow>
    \<exists>d' s'. flush_full L k d s = (Inr (), d', s') \<and> stream_is L U cs s0 n (ct_version r) B d' s' S
      \<and> length (d_pending d') < cs \<and> d_lock d' = d_lock d \<and> d_owns_lock d' = d_owns_lock d"
proof (induction k arbitrary: d s)
  case (Suc k)
  have dcs: "d_cs d = cs" using Suc.prems by (simp add: stream_is_def)
  show ?case
  proof (cases "cs \<le> length (d_pending d)")
    case True
    let ?k = "d_chunk_index d"
    have d: "d_flushed d = ?k * cs" "?k * cs \<le> length S" "d_pending d = drop (?k * cs) S"
      using Suc.prems by (auto simp: stream_is_def)
    have k: "Suc ?k * cs \<le> length S" using True d by simp
    have k2: "Suc ?k * cs \<le> length (S @ rest)" using k by simp
    note ch2 = nth_chunk_prefix [OF cs k2]
    have "take cs (drop (?k * cs) (S @ rest)) = take cs (drop (?k * cs) S)" using k by simp
    then have "take cs (d_pending d) = split_chunks cs (S @ rest) ! ?k" using ch2(1) d by simp
    then have "take cs (d_pending d) \<in> U" using U nth_mem [OF ch2(2)] by (auto simp: fits_def)
    from flush_one_chunk_ok [OF lib fl c0 Suc.prems(1) True this] obtain d1 s1 where
      1: "flush_one_chunk L d s = (Inr (), d1, s1)" "stream_is L U cs s0 n (ct_version r) B d1 s1 S"
      "length (d_pending d1) = length (d_pending d) - cs" "d_lock d1 = d_lock d" "d_owns_lock d1 = d_owns_lock d"
      by blast
    have "length (d_pending d1) < k" using 1(3) Suc.prems(2) cs True by simp
    from Suc.IH [OF 1(2) this] 1 True dcs show ?thesis by simp
  next
    case False
    with Suc.prems(1) dcs show ?thesis by simp
  qed
qed simp

lemma d_write_ok:
  assumes lib: "lib_ok L" and fl: "file_at L U cs s0 mount path n B" and c0: "content_at (tabs s0) n = Some r"
    and cs: "0 < cs" and U: "fits U cs (S @ data @ rest)"
    and st: "stream_is L U cs s0 n (ct_version r) B d s S" and short: "length (d_pending d) < cs"
  shows "\<exists>d' s'. d_write L data d s = (Inr (length data), d', s')
     \<and> stream_is L U cs s0 n (ct_version r) B d' s' (S @ data)
     \<and> length (d_pending d') < cs \<and> d_lock d' = d_lock d \<and> d_owns_lock d' = d_owns_lock d"
proof (cases "data = []")
  case True
  with st short show ?thesis by (auto simp: d_write_def stream_is_def)
next
  case False
  let ?d1 = "d\<lparr>d_pending := d_pending d @ data, d_pos := d_pos d + length data\<rparr>"
  have d: "\<not> d_closed d" "d_writable d" "d_pos d = length S" "d_flushed d = d_chunk_index d * cs"
    "d_flushed d \<le> length S" "d_pending d = drop (d_flushed d) S" using st by (auto simp: stream_is_def)
  have "d_pos d - d_flushed d = length (d_pending d)" using d by simp
  then have patch: "patch (d_pos d - d_flushed d) data (d_pending d) = d_pending d @ data"
    by (simp add: patch_def)
  have np: "\<not> d_pos d < d_flushed d" using d by simp
  have pre: "take k (split_chunks cs (S @ data)) = take k (split_chunks cs S)" if "k * cs \<le> length S" for k
    using cs that by (rule split_chunks_prefix)
  have "stream_is L U cs s0 n (ct_version r) B ?d1 s (S @ data)"
    using st d pre by (auto simp: stream_is_def)
  from flush_full_ok [OF lib fl c0 cs _ this, of rest "Suc (length (d_pending ?d1))"] U
  obtain d' s' where "flush_full L (Suc (length (d_pending ?d1))) ?d1 s = (Inr (), d', s')"
    "stream_is L U cs s0 n (ct_version r) B d' s' (S @ data)" "length (d_pending d') < cs"
    "d_lock d' = d_lock d" "d_owns_lock d' = d_owns_lock d" by auto
  moreover from this(1) have "d_write L data d s = (Inr (length data), d', s')"
    using d(1,2) np False by (simp add: d_write_def patch Let_def del: flush_full.simps)
  ultimately show ?thesis by blast
qed

text \<open>The loop of a caller that writes the pieces one after another.\<close>

fun d_write_list :: "crypto_lib \<Rightarrow> bytes list \<Rightarrow> unit dop" where
  "d_write_list L [] d s = (Inr (), d, s)"
| "d_write_list L (p # ps) d s =
     (case d_write L p d s of
        (Inl e, d', s') \<Rightarrow> (Inl e, d', s')
      | (Inr _, d', s') \<Rightarrow> d_write_list L ps d' s')"

lemma d_write_list_ok:
  assumes lib: "lib_ok L" and fl: "file_at L U cs s0 mount path n B" and c0: "content_at (tabs s0) n = Some r"
    and cs: "0 < cs"
  shows "\<lbrakk>fits U cs (S @ concat ps); stream_is L U cs s0 n (ct_version r) B d s S; length (d_pending d) < cs\<rbrakk> \<Longrightarrow>
    \<exists>d' s'. d_write_list L ps d s = (Inr (), d', s')
     \<and> stream_is L U cs s0 n (ct_version r) B d' s' (S @ concat ps)
     \<and> length (d_pending d') < cs \<and> d_lock d' = d_lock d \<and> d_owns_lock d' = d_owns_lock d"
proof (induction ps arbitrary: S d s)
  case (Cons p ps)
  from Cons.prems have U: "fits U cs (S @ p @ concat ps)" by simp
  from d_write_ok [OF lib fl c0 cs U Cons.prems(2,3)] obtain d1 s1 where
    1: "d_write L p d s = (Inr (length p), d1, s1)"
    "stream_is L U cs s0 n (ct_version r) B d1 s1 (S @ p)"
    "length (d_pending d1) < cs" "d_lock d1 = d_lock d" "d_owns_lock d1 = d_owns_lock d" by blast
  have "fits U cs ((S @ p) @ concat ps)" using U by simp
  from Cons.IH [OF this 1(2,3)] 1 show ?case by auto
qed simp

section \<open>Nothing shows before the commit\<close>

lemma file_at_grown:
  assumes fl: "file_at L U cs s0 mount path n B" and g: "grown L n (next_version (tabs s0) n) f s0 s"
    and cf: "collision_free L (cipher_of s0) U (tabs s)"
  shows "file_at L U cs s mount path n B"
proof -
  from fl obtain m vr r where o: "leaf_for_write mount path s0 = (Inr (m, n), s0)"
    "volume_at (tabs s0) (m_volume m) = Some vr" "vl_chunk_size vr = cs" "content_at (tabs s0) n = Some r"
    "ct_size r = length B" "stored L (cipher_of s0) (tabs s0) n (ct_version r) (split_chunks cs B)"
    "0 < cs" "\<not> in_txn s0" "pending_wm s0 = []" by (auto simp: file_at_def content_is_def)
  have fr: "content_frame s0 s" using g by (simp add: grown_def)
  note D = content_frameD [OF fr]
  have "leaf_for_write mount path s = (Inr (m, n), s)"
    using o(1) content_frame_view [OF fr] D(6) by (rule leaf_for_write_in_txn)
  moreover have "stored L (cipher_of s0) (tabs s) n (ct_version r) (split_chunks cs B)"
    using grown_stored_other [OF g o(6)] next_version_gt [OF o(4)] by simp
  ultimately show ?thesis using o D cf g
    unfolding file_at_def content_is_def by (auto simp: grown_def)
qed

lemma stream_invisible:
  assumes fl: "file_at L U cs s0 mount path n B" and st: "stream_is L U cs s0 n src B d s S"
  shows "file_at L U cs s mount path n B"
proof (cases "d_carry_done d")
  case True
  with st have "grown L n (next_version (tabs s0) n) (slots 0 (take (d_chunk_index d) (split_chunks cs S))) s0 s"
    "collision_free L (cipher_of s0) U (tabs s)" by (auto simp: stream_is_def)
  with fl show ?thesis by (rule file_at_grown)
next
  case False
  with st fl show ?thesis by (simp add: stream_is_def)
qed

lemma file_at_release:
  assumes "file_at L U cs s mount path n B"
  shows "file_at L U cs (s\<lparr>tabs := release_lock l (tabs s)\<rparr>) mount path n B"
proof -
  let ?s' = "s\<lparr>tabs := release_lock l (tabs s)\<rparr>"
  from assms obtain m where leaf: "leaf_for_write mount path s = (Inr (m, n), s)"
    by (auto simp: file_at_def)
  have v: "same_view s ?s'"
    by (simp add: same_view_def same_tree_def type_at_def release_lock_def fun_eq_iff)
  have "\<not> check_lock_held (sql_now s) (tabs s) n mount" using leaf by (simp add: leaf_for_write_iff)
  then have "\<not> check_lock_held (sql_now ?s') (tabs ?s') n mount"
    by (auto simp: check_lock_held_def valid_lock_def lock_live_def release_lock_def)
  with leaf v have "leaf_for_write mount path ?s' = (Inr (m, n), ?s')" by (rule leaf_for_write_view)
  moreover have "stored L c (tabs ?s') n w ps = stored L c (tabs s) n w ps" for c w ps
    by (rule stored_cong) (simp_all add: release_lock_def)
  moreover have "collision_free L c U (tabs ?s') = collision_free L c U (tabs s)" for c
    by (rule collision_free_chunks) (simp add: release_lock_def)
  moreover have "contents (tabs ?s') = contents (tabs s)" "volumes (tabs ?s') = volumes (tabs s)"
    "versions (tabs ?s') = versions (tabs s)" by (simp_all add: release_lock_def)
  ultimately show ?thesis using assms leaf unfolding file_at_def content_is_def keys_ok_def
    by (simp only: select_convs update_convs) auto
qed

section \<open>The commit\<close>

lemma get_lock_same:
  "locks t' = locks t \<Longrightarrow> mounts t' = mounts t \<Longrightarrow> get_lock ts t' l = get_lock ts t l"
proof -
  assume a: "locks t' = locks t" "mounts t' = mounts t"
  then have b: "lock_live ts t' = lock_live ts t" by (simp add: fun_eq_iff lock_live_def cong: option.case_cong)
  show ?thesis unfolding get_lock_def a b ..
qed

lemma stream_tail:
  assumes cs: "0 < cs" and k: "k * cs \<le> length S" and short: "length (drop (k * cs) S) < cs"
  shows "take k (split_chunks cs S) @ (if drop (k * cs) S = [] then [] else [drop (k * cs) S]) = split_chunks cs S"
    and "length (take k (split_chunks cs S)) = k"
proof -
  have "drop k (split_chunks cs S) = split_chunks cs (drop (k * cs) S)" using cs by (rule drop_split_chunks)
  also have "\<dots> = (if drop (k * cs) S = [] then [] else [drop (k * cs) S])"
    using cs short by (auto simp: split_chunks_ne)
  finally show "take k (split_chunks cs S) @ (if drop (k * cs) S = [] then [] else [drop (k * cs) S]) = split_chunks cs S"
    by (metis append_take_drop_id)
  have "k * cs div cs \<le> (length S + cs - 1) div cs" using k cs by (intro div_le_mono) linarith
  then show "length (take k (split_chunks cs S)) = k" using cs by (simp add: length_split_chunks)
qed

lemma d_close_ok:
  assumes lib: "lib_ok L" and fl: "file_at L U cs s0 mount path n B" and c0: "content_at (tabs s0) n = Some r"
    and U: "fits U cs S" and st: "stream_is L U cs s0 n (ct_version r) B d s S"
    and short: "length (d_pending d) < cs"
    and l: "d_lock d = Some l" "get_lock (sql_now s0) (tabs s0) l = Some (lr, True)"
  shows "\<exists>d' s'. d_close L d s = (Inr (), d', s') \<and> d_closed d' \<and> file_at L U cs s' mount path n S"
proof -
  let ?v = "next_version (tabs s0) n" and ?k = "d_chunk_index d"
  let ?d1 = "d\<lparr>d_version := Some ?v, d_carry_done := True\<rparr>"
  from fl obtain m vr r' where o: "content_at (tabs s0) n = Some r'"
    "stored L (cipher_of s0) (tabs s0) n (ct_version r') (split_chunks cs B)" "0 < cs" "\<not> in_txn s0" "pending_wm s0 = []"
    by (rule file_at_open)
  have sb: "stored L (cipher_of s0) (tabs s0) n (ct_version r) (split_chunks cs B)" using o c0 by simp
  have d: "d_node d = n" "d_flushed d = ?k * cs" "?k * cs \<le> length S" "d_pending d = drop (?k * cs) S"
    "d_writable d" "\<not> d_closed d" using st by (auto simp: stream_is_def)
  have nt: "\<not> in_txn s" "pending_wm s = []" by (rule stream_not_in_txn [OF st o(4,5)])+
  have "s = s0 \<or> content_frame s0 s" using st by (auto simp: stream_is_def grown_def split: if_splits)
  then have e: "sql_now s = sql_now s0" "locks (tabs s) = locks (tabs s0)" "mounts (tabs s) = mounts (tabs s0)"
    using content_frameD [of s0 s] by auto
  have "get_lock (sql_now s) (tabs s) l = Some (lr, True)"
    unfolding e(1) get_lock_same [OF e(2,3)] by (rule l(2))
  then have lk: "check_own_lock d (s\<lparr>in_txn := True\<rparr>) = (Inr (), d, s\<lparr>in_txn := True\<rparr>)"
    using l(1) by (simp add: check_own_lock_def)
  from claim_ok [OF fl c0 st sb] obtain s1 where s1: "claim_version d (s\<lparr>in_txn := True\<rparr>) = (Inr (), ?d1, s1)"
    "grown L n ?v (slots 0 (take ?k (split_chunks cs S))) (s0\<lparr>in_txn := True\<rparr>) s1"
    "collision_free L (cipher_of s0) U (tabs s1)" by blast
  note tail = stream_tail [OF \<open>0 < cs\<close> d(3) short [unfolded d(4)]]
  obtain s2 where s2: "(if d_pending ?d1 \<noteq> [] then stage_own L (d_pending ?d1) else (\<lambda>d s. (Inr (), d, s))) ?d1 s1
      = (Inr (), ?d1, s2)"
    "grown L n ?v (slots 0 (split_chunks cs S)) (s0\<lparr>in_txn := True\<rparr>) s2"
    "collision_free L (cipher_of s0) U (tabs s2)"
  proof (cases "d_pending d = []")
    case True
    with s1 tail(1) d(4) that [of s1] show ?thesis by simp
  next
    case False
    then have e: "take ?k (split_chunks cs S) @ [d_pending d] = split_chunks cs S"
      using tail(1) d(4) by simp
    have "d_pending d \<in> set (split_chunks cs S)" by (subst e [symmetric]) simp
    then have "d_pending d \<in> U" using U by (auto simp: fits_def)
    have f: "length (take ?k (split_chunks cs S)) = d_chunk_index ?d1" "d_node ?d1 = n"
      "d_version ?d1 = Some ?v" using tail(2) d(1) by simp_all
    obtain s2 where s2: "stage_own L (d_pending d) ?d1 s1 = (Inr (), ?d1, s2)"
      "grown L n ?v (slots 0 (take ?k (split_chunks cs S) @ [d_pending d])) (s0\<lparr>in_txn := True\<rparr>) s2"
      "collision_free L (cipher_of s0) U (tabs s2)"
      using stage_own_ok [OF fl lib s1(2,3) f \<open>d_pending d \<in> U\<close>] by blast
    show ?thesis by (rule that [OF _ s2(2) [unfolded e] s2(3)]) (simp add: False s2(1))
  qed
  let ?s3 = "s2\<lparr>tabs := update_content (sql_now s2) n ?v (length S) (tabs s2)\<rparr>"
  have c: "file_at L U cs (?s3\<lparr>in_txn := False\<rparr>) mount path n S
      \<and> rewrote n s0 (?s3\<lparr>in_txn := False\<rparr>) \<and> pending_wm ?s3 = []"
    by (rule commit_ok [OF fl s2(2,3) refl])
  have len: "d_flushed ?d1 + length (d_pending ?d1) = length S" using d by simp
  define s4 where "s4 = (if d_owns_lock d then ?s3\<lparr>tabs := release_lock l (tabs ?s3)\<rparr> else ?s3)"
  have rel: "release_own ?d1 ?s3 = (Inr (), ?d1, s4)"
    using l by (simp add: release_own_def s4_def run_op_def op_simps)
  have cm: "run_op (commit_content (d_node ?d1) (or_else (d_version ?d1) 0)
      (d_flushed ?d1 + length (d_pending ?d1))) ?d1 s2 = (Inr (), ?d1, ?s3)"
    unfolding len by (simp add: run_op_def commit_run d(1) or_else_def)
  have "commit_body L d (s\<lparr>in_txn := True\<rparr>) = (Inr (), ?d1, s4)"
    unfolding commit_body_def
    by (rule d_bind_Inr, rule lk, rule d_bind_Inr, rule s1(1), rule d_bind_Inr, rule s2(1), rule d_bind_Inr,
        rule cm, rule rel)
  then have run: "d_txn (commit_body L) d s = (Inr (), ?d1, s4\<lparr>in_txn := False\<rparr>)"
    using nt c by (intro d_txn_Inr) (simp_all add: s4_def)
  have "file_at L U cs (s4\<lparr>in_txn := False\<rparr>) mount path n S"
  proof (cases "d_owns_lock d")
    case True
    have "s4\<lparr>in_txn := False\<rparr> =
        ?s3\<lparr>in_txn := False\<rparr>\<lparr>tabs := release_lock l (tabs (?s3\<lparr>in_txn := False\<rparr>))\<rparr>"
      using True by (simp add: s4_def)
    with file_at_release [OF conjunct1 [OF c], of l] show ?thesis by (simp only:)
  next
    case False
    with c show ?thesis by (simp add: s4_def)
  qed
  moreover have "d_close L d s = (Inr (), ?d1\<lparr>d_closed := True\<rparr>, s4\<lparr>in_txn := False\<rparr>)"
    using d run by (simp add: d_close_def)
  ultimately show ?thesis
    by (intro exI [of _ "?d1\<lparr>d_closed := True\<rparr>"] exI [of _ "s4\<lparr>in_txn := False\<rparr>"] conjI) simp_all
qed

lemma d_abort_ok:
  assumes fl: "file_at L U cs s0 mount path n B" and st: "stream_is L U cs s0 n src B d s S"
  shows "\<exists>d' s'. d_abort d s = (Inr (), d', s') \<and> d_closed d' \<and> file_at L U cs s' mount path n B"
proof -
  have fs: "file_at L U cs s mount path n B" by (rule stream_invisible [OF fl st])
  then have nt: "\<not> in_txn s" "pending_wm s = []" by (auto simp: file_at_def)
  have d: "\<not> d_closed d" using st by (simp add: stream_is_def)
  show ?thesis
  proof (cases "d_writable d \<and> d_lock d \<noteq> None \<and> d_owns_lock d")
    case True
    then obtain l where l: "d_lock d = Some l" by auto
    let ?s' = "s\<lparr>tabs := release_lock l (tabs s)\<rparr>"
    have "release_own d (s\<lparr>in_txn := True\<rparr>) = (Inr (), d, ?s'\<lparr>in_txn := True\<rparr>)"
      using l True by (simp add: release_own_def run_op_def op_simps)
    then have "d_txn release_own d s = (Inr (), d, ?s'\<lparr>in_txn := True\<rparr>\<lparr>in_txn := False\<rparr>)"
      using nt by (intro d_txn_Inr) simp_all
    moreover have "?s'\<lparr>in_txn := True\<rparr>\<lparr>in_txn := False\<rparr> = ?s'" using nt by simp
    ultimately have "d_abort d s = (Inr (), d\<lparr>d_closed := True\<rparr>, ?s')"
      using d True by (simp add: d_abort_def)
    with file_at_release [OF fs, of l] show ?thesis
      by (intro exI [of _ "d\<lparr>d_closed := True\<rparr>"] exI [of _ ?s'] conjI) simp_all
  next
    case False
    have "d_abort d s = (Inr (), d\<lparr>d_closed := True\<rparr>, s)"
      using d unfolding d_abort_def if_not_P [OF False] by simp
    with fs show ?thesis
      by (intro exI [of _ "d\<lparr>d_closed := True\<rparr>"] exI [of _ s] conjI) simp_all
  qed
qed

section \<open>Opening for writing\<close>

lemma file_at_with_lock:
  assumes "file_at L U cs s mount path n B" and "lk_mount l = mount"
  shows "file_at L U cs (s\<lparr>tabs := (tabs s)\<lparr>locks := locks (tabs s) @ [l]\<rparr>, draws := k\<rparr>) mount path n B"
proof -
  let ?s' = "s\<lparr>tabs := (tabs s)\<lparr>locks := locks (tabs s) @ [l]\<rparr>, draws := k\<rparr>"
  from assms obtain m where leaf: "leaf_for_write mount path s = (Inr (m, n), s)"
    by (auto simp: file_at_def)
  have v: "same_view s ?s'"
    by (simp add: same_view_def same_tree_def type_at_def fun_eq_iff)
  have "\<not> check_lock_held (sql_now s) (tabs s) n mount" using leaf by (simp add: leaf_for_write_iff)
  then have "\<not> check_lock_held (sql_now ?s') (tabs ?s') n mount"
    using assms(2) by (auto simp: check_lock_held_def valid_lock_def lock_live_def)
  with leaf v have "leaf_for_write mount path ?s' = (Inr (m, n), ?s')" by (rule leaf_for_write_view)
  moreover have "stored L c (tabs ?s') n w ps = stored L c (tabs s) n w ps" for c w ps
    by (rule stored_cong) simp_all
  moreover have "collision_free L c U (tabs ?s') = collision_free L c U (tabs s)" for c
    by (rule collision_free_chunks) simp
  moreover have "contents (tabs ?s') = contents (tabs s)" "volumes (tabs ?s') = volumes (tabs s)"
    "versions (tabs ?s') = versions (tabs s)" by simp_all
  ultimately show ?thesis using assms leaf unfolding file_at_def content_is_def keys_ok_def
    by (simp only: select_convs update_convs) auto
qed

lemma file_at_draws:
  "file_at L U cs s mount path n B \<Longrightarrow> file_at L U cs (s\<lparr>draws := k\<rparr>) mount path n B"
proof -
  assume a: "file_at L U cs s mount path n B"
  then obtain m where leaf: "leaf_for_write mount path s = (Inr (m, n), s)" by (auto simp: file_at_def)
  have "leaf_for_write mount path (s\<lparr>draws := k\<rparr>) = (Inr (m, n), s\<lparr>draws := k\<rparr>)"
    by (rule leaf_for_write_in_txn [OF leaf]) (simp_all add: same_view_def)
  with a leaf show ?thesis by (auto simp: file_at_def)
qed

lemma valid_mount_row:
  assumes "get_valid_mount mount s = Some (row, v)" and "distinct (map mt_id (mounts (tabs s)))"
  shows "mount_at (tabs s) mount = Some row" "mount_live (sql_now s) row" "mt_id row = mount"
proof -
  have "row_at mt_id mount (filter (mount_live (sql_now s)) (mounts (tabs s))) = Some row"
    using assms(1) by (auto simp: get_valid_mount_def valid_mount_def split: option.splits)
  then show "mount_at (tabs s) mount = Some row" "mount_live (sql_now s) row" "mt_id row = mount"
    using row_at_delete [OF assms(2), of mount "mount_live (sql_now s)"]
    by (auto split: option.splits if_splits dest: row_at_SomeD)
qed

lemma append_start_ok:
  assumes fl: "file_at L U cs s mount path n B" and "content_at (tabs s) n = Some r"
    and s': "content_at (tabs s') n = Some r" "chunks (tabs s') = chunks (tabs s)"
      "versions (tabs s') = versions (tabs s)" "cipher_of s' = cipher_of s"
  shows "append_start L n cs s' = (Inr (ct_version r, length B div cs, drop (length B div cs * cs) B, length B), s')"
proof -
  from fl obtain m vr r' where o: "content_at (tabs s) n = Some r'" "keys_ok (tabs s)"
    "stored L (cipher_of s) (tabs s) n (ct_version r') (split_chunks cs B)" "0 < cs" 
    by (rule file_at_open)
  have r: "ct_size r = length B" using fl assms(2) by (auto simp: file_at_def content_is_def)
  let ?full = "length B div cs" and ?P = "split_chunks cs B"
  have st: "stored L (cipher_of s') (tabs s') n (ct_version r) ?P"
    using o assms stored_cong [OF s'(2,3)] by simp
  have keys: "keys_ok (tabs s')" using o s'(3) by (simp add: keys_ok_def)
  note pt = partial_tail [OF \<open>0 < cs\<close> refl refl, of B]
  have meta: "content_meta n s' = (Inr (ct_version r, length B), s')"
    using s'(1) r by (simp add: content_meta_def op_simps read_content_meta_def or_else_def)
  have "(if length B > 0 \<and> length B mod cs \<noteq> 0 then read_range_op L n (ct_version r) ?full ?full else ret []) s'
      = (Inr (if length B mod cs \<noteq> 0 then [(?full, drop (?full * cs) B)] else []), s')"
    using pt by (auto simp: read_range_op_def op_simps read_chunk_range_def read_stored_range [OF keys st])
  moreover have "first_piece (if length B mod cs \<noteq> 0 then [(?full, drop (?full * cs) B)] else []) = drop (?full * cs) B"
    by (auto simp: first_piece_def minus_div_mult_eq_mod [symmetric])
  ultimately show ?thesis
    using meta \<open>0 < cs\<close> by (simp add: append_start_def op_simps)
qed

definition next_id :: "db \<Rightarrow> string" where
  "next_id s = projr (stateless_uuid7 (entropy s) (draws s) (now_ms s))"

lemma gen_id_run: "gen_id s = (Inr (next_id s), s\<lparr>draws := draws s + 4\<rparr>)"
  by (simp add: gen_id_def next_id_def stateless_uuid7_def format_uuid7_def seq_limit_def)

lemma next_id_frame: "next_id (s\<lparr>in_txn := b\<rparr>) = next_id s"
  by (simp add: next_id_def now_ms_def)

lemma open_write_ok:
  assumes fl: "file_at L U cs s mount path n B" and c0: "content_at (tabs s) n = Some r"
    and pk: "distinct (map mt_id (mounts (tabs s)))" and fresh: "lock_at (tabs s) (next_id s) = None"
  shows "\<exists>d s' lr. open_write L mount path mode None s = (Inr d, s')
     \<and> file_at L U cs s' mount path n B \<and> content_at (tabs s') n = Some r
     \<and> stream_is L U cs s' n (ct_version r) B d s' (if mode = APPEND then B else [])
     \<and> length (d_pending d) < cs \<and> d_lock d = Some (next_id s) \<and> d_owns_lock d
     \<and> get_lock (sql_now s') (tabs s') (next_id s) = Some (lr, True) \<and> lk_node lr = n \<and> lk_mount lr = mount"
proof -
  let ?s1 = "s\<lparr>in_txn := True\<rparr>"
  let ?row = "\<lparr>lk_id = next_id s, lk_mount = mount, lk_node = n, lk_expires = None, lk_created = now s\<rparr>"
  let ?s2 = "?s1\<lparr>draws := draws s + 4, tabs := (tabs s)\<lparr>locks := locks (tabs s) @ [?row]\<rparr>\<rparr>"
  let ?s3 = "s\<lparr>tabs := (tabs s)\<lparr>locks := locks (tabs s) @ [?row]\<rparr>, draws := draws s + 8\<rparr>"
  from fl obtain m vr r' where o: "leaf_for_write mount path ?s1 = (Inr (m, n), ?s1)"
    "chunk_size_of (m_volume m) ?s1 = (Inr cs, ?s1)" "volume_at (tabs s) (m_volume m) = Some vr" "vl_chunk_size vr = cs"
    "node_at (tabs s) n \<noteq> None" "0 < cs" "\<not> in_txn s" "pending_wm s = []" "collision_free L (cipher_of s) U (tabs s)"
    "content_at (tabs s) n = Some r'"
    by (rule file_at_open)
  from o(1) have held: "\<not> check_lock_held (sql_now s) (tabs s) n mount" by (simp add: leaf_for_write_iff)
  from leaf_for_write_leaf [OF o(1)] obtain q where q: "require_mount mount True ?s1 = (Inr m, ?s1)"
    "resolve (tabs s) (m_point m) path = Inr q" "rs_type q \<noteq> CONTAINER" "rs_node q = n"
    by (auto simp: resolve_leaf_iff)
  from q(1) obtain row v where vm: "get_valid_mount mount ?s1 = Some (row, v)" by (auto simp: require_mount_iff)
  note mr = valid_mount_row [OF vm, simplified, OF pk]
  have rc: "resolve_or_create L mount m path mode ?s1 = (Inr n, ?s1)"
    using q by (simp add: resolve_or_create_def op_simps)
  have wl: "writer_lock mount n None ?s1 = (Inr (next_id s), ?s2)"
    using held mr o(5) fresh
    by (simp add: writer_lock_def refuse_if_held_def op_simps gen_id_run next_id_frame sql_def
        create_lock_def insert_lock_def)
  have cz: "chunk_size_of (m_volume m) ?s2 = (Inr cs, ?s2)"
    using chunk_size_ok [where s = ?s2] o by simp
  define start where "start = (if mode = APPEND then B else [])"
  define src where "src = (if mode = APPEND then ct_version r else 0)"
  let ?full = "length start div cs"
  have st: "(if mode = APPEND then append_start L n cs else ret (0, 0, [], 0)) ?s2 =
      (Inr (src, ?full, drop (?full * cs) start, length start), ?s2)"
    using append_start_ok [OF fl c0, of ?s2] c0 by (auto simp: start_def src_def op_simps)
  let ?d = "new_writer n (next_id (?s2\<lparr>in_txn := False\<rparr>)) cs (next_id s) True src ?full (drop (?full * cs) start) (length start)"
  have tx: "txn (
       bind_op (require_mount mount True) (\<lambda>m.
       bind_op (resolve_or_create L mount m path mode) (\<lambda>node.
       bind_op (writer_lock mount node None) (\<lambda>lid.
       bind_op (chunk_size_of (m_volume m)) (\<lambda>cs.
       bind_op (if mode = APPEND then append_start L node cs else ret (0, 0, [], 0))
         (\<lambda>(carry_src, carry_full, pending, position).
       ret (node, lid, cs, carry_src, carry_full, pending, position))))))) s
     = (Inr (n, next_id s, cs, src, ?full, drop (?full * cs) start, length start), ?s2\<lparr>in_txn := False\<rparr>)"
    by (rule txn_Inr [OF o(7)], rule bind_opI, rule q(1), rule bind_opI, rule rc, rule bind_opI, rule wl,
        rule bind_opI, rule cz, rule bind_opI, rule st, simp add: op_simps) (use o(8) in simp)
  have s3: "?s2\<lparr>in_txn := False, draws := draws s + 8\<rparr> = ?s3" using o(7) by simp
  have run: "open_write L mount path mode None s = (Inr ?d, ?s3)"
    unfolding open_write_def
    by (rule bind_opI, rule tx, simp only: prod.case refl, rule bind_opI, rule gen_id_run)
      (use s3 in \<open>simp add: op_simps add.commute\<close>)
  have f3: "file_at L U cs ?s3 mount path n B" by (rule file_at_with_lock [OF fl]) simp
  have cf: "collision_free L (cipher_of ?s3) U (tabs ?s3)" using f3 by (simp add: file_at_def)
  have sm: "stream_is L U cs ?s3 n (ct_version r) B ?d ?s3 start"
    using cf by (auto simp: stream_is_def new_writer_def start_def src_def)
  have short: "length (d_pending ?d) < cs"
    using o(6) by (simp add: new_writer_def minus_div_mult_eq_mod)
  have gl: "get_lock (sql_now ?s3) (tabs ?s3) (next_id s) = Some (?row, True)"
    using fresh mr by (simp add: get_lock_def row_simps lock_live_def)
  show ?thesis
    by (rule exI [of _ ?d], rule exI [of _ ?s3], rule exI [of _ ?row])
      (use run f3 c0 sm [unfolded start_def] short gl in \<open>simp add: new_writer_def start_def\<close>)
qed

text \<open>A stream from its opening on: written in pieces, it can be closed or aborted.\<close>

lemma stream_written:
  assumes lib: "lib_ok L" and fl: "file_at L U cs s mount path n B"
    and "distinct (map mt_id (mounts (tabs s)))" and "lock_at (tabs s) (next_id s) = None"
    and U: "fits U cs ((if mode = APPEND then B else []) @ concat ps)"
  shows "\<exists>d s1 d1 s2. open_write L mount path mode None s = (Inr d, s1) \<and> d_write_list L ps d s1 = (Inr (), d1, s2)
     \<and> file_at L U cs s2 mount path n B
     \<and> (\<exists>d2 s3. d_close L d1 s2 = (Inr (), d2, s3) \<and> d_closed d2
          \<and> file_at L U cs s3 mount path n ((if mode = APPEND then B else []) @ concat ps))
     \<and> (\<exists>d2 s3. d_abort d1 s2 = (Inr (), d2, s3) \<and> d_closed d2 \<and> file_at L U cs s3 mount path n B)"
proof -
  from fl obtain r where c0: "content_at (tabs s) n = Some r" and cs: "0 < cs"
    by (auto simp: file_at_def content_is_def)
  from open_write_ok [OF fl c0 assms(3,4), of mode] obtain d s1 lr where
    o: "open_write L mount path mode None s = (Inr d, s1)" "file_at L U cs s1 mount path n B"
      "content_at (tabs s1) n = Some r"
      "stream_is L U cs s1 n (ct_version r) B d s1 (if mode = APPEND then B else [])"
      "length (d_pending d) < cs" "d_lock d = Some (next_id s)"
      "get_lock (sql_now s1) (tabs s1) (next_id s) = Some (lr, True)" by blast
  from d_write_list_ok [OF lib o(2,3) cs U o(4,5)] obtain d1 s2 where
    w: "d_write_list L ps d s1 = (Inr (), d1, s2)"
      "stream_is L U cs s1 n (ct_version r) B d1 s2 ((if mode = APPEND then B else []) @ concat ps)"
      "length (d_pending d1) < cs" "d_lock d1 = d_lock d" by blast
  from w(4) o(6) have "d_lock d1 = Some (next_id s)" by simp
  from d_close_ok [OF lib o(2,3) U w(2,3) this o(7)] d_abort_ok [OF o(2) w(2)] stream_invisible [OF o(2) w(2)] o(1) w(1)
  show ?thesis by blast
qed

end
