(* ===== verification/ByteFile.thy ===== *)
theory ByteFile
  imports Streams
begin

text \<open>
  What a client of an entry relies on, as an interface: the entry holds a string of bytes,
  and \<open>stat_size\<close>, \<open>read_at\<close>, \<open>write_at\<close> and \<open>resize\<close> act on it as on a plain byte array.
  The interpretation \<open>entry\<close> discharges the laws for the engine's own operations: \<open>stat\<close>,
  a read descriptor opened for one ranged read, \<open>write_range\<close> and \<open>truncate\<close>.
\<close>

section \<open>The interface\<close>

locale byte_file =
  fixes holds :: "'s \<Rightarrow> bytes \<Rightarrow> bool"
    and ok :: "bytes \<Rightarrow> bool"
    and stat_size :: "'s \<Rightarrow> ('e + nat) \<times> 's"
    and read_at :: "nat \<Rightarrow> nat \<Rightarrow> 's \<Rightarrow> ('e + bytes) \<times> 's"
    and write_at :: "nat \<Rightarrow> bytes \<Rightarrow> 's \<Rightarrow> ('e + nat) \<times> 's"
    and resize :: "nat \<Rightarrow> 's \<Rightarrow> ('e + unit) \<times> 's"
  assumes size_law: "holds s B \<Longrightarrow> stat_size s = (Inr (length B), s)"
    and read_law: "holds s B \<Longrightarrow> \<exists>s'. read_at off n s = (Inr (take n (drop off B)), s') \<and> holds s' B"
    and write_law: "holds s B \<Longrightarrow> data \<noteq> [] \<Longrightarrow> ok (patched off data B) \<Longrightarrow>
      \<exists>s'. write_at off data s = (Inr (length (patched off data B)), s') \<and> holds s' (patched off data B)"
    and resize_law: "holds s B \<Longrightarrow> ok (resized n B) \<Longrightarrow>
      \<exists>s'. resize n s = (Inr (), s') \<and> holds s' (resized n B)"
begin

text \<open>A run of non-empty writes, one after another.\<close>

fun write_run :: "(nat \<times> bytes) list \<Rightarrow> 's \<Rightarrow> ('e + unit) \<times> 's" where
  "write_run [] s = (Inr (), s)"
| "write_run ((off, data) # ws) s =
     (case write_at off data s of (Inl e, s') \<Rightarrow> (Inl e, s') | (Inr _, s') \<Rightarrow> write_run ws s')"

lemma write_run_holds:
  assumes "\<And>X. ok X"
  shows "holds s B \<Longrightarrow> \<forall>(off, data) \<in> set ws. data \<noteq> [] \<Longrightarrow>
    \<exists>s'. write_run ws s = (Inr (), s') \<and> holds s' (foldl (\<lambda>X (off, data). patched off data X) B ws)"
proof (induction ws arbitrary: s B)
  case (Cons w ws)
  obtain off data where w: "w = (off, data)" by force
  with Cons.prems write_law [of s B data off] assms obtain s1 where
    "write_at off data s = (Inr (length (patched off data B)), s1)" "holds s1 (patched off data B)" by auto
  with Cons.IH [of s1 "patched off data B"] Cons.prems w show ?case by auto
qed auto

end

section \<open>The engine's entry\<close>

definition entry_holds ::
  "crypto_lib \<Rightarrow> bytes set \<Rightarrow> nat \<Rightarrow> mount_id \<Rightarrow> string \<Rightarrow> node_id \<Rightarrow> db \<Rightarrow> bytes \<Rightarrow> bool" where
  "entry_holds L U cs mount path n s B \<longleftrightarrow> lib_ok L \<and> file_at L U cs s mount path n B"

text \<open>\<open>m.stat(path).size\<close>; \<open>with m.open_read(path) as r: r.seek(off); r.read(n)\<close>.\<close>

definition entry_size :: "mount_id \<Rightarrow> string \<Rightarrow> nat op" where
  "entry_size mount path =
     bind_op (stat mount path) (\<lambda>i.
     case ni_size i of None \<Rightarrow> fail TypeError | Some k \<Rightarrow> ret k)"

definition entry_read_at :: "crypto_lib \<Rightarrow> mount_id \<Rightarrow> string \<Rightarrow> nat \<Rightarrow> nat \<Rightarrow> bytes op" where
  "entry_read_at L mount path off n =
     bind_op (open_read mount path) (\<lambda>d s.
       case d_bind (d_seek (int off) SET) (\<lambda>_. d_read L (Some n)) d s of
         (r, d', s') \<Rightarrow> (case d_exit L (isl r) d' s' of
             (Inl e, _, s'') \<Rightarrow> (Inl e, s'') | (Inr _, _, s'') \<Rightarrow> (r, s'')))"

lemma stat_ok:
  assumes "file_at L U cs s mount path n B"
  shows "entry_size mount path s = (Inr (length B), s)"
proof -
  from assms obtain m r where leaf: "leaf_for_write mount path s = (Inr (m, n), s)"
    and c: "content_at (tabs s) n = Some r" "ct_size r = length B"
    by (auto simp: file_at_def content_is_def)
  from resolve_leaf_ro [OF leaf_for_write_leaf [OF leaf]] obtain q where
    q: "require_mount mount False s = (Inr m, s)" "resolve (tabs s) (m_point m) path = Inr q" "rs_node q = n"
    by (auto simp: resolve_leaf_iff)
  from resolved_node_exists [OF q(2)] q(3) obtain nr where nr: "node_at (tabs s) n = Some nr" by auto
  then have "nd_id nr = n" by (auto dest: row_at_SomeD)
  then have "stat mount path s = (Inr (node_info_of (tabs s) nr), s)"
    using q nr by (simp add: stat_def stat_by_id_def op_simps resolve_op_def get_opt_def)
  moreover have "ni_size (node_info_of (tabs s) nr) = Some (length B)"
    using c \<open>nd_id nr = n\<close> by (simp add: node_info_of_def Let_def)
  ultimately show ?thesis by (simp add: entry_size_def op_simps)
qed

lemma open_read_ok:
  assumes "file_at L U cs s mount path n B"
  shows "\<exists>d. open_read mount path s = (Inr d, s\<lparr>draws := draws s + 4\<rparr>) \<and> d_pos d = 0
     \<and> reader_on L cs (s\<lparr>draws := draws s + 4\<rparr>) d n B"
proof -
  from assms obtain m r vr where leaf: "leaf_for_write mount path s = (Inr (m, n), s)"
    and c: "content_at (tabs s) n = Some r" "ct_size r = length B"
    and v: "volume_at (tabs s) (m_volume m) = Some vr" "vl_chunk_size vr = cs"
    and k: "keys_ok (tabs s)" "0 < cs" "content_is L (cipher_of s) cs (tabs s) n B"
    by (auto simp: file_at_def content_is_def)
  have 1: "resolve_leaf mount path False s = (Inr (m, n), s)"
    by (rule resolve_leaf_ro [OF leaf_for_write_leaf [OF leaf]])
  have 2: "content_meta n s = (Inr (ct_version r, length B), s)"
    using c by (simp add: content_meta_def op_simps read_content_meta_def or_else_def)
  have 3: "chunk_size_of (m_volume m) (s\<lparr>draws := draws s + 4\<rparr>) = (Inr cs, s\<lparr>draws := draws s + 4\<rparr>)"
    using chunk_size_ok [where s = "s\<lparr>draws := draws s + 4\<rparr>"] v by simp
  have "open_read mount path s = (Inr (new_reader n (next_id s) cs (ct_version r) (length B)), s\<lparr>draws := draws s + 4\<rparr>)"
    by (simp add: open_read_def op_simps 1 2 gen_id_run 3)
  moreover have "reader_on L cs (s\<lparr>draws := draws s + 4\<rparr>) (new_reader n (next_id s) cs (ct_version r) (length B)) n B"
    using k by (simp add: reader_on_def new_reader_def)
  ultimately show ?thesis by (simp add: new_reader_def)
qed

lemma entry_read_ok:
  assumes fl: "file_at L U cs s mount path n B"
  shows "entry_read_at L mount path off k s = (Inr (take k (drop off B)), s\<lparr>draws := draws s + 4\<rparr>)"
proof -
  let ?s = "s\<lparr>draws := draws s + 4\<rparr>"
  from open_read_ok [OF fl] obtain d where d: "open_read mount path s = (Inr d, ?s)"
    "reader_on L cs ?s d n B" by blast
  let ?d1 = "d\<lparr>d_pos := off\<rparr>"
  have seek: "d_seek (int off) SET d ?s = (Inr off, ?d1, ?s)"
    using d(2) by (simp add: d_seek_def reader_on_def Let_def)
  have "reader_on L cs ?s ?d1 n B" using d(2) by (simp add: reader_on_def)
  from d_read_ok [OF this, of "Some k"] obtain d2 where
    d2: "d_read L (Some k) ?d1 ?s = (Inr (take k (drop off B)), d2, ?s)" "reader_on L cs ?s d2 n B"
    by (auto simp: served_def)
  have "d_exit L False d2 ?s = (Inr (), d2\<lparr>d_closed := True\<rparr>, ?s)"
    using d2(2) by (simp add: d_exit_def d_close_def reader_on_def)
  then show ?thesis using d(1) seek d2(1) by (simp add: entry_read_at_def op_simps d_bind_def)
qed

interpretation entry: byte_file
  "entry_holds L U cs mount path n" "fits U cs" "entry_size mount path" "entry_read_at L mount path"
  "\<lambda>off. write_range L mount path (int off)" "\<lambda>k. truncate_op L mount path (int k)"
  for L U cs mount path n
proof unfold_locales
  fix s B assume h: "entry_holds L U cs mount path n s B"
  then have lib: "lib_ok L" and fl: "file_at L U cs s mount path n B" by (auto simp: entry_holds_def)
  show "entry_size mount path s = (Inr (length B), s)" by (rule stat_ok [OF fl])
  show "\<exists>s'. entry_read_at L mount path off k s = (Inr (take k (drop off B)), s') \<and> entry_holds L U cs mount path n s' B" for off k
    using entry_read_ok [OF fl] file_at_draws [OF fl] lib by (auto simp: entry_holds_def)
  show "\<exists>s'. write_range L mount path (int off) data s = (Inr (length (patched off data B)), s')
      \<and> entry_holds L U cs mount path n s' (patched off data B)"
    if "data \<noteq> []" "fits U cs (patched off data B)" for off data
    using write_range_ok [OF lib fl, of "int off" data] that lib
    by (auto simp: entry_holds_def length_patched)
  show "\<exists>s'. truncate_op L mount path (int k) s = (Inr (), s') \<and> entry_holds L U cs mount path n s' (resized k B)"
    if "fits U cs (resized k B)" for k
    using truncate_ok [OF lib fl, of "int k"] that lib by (auto simp: entry_holds_def)
qed

end
