(* ===== verification/OpenFile.thy ===== *)
theory OpenFile
  imports ByteFile
begin

text \<open>
  The random-access handle of the FUSE layer (\<open>_OpenFile\<close> of \<open>aloelite/fuse.py\<close>): dirty
  byte extents buffered over the committed bytes, merged as they arrive, laid over ranged
  reads, and flushed as one \<open>write_range\<close> each; and the two small tables beside it, the
  inode of a node id and the errno of an error.

  The operations take the engine calls they make (\<open>sz\<close>, \<open>rd\<close>, \<open>wr\<close>, \<open>rs\<close>) as arguments; the
  lemmas are proved inside the interface \<open>byte_file\<close> of those calls, so they hold for the
  engine by the interpretation \<open>entry\<close>. The result: through any sequence of writes, reads,
  truncates and flushes the handle behaves as a plain array of bytes.
\<close>

section \<open>The handle\<close>

type_synonym extent = "nat \<times> bytes"

record open_file =
  of_size :: nat
  of_extents :: "extent list"
  of_dirty :: nat

definition DIRTY_FLUSH :: nat where
  "DIRTY_FLUSH = 32 * 2 ^ 20"

definition open_new :: "('s \<Rightarrow> ('e + nat) \<times> 's) \<Rightarrow> 's \<Rightarrow> ('e + open_file) \<times> 's" where
  "open_new sz s = (case sz s of (Inl e, s') \<Rightarrow> (Inl e, s')
     | (Inr k, s') \<Rightarrow> (Inr \<lparr>of_size = k, of_extents = [], of_dirty = 0\<rparr>, s'))"

text \<open>The loop of \<open>write\<close>: \<open>merged\<close>, \<open>new_lo\<close>, \<open>new_hi\<close> and \<open>buf\<close> as the code has them.\<close>

fun merge_extents :: "extent list \<Rightarrow> nat \<Rightarrow> nat \<Rightarrow> bytes \<Rightarrow> extent list \<Rightarrow> extent list \<times> nat \<times> nat \<times> bytes" where
  "merge_extents merged new_lo new_hi buf [] = (merged, new_lo, new_hi, buf)"
| "merge_extents merged new_lo new_hi buf ((lo, b) # es) =
     (let hi = lo + length b in
      if hi < new_lo \<or> lo > new_hi then merge_extents (merged @ [(lo, b)]) new_lo new_hi buf es
      else (let (buf1, new_lo1) = (if lo < new_lo then (take (new_lo - lo) b @ buf, lo) else (buf, new_lo));
                (buf2, new_hi2) = (if hi > new_hi
                   then (buf1 @ drop (new_hi - lo) b, new_lo1 + length (buf1 @ drop (new_hi - lo) b))
                   else (buf1, new_hi))
            in merge_extents merged new_lo1 new_hi2 buf2 es))"

definition total_dirty :: "extent list \<Rightarrow> nat" where
  "total_dirty es = sum_list (map (\<lambda>(lo, b). length b) es)"

fun flush_extents :: "(nat \<Rightarrow> bytes \<Rightarrow> 's \<Rightarrow> ('e + nat) \<times> 's) \<Rightarrow> extent list \<Rightarrow> 's \<Rightarrow> ('e + unit) \<times> 's" where
  "flush_extents wr [] s = (Inr (), s)"
| "flush_extents wr ((lo, b) # es) s =
     (case wr lo b s of (Inl e, s') \<Rightarrow> (Inl e, s') | (Inr _, s') \<Rightarrow> flush_extents wr es s')"

definition of_flush ::
  "(nat \<Rightarrow> bytes \<Rightarrow> 's \<Rightarrow> ('e + nat) \<times> 's) \<Rightarrow> open_file \<Rightarrow> 's \<Rightarrow> ('e + unit) \<times> open_file \<times> 's" where
  "of_flush wr f s =
     (case flush_extents wr (of_extents f) s of
        (Inl e, s') \<Rightarrow> (Inl e, f, s')
      | (Inr _, s') \<Rightarrow> (Inr (), f\<lparr>of_extents := [], of_dirty := 0\<rparr>, s'))"

definition of_write ::
  "(nat \<Rightarrow> bytes \<Rightarrow> 's \<Rightarrow> ('e + nat) \<times> 's) \<Rightarrow> nat \<Rightarrow> bytes \<Rightarrow> open_file \<Rightarrow> 's
     \<Rightarrow> ('e + nat) \<times> open_file \<times> 's" where
  "of_write wr off data f s =
     (let (merged, new_lo, new_hi, buf) = merge_extents [] off (off + length data) data (of_extents f);
          es = sort_key fst (merged @ [(new_lo, buf)]);
          f1 = \<lparr>of_size = max (of_size f) new_hi, of_extents = es, of_dirty = total_dirty es\<rparr>
      in if of_dirty f1 \<ge> DIRTY_FLUSH
         then (case of_flush wr f1 s of
                 (Inl e, f2, s') \<Rightarrow> (Inl e, f2, s')
               | (Inr _, f2, s') \<Rightarrow> (Inr (length data), f2, s'))
         else (Inr (length data), f1, s))"

text \<open>\<open>base[:len(got)] = got\<close>, and the overlay loop on the window \<open>off .. end\<close>.\<close>

definition put_at :: "nat \<Rightarrow> bytes \<Rightarrow> bytes \<Rightarrow> bytes" where
  "put_at i data base = take i base @ data @ drop (i + length data) base"

definition overlay_extent :: "nat \<Rightarrow> nat \<Rightarrow> extent \<Rightarrow> bytes \<Rightarrow> bytes" where
  "overlay_extent off stop = (\<lambda>(elo, b) base.
     let ehi = elo + length b in
     if ehi \<le> off \<or> elo \<ge> stop then base
     else (let s = max elo off; e = min ehi stop
           in put_at (s - off) (take (e - s) (drop (s - elo) b)) base))"

definition of_read ::
  "('s \<Rightarrow> ('e + nat) \<times> 's) \<Rightarrow> (nat \<Rightarrow> nat \<Rightarrow> 's \<Rightarrow> ('e + bytes) \<times> 's) \<Rightarrow> nat \<Rightarrow> nat
     \<Rightarrow> open_file \<Rightarrow> 's \<Rightarrow> ('e + bytes) \<times> 's" where
  "of_read sz rd off n f s =
     (let stop = min (off + n) (of_size f)
      in if stop \<le> off then (Inr [], s)
         else (case sz s of
             (Inl e, s') \<Rightarrow> (Inl e, s')
           | (Inr committed, s') \<Rightarrow>
               (case (if min off committed < committed then rd off (min stop committed - off) s' else (Inr [], s')) of
                  (Inl e, s'') \<Rightarrow> (Inl e, s'')
                | (Inr got, s'') \<Rightarrow>
                    (Inr (fold (overlay_extent off stop) (of_extents f)
                            (put_at 0 got (replicate (stop - off) 0))), s''))))"

definition of_truncate ::
  "(nat \<Rightarrow> bytes \<Rightarrow> 's \<Rightarrow> ('e + nat) \<times> 's) \<Rightarrow> (nat \<Rightarrow> 's \<Rightarrow> ('e + unit) \<times> 's) \<Rightarrow> nat
     \<Rightarrow> open_file \<Rightarrow> 's \<Rightarrow> ('e + unit) \<times> open_file \<times> 's" where
  "of_truncate wr rs new_size f s =
     (case of_flush wr f s of
        (Inl e, f1, s1) \<Rightarrow> (Inl e, f1, s1)
      | (Inr _, f1, s1) \<Rightarrow>
          (case rs new_size s1 of
             (Inl e, s2) \<Rightarrow> (Inl e, f1, s2)
           | (Inr _, s2) \<Rightarrow> (Inr (), f1\<lparr>of_size := new_size\<rparr>, s2)))"

section \<open>Extents as a finite map\<close>

definition cells :: "extent list \<Rightarrow> (nat \<times> byte) list" where
  "cells es = concat (map (\<lambda>(lo, b). zip [lo..<lo + length b] b) es)"

definition ext_map :: "extent list \<Rightarrow> nat \<rightharpoonup> byte" where
  "ext_map es = map_of (cells es)"

definition ext_ok :: "extent list \<Rightarrow> bool" where
  "ext_ok es \<longleftrightarrow> distinct (map fst (cells es)) \<and> (\<forall>(lo, b) \<in> set es. b \<noteq> [])"

lemma cells_simps [simp]: "cells [] = []" "cells ((lo, b) # es) = zip [lo..<lo + length b] b @ cells es"
  "cells (xs @ ys) = cells xs @ cells ys"
  by (simp_all add: cells_def)

lemma map_of_zip_slots: "map_of (zip [lo..<lo + length b] b) = slots lo b"
proof (rule ext)
  fix j show "map_of (zip [lo..<lo + length b] b) j = slots lo b j"
  proof (cases "lo \<le> j \<and> j < lo + length b")
    case True
    then have "map_of (zip [lo..<lo + length b] b) ([lo..<lo + length b] ! (j - lo)) = Some (b ! (j - lo))"
      by (intro map_of_zip_nth) auto
    with True show ?thesis by (simp add: slots_def)
  next
    case False
    then have "map_of (zip [lo..<lo + length b] b) j = None"
      by (auto simp: map_of_eq_None_iff dest: set_zip_leftD)
    moreover have "slots lo b j = None" using False by (simp add: slots_def)
    ultimately show ?thesis by simp
  qed
qed

lemma fst_zip_upt [simp]: "map fst (zip [lo..<lo + length b] b) = [lo..<lo + length b]"
  by simp

lemma dom_slots: "dom (slots lo b) = {lo..<lo + length b}"
  by (auto simp: slots_def split: if_splits)

lemma dom_ext_map: "dom (ext_map es) = set (map fst (cells es))"
  by (simp add: ext_map_def dom_map_of_conv_image_fst)

lemma ext_map_Nil [simp]: "ext_map [] = Map.empty"
  by (simp add: ext_map_def)

lemma ext_ok_snoc:
  "ext_ok (es @ [(lo, b)]) \<longleftrightarrow> ext_ok es \<and> b \<noteq> [] \<and> dom (ext_map es) \<inter> dom (slots lo b) = {}"
  by (auto simp: ext_ok_def dom_ext_map dom_slots)

lemma ext_ok_Cons:
  "ext_ok ((lo, b) # es) \<longleftrightarrow> ext_ok es \<and> b \<noteq> [] \<and> dom (ext_map es) \<inter> dom (slots lo b) = {}"
  by (auto simp: ext_ok_def dom_ext_map dom_slots)

lemma ext_map_snoc:
  "dom (ext_map es) \<inter> dom (slots lo b) = {} \<Longrightarrow> ext_map (es @ [(lo, b)]) = ext_map es ++ slots lo b"
proof -
  assume d: "dom (ext_map es) \<inter> dom (slots lo b) = {}"
  have "ext_map (es @ [(lo, b)]) = slots lo b ++ ext_map es"
    by (simp add: ext_map_def map_of_zip_slots)
  also have "\<dots> = ext_map es ++ slots lo b" using d by (intro map_add_comm) auto
  finally show ?thesis .
qed

lemma ext_map_Cons: "ext_map ((lo, b) # es) = ext_map es ++ slots lo b"
  by (simp add: ext_map_def map_of_zip_slots)

lemma ext_sort:
  assumes "ext_ok es"
  shows "ext_ok (sort_key fst es)" and "ext_map (sort_key fst es) = ext_map es"
proof -
  have m: "mset (cells (sort_key fst es)) = mset (cells es)"
  proof -
    have "sum_list (map g (sort_key fst es)) = sum_list (map g es)" for g :: "extent \<Rightarrow> (nat \<times> byte) multiset"
      by (metis mset_map mset_sort sum_mset_sum_list)
    then show ?thesis unfolding cells_def by (simp add: mset_concat comp_def)
  qed
  then have "mset (map fst (cells (sort_key fst es))) = mset (map fst (cells es))" by simp
  then have d: "distinct (map fst (cells (sort_key fst es)))"
    using assms mset_eq_imp_distinct_iff unfolding ext_ok_def by blast
  then show "ext_ok (sort_key fst es)" using assms by (simp add: ext_ok_def)
  have "set (cells (sort_key fst es)) = set (cells es)" using m by (rule mset_eq_setD)
  then show "ext_map (sort_key fst es) = ext_map es"
    using d assms unfolding ext_map_def ext_ok_def by (simp add: map_of_inject_set)
qed

section \<open>Merging keeps the map\<close>

lemma slots_touch:
  assumes "lo + length b \<ge> nlo" and "lo \<le> nlo + length buf"
    and b1: "(buf1, nlo1) = (if lo < nlo then (take (nlo - lo) b @ buf, lo) else (buf, nlo))"
    and b2: "(buf2, nhi2) = (if lo + length b > nlo + length buf
        then (buf1 @ drop (nlo + length buf - lo) b, nlo1 + length (buf1 @ drop (nlo + length buf - lo) b))
        else (buf1, nlo + length buf))"
  shows "slots nlo1 buf2 = slots lo b ++ slots nlo buf" and "nhi2 = nlo1 + length buf2"
proof -
  show h: "nhi2 = nlo1 + length buf2"
    using assms by (auto split: if_splits)
  show "slots nlo1 buf2 = slots lo b ++ slots nlo buf"
  proof (cases "lo + length b = nlo")
    case True
    with assms show ?thesis
      by (intro ext) (auto simp: slots_def map_add_def nth_append split: if_splits)
  next
    case False
    with assms show ?thesis
      by (intro ext) (auto simp: slots_def map_add_def nth_append min_def split: if_splits)
  qed
qed

lemma merge_extents_ok:
  "\<lbrakk>ext_ok es; ext_ok merged; dom (ext_map merged) \<inter> dom (ext_map es) = {}; buf \<noteq> [];
    dom (ext_map merged) \<inter> dom (slots new_lo buf) = {};
    merge_extents merged new_lo (new_lo + length buf) buf es = (merged', lo', hi', buf')\<rbrakk> \<Longrightarrow>
   ext_ok (merged' @ [(lo', buf')]) \<and> hi' = lo' + length buf'
    \<and> dom (slots new_lo buf) \<subseteq> dom (slots lo' buf')
    \<and> ext_map (merged' @ [(lo', buf')]) = (ext_map merged ++ ext_map es) ++ slots new_lo buf"
proof (induction es arbitrary: merged new_lo buf)
  case Nil
  then show ?case by (auto simp: ext_ok_snoc ext_map_snoc)
next
  case (Cons e es)
  obtain lo b where e: "e = (lo, b)" by force
  have es: "ext_ok es" "b \<noteq> []" "dom (ext_map es) \<inter> dom (slots lo b) = {}"
    using Cons.prems(1) e by (auto simp: ext_ok_Cons)
  have M: "dom (ext_map merged) \<inter> dom (ext_map es) = {}" "dom (ext_map merged) \<inter> dom (slots lo b) = {}"
    using Cons.prems(3) e by (auto simp: ext_map_Cons)
  show ?case
  proof (cases "lo + length b < new_lo \<or> lo > new_lo + length buf")
    case True
    have ok: "ext_ok (merged @ [(lo, b)])" using Cons.prems(2) es M by (simp add: ext_ok_snoc)
    have mp: "ext_map (merged @ [(lo, b)]) = ext_map merged ++ slots lo b" using M(2) by (rule ext_map_snoc)
    have d1: "dom (ext_map (merged @ [(lo, b)])) \<inter> dom (ext_map es) = {}"
      unfolding mp using M es by auto
    have d2: "dom (ext_map (merged @ [(lo, b)])) \<inter> dom (slots new_lo buf) = {}"
      unfolding mp using Cons.prems(5) True by (auto simp: dom_slots)
    have run: "merge_extents (merged @ [(lo, b)]) new_lo (new_lo + length buf) buf es = (merged', lo', hi', buf')"
      using Cons.prems(6) True e by simp
    have "slots lo b ++ ext_map es = ext_map es ++ slots lo b" using es(3) by (intro map_add_comm) auto
    then show ?thesis
      using Cons.IH [OF es(1) ok d1 Cons.prems(4) d2 run] e by (simp add: mp ext_map_Cons map_add_assoc flip: map_add_assoc)
  next
    case False
    obtain buf1 nlo1 where b1: "(buf1, nlo1) = (if lo < new_lo then (take (new_lo - lo) b @ buf, lo) else (buf, new_lo))"
      by (metis surj_pair)
    obtain buf2 nhi2 where b2: "(buf2, nhi2) = (if lo + length b > new_lo + length buf
        then (buf1 @ drop (new_lo + length buf - lo) b, nlo1 + length (buf1 @ drop (new_lo + length buf - lo) b))
        else (buf1, new_lo + length buf))"
      by (metis surj_pair)
    have tch: "new_lo \<le> lo + length b" "lo \<le> new_lo + length buf" using False by auto
    note t = slots_touch [OF tch b1 b2]
    have ne: "buf2 \<noteq> []" using b1 b2 Cons.prems(4) by (auto split: if_splits)
    have d: "dom (ext_map merged) \<inter> dom (slots nlo1 buf2) = {}"
      unfolding t(1) using M Cons.prems(5) by auto
    have "merge_extents merged new_lo (new_lo + length buf) buf (e # es) = merge_extents merged nlo1 nhi2 buf2 es"
      unfolding e merge_extents.simps Let_def if_not_P [OF False] b1 [symmetric] prod.case b2 [symmetric] ..
    then have run: "merge_extents merged nlo1 (nlo1 + length buf2) buf2 es = (merged', lo', hi', buf')"
      using Cons.prems(6) t(2) by simp
    show ?thesis
      using Cons.IH [OF es(1) Cons.prems(2) M(1) ne d run] e by (auto simp: ext_map_Cons t(1))
  qed
qed

section \<open>The bytes a handle stands for\<close>

definition laid :: "(nat \<rightharpoonup> byte) \<Rightarrow> nat \<Rightarrow> bytes \<Rightarrow> bytes" where
  "laid m sz B = map (\<lambda>j. case m j of Some x \<Rightarrow> x | None \<Rightarrow> if j < length B then B ! j else 0) [0..<sz]"

definition of_view :: "open_file \<Rightarrow> bytes \<Rightarrow> bytes" where
  "of_view f B = laid (ext_map (of_extents f)) (of_size f) B"

definition of_inv :: "open_file \<Rightarrow> bytes \<Rightarrow> bool" where
  "of_inv f B \<longleftrightarrow> ext_ok (of_extents f) \<and> length B \<le> of_size f
     \<and> (\<forall>j \<in> dom (ext_map (of_extents f)). j < of_size f)
     \<and> (of_size f = length B \<or> (\<exists>j \<in> dom (ext_map (of_extents f)). of_size f = Suc j))"

lemma length_laid [simp]: "length (laid m sz B) = sz"
  by (simp add: laid_def)

lemma nth_laid: "j < sz \<Longrightarrow> laid m sz B ! j =
    (case m j of Some x \<Rightarrow> x | None \<Rightarrow> if j < length B then B ! j else 0)"
  by (simp add: laid_def cong: option.case_cong if_cong)

lemma laid_empty [simp]: "laid Map.empty (length B) B = B"
  by (rule nth_equalityI) (simp_all add: nth_laid)

lemma patched_laid:
  assumes "length B \<le> sz" and "b \<noteq> []" and "\<And>j. j \<in> dom m \<Longrightarrow> j < sz"
  shows "patched lo b (laid m sz B) = laid (m ++ slots lo b) (max sz (lo + length b)) B"
proof (rule nth_equalityI)
  show "length (patched lo b (laid m sz B)) = length (laid (m ++ slots lo b) (max sz (lo + length b)) B)"
    by (simp add: length_patched)
  fix j assume j: "j < length (patched lo b (laid m sz B))"
  have none: "m j = None" if "sz \<le> j" using assms(3) that by (metis domIff leD)
  from j have j2: "j < max sz (lo + length b)" by (simp add: length_patched)
  show "patched lo b (laid m sz B) ! j = laid (m ++ slots lo b) (max sz (lo + length b)) B ! j"
    unfolding nth_patched [OF j] nth_laid [OF j2]
    using assms(1) j2 none by (auto simp: nth_laid slots_def map_add_def not_less split: option.splits)
qed

lemma foldl_patched_laid:
  assumes "length B \<le> sz" and "\<And>j. j \<in> dom m \<Longrightarrow> j < sz" and "\<forall>(lo, b) \<in> set es. b \<noteq> []"
  shows "foldl (\<lambda>X (lo, b). patched lo b X) (laid m sz B) es =
     laid (foldl (\<lambda>m (lo, b). m ++ slots lo b) m es) (foldl (\<lambda>k (lo, b). max k (lo + length b)) sz es) B"
  using assms
proof (induction es arbitrary: m sz)
  case (Cons e es)
  obtain lo b where e: "e = (lo, b)" by force
  have "patched lo b (laid m sz B) = laid (m ++ slots lo b) (max sz (lo + length b)) B"
    using Cons.prems e by (intro patched_laid) auto
  moreover have "j < max sz (lo + length b)" if "j \<in> dom (m ++ slots lo b)" for j
    using that Cons.prems(2) by (auto simp: dom_slots less_max_iff_disj)
  ultimately show ?case using Cons.IH [of "max sz (lo + length b)" "m ++ slots lo b"] Cons.prems e by auto
qed simp

lemma foldl_ext_map:
  "ext_ok es \<Longrightarrow> dom m \<inter> dom (ext_map es) = {} \<Longrightarrow>
     foldl (\<lambda>m (lo, b). m ++ slots lo b) m es = m ++ ext_map es"
proof (induction es arbitrary: m)
  case (Cons e es)
  obtain lo b where e: "e = (lo, b)" by force
  have d: "ext_ok es" "dom (ext_map es) \<inter> dom (slots lo b) = {}" using Cons.prems(1) e by (auto simp: ext_ok_Cons)
  have "dom (m ++ slots lo b) \<inter> dom (ext_map es) = {}"
    using Cons.prems(2) d e by (auto simp: ext_map_Cons)
  moreover have "slots lo b ++ ext_map es = ext_map es ++ slots lo b" using d(2) by (intro map_add_comm) auto
  ultimately show ?case using Cons.IH [OF d(1)] e by (simp add: ext_map_Cons flip: map_add_assoc)
qed simp

lemma foldl_max_le:
  "k \<le> n \<Longrightarrow> \<forall>(lo, b) \<in> set es. lo + length b \<le> n \<Longrightarrow> foldl (\<lambda>k (lo, b). max k (lo + length b)) k es \<le> n"
  by (induction es arbitrary: k) auto

lemma foldl_max_ge:
  "k \<le> foldl (\<lambda>k (lo, b). max k (lo + length b)) k es"
  "(lo, b) \<in> set es \<Longrightarrow> lo + length b \<le> foldl (\<lambda>k (lo, b). max k (lo + length b)) k es"
proof (induction es arbitrary: k)
  case (Cons e es)
  { case 1
    show ?case using Cons.IH(1) [of "max k (fst e + length (snd e))"] by (auto split: prod.splits) }
  { case 2
    then show ?case using Cons.IH(1) [of "max k (fst e + length (snd e))"] Cons.IH(2)
      by (auto split: prod.splits) }
qed auto

lemma dom_ext_map_Un: "dom (ext_map es) = (\<Union>(lo, b) \<in> set es. {lo..<lo + length b})"
proof (induction es)
  case (Cons e es)
  obtain lo b where "e = (lo, b)" by force
  with Cons show ?case by (simp add: ext_map_Cons dom_slots)
qed simp

lemma ext_map_domD: "j \<in> dom (ext_map es) \<Longrightarrow> \<exists>(lo, b) \<in> set es. lo \<le> j \<and> j < lo + length b"
  unfolding dom_ext_map_Un by fastforce

lemma ext_map_domI: "(lo, b) \<in> set es \<Longrightarrow> lo \<le> j \<Longrightarrow> j < lo + length b \<Longrightarrow> j \<in> dom (ext_map es)"
  unfolding dom_ext_map_Un by force

text \<open>Writing every extent in turn gives the bytes the handle stood for.\<close>

lemma flush_view:
  assumes "of_inv f B"
  shows "foldl (\<lambda>X (lo, b). patched lo b X) B (of_extents f) = of_view f B"
proof -
  let ?es = "of_extents f"
  have ok: "ext_ok ?es" and le: "length B \<le> of_size f" using assms by (auto simp: of_inv_def)
  have ne: "\<forall>(lo, b) \<in> set ?es. b \<noteq> []" using ok by (simp add: ext_ok_def)
  have "foldl (\<lambda>X (lo, b). patched lo b X) (laid Map.empty (length B) B) ?es =
      laid (foldl (\<lambda>m (lo, b). m ++ slots lo b) Map.empty ?es)
        (foldl (\<lambda>k (lo, b). max k (lo + length b)) (length B) ?es) B"
    using ne by (intro foldl_patched_laid) auto
  moreover have "foldl (\<lambda>m (lo, b). m ++ slots lo b) Map.empty ?es = ext_map ?es"
    using foldl_ext_map [OF ok, of Map.empty] by simp
  moreover have "foldl (\<lambda>k (lo, b). max k (lo + length b)) (length B) ?es = of_size f"
  proof (rule antisym)
    have "lo + length b \<le> of_size f" if "(lo, b) \<in> set ?es" for lo b
    proof -
      have b: "0 < length b" using ne that by auto
      then have "lo + length b - 1 \<in> dom (ext_map ?es)" by (intro ext_map_domI [OF that]) linarith+
      then have "lo + length b - 1 < of_size f" using assms by (simp add: of_inv_def)
      then show ?thesis by simp
    qed
    then show "foldl (\<lambda>k (lo, b). max k (lo + length b)) (length B) ?es \<le> of_size f"
      using le by (intro foldl_max_le) auto
    from assms consider "of_size f = length B" | j where "j \<in> dom (ext_map ?es)" "of_size f = Suc j"
      by (auto simp: of_inv_def)
    then show "of_size f \<le> foldl (\<lambda>k (lo, b). max k (lo + length b)) (length B) ?es"
    proof cases
      case 1
      then show ?thesis by (simp add: foldl_max_ge(1))
    next
      case 2
      from ext_map_domD [OF 2(1)] obtain lo b where "(lo, b) \<in> set ?es" "j < lo + length b" by auto
      with foldl_max_ge(2) [OF this(1), of "length B"] 2(2) show ?thesis by simp
    qed
  qed
  ultimately show ?thesis by (simp add: of_view_def)
qed

lemma of_inv_clean [simp]: "of_inv \<lparr>of_size = length B, of_extents = [], of_dirty = k\<rparr> B"
  by (simp add: of_inv_def ext_ok_def)

lemma of_view_clean [simp]: "of_view \<lparr>of_size = length B, of_extents = [], of_dirty = k\<rparr> B = B"
  by (simp add: of_view_def)

lemma length_view [simp]: "length (of_view f B) = of_size f"
  by (simp add: of_view_def)

text \<open>What a write does to the extents, before any flush.\<close>

lemma of_write_buffer:
  assumes inv: "of_inv f B" and ne: "data \<noteq> []"
    and m: "merge_extents [] off (off + length data) data (of_extents f) = (merged, lo, hi, buf)"
    and f1: "f1 = \<lparr>of_size = max (of_size f) hi, of_extents = sort_key fst (merged @ [(lo, buf)]), of_dirty = k\<rparr>"
  shows "of_inv f1 B" and "of_view f1 B = patched off data (of_view f B)"
proof -
  let ?es = "of_extents f"
  have ok: "ext_ok ?es" and le: "length B \<le> of_size f"
    and lt: "\<And>j. j \<in> dom (ext_map ?es) \<Longrightarrow> j < of_size f"
    and hit: "of_size f = length B \<or> (\<exists>j \<in> dom (ext_map ?es). of_size f = Suc j)"
    using inv by (auto simp: of_inv_def)
  have M: "ext_ok (merged @ [(lo, buf)]) \<and> hi = lo + length buf
      \<and> dom (slots off data) \<subseteq> dom (slots lo buf)
      \<and> ext_map (merged @ [(lo, buf)]) = (ext_map [] ++ ext_map ?es) ++ slots off data"
    using ok ne m by (intro merge_extents_ok) (auto simp: ext_ok_def)
  have e1: "ext_ok (of_extents f1)" and e2: "ext_map (of_extents f1) = ext_map ?es ++ slots off data"
    using M ext_sort [of "merged @ [(lo, buf)]"] f1 by auto
  have dom: "j < max (of_size f) (off + length data)" if "j \<in> dom (ext_map (of_extents f1))" for j
    using that lt [of j] unfolding e2 by (auto simp: dom_slots less_max_iff_disj)
  have d: "0 < length data" using ne by simp
  have "off + length data - 1 \<in> dom (slots off data)" using d by (cases data) (simp_all add: dom_slots)
  then have "off + length data - 1 \<in> dom (slots lo buf)" using M by blast
  then have ge: "off + length data \<le> hi" using M d by (simp add: dom_slots)
  have bl: "0 < length buf" using M by (auto simp: ext_ok_def)
  have "hi - 1 \<in> dom (ext_map (merged @ [(lo, buf)]))"
    using M bl by (intro ext_map_domI [of lo buf]) (auto simp del: length_greater_0_conv)
  then have "hi - 1 \<in> dom (ext_map (of_extents f1))" using M e2 by simp
  from dom [OF this] have "hi \<le> max (of_size f) (off + length data)" by linarith
  with ge have sz: "of_size f1 = max (of_size f) (off + length data)" using f1 by simp
  show "of_inv f1 B"
    unfolding of_inv_def
  proof (intro conjI)
    show "ext_ok (of_extents f1)" by (rule e1)
    show "length B \<le> of_size f1" using le sz by simp
    show "\<forall>j \<in> dom (ext_map (of_extents f1)). j < of_size f1" using dom sz by simp
    show "of_size f1 = length B \<or> (\<exists>j \<in> dom (ext_map (of_extents f1)). of_size f1 = Suc j)"
    proof (cases "of_size f < off + length data")
      case True
      then have "of_size f1 = Suc (off + length data - 1)" using sz d by simp
      moreover have "off + length data - 1 \<in> dom (ext_map (of_extents f1))"
        unfolding e2 using d by (cases data) (simp_all add: dom_slots)
      ultimately show ?thesis by blast
    next
      case False
      then have "of_size f1 = of_size f" using sz by simp
      moreover have "dom (ext_map ?es) \<subseteq> dom (ext_map (of_extents f1))" unfolding e2 by auto
      ultimately show ?thesis using hit by auto
    qed
  qed
  show "of_view f1 B = patched off data (of_view f B)"
    unfolding of_view_def sz e2 using le ne lt by (subst patched_laid) auto
qed

text \<open>Laying the extents over a window.\<close>

lemma nth_put_at:
  "i + length d \<le> length base \<Longrightarrow> j < length base \<Longrightarrow>
     put_at i d base ! j = (case slots i d j of Some x \<Rightarrow> x | None \<Rightarrow> base ! j)"
  by (auto simp: put_at_def slots_def nth_append min_def)

lemma length_put_at [simp]: "i + length d \<le> length base \<Longrightarrow> length (put_at i d base) = length base"
  by (simp add: put_at_def)

lemma overlay_extent_ok:
  assumes "length base = stop - off" and "off \<le> stop"
  shows "length (overlay_extent off stop (lo, b) base) = stop - off"
    and "j < stop - off \<Longrightarrow> overlay_extent off stop (lo, b) base ! j =
      (case slots lo b (off + j) of Some x \<Rightarrow> x | None \<Rightarrow> base ! j)"
proof -
  have n: "take (e - max lo off) (drop (max lo off - lo) b) ! (j + off - max lo off) = b ! (off + j - lo)"
    if "max lo off \<le> off + j" "off + j < e" "e \<le> lo + length b" for e j
    using that by (simp add: nth_append max_def add.commute split: if_splits)
  show "length (overlay_extent off stop (lo, b) base) = stop - off"
    using assms by (auto simp: overlay_extent_def Let_def)
  show "overlay_extent off stop (lo, b) base ! j = (case slots lo b (off + j) of Some x \<Rightarrow> x | None \<Rightarrow> base ! j)"
    if "j < stop - off"
    using that assms n [of j "min (lo + length b) stop"]
    by (auto simp: overlay_extent_def Let_def nth_put_at slots_def)
qed

lemma fold_overlay_ok:
  assumes "length base = stop - off" and "off \<le> stop" and "ext_ok es"
  shows "length (fold (overlay_extent off stop) es base) = stop - off \<and>
    (\<forall>j < stop - off. fold (overlay_extent off stop) es base ! j =
      (case ext_map es (off + j) of Some x \<Rightarrow> x | None \<Rightarrow> base ! j))"
  using assms(1,3)
proof (induction es arbitrary: base)
  case (Cons e es)
  obtain lo b where e: "e = (lo, b)" by force
  note o = overlay_extent_ok [OF Cons.prems(1) assms(2), where lo = lo and b = b]
  have d: "ext_ok es" "dom (ext_map es) \<inter> dom (slots lo b) = {}" using Cons.prems(2) e by (auto simp: ext_ok_Cons)
  show ?case
    using Cons.IH [OF o(1) d(1)] o(2) d(2)
    by (auto simp: e ext_map_Cons map_add_def split: option.splits)
qed simp


section \<open>The handle over the interface\<close>

text \<open>The requests of one inode's handles, as the dispatcher serialises them, and what each
  answers; the specification runs the same requests on a plain array of bytes.\<close>

datatype of_cmd = Of_Write nat bytes | Of_Read nat nat | Of_Truncate nat | Of_Flush

datatype of_answer = Of_Count nat | Of_Bytes bytes | Of_Done

fun of_step ::
  "('s \<Rightarrow> ('e + nat) \<times> 's) \<Rightarrow> (nat \<Rightarrow> nat \<Rightarrow> 's \<Rightarrow> ('e + bytes) \<times> 's) \<Rightarrow>
   (nat \<Rightarrow> bytes \<Rightarrow> 's \<Rightarrow> ('e + nat) \<times> 's) \<Rightarrow> (nat \<Rightarrow> 's \<Rightarrow> ('e + unit) \<times> 's) \<Rightarrow>
   of_cmd \<Rightarrow> open_file \<Rightarrow> 's \<Rightarrow> ('e + of_answer) \<times> open_file \<times> 's" where
  "of_step sz rd wr rs (Of_Write off data) f s =
     (case of_write wr off data f s of (r, f', s') \<Rightarrow> (map_sum id Of_Count r, f', s'))"
| "of_step sz rd wr rs (Of_Read off n) f s =
     (case of_read sz rd off n f s of (r, s') \<Rightarrow> (map_sum id Of_Bytes r, f, s'))"
| "of_step sz rd wr rs (Of_Truncate n) f s =
     (case of_truncate wr rs n f s of (r, f', s') \<Rightarrow> (map_sum id (\<lambda>_. Of_Done) r, f', s'))"
| "of_step sz rd wr rs Of_Flush f s =
     (case of_flush wr f s of (r, f', s') \<Rightarrow> (map_sum id (\<lambda>_. Of_Done) r, f', s'))"

fun of_run ::
  "('s \<Rightarrow> ('e + nat) \<times> 's) \<Rightarrow> (nat \<Rightarrow> nat \<Rightarrow> 's \<Rightarrow> ('e + bytes) \<times> 's) \<Rightarrow>
   (nat \<Rightarrow> bytes \<Rightarrow> 's \<Rightarrow> ('e + nat) \<times> 's) \<Rightarrow> (nat \<Rightarrow> 's \<Rightarrow> ('e + unit) \<times> 's) \<Rightarrow>
   of_cmd list \<Rightarrow> open_file \<Rightarrow> 's \<Rightarrow> ('e + of_answer) list \<times> open_file \<times> 's" where
  "of_run sz rd wr rs [] f s = ([], f, s)"
| "of_run sz rd wr rs (c # cmds) f s =
     (case of_step sz rd wr rs c f s of (r, f1, s1) \<Rightarrow>
        (case of_run sz rd wr rs cmds f1 s1 of (as, f2, s2) \<Rightarrow> (r # as, f2, s2)))"

fun array_step :: "of_cmd \<Rightarrow> bytes \<Rightarrow> of_answer \<times> bytes" where
  "array_step (Of_Write off data) V = (Of_Count (length data), patched off data V)"
| "array_step (Of_Read off n) V = (Of_Bytes (take n (drop off V)), V)"
| "array_step (Of_Truncate n) V = (Of_Done, resized n V)"
| "array_step Of_Flush V = (Of_Done, V)"

fun array_run :: "of_cmd list \<Rightarrow> bytes \<Rightarrow> of_answer list \<times> bytes" where
  "array_run [] V = ([], V)"
| "array_run (c # cmds) V =
     (case array_step c V of (r, V1) \<Rightarrow> (case array_run cmds V1 of (rs, V2) \<Rightarrow> (r # rs, V2)))"

fun cmd_ok :: "of_cmd \<Rightarrow> bool" where
  "cmd_ok (Of_Write off data) \<longleftrightarrow> data \<noteq> []"
| "cmd_ok _ \<longleftrightarrow> True"

context byte_file
begin

text \<open>A handle over an entry: the entry holds the committed bytes, the handle the rest.\<close>

definition handle_on :: "open_file \<Rightarrow> 's \<Rightarrow> bytes \<Rightarrow> bool" where
  "handle_on f s V \<longleftrightarrow> (\<exists>B. holds s B \<and> of_inv f B \<and> of_view f B = V)"

lemma open_new_handle:
  "holds s B \<Longrightarrow> \<exists>f s'. open_new stat_size s = (Inr f, s') \<and> handle_on f s' B"
  by (rule exI [of _ "\<lparr>of_size = length B, of_extents = [], of_dirty = 0\<rparr>"], rule exI [of _ s])
    (auto simp: open_new_def size_law handle_on_def intro!: exI [of _ B])

lemma flush_extents_holds:
  assumes "\<And>X. ok X"
  shows "holds s B \<Longrightarrow> \<forall>(lo, b) \<in> set es. b \<noteq> [] \<Longrightarrow>
    \<exists>s'. flush_extents write_at es s = (Inr (), s') \<and> holds s' (foldl (\<lambda>X (lo, b). patched lo b X) B es)"
proof (induction es arbitrary: s B)
  case (Cons e es)
  obtain lo b where e: "e = (lo, b)" by force
  with Cons.prems write_law [of s B b lo] assms obtain s1 where
    "write_at lo b s = (Inr (length (patched lo b B)), s1)" "holds s1 (patched lo b B)" by auto
  with Cons.IH [of s1 "patched lo b B"] Cons.prems e show ?case by auto
qed auto

lemma of_flush_handle:
  assumes "\<And>X. ok X" and "handle_on f s V"
  shows "\<exists>s'. of_flush write_at f s = (Inr (), f\<lparr>of_extents := [], of_dirty := 0\<rparr>, s') \<and> holds s' V
    \<and> length V = of_size f"
proof -
  from assms(2) obtain B where B: "holds s B" "of_inv f B" "of_view f B = V" by (auto simp: handle_on_def)
  then have "\<forall>(lo, b) \<in> set (of_extents f). b \<noteq> []" by (simp add: of_inv_def ext_ok_def)
  from flush_extents_holds [OF assms(1) B(1) this] obtain s' where
    s': "flush_extents write_at (of_extents f) s = (Inr (), s')" "holds s' V"
    unfolding flush_view [OF B(2)] B(3) by auto
  have "length V = of_size f" unfolding B(3) [symmetric] by simp
  with s' show ?thesis by (simp add: of_flush_def)
qed

lemma clean_handle: "holds s V \<Longrightarrow> of_size f = length V \<Longrightarrow> of_extents f = [] \<Longrightarrow> handle_on f s V"
  by (auto simp: handle_on_def of_inv_def of_view_def ext_ok_def intro!: exI [of _ V])

lemma of_write_handle:
  assumes "\<And>X. ok X" and "handle_on f s V" and "data \<noteq> []"
  shows "\<exists>f' s'. of_write write_at off data f s = (Inr (length data), f', s') \<and> handle_on f' s' (patched off data V)"
proof -
  from assms(2) obtain B where B: "holds s B" "of_inv f B" "of_view f B = V" by (auto simp: handle_on_def)
  obtain merged lo hi buf where m: "merge_extents [] off (off + length data) data (of_extents f) = (merged, lo, hi, buf)"
    by (metis prod_cases4)
  define f1 where "f1 = \<lparr>of_size = max (of_size f) hi, of_extents = sort_key fst (merged @ [(lo, buf)]),
    of_dirty = total_dirty (sort_key fst (merged @ [(lo, buf)]))\<rparr>"
  note w = of_write_buffer [OF B(2) assms(3) m f1_def]
  have h: "handle_on f1 s (patched off data V)" using B w by (auto simp: handle_on_def)
  have run: "of_write write_at off data f s = (if of_dirty f1 \<ge> DIRTY_FLUSH
         then (case of_flush write_at f1 s of
                 (Inl e, f2, s') \<Rightarrow> (Inl e, f2, s')
               | (Inr _, f2, s') \<Rightarrow> (Inr (length data), f2, s'))
         else (Inr (length data), f1, s))"
    unfolding of_write_def m Let_def prod.case f1_def ..
  show ?thesis
  proof (cases "of_dirty f1 \<ge> DIRTY_FLUSH")
    case True
    from of_flush_handle [OF assms(1) h] obtain s' where
      "of_flush write_at f1 s = (Inr (), f1\<lparr>of_extents := [], of_dirty := 0\<rparr>, s')" "holds s' (patched off data V)"
      "length (patched off data V) = of_size f1" by auto
    with True show ?thesis unfolding run by (auto intro!: clean_handle)
  next
    case False
    with h show ?thesis unfolding run by simp
  qed
qed

lemma of_truncate_handle:
  assumes "\<And>X. ok X" and "handle_on f s V"
  shows "\<exists>f' s'. of_truncate write_at resize n f s = (Inr (), f', s') \<and> handle_on f' s' (resized n V)"
proof -
  from of_flush_handle [OF assms] obtain s1 where
    f1: "of_flush write_at f s = (Inr (), f\<lparr>of_extents := [], of_dirty := 0\<rparr>, s1)" "holds s1 V" by auto
  from resize_law [OF f1(2) assms(1)] obtain s2 where "resize n s1 = (Inr (), s2)" "holds s2 (resized n V)" by auto
  with f1 show ?thesis by (auto simp: of_truncate_def length_resized intro!: clean_handle)
qed

lemma of_read_handle:
  assumes "handle_on f s V"
  shows "\<exists>s'. of_read stat_size read_at off n f s = (Inr (take n (drop off V)), s') \<and> handle_on f s' V"
proof -
  from assms obtain B where B: "holds s B" "of_inv f B" "of_view f B = V" by (auto simp: handle_on_def)
  have V: "length V = of_size f" "length B \<le> of_size f" "ext_ok (of_extents f)"
    using B by (auto simp: of_inv_def)
  define stop where "stop = min (off + n) (of_size f)"
  show ?thesis
  proof (cases "stop \<le> off")
    case True
    then have "take n (drop off V) = []" using V by (auto simp: stop_def)
    with True assms show ?thesis by (auto simp: of_read_def simp flip: stop_def)
  next
    case False
    define got where "got = (if off < length B then take (min stop (length B) - off) (drop off B) else [])"
    obtain s' where s': "(if min off (length B) < length B then read_at off (min stop (length B) - off) s else (Inr [], s)) = (Inr got, s')"
      "holds s' B"
    proof (cases "off < length B")
      case True
      with read_law [OF B(1), of off "min stop (length B) - off"] that show ?thesis by (auto simp: got_def)
    next
      case False
      with B(1) that show ?thesis by (auto simp: got_def)
    qed
    define base where "base = put_at 0 got (replicate (stop - off) (0 :: byte))"
    have gl: "length got \<le> stop - off" using False by (auto simp: got_def)
    have bl: "length base = stop - off" using gl by (simp add: base_def)
    have bn: "base ! j = (if off + j < length B then B ! (off + j) else 0)" if "j < stop - off" for j
      using that gl by (auto simp: base_def got_def nth_put_at slots_def min_def)
    from False have os: "off \<le> stop" by simp
    note fo = fold_overlay_ok [OF bl os V(3)]
    have "fold (overlay_extent off stop) (of_extents f) base = take n (drop off V)"
    proof (rule nth_equalityI)
      show "length (fold (overlay_extent off stop) (of_extents f) base) = length (take n (drop off V))"
        using fo V False unfolding stop_def by simp
      fix j assume "j < length (fold (overlay_extent off stop) (of_extents f) base)"
      then have j: "j < stop - off" using fo by simp
      then have "off + j < of_size f" "j < n" "off + j < length V" using V by (auto simp: stop_def)
      then show "fold (overlay_extent off stop) (of_extents f) base ! j = take n (drop off V) ! j"
        using fo j bn [OF j] by (simp add: B(3) [symmetric] of_view_def nth_laid split: option.splits)
    qed
    then show ?thesis
      using False s' B
      by (auto simp: of_read_def size_law [OF B(1)] Let_def handle_on_def simp flip: stop_def base_def)
  qed
qed

text \<open>The handle refines the array: same answers, and the entry plus the overlay is the array.\<close>

lemma of_step_refines:
  assumes "\<And>X. ok X" and "handle_on f s V" and "cmd_ok c" and "array_step c V = (a, V')"
  shows "\<exists>f' s'. of_step stat_size read_at write_at resize c f s = (Inr a, f', s') \<and> handle_on f' s' V'"
proof (cases c)
  case (Of_Write off data)
  with of_write_handle [OF assms(1,2), of data off] assms(3,4) show ?thesis by auto
next
  case (Of_Read off n)
  with of_read_handle [OF assms(2), of off n] assms(4) show ?thesis by auto
next
  case (Of_Truncate n)
  with of_truncate_handle [OF assms(1,2), of n] assms(4) show ?thesis by auto
next
  case Of_Flush
  with of_flush_handle [OF assms(1,2)] assms(4) show ?thesis by (auto intro!: clean_handle)
qed

lemma of_run_refines:
  assumes "\<And>X. ok X"
  shows "handle_on f s V \<Longrightarrow> \<forall>c \<in> set cmds. cmd_ok c \<Longrightarrow> array_run cmds V = (as, V') \<Longrightarrow>
    \<exists>f' s'. of_run stat_size read_at write_at resize cmds f s = (map Inr as, f', s') \<and> handle_on f' s' V'"
proof (induction cmds arbitrary: f s V as)
  case (Cons c cmds)
  obtain a V1 where a: "array_step c V = (a, V1)" by force
  obtain as1 where as: "as = a # as1" "array_run cmds V1 = (as1, V')"
    using Cons.prems(3) a by (auto split: prod.splits)
  from of_step_refines [OF assms Cons.prems(1) _ a] Cons.prems(2) obtain f1 s1 where
    st: "of_step stat_size read_at write_at resize c f s = (Inr a, f1, s1)" "handle_on f1 s1 V1" by auto
  from Cons.IH [OF st(2) _ as(2)] Cons.prems(2) st(1) as(1) show ?case by auto
qed auto

end

section \<open>Inodes and errnos\<close>

unbundle bit_operations_syntax

text \<open>\<open>_ino\<close>: 64-bit FNV-1a over the id's characters, steered clear of 0 and 1.\<close>

definition ino :: "node_id \<Rightarrow> 64 word" where
  "ino node_id =
     (let h = fold (\<lambda>c h. (h XOR of_char c) * 1099511628211) node_id 14695981039346656037
      in if 1 < h then h else h + 2)"

lemma ino_avoids: "ino i \<noteq> 0" "ino i \<noteq> 1"
proof -
  have "(h :: 64 word) + 2 \<noteq> 0 \<and> h + 2 \<noteq> 1" if "\<not> 1 < h" for h
  proof -
    from that have "uint h \<le> 1" by (simp add: word_less_def)
    then have "uint h = 0 \<or> uint h = 1" using uint_ge_0 [of h] by linarith
    then have "h = 0 \<or> h = 1" by (metis uint_0_eq uint_1_eq word_eq_iff_unsigned)
    then show ?thesis by auto
  qed
  moreover have "(h :: 64 word) \<noteq> 0 \<and> h \<noteq> 1" if "1 < h" for h
    using that by (auto simp: word_less_def)
  ultimately show "ino i \<noteq> 0" "ino i \<noteq> 1" by (simp_all add: ino_def Let_def)
qed

datatype errno = ENOENT | ENOTDIR | EISDIR | ENOTEMPTY | EEXIST | EINVAL | EAGAIN | EROFS | EBUSY
  | EXDEV | EIO | ENOTSUP | EACCES | EPERM | ENODATA | EBADF

text \<open>\<open>_wrap\<close>: the error's class looked up in \<open>_ERRNO\<close>, EIO for any class without a row.\<close>

fun wrap :: "fs_error \<Rightarrow> errno" where
  "wrap NotFound = ENOENT"
| "wrap NotAContainer = ENOTDIR"
| "wrap NotAnEntry = EISDIR"
| "wrap NotEmpty = ENOTEMPTY"
| "wrap AlreadyExists = EEXIST"
| "wrap ContainerExists = EEXIST"
| "wrap Nameless = EINVAL"
| "wrap LockHeld = EAGAIN"
| "wrap ReadOnlyMount = EROFS"
| "wrap MountConflict = EBUSY"
| "wrap WouldCycle = EINVAL"
| "wrap VolumeMismatch = EXDEV"
| "wrap MountInvalid = EIO"
| "wrap Unsupported = ENOTSUP"
| "wrap BadKey = EACCES"
| "wrap EncryptionRequired = EACCES"
| "wrap _ = EIO"

end
