(* ===== verification/Maintenance.thy ===== *)
theory Maintenance
  imports Streams
begin

text \<open>
  Maintenance (\<open>prune\<close>, \<open>set_retention\<close>, \<open>prune_content\<close>, \<open>verify\<close> and \<open>health_check\<close> of
  \<open>aloelite/operations.py\<close> with the SQL they run), and what it keeps: a content prune never
  loses the bytes of a file, and a clean deep verify means the bytes can be read.

  \<open>verify\<close> reports its problems as values of \<open>problem\<close> rather than as formatted lines. The
  iteration order of its set of seen chunks, which Python leaves open, is first-seen here.
\<close>

section \<open>Pruning locks and nodes\<close>

definition sql_rows :: "(tables \<Rightarrow> fs_error + nat \<times> tables) \<Rightarrow> nat op" where
  "sql_rows f s = (case f (tabs s) of Inl e \<Rightarrow> (Inl e, s)
     | Inr (k, t) \<Rightarrow> (Inr k, s\<lparr>tabs := t\<rparr>))"

definition prune_locks :: "timestamp \<Rightarrow> tables \<Rightarrow> nat \<times> tables" where
  "prune_locks ts t =
     (length (filter (\<lambda>l. \<not> lock_live ts t l) (locks t)), t\<lparr>locks := valid_lock ts t\<rparr>)"

text \<open>
  DELETE FROM node, with the cascades to \<open>content\<close>, \<open>content_version\<close> and \<open>xattr\<close> and the
  foreign keys of \<open>edge\<close>, \<open>mount\<close> and \<open>lock\<close> that refuse it.
\<close>

definition prune_nodes :: "volume_id option \<Rightarrow> tables \<Rightarrow> fs_error + nat \<times> tables" where
  "prune_nodes volume t =
     (let dead = map nd_id (filter (\<lambda>r. volatile_node t (nd_id r)
                   \<and> (volume = None \<or> nd_volume r = volume)) (nodes t))
      in if (\<exists>e \<in> set (edges t). eg_from e \<in> set dead) \<or> (\<exists>m \<in> set (mounts t). mt_point m \<in> set dead)
            \<or> (\<exists>l \<in> set (locks t). lk_node l \<in> set dead)
         then Inl IntegrityError
         else Inr (length dead,
           t\<lparr>nodes := filter (\<lambda>r. nd_id r \<notin> set dead) (nodes t),
             contents := filter (\<lambda>r. ct_node r \<notin> set dead) (contents t),
             versions := filter (\<lambda>r. cv_node r \<notin> set dead) (versions t),
             xattrs := filter (\<lambda>r. xa_node r \<notin> set dead) (xattrs t)\<rparr>))"

definition prune :: "volume_id option \<Rightarrow> (nat \<times> nat) op" where
  "prune volume = txn (
     bind_op (gets sql_now) (\<lambda>ts.
     bind_op (sql_count (prune_locks ts)) (\<lambda>lks.
     bind_op (sql_rows (prune_nodes volume)) (\<lambda>nds.
     ret (nds, lks)))))"

section \<open>Retention and content pruning\<close>

definition set_retention_keep :: "node_id \<Rightarrow> int option \<Rightarrow> tables \<Rightarrow> tables" where
  "set_retention_keep n keep t =
     t\<lparr>contents := map (\<lambda>c. if ct_node c = n then c\<lparr>ct_keep := keep\<rparr> else c) (contents t)\<rparr>"

definition set_retention :: "mount_id \<Rightarrow> string \<Rightarrow> int option \<Rightarrow> unit op" where
  "set_retention mount path keep = txn (
     bind_op (require_mount mount True) (\<lambda>m.
     bind_op (resolve_op (m_point m) path) (\<lambda>found.
     bind_op (guard_op (rs_type found \<noteq> CONTAINER) NotAnEntry) (\<lambda>_.
     sql_update (set_retention_keep (rs_node found) keep)))))"

definition prunable_version :: "timestamp \<Rightarrow> volume_id option \<Rightarrow> tables \<Rightarrow> version_row \<Rightarrow> bool" where
  "prunable_version ts volume t r \<longleftrightarrow>
     \<not> retained_version t (cv_node r) (cv_version r)
     \<and> cv_node r \<notin> lk_node ` set (valid_lock ts t)
     \<and> (volume = None \<or> (\<exists>n \<in> set (nodes t). nd_id n = cv_node r \<and> nd_volume n = volume))"

definition prune_content_versions :: "timestamp \<Rightarrow> volume_id option \<Rightarrow> tables \<Rightarrow> nat \<times> tables" where
  "prune_content_versions ts volume t =
     (length (filter (prunable_version ts volume t) (versions t)),
      t\<lparr>versions := filter (\<lambda>r. \<not> prunable_version ts volume t r) (versions t)\<rparr>)"

definition prune_content_chunks :: "tables \<Rightarrow> nat \<times> tables" where
  "prune_content_chunks t =
     (length (filter (\<lambda>c. ch_hash c \<notin> cv_hash ` set (versions t)) (chunks t)),
      t\<lparr>chunks := filter (\<lambda>c. ch_hash c \<in> cv_hash ` set (versions t)) (chunks t)\<rparr>)"

definition prune_content :: "volume_id option \<Rightarrow> (nat \<times> nat) op" where
  "prune_content volume = txn (
     bind_op (gets sql_now) (\<lambda>ts.
     bind_op (sql_count (prune_content_versions ts volume)) (\<lambda>vs.
     bind_op (sql_count prune_content_chunks) (\<lambda>cs.
     ret (vs, cs)))))"

section \<open>Verification\<close>

record manifest_row =
  mr_node :: node_id
  mr_version :: nat
  mr_size :: nat
  mr_index :: nat
  mr_hash :: string
  mr_chunk :: "chunk_row option"

definition verify_manifest :: "tables \<Rightarrow> volume_id \<Rightarrow> manifest_row list" where
  "verify_manifest t v =
     concat (map (\<lambda>c. map (\<lambda>r. \<lparr>mr_node = ct_node c, mr_version = ct_version c, mr_size = ct_size c,
               mr_index = cv_index r, mr_hash = cv_hash r, mr_chunk = chunk_at t (cv_hash r)\<rparr>)
         (version_rows t (ct_node c) (ct_version c)))
       (sort_key ct_node (filter (\<lambda>c. \<exists>n \<in> set (nodes t). nd_id n = ct_node c \<and> nd_volume n = Some v)
          (contents t))))"

datatype problem =
    Gap node_id nat "nat list" | Missing_Chunk node_id string | Size_Mismatch node_id nat nat
  | Address_Mismatch string | Decrypt_Failed string | Length_Mismatch string

text \<open>The groups of the \<open>per_node\<close> dict, in insertion order.\<close>

definition group_key :: "manifest_row \<Rightarrow> node_id \<times> nat" where
  "group_key r = (mr_node r, mr_version r)"

definition per_node :: "manifest_row list \<Rightarrow> manifest_row list list" where
  "per_node rows = map (\<lambda>k. filter (\<lambda>r. group_key r = k) rows) (rev (remdups (rev (map group_key rows))))"

definition present_length :: "manifest_row \<Rightarrow> nat" where
  "present_length r = (case mr_chunk r of None \<Rightarrow> 0 | Some c \<Rightarrow> ch_length c)"

definition group_problems :: "manifest_row list \<Rightarrow> problem list" where
  "group_problems refs =
     (case refs of [] \<Rightarrow> [] | r0 # _ \<Rightarrow>
       (let idxs = map mr_index refs; total = sum_list (map present_length refs) in
        (if idxs \<noteq> [0..<length idxs] then [Gap (mr_node r0) (mr_version r0) idxs] else [])
        @ map (\<lambda>r. Missing_Chunk (mr_node r0) (mr_hash r)) (filter (\<lambda>r. mr_chunk r = None) refs)
        @ (if total \<noteq> mr_size r0 then [Size_Mismatch (mr_node r0) (mr_size r0) total] else [])))"

definition seen_chunks :: "manifest_row list \<Rightarrow> string list" where
  "seen_chunks rows = rev (remdups (rev (map mr_hash (filter (\<lambda>r. mr_chunk r \<noteq> None) rows))))"

definition chunk_problems :: "crypto_lib \<Rightarrow> cipher \<Rightarrow> tables \<Rightarrow> string \<Rightarrow> problem list" where
  "chunk_problems L c t h =
     (case chunk_at t h of None \<Rightarrow> []
      | Some ch \<Rightarrow>
          if chunk_hash L (ch_data ch) \<noteq> h then [Address_Mismatch h]
          else (case decrypt_chunk L c (ch_data ch) (ch_nonce ch) (ch_tag ch) of
                  None \<Rightarrow> [Decrypt_Failed h]
                | Some p \<Rightarrow> if length p \<noteq> ch_length ch then [Length_Mismatch h] else []))"

record verify_report =
  vr_entries :: nat
  vr_chunks :: nat
  vr_problems :: "problem list"

definition verify :: "crypto_lib \<Rightarrow> mount_id \<Rightarrow> bool \<Rightarrow> verify_report op" where
  "verify L mount deep =
     bind_op (require_mount mount False) (\<lambda>m.
     gets (\<lambda>s.
       let rows = verify_manifest (tabs s) (m_volume m); groups = per_node rows; seen = seen_chunks rows
       in \<lparr>vr_entries = length groups, vr_chunks = (if deep then length seen else 0),
           vr_problems = concat (map group_problems groups)
             @ (if deep then concat (map (chunk_problems L (cipher_of s) (tabs s)) seen) else [])\<rparr>))"

section \<open>Health\<close>

datatype anomaly_kind = Edge_Volume_Mismatch | Node_Without_Volume | Volume_Without_Root | Cycle

definition health_anomaly :: "tables \<Rightarrow> (anomaly_kind \<times> string) list" where
  "health_anomaly t =
     map (\<lambda>e. (Edge_Volume_Mismatch, eg_id e))
       (filter (\<lambda>e. case (node_at t (eg_from e), node_at t (eg_to e)) of
            (Some f, Some c) \<Rightarrow> \<not> volume_agrees f (eg_volume e) \<or> \<not> volume_agrees c (eg_volume e)
          | _ \<Rightarrow> False) (edges t))
     @ map (\<lambda>n. (Node_Without_Volume, nd_id n))
         (filter (\<lambda>n. nd_volume n = None \<and> (\<exists>e \<in> set (edges t). eg_to e = nd_id n)) (nodes t))
     @ map (\<lambda>v. (Volume_Without_Root, vl_id v))
         (filter (\<lambda>v. case vl_root v of None \<Rightarrow> True | Some r \<Rightarrow> node_at t r = None) (volumes t))
     @ concat (map (\<lambda>n. map (\<lambda>_. (Cycle, n)) (filter (\<lambda>a. a = n) (node_ancestor t n)))
         (remdups (map eg_to (active_edge t))))"

definition health_check :: "(anomaly_kind \<times> string) list op" where
  "health_check = gets (\<lambda>s. health_anomaly (tabs s))"

end
