(* ===== verification/Packing.thy ===== *)
theory Packing
  imports Maintenance
begin

text \<open>
  The shared subtree walk and what runs on it: \<open>copy\<close>, \<open>pack\<close> and \<open>unpack\<close> of
  \<open>aloelite/operations.py\<close>, and the blob codec \<open>aloelite/pack.py\<close>.

  MsgPack itself is a parameter: a \<open>msgpack\<close> record packs a value \<open>mp\<close> to bytes and unpacks
  bytes to a value or fails, and \<open>msgpack_ok\<close> is its documented round trip. A value that is
  neither of the constructors the codec tests for is \<open>MOther\<close>. A metadata value that is not
  a string, which NODE-6 rules out, is answered with TypeError.
\<close>

section \<open>The walk\<close>

record walk_item =
  wk_node :: node_id
  wk_parent :: "node_id option"
  wk_name :: string

definition enumerate_subtree :: "tables \<Rightarrow> node_id \<Rightarrow> walk_item list" where
  "enumerate_subtree t root =
     concat (map (\<lambda>w. case node_at t (st_node w) of None \<Rightarrow> []
       | Some r \<Rightarrow> [\<lparr>wk_node = st_node w, wk_parent = st_parent w,
           wk_name = (case st_edge w of None \<Rightarrow> nd_name r
                      | Some e \<Rightarrow> (case edge_at t e of None \<Rightarrow> nd_name r | Some x \<Rightarrow> eg_name x))\<rparr>])
       (sort_key (\<lambda>w. (st_depth w, or_else (st_edge w) [], st_node w)) (subtree t root)))"

section \<open>Copy\<close>

definition copy_content :: "node_id \<Rightarrow> node_id \<Rightarrow> unit op" where
  "copy_content src new_id =
     bind_op (content_meta src) (\<lambda>(sv, ssize).
     bind_op (sql (insert_content \<lparr>ct_node = new_id, ct_version = sv, ct_size = ssize, ct_keep = None\<rparr>)) (\<lambda>_.
     if sv > 0 then sql (copy_chunk_refs new_id sv src sv) else ret ()))"

text \<open>The loop of \<open>copy\<close>, with its \<open>idmap\<close> and \<open>new_root\<close>.\<close>

fun copy_rows ::
  "mnt \<Rightarrow> node_id \<Rightarrow> string \<Rightarrow> walk_item list \<Rightarrow> (node_id \<rightharpoonup> node_id) \<Rightarrow> node_id option \<Rightarrow> node_id option op" where
  "copy_rows m dst_parent dst_name [] idmap new_root = ret new_root"
| "copy_rows m dst_parent dst_name (r # rows) idmap new_root =
     (let is_root = (wk_parent r = None) in
      bind_op (get_opt TypeError (\<lambda>s. node_at (tabs s) (wk_node r))) (\<lambda>info.
      bind_op (get_opt KeyError (\<lambda>_. case wk_parent r of None \<Rightarrow> Some dst_parent | Some p \<Rightarrow> idmap p)) (\<lambda>parent.
      bind_op (new_node m (nd_type info) (if is_root then dst_name else wk_name r)
         (Some (nd_created info)) (Some (or_else (nd_modified info) (nd_created info)))
         (Some (or_else (nd_metadata info) []))) (\<lambda>new_id.
      bind_op (if nd_type info \<noteq> CONTAINER then copy_content (wk_node r) new_id else ret ()) (\<lambda>_.
      bind_op (link_node m parent new_id None) (\<lambda>_.
      copy_rows m dst_parent dst_name rows (idmap(wk_node r \<mapsto> new_id))
        (if is_root then Some new_id else new_root)))))))"

definition copy :: "mount_id \<Rightarrow> string \<Rightarrow> string \<Rightarrow> node_id op" where
  "copy mount src dst = txn (
     bind_op (require_mount mount True) (\<lambda>m.
     bind_op (resolve_op (m_point m) src) (\<lambda>found.
     bind_op (resolve_parent_op (m_point m) dst) (\<lambda>(dst_parent, dst_name).
     bind_op (require_name dst_name) (\<lambda>_.
     bind_op (gets (\<lambda>s. enumerate_subtree (tabs s) (rs_node found))) (\<lambda>rows.
     bind_op (copy_rows m dst_parent dst_name rows Map.empty None) (\<lambda>new_root.
     case new_root of None \<Rightarrow> fail Corrupt | Some n \<Rightarrow> ret n)))))))"

section \<open>The codec\<close>

datatype mp = MNil | MBool bool | MInt int | MStr string | MBin bytes | MArr "mp list"
  | MMap "(mp \<times> mp) list" | MOther

record msgpack =
  packb :: "mp \<Rightarrow> bytes"
  unpackb :: "bytes \<Rightarrow> mp option"

definition msgpack_ok :: "msgpack \<Rightarrow> bool" where
  "msgpack_ok M \<longleftrightarrow> (\<forall>v. unpackb M (packb M v) = Some v)"

text \<open>\<open>dict.get\<close>: a missing key and a nil value both read as \<open>None\<close>.\<close>

definition mp_get :: "mp \<Rightarrow> string \<Rightarrow> mp option" where
  "mp_get v k = (case v of MMap kvs \<Rightarrow>
     (case map_of kvs (MStr k) of Some MNil \<Rightarrow> None | x \<Rightarrow> x) | _ \<Rightarrow> None)"

fun is_map :: "mp \<Rightarrow> bool" where
  "is_map (MMap kvs) = True" | "is_map _ = False"

fun is_int :: "mp \<Rightarrow> bool" where
  "is_int (MInt i) = True" | "is_int _ = False"

fun is_str :: "mp \<Rightarrow> bool" where
  "is_str (MStr s) = True" | "is_str _ = False"

fun is_bin :: "mp \<Rightarrow> bool" where
  "is_bin (MBin b) = True" | "is_bin _ = False"

definition PACK_FMT :: string where
  "PACK_FMT = ''aloefs.pack''"

definition PACK_VER :: int where
  "PACK_VER = 2"

definition pack_encode :: "msgpack \<Rightarrow> mp list \<Rightarrow> bytes" where
  "pack_encode M ns = packb M (MMap [(MStr ''fmt'', MStr PACK_FMT), (MStr ''ver'', MInt PACK_VER),
     (MStr ''nodes'', MArr ns)])"

definition well_formed :: "mp \<Rightarrow> bool" where
  "well_formed pn \<longleftrightarrow> is_map pn
     \<and> (case mp_get pn ''p'' of Some v \<Rightarrow> is_int v | None \<Rightarrow> False)
     \<and> (case mp_get pn ''t'' of Some v \<Rightarrow> is_str v | None \<Rightarrow> False)
     \<and> (case mp_get pn ''n'' of Some v \<Rightarrow> is_str v | None \<Rightarrow> False)
     \<and> list_all (\<lambda>k. case mp_get pn k of None \<Rightarrow> True | Some v \<Rightarrow> is_int v)
         [''c'', ''m'', ''u'', ''g'', ''o'', ''rk'']
     \<and> (case mp_get pn ''x'' of None \<Rightarrow> True | Some v \<Rightarrow> is_map v)
     \<and> (case mp_get pn ''xa'' of None \<Rightarrow> True
        | Some (MMap kvs) \<Rightarrow> list_all (\<lambda>(k, v). is_str k \<and> is_bin v) kvs | Some _ \<Rightarrow> False)
     \<and> (case mp_get pn ''d'' of None \<Rightarrow> True | Some v \<Rightarrow> is_bin v)"

definition pack_decode :: "msgpack \<Rightarrow> bytes \<Rightarrow> fs_error + mp list" where
  "pack_decode M blob =
     (case unpackb M blob of
        None \<Rightarrow> Inl Corrupt
      | Some doc \<Rightarrow>
          if \<not> is_map doc \<or> mp_get doc ''fmt'' \<noteq> Some (MStr PACK_FMT) then Inl Corrupt
          else (case mp_get doc ''ver'' of
              Some (MInt ver) \<Rightarrow>
                if ver < 1 then Inl Corrupt
                else if ver > PACK_VER then Inl Unsupported
                else (case mp_get doc ''nodes'' of
                    Some (MArr ns) \<Rightarrow> if list_all well_formed ns then Inr ns else Inl Corrupt
                  | _ \<Rightarrow> Inl Corrupt)
            | _ \<Rightarrow> Inl Corrupt))"

section \<open>Pack\<close>

definition opt_key :: "string \<Rightarrow> mp option \<Rightarrow> (mp \<times> mp) list" where
  "opt_key k v = (case v of None \<Rightarrow> [] | Some x \<Rightarrow> [(MStr k, x)])"

definition xattrs_of :: "tables \<Rightarrow> node_id \<Rightarrow> (string \<times> bytes) list" where
  "xattrs_of t n = sort_key fst (map (\<lambda>x. (xa_name x, xa_value x)) (filter (\<lambda>x. xa_node x = n) (xattrs t)))"

text \<open>One entry of the blob; \<open>p\<close> is the parent's index and \<open>d\<close> the payload of a leaf.\<close>

definition pack_entry ::
  "tables \<Rightarrow> node_row \<Rightarrow> int \<Rightarrow> string \<Rightarrow> bytes option \<Rightarrow> mp" where
  "pack_entry t r p nm d =
     (let n = nd_id r; meta = or_else (nd_metadata r) []; xas = xattrs_of t n in
      MMap ([(MStr ''p'', MInt p), (MStr ''t'', MStr (node_type_value (nd_type r))), (MStr ''n'', MStr nm),
         (MStr ''c'', MInt (nd_created r)), (MStr ''m'', MInt (or_else (nd_modified r) (nd_created r)))]
       @ opt_key ''u'' (map_option MInt (nd_uid r))
       @ opt_key ''g'' (map_option MInt (nd_gid r))
       @ opt_key ''o'' (map_option MInt (nd_mode r))
       @ opt_key ''x'' (if meta = [] then None else Some (MMap (map (\<lambda>(k, v). (MStr k, MStr v)) meta)))
       @ opt_key ''xa'' (if xas = [] then None else Some (MMap (map (\<lambda>(k, v). (MStr k, MBin v)) xas)))
       @ opt_key ''rk'' (if nd_type r = CONTAINER then None
           else (case content_at t n of None \<Rightarrow> None | Some c \<Rightarrow> map_option MInt (ct_keep c)))
       @ opt_key ''d'' (map_option MBin d)))"

fun pack_rows ::
  "crypto_lib \<Rightarrow> db \<Rightarrow> walk_item list \<Rightarrow> (node_id \<rightharpoonup> int) \<Rightarrow> mp list \<Rightarrow> fs_error + mp list" where
  "pack_rows L s [] index packed = Inr packed"
| "pack_rows L s (r # rows) index packed =
     (case node_at (tabs s) (wk_node r) of
        None \<Rightarrow> Inl TypeError
      | Some info \<Rightarrow>
          (let index' = index(wk_node r \<mapsto> int (length packed)) in
           case (case wk_parent r of None \<Rightarrow> Some (-1) | Some p \<Rightarrow> index' p) of
             None \<Rightarrow> Inl KeyError
           | Some p \<Rightarrow>
               (case (if nd_type info = CONTAINER then Inr None
                      else map_sum id Some (read_content_bytes L (wk_node r) s)) of
                  Inl e \<Rightarrow> Inl e
                | Inr d \<Rightarrow> pack_rows L s rows index'
                    (packed @ [pack_entry (tabs s) info p (wk_name r) d]))))"

text \<open>\<open>get_active_parent\<close>: the first active placement of the node.\<close>

definition active_parent :: "tables \<Rightarrow> node_id \<Rightarrow> edge_row option" where
  "active_parent t n = find (\<lambda>e. eg_to e = n) (active_edge t)"

definition pack :: "crypto_lib \<Rightarrow> msgpack \<Rightarrow> mount_id \<Rightarrow> string \<Rightarrow> node_id op" where
  "pack L M mount path = txn (
     bind_op (require_mount mount True) (\<lambda>m.
     bind_op (resolve_op (m_point m) path) (\<lambda>found.
     bind_op (guard_op (rs_type found = CONTAINER) NotAContainer) (\<lambda>_.
     let node = rs_node found in
     bind_op (gets (\<lambda>s. check_lock_held_subtree (sql_now s) (tabs s) node mount)) (\<lambda>locked.
     bind_op (guard_op (locked = None) LockHeld) (\<lambda>_.
     bind_op (get_opt NotFound (\<lambda>s. active_parent (tabs s) node)) (\<lambda>placement.
     bind_op (get_opt TypeError (\<lambda>s. node_at (tabs s) node)) (\<lambda>cont.
     bind_op (get_sum (\<lambda>s. pack_rows L s (enumerate_subtree (tabs s) node) Map.empty [])) (\<lambda>packed_nodes.
     let blob = pack_encode M packed_nodes in
     bind_op (gets sql_now) (\<lambda>ts.
     bind_op (sql_count (archive_subtree ts node)) (\<lambda>_.
     bind_op (new_node m ENTRY (nd_name cont) None None None) (\<lambda>packed.
     bind_op (put_initial_content L m packed blob) (\<lambda>_.
     bind_op (link_node m (eg_from placement) packed None) (\<lambda>_.
     ret packed))))))))))))))"

section \<open>Unpack\<close>

fun mp_int :: "mp option \<Rightarrow> int option" where
  "mp_int (Some (MInt i)) = Some i" | "mp_int _ = None"

fun mp_bin :: "mp option \<Rightarrow> bytes" where
  "mp_bin (Some (MBin b)) = b" | "mp_bin _ = []"

fun mp_str :: "mp option \<Rightarrow> string" where
  "mp_str (Some (MStr s)) = s" | "mp_str _ = []"

fun str_pairs :: "(mp \<times> mp) list \<Rightarrow> (string \<times> string) list option" where
  "str_pairs [] = Some []"
| "str_pairs ((MStr k, MStr v) # kvs) = map_option ((#) (k, v)) (str_pairs kvs)"
| "str_pairs _ = None"

text \<open>The \<open>x\<close> map as \<open>_new_node\<close>'s metadata.\<close>

definition metadata_of :: "mp option \<Rightarrow> (string \<times> string) list option op" where
  "metadata_of x = (case x of
      None \<Rightarrow> ret None
    | Some (MMap kvs) \<Rightarrow> (case str_pairs kvs of None \<Rightarrow> fail TypeError | Some ps \<Rightarrow> ret (Some ps))
    | Some _ \<Rightarrow> fail TypeError)"

definition restore_owner :: "node_id \<Rightarrow> mp \<Rightarrow> unit op" where
  "restore_owner n pn =
     (let u = mp_int (mp_get pn ''u''); g = mp_int (mp_get pn ''g''); md = mp_int (mp_get pn ''o'') in
      if u \<noteq> None \<or> g \<noteq> None \<or> md \<noteq> None
      then bind_op (gets sql_now) (\<lambda>ts. sql_update (set_owner_sql ts n u g (map_option (\<lambda>x. x mod 4096) md)))
      else ret ())"

definition restore_xattrs :: "node_id \<Rightarrow> mp \<Rightarrow> unit op" where
  "restore_xattrs n pn =
     each_op (\<lambda>(k, v). sql (xattr_set_sql n (mp_str (Some k)) (mp_bin (Some v))))
       (case mp_get pn ''xa'' of Some (MMap kvs) \<Rightarrow> kvs | _ \<Rightarrow> [])"

text \<open>One node of the blob: \<open>ids\<close> are the new ids so far, the code's \<open>idmap\<close>.\<close>

definition restore_node :: "crypto_lib \<Rightarrow> mnt \<Rightarrow> node_id \<Rightarrow> mp \<Rightarrow> node_id list \<Rightarrow> node_id op" where
  "restore_node L m parent pn ids =
     bind_op (get_opt ValueError (\<lambda>_. node_type_of (mp_str (mp_get pn ''t'')))) (\<lambda>ty.
     let p = or_else (mp_int (mp_get pn ''p'')) 0 in
     bind_op (get_opt KeyError (\<lambda>_. if p = -1 then Some parent
         else if 0 \<le> p \<and> p < int (length ids) then Some (ids ! nat p) else None)) (\<lambda>target.
     bind_op (metadata_of (mp_get pn ''x'')) (\<lambda>meta.
     bind_op (new_node m ty (mp_str (mp_get pn ''n'')) (mp_int (mp_get pn ''c''))
        (mp_int (mp_get pn ''m'')) meta) (\<lambda>new_id.
     bind_op (if ty \<noteq> CONTAINER then put_initial_content L m new_id (mp_bin (mp_get pn ''d'')) else ret ()) (\<lambda>_.
     bind_op (link_node m target new_id None) (\<lambda>_.
     bind_op (restore_owner new_id pn) (\<lambda>_.
     bind_op (restore_xattrs new_id pn) (\<lambda>_.
     bind_op (case mp_int (mp_get pn ''rk'') of
         Some k \<Rightarrow> if ty \<noteq> CONTAINER then sql_update (set_retention_keep new_id (Some k)) else ret ()
       | None \<Rightarrow> ret ()) (\<lambda>_.
     ret new_id)))))))))"

fun restore_nodes :: "crypto_lib \<Rightarrow> mnt \<Rightarrow> node_id \<Rightarrow> mp list \<Rightarrow> node_id list \<Rightarrow> unit op" where
  "restore_nodes L m parent [] ids = ret ()"
| "restore_nodes L m parent (pn # pns) ids =
     bind_op (restore_node L m parent pn ids) (\<lambda>new_id. restore_nodes L m parent pns (ids @ [new_id]))"

definition unpack :: "crypto_lib \<Rightarrow> msgpack \<Rightarrow> mount_id \<Rightarrow> string \<Rightarrow> unit op" where
  "unpack L M mount path = txn (
     bind_op (require_mount mount True) (\<lambda>m.
     bind_op (resolve_op (m_point m) path) (\<lambda>found.
     bind_op (guard_op (rs_type found \<noteq> CONTAINER) NotAnEntry) (\<lambda>_.
     let node = rs_node found in
     bind_op (refuse_if_held node mount) (\<lambda>_.
     bind_op (get_sum (read_content_bytes L node)) (\<lambda>blob.
     bind_op (get_sum (\<lambda>_. pack_decode M blob)) (\<lambda>ns.
     bind_op (get_opt NotFound (\<lambda>s. active_parent (tabs s) node)) (\<lambda>placement.
     bind_op (gets sql_now) (\<lambda>ts.
     bind_op (sql_count (archive_edge ts (eg_id placement))) (\<lambda>_.
     restore_nodes L m (eg_from placement) ns []))))))))))"

end
