(* ===== verification/Facade.thy ===== *)
theory Facade
  imports Packing
begin

text \<open>
  The handles of \<open>aloelite/aloelite.py\<close>. Most methods of \<open>Aloelite\<close> and \<open>Mount\<close> only pass
  their arguments on to an operation, and the operations stand for them. The rest is here:
  volumes addressed by name, a mount that creates its volume, \<open>mkdir\<close> with its parents and
  \<open>put\<close>, each a sequence of atomic operations and not one transaction.
\<close>

section \<open>Caught exceptions\<close>

text \<open>\<open>try: m except es: None\<close>\<close>

definition attempt :: "fs_error set \<Rightarrow> 'a op \<Rightarrow> 'a option op" where
  "attempt es m s = (case m s of
     (Inl e, s') \<Rightarrow> if e \<in> es then (Inr None, s') else (Inl e, s')
   | (Inr x, s') \<Rightarrow> (Inr (Some x), s'))"

lemma attempt_eq [op_simps]:
  "m s = (Inr x, s') \<Longrightarrow> attempt es m s = (Inr (Some x), s')"
  "m s = (Inl e, s') \<Longrightarrow> attempt es m s = (if e \<in> es then (Inr None, s') else (Inl e, s'))"
  by (simp_all add: attempt_def)

lemma preserves_attempt [preserving]: "preserves P m \<Longrightarrow> preserves P (attempt es m)"
  by (fastforce simp: preserves_def attempt_def split: prod.splits sum.splits)

section \<open>Volumes by name\<close>

text \<open>The first greatest element by key, as \<open>max(..., key=...)\<close> picks it.\<close>

definition max_by :: "('a \<Rightarrow> 'k::linorder) \<Rightarrow> 'a \<Rightarrow> 'a list \<Rightarrow> 'a" where
  "max_by key x xs = foldl (\<lambda>b y. if key b < key y then y else b) x xs"

lemma max_by_mem: "max_by key x xs \<in> set (x # xs)"
  by (induction xs arbitrary: x) (auto simp: max_by_def)

lemma max_by_ge: "y \<in> set (x # xs) \<Longrightarrow> key y \<le> key (max_by key x xs)"
proof (induction xs arbitrary: x y)
  case (Cons z xs)
  have st: "max_by key x (z # xs) = max_by key (if key x < key z then z else x) xs" by (simp add: max_by_def)
  have "key x \<le> key (if key x < key z then z else x)" "key z \<le> key (if key x < key z then z else x)" by auto
  with Cons.IH [of "if key x < key z then z else x" "if key x < key z then z else x"] Cons.IH [of y] Cons.prems
  show ?case unfolding st by (auto intro: order_trans)
qed (simp add: max_by_def)

definition resolve_volume_name :: "string \<Rightarrow> volume_id option op" where
  "resolve_volume_name nm =
     bind_op list_volumes (\<lambda>vs.
     ret (case filter (\<lambda>v. vi_name v = Some nm) vs of
            [] \<Rightarrow> None
          | v # rest \<Rightarrow> Some (vi_id (max_by (\<lambda>v. (vi_created_at v, vi_id v)) v rest))))"

definition create_volume_unique ::
  "crypto_lib \<Rightarrow> string option \<Rightarrow> nat \<Rightarrow> bytes option \<Rightarrow> string \<Rightarrow> bool \<Rightarrow> volume_info op" where
  "create_volume_unique L nm chunk_size pin enc_mode ensure_unique =
     bind_op (case nm of
         None \<Rightarrow> ret ()
       | Some n \<Rightarrow> if ensure_unique
           then bind_op (resolve_volume_name n) (\<lambda>hit. guard_op (hit = None) FsError) else ret ()) (\<lambda>_.
     create_volume L nm chunk_size pin enc_mode)"

definition default_chunk_size :: nat where
  "default_chunk_size = 1048576"

definition mount_named ::
  "crypto_lib \<Rightarrow> string \<Rightarrow> string \<Rightarrow> int option \<Rightarrow> bytes option \<Rightarrow> bool \<Rightarrow> string \<Rightarrow> string option \<Rightarrow> bool
     \<Rightarrow> (mount_id \<times> bytes option) op" where
  "mount_named L volume at_path ttl_ms pin create access who allow_overlap =
     bind_op (resolve_volume_name volume) (\<lambda>hit.
     bind_op (case hit of
         Some v \<Rightarrow> ret v
       | None \<Rightarrow> bind_op (gets (\<lambda>s. volume_at (tabs s) volume)) (\<lambda>row.
           if row \<noteq> None then ret volume
           else if create
           then bind_op (create_volume_unique L (Some volume) default_chunk_size pin ''convergent'' True)
                  (\<lambda>v. ret (vi_id v))
           else fail NotFound)) (\<lambda>resolved.
     bind_op (mount_volume L resolved at_path ttl_ms pin access who allow_overlap) (\<lambda>mid.
     bind_op (gets session_of) (\<lambda>sess.
     ret (mid, case sess of Some ss \<Rightarrow> if ss_mount ss = mid then Some (ss_token ss) else None | None \<Rightarrow> None)))))"

section \<open>Directories with their parents\<close>

text \<open>The paths \<open>"/" + "/".join(segs[:i])\<close> for \<open>i\<close> from 1 to \<open>len(segs) - 1\<close>.\<close>

definition leading_paths :: "string list \<Rightarrow> string list" where
  "leading_paths segs = map (\<lambda>i. CHR ''/'' # join_path (take i segs)) [1..<length segs]"

definition make_missing :: "mount_id \<Rightarrow> string \<Rightarrow> unit op" where
  "make_missing mount path =
     bind_op (exists_path mount path) (\<lambda>ex.
     if ex then ret () else bind_op (create_container mount path) (\<lambda>_. ret ()))"

definition mkdir :: "mount_id \<Rightarrow> string \<Rightarrow> bool \<Rightarrow> bool \<Rightarrow> node_id op" where
  "mkdir mount path with_parents exist_ok =
     bind_op (attempt {NotFound, NotAContainer}
       (bind_op (require_mount mount False) (\<lambda>m. resolve_op (m_point m) path))) (\<lambda>found.
     case found of
       Some r \<Rightarrow> if exist_ok \<and> rs_type r = CONTAINER then ret (rs_node r) else fail ContainerExists
     | None \<Rightarrow>
         bind_op (if with_parents then each_op (make_missing mount) (leading_paths (split_path path)) else ret ()) (\<lambda>_.
         create_container mount path))"

section \<open>put\<close>

definition put :: "crypto_lib \<Rightarrow> mount_id \<Rightarrow> string \<Rightarrow> bytes \<Rightarrow> bool \<Rightarrow> unit op" where
  "put L mount path data append_mode =
     bind_op (exists_path mount path) (\<lambda>ex.
     if append_mode
     then (if \<not> ex then bind_op (create_entry L mount path data) (\<lambda>_. ret ())
           else bind_op (append_op L mount path data) (\<lambda>_. ret ()))
     else if ex then write_all L mount path data
     else bind_op (create_entry L mount path data) (\<lambda>_. ret ()))"

end
