(* ===== verification/Fuse.thy ===== *)
theory Fuse
  imports OpenFile Facade "HOL-Library.AList"
begin

text \<open>
  The request handlers of the FUSE frontend (\<open>AloeFuse\<close> of \<open>aloelite/fuse.py\<close>).

  \<open>fuse\<close> is the state of one \<open>AloeFuse\<close> with the connection it serves: the inode table, the
  kernel's lookup counts, the open handles in the order of the dict, the dirty overlay each
  inode shares among its read-write handles, the listings of open directories, and the last
  file handle. A handle in mode \<open>rw\<close> refers to its overlay by inode; \<open>overlays_held\<close> (see
  \<open>FuseTable\<close>) says that the overlay is there as long as the handle is. Handlers run one at a
  time on one event loop and none of them awaits anything, so a request is one step.

  The answer is a value or the errno the kernel gets. \<open>inside\<close> is a call in a \<open>try\<close> whose
  handler maps the exception by \<open>_wrap\<close>; \<open>outside\<close> is one that no \<open>try\<close> covers, so that the
  guard \<open>_never_die\<close> answers EIO. The kernel's fields of an attribute that are constants (block
  size, timeouts) are left out. A name is a byte string on both sides, as \<open>fsdecode\<close> keeps it.
\<close>

unbundle bit_operations_syntax

section \<open>State\<close>

type_synonym inode = "64 word"

definition ROOT :: inode where
  "ROOT = 1"

datatype handle =
    H_Write (h_path: string) (h_writer: descriptor) (h_pos: nat) (h_inode: inode)
  | H_Read (h_path: string) (h_reader: descriptor) (h_inode: inode)
  | H_Append (h_path: string) (h_buf: bytes) (h_inode: inode)
  | H_RW (h_path: string) (h_inode: inode)

record shared_file =
  sf_path :: string
  sf_file :: open_file
  sf_refs :: int

record fuse =
  fu_db :: db
  fu_n :: "inode \<rightharpoonup> node_id"
  fu_nlookup :: "inode \<rightharpoonup> int"
  fu_open :: "(nat \<times> handle) list"
  fu_files :: "inode \<rightharpoonup> shared_file"
  fu_dirs :: "nat \<rightharpoonup> dir_entry list"
  fu_fh :: nat

record fuse_env =
  fe_lib :: crypto_lib
  fe_mount :: mount_id
  fe_uid :: int
  fe_gid :: int

section \<open>Handlers as state passing\<close>

type_synonym 'a fop = "fuse \<Rightarrow> (errno + 'a) \<times> fuse"

definition fu_ret :: "'a \<Rightarrow> 'a fop" where
  "fu_ret x st = (Inr x, st)"

definition fu_fail :: "errno \<Rightarrow> 'a fop" where
  "fu_fail e st = (Inl e, st)"

definition fu_bind :: "'a fop \<Rightarrow> ('a \<Rightarrow> 'b fop) \<Rightarrow> 'b fop" where
  "fu_bind m f st = (case m st of (Inl e, st') \<Rightarrow> (Inl e, st') | (Inr x, st') \<Rightarrow> f x st')"

definition fu_get :: "(fuse \<Rightarrow> 'a) \<Rightarrow> 'a fop" where
  "fu_get f st = (Inr (f st), st)"

definition fu_put :: "(fuse \<Rightarrow> fuse) \<Rightarrow> unit fop" where
  "fu_put f st = (Inr (), f st)"

text \<open>A call of the engine; the errno of its exception is given by \<open>c\<close>.\<close>

definition fu_call :: "(fs_error \<Rightarrow> errno) \<Rightarrow> 'a op \<Rightarrow> 'a fop" where
  "fu_call c m st = (case m (fu_db st) of
     (Inl e, s) \<Rightarrow> (Inl (c e), st\<lparr>fu_db := s\<rparr>) | (Inr x, s) \<Rightarrow> (Inr x, st\<lparr>fu_db := s\<rparr>))"

abbreviation inside :: "'a op \<Rightarrow> 'a fop" where
  "inside \<equiv> fu_call wrap"

definition unguarded :: "fs_error \<Rightarrow> errno" where
  "unguarded e = EIO"

abbreviation outside :: "'a op \<Rightarrow> 'a fop" where
  "outside \<equiv> fu_call unguarded"

section \<open>Inodes and paths\<close>

definition register :: "node_id \<Rightarrow> inode fop" where
  "register n st = (Inr (ino n), st\<lparr>fu_n := (fu_n st)(ino n \<mapsto> n)\<rparr>)"

definition remember :: "node_id \<Rightarrow> inode fop" where
  "remember n =
     fu_bind (register n) (\<lambda>i.
     fu_bind (fu_put (\<lambda>st. st\<lparr>fu_nlookup := (fu_nlookup st)(i \<mapsto> or_else (fu_nlookup st i) 0 + 1)\<rparr>)) (\<lambda>_.
     fu_ret i))"

definition forget_one :: "inode \<times> int \<Rightarrow> fuse \<Rightarrow> fuse" where
  "forget_one = (\<lambda>(i, k) st.
     if i = ROOT then st
     else let left = or_else (fu_nlookup st i) 0 - k in
       if left > 0 then st\<lparr>fu_nlookup := (fu_nlookup st)(i \<mapsto> left)\<rparr>
       else st\<lparr>fu_nlookup := (fu_nlookup st)(i := None), fu_n := (fu_n st)(i := None)\<rparr>)"

definition fu_forget :: "(inode \<times> int) list \<Rightarrow> unit fop" where
  "fu_forget xs = fu_put (fold forget_one xs)"

text \<open>\<open>self._n[inode]\<close>, a KeyError being answered with \<open>e\<close>.\<close>

definition node_of :: "errno \<Rightarrow> inode \<Rightarrow> node_id fop" where
  "node_of e i st = (case fu_n st i of None \<Rightarrow> (Inl e, st) | Some n \<Rightarrow> (Inr n, st))"

definition fu_path :: "(fs_error \<Rightarrow> errno) \<Rightarrow> fuse_env \<Rightarrow> inode \<Rightarrow> string fop" where
  "fu_path c E i =
     (if i = ROOT then fu_ret ''/'' else fu_bind (node_of EIO i) (\<lambda>n. fu_call c (path_of (fe_mount E) n)))"

definition rstrip_slash :: "string \<Rightarrow> string" where
  "rstrip_slash s = rev (dropWhile (\<lambda>c. c = CHR ''/'') (rev s))"

definition child_path :: "string \<Rightarrow> string \<Rightarrow> string" where
  "child_path base nm = rstrip_slash base @ ''/'' @ nm"

definition fu_child :: "(fs_error \<Rightarrow> errno) \<Rightarrow> fuse_env \<Rightarrow> inode \<Rightarrow> string \<Rightarrow> string fop" where
  "fu_child c E i nm = fu_bind (fu_path c E i) (\<lambda>base. fu_ret (child_path base nm))"

section \<open>Attributes\<close>

text \<open>\<open>int(raw, 8)\<close>: spaces around, a sign, the prefix \<open>0o\<close>, and single underscores between digits.\<close>

definition octal_value :: "char \<Rightarrow> int option" where
  "octal_value c = (if CHR ''0'' \<le> c \<and> c \<le> CHR ''7'' then Some (of_char c - 48) else None)"

fun octal_digits :: "int \<Rightarrow> string \<Rightarrow> int option" where
  "octal_digits acc [] = Some acc"
| "octal_digits acc (c # cs) =
     (case (if c = CHR ''_'' then cs else c # cs) of
        [] \<Rightarrow> None
      | d # ds \<Rightarrow> (case octal_value d of None \<Rightarrow> None
          | Some v \<Rightarrow> octal_digits (acc * 8 + v) (if c = CHR ''_'' then tl cs else cs)))"

definition octal_text :: "string \<Rightarrow> int option" where
  "octal_text s = (case s of [] \<Rightarrow> None
     | c # cs \<Rightarrow> (case octal_value c of None \<Rightarrow> None | Some v \<Rightarrow> octal_digits v cs))"

definition py_blank :: "char \<Rightarrow> bool" where
  "py_blank c \<longleftrightarrow> c \<in> {CHR '' '', CHR 0x09, CHR 0x0A, CHR 0x0B, CHR 0x0C, CHR 0x0D, CHR 0x1C, CHR 0x1D, CHR 0x1E, CHR 0x1F}"

definition int_base8 :: "string \<Rightarrow> int option" where
  "int_base8 raw =
     (let s = rev (dropWhile py_blank (rev (dropWhile py_blank raw)));
          (neg, t) = (case s of c # cs \<Rightarrow> if c = CHR ''-'' then (True, cs) else if c = CHR ''+'' then (False, cs) else (False, s)
             | [] \<Rightarrow> (False, []));
          body = (if take 2 t \<in> {''0o'', ''0O''} then (if take 1 (drop 2 t) = ''_'' then drop 3 t else drop 2 t) else t)
      in map_option (\<lambda>v. if neg then - v else v) (octal_text body))"

definition mode_bits :: "node_info \<Rightarrow> int \<Rightarrow> int" where
  "mode_bits info dflt =
     (case ni_mode info of
        Some m \<Rightarrow> m AND 4095
      | None \<Rightarrow> (case map_of (ni_metadata info) ''mode'' of
            None \<Rightarrow> dflt
          | Some raw \<Rightarrow> if raw = [] then dflt
              else (case int_base8 raw of None \<Rightarrow> dflt | Some v \<Rightarrow> v AND 4095)))"

record attr =
  at_ino :: inode
  at_mode :: int
  at_nlink :: nat
  at_size :: nat
  at_uid :: int
  at_gid :: int
  at_mtime :: timestamp
  at_ctime :: timestamp
  at_atime :: timestamp
  at_blocks :: nat

definition blocks :: "nat \<Rightarrow> nat" where
  "blocks sz = (sz + 511) div 512"

definition legacy_symlink :: "node_info \<Rightarrow> bool" where
  "legacy_symlink info \<longleftrightarrow> (case map_of (ni_metadata info) ''symlink'' of None \<Rightarrow> False | Some v \<Rightarrow> v \<noteq> [])"

definition type_bits :: "node_info \<Rightarrow> int" where
  "type_bits info =
     (if ni_type info = CONTAINER then 0x4000 OR mode_bits info 0x1FF
      else if ni_type info = SYMLINK \<or> legacy_symlink info then 0xA000 OR 0x1FF
      else if ni_type info = FIFO then 0x1000 OR mode_bits info 0x1B6
      else if ni_type info = SOCKET then 0xC000 OR mode_bits info 0x1B6
      else 0x8000 OR mode_bits info 0x1B6)"

text \<open>A node without content other than a directory has no size: the assignment is a TypeError.\<close>

definition attr_of :: "fuse_env \<Rightarrow> inode \<Rightarrow> node_info \<Rightarrow> attr fop" where
  "attr_of E i info =
     (case (if ni_type info = CONTAINER then Some 0 else ni_size info) of
        None \<Rightarrow> fu_fail EIO
      | Some sz \<Rightarrow> fu_ret
          \<lparr>at_ino = i, at_mode = type_bits info,
           at_nlink = (if ni_type info = CONTAINER then 2 else max (ni_nlink info) 1), at_size = sz,
           at_uid = or_else (ni_uid info) (fe_uid E), at_gid = or_else (ni_gid info) (fe_gid E),
           at_mtime = ni_modified_at info, at_ctime = ni_ctime info, at_atime = ni_atime info, at_blocks = blocks sz\<rparr>)"

definition resize_attr :: "nat \<Rightarrow> attr \<Rightarrow> attr" where
  "resize_attr sz a = a\<lparr>at_size := sz, at_blocks := blocks sz\<rparr>"

definition pending_appends :: "inode \<Rightarrow> (nat \<times> handle) list \<Rightarrow> nat" where
  "pending_appends i hs = sum_list (map (\<lambda>(_, h). case h of H_Append _ buf j \<Rightarrow> if j = i then length buf else 0 | _ \<Rightarrow> 0) hs)"

definition writer_positions :: "inode \<Rightarrow> (nat \<times> handle) list \<Rightarrow> nat list" where
  "writer_positions i hs = concat (map (\<lambda>(_, h). case h of H_Write _ _ pos j \<Rightarrow> if j = i then [pos] else [] | _ \<Rightarrow> []) hs)"

text \<open>The size a \<open>getattr\<close> reports: the committed one under everything that is pending.\<close>

definition overlaid_size :: "inode \<Rightarrow> fuse \<Rightarrow> nat \<Rightarrow> nat" where
  "overlaid_size i st sz =
     (let sz1 = fold max (writer_positions i (fu_open st)) (sz + pending_appends i (fu_open st))
      in case fu_files st i of None \<Rightarrow> sz1 | Some sf \<Rightarrow> max sz1 (of_size (sf_file sf)))"

definition fu_getattr :: "fuse_env \<Rightarrow> inode \<Rightarrow> attr fop" where
  "fu_getattr E i =
     fu_bind (node_of ENOENT i) (\<lambda>n.
     fu_bind (inside (stat_by_id (fe_mount E) n)) (\<lambda>info.
     fu_bind (attr_of E i info) (\<lambda>a.
     fu_get (\<lambda>st. resize_attr (overlaid_size i st (at_size a)) a))))"

section \<open>Lookup and directories\<close>

text \<open>A node the kernel is told about: its inode and its attributes.\<close>

definition announce :: "fuse_env \<Rightarrow> node_id \<Rightarrow> attr fop" where
  "announce E n =
     fu_bind (remember n) (\<lambda>i.
     fu_bind (inside (stat_by_id (fe_mount E) n)) (\<lambda>info.
     attr_of E i info))"

definition fu_lookup :: "fuse_env \<Rightarrow> inode \<Rightarrow> string \<Rightarrow> attr fop" where
  "fu_lookup E parent nm =
     (if nm = ''.'' then fu_getattr E parent else if nm = ''..'' then fu_getattr E ROOT
      else
        fu_bind (fu_child wrap E parent nm) (\<lambda>path.
        fu_bind (inside (stat (fe_mount E) path)) (\<lambda>info.
        fu_bind (remember (ni_id info)) (\<lambda>i.
        attr_of E i info))))"

definition fu_access :: "inode \<Rightarrow> bool fop" where
  "fu_access i = fu_get (\<lambda>st. i = ROOT \<or> fu_n st i \<noteq> None)"

definition next_fh :: "nat fop" where
  "next_fh st = (Inr (Suc (fu_fh st)), st\<lparr>fu_fh := Suc (fu_fh st)\<rparr>)"

definition fu_opendir :: "fuse_env \<Rightarrow> inode \<Rightarrow> nat fop" where
  "fu_opendir E i =
     fu_bind (fu_path wrap E i) (\<lambda>path.
     fu_bind (inside (list_dir (fe_mount E) path)) (\<lambda>es.
     fu_bind next_fh (\<lambda>fh.
     fu_bind (fu_put (\<lambda>st. st\<lparr>fu_dirs := (fu_dirs st)(fh \<mapsto> filter ls_visible es)\<rparr>)) (\<lambda>_.
     fu_ret fh))))"

text \<open>
  The kernel's reply buffer is \<open>tok\<close>; \<open>reply\<close> puts an entry with its name, attributes and
  the cookie of the next one into it, or answers \<open>None\<close> when it is full.
\<close>

type_synonym 'tok reply = "'tok \<Rightarrow> string \<Rightarrow> attr \<Rightarrow> nat \<Rightarrow> 'tok option"

fun readdir_from :: "fuse_env \<Rightarrow> 'tok reply \<Rightarrow> dir_entry list \<Rightarrow> nat \<Rightarrow> 'tok \<Rightarrow> 'tok fop" where
  "readdir_from E reply [] k tok st = (Inr tok, st)"
| "readdir_from E reply (e # es) k tok st =
     (case inside (stat_by_id (fe_mount E) (ls_node e)) st of
        (Inl _, st1) \<Rightarrow> readdir_from E reply es (Suc k) tok st1
      | (Inr info, st1) \<Rightarrow>
          (case fu_bind (register (ls_node e)) (\<lambda>i. attr_of E i info) st1 of
             (Inl x, st2) \<Rightarrow> (Inl x, st2)
           | (Inr a, st2) \<Rightarrow>
               (case reply tok (ls_name e) a (Suc k) of
                  None \<Rightarrow> (Inr tok, st2)
                | Some tok' \<Rightarrow> readdir_from E reply es (Suc k) tok' st2)))"

definition fu_readdir :: "fuse_env \<Rightarrow> 'tok reply \<Rightarrow> nat \<Rightarrow> nat \<Rightarrow> 'tok \<Rightarrow> 'tok fop" where
  "fu_readdir E reply fh start tok st =
     (case fu_dirs st fh of
        None \<Rightarrow> (Inl EBADF, st)
      | Some es \<Rightarrow> readdir_from E reply (drop start es) start tok st)"

definition fu_releasedir :: "nat \<Rightarrow> unit fop" where
  "fu_releasedir fh = fu_put (\<lambda>st. st\<lparr>fu_dirs := (fu_dirs st)(fh := None)\<rparr>)"

section \<open>Open handles\<close>

definition handle_at :: "nat \<Rightarrow> fuse \<Rightarrow> handle option" where
  "handle_at fh st = map_of (fu_open st) fh"

definition set_handle :: "nat \<Rightarrow> handle \<Rightarrow> unit fop" where
  "set_handle fh h = fu_put (\<lambda>st. st\<lparr>fu_open := AList.update fh h (fu_open st)\<rparr>)"

text \<open>A method of a descriptor, which the handle keeps as it comes back.\<close>

definition run_d :: "(fs_error \<Rightarrow> errno) \<Rightarrow> (descriptor \<Rightarrow> handle) \<Rightarrow> nat \<Rightarrow> 'a dop \<Rightarrow> descriptor \<Rightarrow> 'a fop" where
  "run_d c H fh m d st =
     (case m d (fu_db st) of (r, d', s) \<Rightarrow>
        (map_sum c id r, st\<lparr>fu_db := s, fu_open := AList.update fh (H d') (fu_open st)\<rparr>))"

text \<open>\<open>_openfile\<close> and \<open>_drop_openfile\<close>: the overlay an inode shares.\<close>

definition openfile :: "fuse_env \<Rightarrow> inode \<Rightarrow> string \<Rightarrow> unit fop" where
  "openfile E i path =
     fu_bind (fu_get (\<lambda>st. fu_files st i)) (\<lambda>have.
     case have of
       Some sf \<Rightarrow> fu_put (\<lambda>st. st\<lparr>fu_files := (fu_files st)(i \<mapsto> sf\<lparr>sf_refs := sf_refs sf + 1\<rparr>)\<rparr>)
     | None \<Rightarrow>
         fu_bind (inside (open_new (entry_size (fe_mount E) path))) (\<lambda>f.
         fu_put (\<lambda>st. st\<lparr>fu_files := (fu_files st)(i \<mapsto> \<lparr>sf_path = path, sf_file = f, sf_refs = 1\<rparr>)\<rparr>)))"

definition drop_openfile :: "inode \<Rightarrow> unit fop" where
  "drop_openfile i = fu_put (\<lambda>st.
     case fu_files st i of
       None \<Rightarrow> st
     | Some sf \<Rightarrow> if sf_refs sf - 1 \<le> 0 then st\<lparr>fu_files := (fu_files st)(i := None)\<rparr>
         else st\<lparr>fu_files := (fu_files st)(i \<mapsto> sf\<lparr>sf_refs := sf_refs sf - 1\<rparr>)\<rparr>)"

text \<open>A method of the shared overlay, with the path the overlay was opened by.\<close>

definition run_file ::
  "(fs_error \<Rightarrow> errno) \<Rightarrow> inode \<Rightarrow> (string \<Rightarrow> open_file \<Rightarrow> db \<Rightarrow> (fs_error + 'a) \<times> open_file \<times> db) \<Rightarrow> 'a fop" where
  "run_file c i m st =
     (case fu_files st i of
        None \<Rightarrow> (Inl EIO, st)
      | Some sf \<Rightarrow> (case m (sf_path sf) (sf_file sf) (fu_db st) of (r, f', s) \<Rightarrow>
          (map_sum c id r, st\<lparr>fu_db := s, fu_files := (fu_files st)(i \<mapsto> sf\<lparr>sf_file := f'\<rparr>)\<rparr>)))"

definition file_wr :: "fuse_env \<Rightarrow> string \<Rightarrow> nat \<Rightarrow> bytes \<Rightarrow> nat op" where
  "file_wr E path off = write_range (fe_lib E) (fe_mount E) path (int off)"

definition file_flush :: "fuse_env \<Rightarrow> string \<Rightarrow> open_file \<Rightarrow> db \<Rightarrow> (fs_error + unit) \<times> open_file \<times> db" where
  "file_flush E path = of_flush (file_wr E path)"

definition file_write :: "fuse_env \<Rightarrow> nat \<Rightarrow> bytes \<Rightarrow> string \<Rightarrow> open_file \<Rightarrow> db \<Rightarrow> (fs_error + nat) \<times> open_file \<times> db" where
  "file_write E off data path = of_write (file_wr E path) off data"

definition file_read :: "fuse_env \<Rightarrow> nat \<Rightarrow> nat \<Rightarrow> string \<Rightarrow> open_file \<Rightarrow> db \<Rightarrow> (fs_error + bytes) \<times> open_file \<times> db" where
  "file_read E off n path f s =
     (case of_read (entry_size (fe_mount E) path) (entry_read_at (fe_lib E) (fe_mount E) path) off n f s of
        (r, s') \<Rightarrow> (r, f, s'))"

definition file_truncate :: "fuse_env \<Rightarrow> nat \<Rightarrow> string \<Rightarrow> open_file \<Rightarrow> db \<Rightarrow> (fs_error + unit) \<times> open_file \<times> db" where
  "file_truncate E sz path =
     of_truncate (file_wr E path) (\<lambda>k. truncate_op (fe_lib E) (fe_mount E) path (int k)) sz"

definition append_commit :: "fuse_env \<Rightarrow> nat \<Rightarrow> unit fop" where
  "append_commit E fh =
     fu_bind (fu_get (handle_at fh)) (\<lambda>h.
     case h of
       Some (H_Append path buf i) \<Rightarrow>
         if buf \<noteq> [] then
           fu_bind (inside (append_op (fe_lib E) (fe_mount E) path buf)) (\<lambda>_.
           set_handle fh (H_Append path [] i))
         else fu_ret ()
     | _ \<Rightarrow> fu_ret ())"

fun commit_all :: "fuse_env \<Rightarrow> nat list \<Rightarrow> unit fop" where
  "commit_all E [] = fu_ret ()"
| "commit_all E (fh # fhs) = fu_bind (append_commit E fh) (\<lambda>_. commit_all E fhs)"

definition appenders :: "inode \<Rightarrow> (nat \<times> handle) list \<Rightarrow> nat list" where
  "appenders i hs = map fst (filter (\<lambda>(_, h). case h of H_Append _ buf j \<Rightarrow> j = i \<and> buf \<noteq> [] | _ \<Rightarrow> False) hs)"

definition settle :: "fuse_env \<Rightarrow> inode \<Rightarrow> unit fop" where
  "settle E i =
     fu_bind (fu_get (\<lambda>st. appenders i (fu_open st))) (\<lambda>fhs.
     fu_bind (commit_all E fhs) (\<lambda>_.
     fu_bind (fu_get (\<lambda>st. fu_files st i)) (\<lambda>sf.
     case sf of
       None \<Rightarrow> fu_ret ()
     | Some x \<Rightarrow> if of_dirty (sf_file x) \<noteq> 0 then run_file wrap i (file_flush E) else fu_ret ())))"

section \<open>Creation and removal\<close>

definition perms_of :: "int \<Rightarrow> int" where
  "perms_of mode = mode AND 4095"

text \<open>\<open>format(perms, "o")\<close>\<close>

fun octal_of :: "nat \<Rightarrow> string" where
  "octal_of n = (if n < 8 then [char_of (48 + n)] else octal_of (n div 8) @ [char_of (48 + n mod 8)])"

declare octal_of.simps [simp del]

definition fu_mkdir :: "fuse_env \<Rightarrow> inode \<Rightarrow> string \<Rightarrow> int \<Rightarrow> attr fop" where
  "fu_mkdir E parent nm mode =
     fu_bind (fu_child unguarded E parent nm) (\<lambda>path.
     fu_bind (inside (create_container (fe_mount E) path)) (\<lambda>n.
     fu_bind (if perms_of mode \<noteq> 0 \<and> perms_of mode \<noteq> 0x1FF
              then inside (set_metadata (fe_mount E) path [(''mode'', octal_of (nat (perms_of mode)))]) else fu_ret ()) (\<lambda>_.
     announce E n)))"

definition O_WRONLY :: int where "O_WRONLY = 1"
definition O_RDWR :: int where "O_RDWR = 2"
definition O_ACCMODE :: int where "O_ACCMODE = 3"
definition O_TRUNC :: int where "O_TRUNC = 512"
definition O_APPEND :: int where "O_APPEND = 1024"

definition set_perms :: "fuse_env \<Rightarrow> string \<Rightarrow> int \<Rightarrow> unit fop" where
  "set_perms E path perms = inside (set_owner (fe_mount E) path None None (Some perms))"

definition fu_create :: "fuse_env \<Rightarrow> inode \<Rightarrow> string \<Rightarrow> int \<Rightarrow> int \<Rightarrow> (nat \<times> attr) fop" where
  "fu_create E parent nm mode flags =
     fu_bind (fu_child unguarded E parent nm) (\<lambda>path.
     fu_bind (inside (create_entry (fe_lib E) (fe_mount E) path [])) (\<lambda>n.
     fu_bind (if perms_of mode \<noteq> 0 \<and> perms_of mode \<noteq> 0x1B6 then set_perms E path (perms_of mode) else fu_ret ()) (\<lambda>_.
     fu_bind (remember n) (\<lambda>i.
     fu_bind next_fh (\<lambda>fh.
     fu_bind (if flags AND O_APPEND \<noteq> 0 then set_handle fh (H_Append path [] i)
              else if flags AND O_ACCMODE = O_RDWR then fu_bind (openfile E i path) (\<lambda>_. set_handle fh (H_RW path i))
              else fu_bind (inside (open_write (fe_lib E) (fe_mount E) path TRUNCATE None)) (\<lambda>d.
                     set_handle fh (H_Write path d 0 i))) (\<lambda>_.
     fu_bind (outside (stat_by_id (fe_mount E) n)) (\<lambda>info.
     fu_bind (attr_of E i info) (\<lambda>a.
     fu_ret (fh, a)))))))))"

definition fu_symlink :: "fuse_env \<Rightarrow> inode \<Rightarrow> string \<Rightarrow> bytes \<Rightarrow> attr fop" where
  "fu_symlink E parent nm target =
     fu_bind (fu_child unguarded E parent nm) (\<lambda>path.
     fu_bind (inside (create_special (fe_lib E) (fe_mount E) path SYMLINK target)) (\<lambda>n.
     announce E n))"

definition fu_link :: "fuse_env \<Rightarrow> inode \<Rightarrow> inode \<Rightarrow> string \<Rightarrow> attr fop" where
  "fu_link E i parent nm =
     fu_bind (fu_child unguarded E parent nm) (\<lambda>dst.
     fu_bind (fu_path wrap E i) (\<lambda>src.
     fu_bind (inside (link (fe_mount E) src dst)) (\<lambda>_.
     fu_bind (node_of EIO i) (\<lambda>n.
     fu_bind (inside (stat_by_id (fe_mount E) n)) (\<lambda>info.
     attr_of E i info)))))"

definition S_IFMT :: int where "S_IFMT = 0xF000"

definition fu_mknod :: "fuse_env \<Rightarrow> inode \<Rightarrow> string \<Rightarrow> int \<Rightarrow> attr fop" where
  "fu_mknod E parent nm mode =
     (if mode AND S_IFMT = 0x6000 \<or> mode AND S_IFMT = 0x2000 then fu_fail EPERM
      else
        fu_bind (fu_child unguarded E parent nm) (\<lambda>path.
        fu_bind (inside (if mode AND S_IFMT = 0x1000 then create_special (fe_lib E) (fe_mount E) path FIFO []
                         else if mode AND S_IFMT = 0xC000 then create_special (fe_lib E) (fe_mount E) path SOCKET []
                         else create_entry (fe_lib E) (fe_mount E) path [])) (\<lambda>n.
        fu_bind (if perms_of mode \<noteq> 0 then set_perms E path (perms_of mode) else fu_ret ()) (\<lambda>_.
        announce E n))))"

text \<open>\<open>unlink\<close> and \<open>rmdir\<close> are the same code.\<close>

definition fu_unlink :: "fuse_env \<Rightarrow> inode \<Rightarrow> string \<Rightarrow> unit fop" where
  "fu_unlink E parent nm =
     fu_bind (fu_child unguarded E parent nm) (\<lambda>path. inside (remove (fe_mount E) path))"

definition fu_rename :: "fuse_env \<Rightarrow> inode \<Rightarrow> string \<Rightarrow> inode \<Rightarrow> string \<Rightarrow> unit fop" where
  "fu_rename E p_old old p_new nm =
     fu_bind (fu_child unguarded E p_old old) (\<lambda>src.
     fu_bind (fu_child unguarded E p_new nm) (\<lambda>dst.
     inside (if p_old = p_new then rename (fe_mount E) src nm else move (fe_mount E) src dst)))"

section \<open>Extended attributes and links\<close>

definition xattr_name :: "string \<Rightarrow> string fop" where
  "xattr_name nm = (if take 5 nm = ''user.'' then fu_ret nm else fu_fail ENOTSUP)"

definition fu_setxattr :: "fuse_env \<Rightarrow> inode \<Rightarrow> string \<Rightarrow> bytes \<Rightarrow> unit fop" where
  "fu_setxattr E i nm val =
     fu_bind (fu_path wrap E i) (\<lambda>path.
     fu_bind (xattr_name nm) (\<lambda>k.
     inside (set_xattr (fe_mount E) path k val)))"

definition fu_getxattr :: "fuse_env \<Rightarrow> inode \<Rightarrow> string \<Rightarrow> bytes fop" where
  "fu_getxattr E i nm =
     fu_bind (xattr_name nm) (\<lambda>k.
     fu_bind (fu_path wrap E i) (\<lambda>path.
     fu_bind (inside (get_xattr (fe_mount E) path k)) (\<lambda>v.
     case v of None \<Rightarrow> fu_fail ENODATA | Some b \<Rightarrow> fu_ret b)))"

definition fu_listxattr :: "fuse_env \<Rightarrow> inode \<Rightarrow> string list fop" where
  "fu_listxattr E i = fu_bind (fu_path wrap E i) (\<lambda>path. inside (list_xattrs (fe_mount E) path))"

definition fu_removexattr :: "fuse_env \<Rightarrow> inode \<Rightarrow> string \<Rightarrow> unit fop" where
  "fu_removexattr E i nm =
     fu_bind (xattr_name nm) (\<lambda>k.
     fu_bind (fu_path wrap E i) (\<lambda>path.
     fu_bind (inside (remove_xattr (fe_mount E) path k)) (\<lambda>gone.
     if gone then fu_ret () else fu_fail ENODATA)))"

definition fu_readlink :: "fuse_env \<Rightarrow> inode \<Rightarrow> bytes fop" where
  "fu_readlink E i = fu_bind (fu_path wrap E i) (\<lambda>path. inside (read_all (fe_lib E) (fe_mount E) path))"

section \<open>File input and output\<close>

definition fu_open_file :: "fuse_env \<Rightarrow> inode \<Rightarrow> int \<Rightarrow> nat fop" where
  "fu_open_file E i flags =
     fu_bind (fu_path unguarded E i) (\<lambda>path.
     let acc = flags AND O_ACCMODE in
     if acc = 0 then
       fu_bind (inside (open_read (fe_mount E) path)) (\<lambda>d.
       fu_bind next_fh (\<lambda>fh.
       fu_bind (set_handle fh (H_Read path d i)) (\<lambda>_. fu_ret fh)))
     else if acc = O_WRONLY \<and> flags AND O_TRUNC \<noteq> 0 then
       fu_bind (inside (open_write (fe_lib E) (fe_mount E) path TRUNCATE None)) (\<lambda>d.
       fu_bind next_fh (\<lambda>fh.
       fu_bind (set_handle fh (H_Write path d 0 i)) (\<lambda>_. fu_ret fh)))
     else if acc = O_WRONLY \<and> flags AND O_APPEND \<noteq> 0 then
       fu_bind next_fh (\<lambda>fh.
       fu_bind (set_handle fh (H_Append path [] i)) (\<lambda>_. fu_ret fh))
     else
       fu_bind next_fh (\<lambda>fh.
       fu_bind (openfile E i path) (\<lambda>_.
       fu_bind (if flags AND O_TRUNC \<noteq> 0 then run_file wrap i (file_truncate E 0) else fu_ret ()) (\<lambda>_.
       fu_bind (set_handle fh (H_RW path i)) (\<lambda>_. fu_ret fh)))))"

definition APPEND_BATCH :: nat where
  "APPEND_BATCH = 2 ^ 20"

definition fu_read :: "fuse_env \<Rightarrow> nat \<Rightarrow> nat \<Rightarrow> nat \<Rightarrow> bytes fop" where
  "fu_read E fh off n =
     fu_bind (fu_get (handle_at fh)) (\<lambda>h.
     case h of
       None \<Rightarrow> fu_fail EIO
     | Some (H_Read path d i) \<Rightarrow>
         fu_bind (settle E i) (\<lambda>_.
         run_d wrap (\<lambda>d'. H_Read path d' i) fh (d_bind (d_seek (int off) SET) (\<lambda>_. d_read (fe_lib E) (Some n))) d)
     | Some (H_RW path i) \<Rightarrow> run_file wrap i (file_read E off n)
     | Some _ \<Rightarrow> fu_fail ENOTSUP)"

definition advance :: "nat \<Rightarrow> nat \<Rightarrow> unit fop" where
  "advance fh k =
     fu_bind (fu_get (handle_at fh)) (\<lambda>h.
     case h of Some (H_Write path d pos i) \<Rightarrow> set_handle fh (H_Write path d (pos + k) i) | _ \<Rightarrow> fu_ret ())"

definition fu_write :: "fuse_env \<Rightarrow> nat \<Rightarrow> nat \<Rightarrow> bytes \<Rightarrow> nat fop" where
  "fu_write E fh off data =
     fu_bind (fu_get (handle_at fh)) (\<lambda>h.
     case h of
       None \<Rightarrow> fu_fail EIO
     | Some (H_Append path buf i) \<Rightarrow>
         fu_bind (set_handle fh (H_Append path (buf @ data) i)) (\<lambda>_.
         fu_bind (if length (buf @ data) \<ge> APPEND_BATCH then append_commit E fh else fu_ret ()) (\<lambda>_.
         fu_ret (length data)))
     | Some (H_Write path d pos i) \<Rightarrow>
         if off = pos then
           fu_bind (run_d wrap (\<lambda>d'. H_Write path d' pos i) fh (d_write (fe_lib E) data) d) (\<lambda>k.
           fu_bind (advance fh k) (\<lambda>_. fu_ret k))
         else fu_fail ENOTSUP
     | Some (H_RW path i) \<Rightarrow> run_file wrap i (file_write E off data)
     | Some (H_Read path d i) \<Rightarrow> fu_fail ENOTSUP)"

record attr_request =
  sa_mode :: "int option"
  sa_uid :: "int option"
  sa_gid :: "int option"
  sa_mtime :: "timestamp option"
  sa_atime :: "timestamp option"
  sa_size :: "nat option"

definition set_size :: "fuse_env \<Rightarrow> inode \<Rightarrow> nat \<Rightarrow> nat option \<Rightarrow> unit fop" where
  "set_size E i new fh =
     fu_bind (fu_get (\<lambda>st. Option.bind fh (\<lambda>k. handle_at k st))) (\<lambda>h.
     case h of
       Some (H_Write path d pos j) \<Rightarrow> if new < pos then fu_fail ENOTSUP else fu_ret ()
     | Some (H_RW path j) \<Rightarrow> run_file unguarded j (file_truncate E new)
     | Some (H_Read path d j) \<Rightarrow> fu_fail ENOTSUP
     | _ \<Rightarrow>
         fu_bind (fu_path unguarded E i) (\<lambda>path.
         inside (truncate_op (fe_lib E) (fe_mount E) path (int new))))"

definition fu_setattr :: "fuse_env \<Rightarrow> inode \<Rightarrow> attr_request \<Rightarrow> nat option \<Rightarrow> attr fop" where
  "fu_setattr E i a fh =
     fu_bind (if sa_mode a \<noteq> None \<or> sa_uid a \<noteq> None \<or> sa_gid a \<noteq> None
              then fu_bind (fu_path wrap E i) (\<lambda>path.
                inside (set_owner (fe_mount E) path (sa_uid a) (sa_gid a) (map_option (\<lambda>m. m AND 4095) (sa_mode a))))
              else fu_ret ()) (\<lambda>_.
     fu_bind (case sa_mtime a of None \<Rightarrow> fu_ret ()
              | Some t \<Rightarrow> fu_bind (node_of EIO i) (\<lambda>n. inside (set_mtime (fe_mount E) n t))) (\<lambda>_.
     fu_bind (case sa_atime a of None \<Rightarrow> fu_ret ()
              | Some t \<Rightarrow> fu_bind (node_of EIO i) (\<lambda>n. inside (set_atime (fe_mount E) n t))) (\<lambda>_.
     fu_bind (case sa_size a of None \<Rightarrow> fu_ret () | Some sz \<Rightarrow> set_size E i sz fh) (\<lambda>_.
     fu_getattr E i))))"

section \<open>Flush and release\<close>

definition fu_flush :: "fuse_env \<Rightarrow> nat \<Rightarrow> unit fop" where
  "fu_flush E fh =
     fu_bind (fu_get (handle_at fh)) (\<lambda>h.
     case h of
       Some (H_RW path i) \<Rightarrow> run_file wrap i (file_flush E)
     | Some (H_Append path buf i) \<Rightarrow> append_commit E fh
     | Some (H_Write path d pos i) \<Rightarrow>
         fu_bind (run_d wrap (\<lambda>d'. H_Write path d' pos i) fh (d_close (fe_lib E)) d) (\<lambda>_.
         fu_bind (openfile E i path) (\<lambda>_.
         set_handle fh (H_RW path i)))
     | _ \<Rightarrow> fu_ret ())"

definition fu_fsync :: "fuse_env \<Rightarrow> nat \<Rightarrow> unit fop" where
  "fu_fsync E fh = fu_flush E fh"

definition pop_handle :: "nat \<Rightarrow> unit fop" where
  "pop_handle fh = fu_put (\<lambda>st. st\<lparr>fu_open := AList.delete fh (fu_open st)\<rparr>)"

text \<open>The last use of a descriptor, whose handle is gone from the table.\<close>

definition finish_d :: "unit dop \<Rightarrow> descriptor \<Rightarrow> unit fop" where
  "finish_d m d st = (case m d (fu_db st) of (r, _, s) \<Rightarrow> (map_sum wrap id r, st\<lparr>fu_db := s\<rparr>))"

definition fu_release :: "fuse_env \<Rightarrow> nat \<Rightarrow> unit fop" where
  "fu_release E fh =
     fu_bind (fu_get (handle_at fh)) (\<lambda>h.
     fu_bind (pop_handle fh) (\<lambda>_.
     case h of
       None \<Rightarrow> fu_ret ()
     | Some (H_Write path d pos i) \<Rightarrow> finish_d (d_close (fe_lib E)) d
     | Some (H_Read path d i) \<Rightarrow> finish_d (d_close (fe_lib E)) d
     | Some (H_RW path i) \<Rightarrow> fu_bind (run_file wrap i (file_flush E)) (\<lambda>_. drop_openfile i)
     | Some (H_Append path buf i) \<Rightarrow>
         if buf \<noteq> [] then fu_bind (inside (append_op (fe_lib E) (fe_mount E) path buf)) (\<lambda>_. fu_ret ())
         else fu_ret ()))"

section \<open>Start\<close>

definition fuse_init :: "fuse_env \<Rightarrow> fuse op" where
  "fuse_init E s =
     (case stat (fe_mount E) ''/'' s of
        (Inl e, s') \<Rightarrow> (Inl e, s')
      | (Inr root, s') \<Rightarrow> (Inr \<lparr>fu_db = s', fu_n = [ROOT \<mapsto> ni_id root], fu_nlookup = Map.empty, fu_open = [],
           fu_files = Map.empty, fu_dirs = Map.empty, fu_fh = 0\<rparr>, s'))"

text \<open>\<open>_find_or_create_volume\<close>: the first volume of the name.\<close>

definition find_or_create_volume :: "crypto_lib \<Rightarrow> string \<Rightarrow> bytes option \<Rightarrow> bool \<Rightarrow> volume_id op" where
  "find_or_create_volume L nm pin create =
     bind_op list_volumes (\<lambda>vs.
     case find (\<lambda>v. vi_name v = Some nm) vs of
       Some v \<Rightarrow> ret (vi_id v)
     | None \<Rightarrow> if \<not> create then fail NotFound
         else bind_op (create_volume_unique L (Some nm) default_chunk_size pin ''convergent'' False) (\<lambda>v. ret (vi_id v)))"

end
