(* ===== verification/Demo.thy ===== *)
theory Demo
  imports Packing
begin

text \<open>
  A concrete file on which the properties are applied: a toy instance of the cryptographic
  library that satisfies its laws, a volume of chunk size 4 with one mount, one folder and
  one entry of five bytes, and the facts about them that the witnesses need.
\<close>

section \<open>A library\<close>

definition toy_tag :: "bytes \<Rightarrow> bytes" where
  "toy_tag k = take 16 (k @ replicate 16 0)"

definition toy_lib :: crypto_lib where
  "toy_lib = \<lparr>sha256 = (\<lambda>b. b), argon2id = (\<lambda>salt n i l m pin. pin @ salt),
     hkdf_sha256 = (\<lambda>n salt info key. key @ info),
     aead_encrypt = (\<lambda>k n p. p @ toy_tag k),
     aead_decrypt = (\<lambda>k n c. if 16 \<le> length c \<and> drop (length c - 16) c = toy_tag k
        then Some (take (length c - 16) c) else None)\<rparr>"

lemma toy_lib_ok: "lib_ok toy_lib"
  by (auto simp: lib_ok_def toy_lib_def toy_tag_def TAG_LEN_def min_def)

lemma toy_chunk_hash_inj: "chunk_hash toy_lib p = chunk_hash toy_lib q \<Longrightarrow> p = q"
proof -
  have len: "length (be_bytes k x) = k" for k x by (induction k arbitrary: x) auto
  assume "chunk_hash toy_lib p = chunk_hash toy_lib q"
  then have "be_bytes 8 (length p) @ p = be_bytes 8 (length q) @ q"
    by (auto simp: chunk_hash_def toy_lib_def dest: hexdigest_inj)
  then show ?thesis by (simp add: len append_eq_append_conv)
qed

lemma toy_collision_free:
  "\<forall>ch \<in> set (chunks t). ch_hash ch = chunk_hash toy_lib (ch_data ch) \<Longrightarrow>
     collision_free toy_lib IdentityCipher UNIV t"
  by (auto simp: collision_free_def dest: toy_chunk_hash_inj)

section \<open>A file\<close>

definition demo_chunk :: "bytes \<Rightarrow> chunk_row" where
  "demo_chunk p = \<lparr>ch_hash = chunk_hash toy_lib p, ch_data = p, ch_length = length p, ch_nonce = [],
     ch_tag = []\<rparr>"

definition demo_node :: "node_id \<Rightarrow> node_type \<Rightarrow> string \<Rightarrow> node_row" where
  "demo_node i ty nm = \<lparr>nd_id = i, nd_type = ty, nd_name = nm, nd_created = 1, nd_modified = Some 1,
     nd_volume = Some ''v'', nd_metadata = None, nd_uid = None, nd_gid = None, nd_mode = None,
     nd_atime = None, nd_ctime = None\<rparr>"

definition demo_edge :: "edge_id \<Rightarrow> node_id \<Rightarrow> node_id \<Rightarrow> string \<Rightarrow> edge_row" where
  "demo_edge e f c nm = \<lparr>eg_id = e, eg_from = f, eg_to = c, eg_volume = ''v'', eg_archived = False,
     eg_name = nm\<rparr>"

definition demo_mount :: "mount_id \<Rightarrow> node_id \<Rightarrow> string \<Rightarrow> mount_row" where
  "demo_mount i p acc = \<lparr>mt_id = i, mt_volume = ''v'', mt_point = p, mt_state = ACTIVE, mt_expires = None,
     mt_created = 1, mt_nonce = [], mt_access = acc, mt_principal = None\<rparr>"

definition demo_tables :: tables where
  "demo_tables = \<lparr>
     nodes = [demo_node ''r'' CONTAINER ''/'', demo_node ''d'' CONTAINER ''dir'', demo_node ''f'' ENTRY ''a'',
       demo_node ''g'' ENTRY ''b''],
     contents = [\<lparr>ct_node = ''f'', ct_version = 1, ct_size = 5, ct_keep = None\<rparr>,
       \<lparr>ct_node = ''g'', ct_version = 1, ct_size = 1, ct_keep = None\<rparr>],
     chunks = [demo_chunk [1, 2, 3, 4], demo_chunk [5]],
     versions = [\<lparr>cv_node = ''g'', cv_version = 1, cv_index = 0, cv_hash = chunk_hash toy_lib [5]\<rparr>,
                 \<lparr>cv_node = ''f'', cv_version = 1, cv_index = 0, cv_hash = chunk_hash toy_lib [1, 2, 3, 4]\<rparr>,
                 \<lparr>cv_node = ''f'', cv_version = 1, cv_index = 1, cv_hash = chunk_hash toy_lib [5]\<rparr>],
     edges = [demo_edge ''e1'' ''r'' ''d'' ''dir'', demo_edge ''e2'' ''r'' ''f'' ''a'',
       demo_edge ''e3'' ''d'' ''g'' ''b''],
     volumes = [\<lparr>vl_id = ''v'', vl_root = Some ''r'', vl_name = None, vl_created = 1, vl_api = 2,
       vl_chunk_size = 4, vl_wm = Stamp 0 0, vl_enc_mode = ''none'', vl_wrapped = None\<rparr>],
     mounts = [demo_mount ''m'' ''r'' ''rw'', demo_mount ''m2'' ''r'' ''rw'', demo_mount ''ro'' ''r'' ''ro''],
     locks = [], xattrs = []\<rparr>"

definition demo :: db where
  "demo = \<lparr>tabs = demo_tables, now = 1000000000, sql_now = 1000000000, entropy = (\<lambda>i. int i), draws = 0,
     mints = Map.empty, pending_wm = [], in_txn = False, cipher_of = IdentityCipher, session_of = None\<rparr>"

lemma demo_leaf:
  "leaf_for_write ''m'' ''/a'' demo = (Inr (\<lparr>m_id = ''m'', m_point = ''r'', m_volume = ''v'', m_enc_mode = ''none''\<rparr>, ''f''), demo)"
  "leaf_for_write ''m'' ''/dir/b'' demo = (Inr (\<lparr>m_id = ''m'', m_point = ''r'', m_volume = ''v'', m_enc_mode = ''none''\<rparr>, ''g''), demo)"
proof -
  have "fst (leaf_for_write ''m'' ''/a'' demo) =
      Inr (\<lparr>m_id = ''m'', m_point = ''r'', m_volume = ''v'', m_enc_mode = ''none''\<rparr>, ''f'')"
    "fst (leaf_for_write ''m'' ''/dir/b'' demo) =
      Inr (\<lparr>m_id = ''m'', m_point = ''r'', m_volume = ''v'', m_enc_mode = ''none''\<rparr>, ''g'')"
    by code_simp+
  then show "leaf_for_write ''m'' ''/a'' demo =
      (Inr (\<lparr>m_id = ''m'', m_point = ''r'', m_volume = ''v'', m_enc_mode = ''none''\<rparr>, ''f''), demo)"
    "leaf_for_write ''m'' ''/dir/b'' demo =
      (Inr (\<lparr>m_id = ''m'', m_point = ''r'', m_volume = ''v'', m_enc_mode = ''none''\<rparr>, ''g''), demo)"
    using leaf_for_write_reads [of "''m''" "''/a''" demo] leaf_for_write_reads [of "''m''" "''/dir/b''" demo]
    by (metis prod.collapse)+
qed

lemma demo_content:
  "content_is toy_lib IdentityCipher 4 demo_tables ''f'' [1, 2, 3, 4, 5]"
  "content_is toy_lib IdentityCipher 4 demo_tables ''g'' [5]"
proof -
  have c: "content_at demo_tables ''f'' = Some \<lparr>ct_node = ''f'', ct_version = 1, ct_size = 5, ct_keep = None\<rparr>"
    "content_at demo_tables ''g'' = Some \<lparr>ct_node = ''g'', ct_version = 1, ct_size = 1, ct_keep = None\<rparr>"
    by (simp_all add: demo_tables_def)
  have sp: "split_chunks 4 [1, 2, 3, 4, 5 :: byte] = [[1, 2, 3, 4], [5]]" "split_chunks 4 [5 :: byte] = [[5]]"
    by (simp_all add: split_chunks.simps)
  have ne: "chunk_hash toy_lib [5] \<noteq> chunk_hash toy_lib [1, 2, 3, 4]"
    using toy_chunk_hash_inj by blast
  have m: "manifest demo_tables ''f'' (Suc 0) i =
      (if i = 0 then Some (chunk_hash toy_lib [1, 2, 3, 4]) else if i = 1 then Some (chunk_hash toy_lib [5]) else None)"
    "manifest demo_tables ''g'' (Suc 0) i = (if i = 0 then Some (chunk_hash toy_lib [5]) else None)" for i
    by (auto simp: manifest_def demo_tables_def version_key_def)
  have p: "piece toy_lib IdentityCipher demo_tables (chunk_hash toy_lib [1, 2, 3, 4]) = Some [1, 2, 3, 4]"
    "piece toy_lib IdentityCipher demo_tables (chunk_hash toy_lib [5]) = Some [5]"
    using ne by (auto simp: piece_def demo_tables_def demo_chunk_def)
  show "content_is toy_lib IdentityCipher 4 demo_tables ''f'' [1, 2, 3, 4, 5]"
    unfolding content_is_def using c by (auto simp: stored_def sp m p)
  show "content_is toy_lib IdentityCipher 4 demo_tables ''g'' [5]"
    unfolding content_is_def using c by (auto simp: stored_def sp m p)
qed

lemma demo_file:
  "file_at toy_lib UNIV 4 demo ''m'' ''/a'' ''f'' [1, 2, 3, 4, 5]"
  "file_at toy_lib UNIV 4 demo ''m'' ''/dir/b'' ''g'' [5]"
proof -
  have k: "keys_ok demo_tables" by (simp add: keys_ok_def demo_tables_def version_key_def)
  have cf: "collision_free toy_lib IdentityCipher UNIV demo_tables"
    by (rule toy_collision_free) (simp add: demo_tables_def demo_chunk_def)
  have v: "\<exists>vr. volume_at demo_tables ''v'' = Some vr \<and> vl_chunk_size vr = 4"
    by (simp add: demo_tables_def)
  have d: "tabs demo = demo_tables" "cipher_of demo = IdentityCipher" "\<not> in_txn demo" "pending_wm demo = []"
    by (simp_all add: demo_def)
  show "file_at toy_lib UNIV 4 demo ''m'' ''/a'' ''f'' [1, 2, 3, 4, 5]"
    "file_at toy_lib UNIV 4 demo ''m'' ''/dir/b'' ''g'' [5]"
    unfolding file_at_def using demo_leaf demo_content k cf v d by (auto simp: d)
qed

lemma fits_UNIV [simp]: "fits UNIV cs B"
  by (simp add: fits_def)

section \<open>A message packer\<close>

text \<open>A self-delimiting code of the values of \<open>mp\<close>: a tag, a length in unary and the parts.\<close>

definition unary :: "nat \<Rightarrow> bytes" where
  "unary n = replicate n 1 @ [0]"

fun read_unary :: "bytes \<Rightarrow> (nat \<times> bytes) option" where
  "read_unary [] = None"
| "read_unary (b # bs) =
     (if b = 0 then Some (0, bs) else map_option (\<lambda>(n, r). (Suc n, r)) (read_unary bs))"

fun toy_pack :: "mp \<Rightarrow> bytes" where
  "toy_pack MNil = [0]"
| "toy_pack (MBool b) = [1, if b then 1 else 0]"
| "toy_pack (MInt i) = 2 # (if i < 0 then 1 else 0) # unary (nat \<bar>i\<bar>)"
| "toy_pack (MStr s) = 3 # unary (length s) @ map (\<lambda>c. of_nat (of_char c)) s"
| "toy_pack (MBin b) = 4 # unary (length b) @ b"
| "toy_pack (MArr vs) = 5 # unary (length vs) @ concat (map toy_pack vs)"
| "toy_pack (MMap kvs) = 6 # unary (length kvs) @ concat (map (\<lambda>(k, v). toy_pack k @ toy_pack v) kvs)"
| "toy_pack MOther = [7]"

fun read_seq :: "(bytes \<Rightarrow> ('a \<times> bytes) option) \<Rightarrow> nat \<Rightarrow> bytes \<Rightarrow> ('a list \<times> bytes) option" where
  "read_seq d 0 bs = Some ([], bs)"
| "read_seq d (Suc n) bs =
     (case d bs of None \<Rightarrow> None
      | Some (v, r) \<Rightarrow> map_option (\<lambda>(vs, r'). (v # vs, r')) (read_seq d n r))"

definition read_pair :: "(bytes \<Rightarrow> (mp \<times> bytes) option) \<Rightarrow> bytes \<Rightarrow> ((mp \<times> mp) \<times> bytes) option" where
  "read_pair d bs = (case d bs of None \<Rightarrow> None
     | Some (k, r) \<Rightarrow> map_option (\<lambda>(v, r'). ((k, v), r')) (d r))"

text \<open>The value at the front of the bytes, with as many nestings as the fuel allows.\<close>

fun toy_read :: "nat \<Rightarrow> bytes \<Rightarrow> (mp \<times> bytes) option" where
  "toy_read 0 bs = None"
| "toy_read (Suc k) [] = None"
| "toy_read (Suc k) (b # bs) =
     (if b = 0 then Some (MNil, bs)
      else if b = 1 then (case bs of [] \<Rightarrow> None | x # r \<Rightarrow> Some (MBool (x = 1), r))
      else if b = 2 then (case bs of [] \<Rightarrow> None
        | x # r \<Rightarrow> map_option (\<lambda>(n, r'). (MInt (if x = 1 then - int n else int n), r')) (read_unary r))
      else if b = 7 then Some (MOther, bs)
      else (case read_unary bs of None \<Rightarrow> None
        | Some (n, r) \<Rightarrow>
            if b = 3 then Some (MStr (map (\<lambda>w. char_of (unat w)) (take n r)), drop n r)
            else if b = 4 then Some (MBin (take n r), drop n r)
            else if b = 5 then map_option (\<lambda>(vs, r'). (MArr vs, r')) (read_seq (toy_read k) n r)
            else map_option (\<lambda>(vs, r'). (MMap vs, r')) (read_seq (read_pair (toy_read k)) n r)))"

definition toy_msgpack :: msgpack where
  "toy_msgpack = \<lparr>packb = toy_pack,
     unpackb = (\<lambda>bs. case toy_read (length bs) bs of Some (v, []) \<Rightarrow> Some v | _ \<Rightarrow> None)\<rparr>"

lemma read_unary [simp]: "read_unary (unary n @ r) = Some (n, r)"
  by (induction n) (auto simp: unary_def)

lemma read_seq_parts:
  assumes "\<And>v r. v \<in> set vs \<Longrightarrow> d (e v @ r) = Some (v, r)"
  shows "read_seq d (length vs) (concat (map e vs) @ r) = Some (vs, r)"
  using assms by (induction vs) auto

lemma read_chars: "map (\<lambda>w. char_of (unat w)) (map (\<lambda>c. of_nat (of_char c) :: byte) s) = s"
  by (induction s) (auto simp: unat_of_nat)

lemma toy_read_pack: "length (toy_pack v) \<le> k \<Longrightarrow> toy_read k (toy_pack v @ r) = Some (v, r)"
proof (induction k arbitrary: v r)
  case 0
  then show ?case by (cases v) simp_all
next
  case (Suc k)
  show ?case
  proof (cases v)
    case (MStr s)
    then show ?thesis using read_chars [of s] by (simp add: comp_def)
  next
    case (MArr vs)
    have "toy_read k (toy_pack x @ r') = Some (x, r')" if "x \<in> set vs" for x r'
    proof (rule Suc.IH)
      from that have "length (toy_pack x) \<le> length (concat (map toy_pack vs))"
        by (auto simp: length_concat intro: member_le_sum_list)
      then show "length (toy_pack x) \<le> k" using Suc.prems MArr by simp
    qed
    then show ?thesis using read_seq_parts [of vs "toy_read k" toy_pack] MArr by simp
  next
    case (MMap kvs)
    have "read_pair (toy_read k) ((case p of (a, b) \<Rightarrow> toy_pack a @ toy_pack b) @ r') = Some (p, r')"
      if "p \<in> set kvs" for p r'
    proof -
      obtain a b where p: "p = (a, b)" by (cases p)
      from that p have "length (toy_pack a @ toy_pack b) \<le> length (concat (map (\<lambda>(k, v). toy_pack k @ toy_pack v) kvs))"
        by (auto simp: length_concat intro!: member_le_sum_list rev_image_eqI)
      then have "length (toy_pack a) \<le> k" "length (toy_pack b) \<le> k" using Suc.prems MMap by simp_all
      with Suc.IH p show ?thesis by (simp add: read_pair_def)
    qed
    then show ?thesis
      using read_seq_parts [of kvs "read_pair (toy_read k)" "\<lambda>(a, b). toy_pack a @ toy_pack b"] MMap by simp
  qed (use Suc.prems in auto)
qed

lemma toy_msgpack_ok: "msgpack_ok toy_msgpack"
  using toy_read_pack [where r = "[]"] by (simp add: msgpack_ok_def toy_msgpack_def)

text \<open>An empty file.\<close>

definition blank :: db where
  "blank = demo\<lparr>tabs := empty_tables\<rparr>"

end
