(* ===== verification/FuseFiles.thy ===== *)
theory FuseFiles
  imports Fuse Demo
begin

text \<open>
  What programs see of a file through FUSE: every handle on an inode, however it was opened,
  sees the bytes any other one has written, committed or not.
\<close>

section \<open>Running the handlers\<close>

lemmas fu_defs = fu_bind_def fu_ret_def fu_fail_def fu_get_def fu_put_def

lemma fu_bind_Inr: "m st = (Inr x, st') \<Longrightarrow> fu_bind m f st = f x st'"
  by (simp add: fu_bind_def)

lemma fu_bind_eq_Inr: "fu_bind m f st = (Inr y, st2) \<longleftrightarrow> (\<exists>x st1. m st = (Inr x, st1) \<and> f x st1 = (Inr y, st2))"
  by (auto simp: fu_bind_def split: prod.splits sum.splits)

section \<open>The bytes an inode stands for\<close>

definition dirty_counted :: "open_file \<Rightarrow> bool" where
  "dirty_counted f \<longleftrightarrow> of_dirty f = total_dirty (of_extents f)"

lemma flush_counted: "of_flush wr f s = (r, f', s') \<Longrightarrow> dirty_counted f \<Longrightarrow> dirty_counted f'"
  by (auto simp: of_flush_def dirty_counted_def total_dirty_def split: prod.splits sum.splits)

lemma write_counted: "of_write wr off data f s = (r, f', s') \<Longrightarrow> dirty_counted f'"
  by (auto simp: of_write_def Let_def dirty_counted_def split: prod.splits sum.splits if_splits
      dest!: flush_counted [unfolded dirty_counted_def])

lemma clean_extents:
  assumes "of_inv f B" and "dirty_counted f" and "of_dirty f = 0"
  shows "of_extents f = []"
proof (rule ccontr)
  assume "of_extents f \<noteq> []"
  then obtain lo b es where "of_extents f = (lo, b) # es" by (cases "of_extents f") auto
  moreover from this assms(1) have "b \<noteq> []" by (simp add: of_inv_def ext_ok_def)
  ultimately show False using assms(2,3) by (simp add: dirty_counted_def total_dirty_def)
qed

text \<open>The overlay of the inode on node \<open>n\<close> shows \<open>V\<close>, and no append is pending.\<close>

definition inode_shows :: "fuse_env \<Rightarrow> bytes set \<Rightarrow> nat \<Rightarrow> inode \<Rightarrow> node_id \<Rightarrow> fuse \<Rightarrow> bytes \<Rightarrow> bool" where
  "inode_shows E U cs i n st V \<longleftrightarrow> appenders i (fu_open st) = []
     \<and> (\<exists>sf. fu_files st i = Some sf \<and> dirty_counted (sf_file sf)
          \<and> entry.handle_on (fe_lib E) U cs (fe_mount E) (sf_path sf) n (sf_file sf) (fu_db st) V)"

definition reads_inode :: "nat \<Rightarrow> node_id \<Rightarrow> inode \<Rightarrow> handle \<Rightarrow> bool" where
  "reads_inode cs n i h \<longleftrightarrow> (case h of
     H_RW path j \<Rightarrow> j = i
   | H_Read path d j \<Rightarrow> j = i \<and> \<not> d_closed d \<and> \<not> d_writable d \<and> d_node d = n \<and> d_cs d = cs
   | _ \<Rightarrow> False)"

lemma shown_clean:
  assumes "\<forall>X. fits U cs X" and "inode_shows E U cs i n st V"
  shows "\<exists>st' path. settle E i st = (Inr (), st') \<and> fu_open st' = fu_open st \<and> inode_shows E U cs i n st' V
     \<and> entry_holds (fe_lib E) U cs (fe_mount E) path n (fu_db st') V"
proof -
  obtain sf where sf: "appenders i (fu_open st) = []" "fu_files st i = Some sf" "dirty_counted (sf_file sf)"
    "entry.handle_on (fe_lib E) U cs (fe_mount E) (sf_path sf) n (sf_file sf) (fu_db st) V"
    using assms(2) by (auto simp: inode_shows_def)
  let ?f = "sf_file sf" and ?wr = "\<lambda>off. write_range (fe_lib E) (fe_mount E) (sf_path sf) (int off)"
  show ?thesis
  proof (cases "of_dirty ?f = 0")
    case True
    from sf(4) obtain B where B: "entry_holds (fe_lib E) U cs (fe_mount E) (sf_path sf) n (fu_db st) B" "of_inv ?f B" "of_view ?f B = V"
      by (auto simp: entry.handle_on_def)
    have "of_extents ?f = []" using clean_extents [OF B(2) sf(3) True] .
    then have "B = V" using B(2,3) by (auto simp: of_view_def of_inv_def)
    with B(1) sf True assms(2) show ?thesis by (fastforce simp: settle_def fu_defs)
  next
    case False
    from entry.of_flush_handle [OF _ sf(4)] assms(1) obtain s' where
      s': "of_flush ?wr ?f (fu_db st) = (Inr (), ?f\<lparr>of_extents := [], of_dirty := 0\<rparr>, s')"
        "entry_holds (fe_lib E) U cs (fe_mount E) (sf_path sf) n s' V" "length V = of_size ?f" by blast
    let ?st = "st\<lparr>fu_db := s', fu_files := (fu_files st)(i \<mapsto> sf\<lparr>sf_file := ?f\<lparr>of_extents := [], of_dirty := 0\<rparr>\<rparr>)\<rparr>"
    have "settle E i st = (Inr (), ?st)"
      using sf(1,2) False s'(1) by (simp add: settle_def fu_defs run_file_def file_flush_def file_wr_def [abs_def])
    moreover have "inode_shows E U cs i n ?st V"
      using sf(1) entry.clean_handle [OF s'(2)] s'(3) by (simp add: inode_shows_def dirty_counted_def total_dirty_def)
    ultimately show ?thesis using s'(2) by (intro exI [of _ ?st] exI [of _ "sf_path sf"]) simp
  qed
qed

lemma shown_read:
  assumes "\<forall>X. fits U cs X" and "inode_shows E U cs i n st V" and "handle_at fh st = Some h" and "reads_inode cs n i h"
  shows "\<exists>st'. fu_read E fh off k st = (Inr (take k (drop off V)), st') \<and> inode_shows E U cs i n st' V"
proof (cases h)
  case (H_RW path j)
  then have j: "j = i" using assms(4) by (simp add: reads_inode_def)
  obtain sf where sf: "appenders i (fu_open st) = []" "fu_files st i = Some sf" "dirty_counted (sf_file sf)"
    "entry.handle_on (fe_lib E) U cs (fe_mount E) (sf_path sf) n (sf_file sf) (fu_db st) V"
    using assms(2) by (auto simp: inode_shows_def)
  from entry.of_read_handle [OF sf(4), of off k] obtain s' where
    s': "of_read (entry_size (fe_mount E) (sf_path sf)) (entry_read_at (fe_lib E) (fe_mount E) (sf_path sf)) off k (sf_file sf) (fu_db st)
      = (Inr (take k (drop off V)), s')"
    "entry.handle_on (fe_lib E) U cs (fe_mount E) (sf_path sf) n (sf_file sf) s' V" by blast
  have "fu_read E fh off k st = (Inr (take k (drop off V)), st\<lparr>fu_db := s', fu_files := (fu_files st)(i \<mapsto> sf)\<rparr>)"
    using assms(3) H_RW j sf(2) s'(1) by (simp add: fu_read_def fu_defs run_file_def file_read_def)
  then show ?thesis using sf s'(2) by (auto simp: inode_shows_def)
next
  case (H_Read path d j)
  then have d: "j = i" "\<not> d_closed d" "\<not> d_writable d" "d_node d = n" "d_cs d = cs"
    using assms(4) by (auto simp: reads_inode_def)
  from shown_clean [OF assms(1,2)] obtain st1 p where
    st1: "settle E i st = (Inr (), st1)" "fu_open st1 = fu_open st" "inode_shows E U cs i n st1 V"
      "entry_holds (fe_lib E) U cs (fe_mount E) p n (fu_db st1) V" by blast
  let ?d = "d\<lparr>d_pos := off\<rparr>"
  have "reader_on (fe_lib E) cs (fu_db st1) ?d n V"
    using st1(4) d by (auto simp: reader_on_def entry_holds_def file_at_def)
  from d_read_ok [OF this, of "Some k"] obtain d2 where
    d2: "d_read (fe_lib E) (Some k) ?d (fu_db st1) = (Inr (take k (drop off V)), d2, fu_db st1)"
    by (auto simp: served_def)
  let ?st = "st1\<lparr>fu_db := fu_db st1, fu_open := AList.update fh (H_Read path d2 i) (fu_open st1)\<rparr>"
  have "d_seek (int off) SET d (fu_db st1) = (Inr off, ?d, fu_db st1)" using d by (simp add: d_seek_def Let_def)
  then have "fu_read E fh off k st = (Inr (take k (drop off V)), ?st)"
    using assms(3) H_Read d(1) st1(1) d2 by (simp add: fu_read_def fu_defs run_d_def d_bind_def)
  moreover have "appenders i (AList.update fh (H_Read path d2 i) hs) = []" if "appenders i hs = []" for hs
    using that by (induction hs) (auto simp: appenders_def split: if_splits handle.splits)
  then have "inode_shows E U cs i n ?st V" using st1(3) by (auto simp: inode_shows_def)
  ultimately show ?thesis by blast
qed (use assms(4) in \<open>simp_all add: reads_inode_def\<close>)

lemma shown_write:
  assumes "\<forall>X. fits U cs X" and "inode_shows E U cs i n st V" and "handle_at fh st = Some (H_RW path i)" and "data \<noteq> []"
  shows "\<exists>st'. fu_write E fh off data st = (Inr (length data), st') \<and> fu_open st' = fu_open st
     \<and> inode_shows E U cs i n st' (patched off data V)"
proof -
  obtain sf where sf: "appenders i (fu_open st) = []" "fu_files st i = Some sf" "dirty_counted (sf_file sf)"
    "entry.handle_on (fe_lib E) U cs (fe_mount E) (sf_path sf) n (sf_file sf) (fu_db st) V"
    using assms(2) by (auto simp: inode_shows_def)
  let ?wr = "\<lambda>off. write_range (fe_lib E) (fe_mount E) (sf_path sf) (int off)"
  from entry.of_write_handle [OF _ sf(4) assms(4), of off] assms(1) obtain f' s' where
    w: "of_write ?wr off data (sf_file sf) (fu_db st) = (Inr (length data), f', s')"
      "entry.handle_on (fe_lib E) U cs (fe_mount E) (sf_path sf) n f' s' (patched off data V)" by blast
  have "fu_write E fh off data st = (Inr (length data), st\<lparr>fu_db := s', fu_files := (fu_files st)(i \<mapsto> sf\<lparr>sf_file := f'\<rparr>)\<rparr>)"
    using assms(3) sf(2) w(1) by (simp add: fu_write_def fu_defs run_file_def file_write_def file_wr_def [abs_def])
  then show ?thesis using sf(1) w(2) write_counted [OF w(1)] by (auto simp: inode_shows_def)
qed


definition demo_env :: fuse_env where
  "demo_env = \<lparr>fe_lib = toy_lib, fe_mount = ''m'', fe_uid = 0, fe_gid = 0\<rparr>"

text \<open>A read-write handle and a reader on the inode of \<open>/a\<close>.\<close>

definition demo_fuse :: fuse where
  "demo_fuse = \<lparr>fu_db = demo, fu_n = [ROOT \<mapsto> ''r'', ino ''f'' \<mapsto> ''f'', ino ''d'' \<mapsto> ''d''], fu_nlookup = [ino ''f'' \<mapsto> 1, ino ''d'' \<mapsto> 1],
     fu_open = [(1, H_RW ''/a'' (ino ''f'')), (2, H_Read ''/a'' (new_reader ''f'' ''fd'' 4 1 5) (ino ''f''))],
     fu_files = [ino ''f'' \<mapsto> \<lparr>sf_path = ''/a'', sf_file = \<lparr>of_size = 5, of_extents = [], of_dirty = 0\<rparr>, sf_refs = 1\<rparr>],
     fu_dirs = Map.empty, fu_fh = 2\<rparr>"

lemma demo_fuse_shows: "inode_shows demo_env UNIV 4 (ino ''f'') ''f'' demo_fuse [1, 2, 3, 4, 5]"
proof -
  have "entry_holds toy_lib UNIV 4 ''m'' ''/a'' ''f'' demo [1, 2, 3, 4, 5]"
    using demo_file(1) toy_lib_ok by (simp add: entry_holds_def)
  then have "entry.handle_on toy_lib UNIV 4 ''m'' ''/a'' ''f'' \<lparr>of_size = 5, of_extents = [], of_dirty = 0\<rparr> demo [1, 2, 3, 4, 5]"
    by (rule entry.clean_handle) simp_all
  then show ?thesis
    by (simp add: inode_shows_def demo_fuse_def demo_env_def appenders_def dirty_counted_def total_dirty_def)
qed


section \<open>Stale paths\<close>

text \<open>
  The overlay keeps the path it was opened by. Whatever that path leads to when the handle is
  released gets the bytes: after a rename it may be another file.
\<close>

lemma release_follows_path:
  assumes "lib_ok (fe_lib E)" and "handle_at fh st = Some (H_RW p i)" and "fu_files st i = Some sf"
    and "of_extents (sf_file sf) = [(lo, b)]" and "b \<noteq> []"
    and other: "file_at (fe_lib E) U cs (fu_db st) (fe_mount E) (sf_path sf) m C" and "fits U cs (patched lo b C)"
  shows "\<exists>st'. fu_release E fh st = (Inr (), st') \<and> file_at (fe_lib E) U cs (fu_db st') (fe_mount E) (sf_path sf) m (patched lo b C)"
proof -
  from write_range_ok [OF assms(1) other, of "int lo" b] assms(5,7) obtain s' where
    s': "write_range (fe_lib E) (fe_mount E) (sf_path sf) (int lo) b (fu_db st) = (Inr (max (length C) (lo + length b)), s')"
      "file_at (fe_lib E) U cs s' (fe_mount E) (sf_path sf) m (patched lo b C)" by auto
  have "\<exists>st'. fu_release E fh st = (Inr (), st') \<and> fu_db st' = s'"
    using assms(2-4) s'(1)
    by (simp add: fu_release_def fu_defs pop_handle_def run_file_def file_flush_def of_flush_def file_wr_def drop_openfile_def)
  with s'(2) show ?thesis by blast
qed

text \<open>
  A rename onto a name that is taken leaves both placements there, and the greater node id is
  the one seen: renaming an older file over a newer one makes the older one disappear.
\<close>

lemma rename_onto_newer_hides:
  "case fu_rename demo_env ROOT ''a'' (ino ''d'') ''b'' demo_fuse of (r, st) \<Rightarrow>
     r = Inr () \<and> fst (read_all toy_lib ''m'' ''/dir/b'' (fu_db st)) = Inr [5]
     \<and> fst (stat ''m'' ''/a'' (fu_db st)) = Inl NotFound"
  by code_simp

end
