(* ===== verification/FuseTable.thy ===== *)
theory FuseTable
  imports FuseFiles
begin

text \<open>
  The tables of the FUSE frontend stay consistent through any sequence of requests, failed
  ones included: inodes and lookup counts, file handles, and the overlays that read-write
  handles share. The invariant \<open>tables_ok X\<close> leaves \<open>X i\<close> references of inode \<open>i\<close> to handles
  that are being opened or closed; \<open>ensures\<close> is a Hoare triple whose error case gives up all of them.
\<close>

section \<open>The invariant\<close>

definition rw_handles :: "inode \<Rightarrow> (nat \<times> handle) list \<Rightarrow> int" where
  "rw_handles i hs = int (length (filter (\<lambda>(_, h). \<exists>p. h = H_RW p i) hs))"

definition refs_of :: "inode \<Rightarrow> fuse \<Rightarrow> int" where
  "refs_of i st = (case fu_files st i of None \<Rightarrow> 0 | Some sf \<Rightarrow> sf_refs sf)"

definition inodes_ok :: "fuse \<Rightarrow> bool" where
  "inodes_ok st \<longleftrightarrow> fu_n st ROOT \<noteq> None \<and> (\<forall>i n. fu_n st i = Some n \<longrightarrow> i = ROOT \<or> i = ino n)
     \<and> (\<forall>i k. fu_nlookup st i = Some k \<longrightarrow> 0 < k \<and> fu_n st i \<noteq> None)"

definition handles_ok :: "fuse \<Rightarrow> bool" where
  "handles_ok st \<longleftrightarrow> distinct (map fst (fu_open st)) \<and> (\<forall>fh \<in> fst ` set (fu_open st). fh \<le> fu_fh st)
     \<and> (\<forall>fh. fu_dirs st fh \<noteq> None \<longrightarrow> fh \<le> fu_fh st)"

definition overlays_held :: "(inode \<Rightarrow> int) \<Rightarrow> fuse \<Rightarrow> bool" where
  "overlays_held X st \<longleftrightarrow> (\<forall>i. rw_handles i (fu_open st) + X i \<le> refs_of i st) \<and> (\<forall>i sf. fu_files st i = Some sf \<longrightarrow> 1 \<le> sf_refs sf)"

definition tables_ok :: "(inode \<Rightarrow> int) \<Rightarrow> nat \<Rightarrow> fuse \<Rightarrow> bool" where
  "tables_ok X k st \<longleftrightarrow> inodes_ok st \<and> handles_ok st \<and> overlays_held X st \<and> k \<le> fu_fh st"

lemmas table_defs = tables_ok_def inodes_ok_def handles_ok_def overlays_held_def

abbreviation none :: "inode \<Rightarrow> int" where
  "none \<equiv> \<lambda>_. 0"

abbreviation one :: "inode \<Rightarrow> inode \<Rightarrow> int" where
  "one i \<equiv> none(i := 1)"

lemma tables_ok_weaken: "tables_ok X k st \<Longrightarrow> (\<And>i. Y i \<le> X i) \<Longrightarrow> j \<le> k \<Longrightarrow> tables_ok Y j st"
  unfolding tables_ok_def overlays_held_def by (meson add_left_mono order_trans)

section \<open>Triples\<close>

definition ensures :: "(fuse \<Rightarrow> bool) \<Rightarrow> 'a fop \<Rightarrow> ('a \<Rightarrow> fuse \<Rightarrow> bool) \<Rightarrow> bool" where
  "ensures P m Q \<longleftrightarrow> (\<forall>st. P st \<longrightarrow> (case m st of (Inl e, st') \<Rightarrow> tables_ok none 0 st' | (Inr x, st') \<Rightarrow> Q x st'))"

lemma ensuresD: "ensures P m Q \<Longrightarrow> P st \<Longrightarrow> case m st of (Inl e, st') \<Rightarrow> tables_ok none 0 st' | (Inr x, st') \<Rightarrow> Q x st'"
  by (simp add: ensures_def)

lemma ensures_bind: "ensures P m Q \<Longrightarrow> (\<And>x. ensures (Q x) (f x) R) \<Longrightarrow> ensures P (fu_bind m f) R"
  by (fastforce simp: ensures_def fu_bind_def split: prod.splits sum.splits)

lemma ensures_pre: "ensures P' m Q \<Longrightarrow> (\<And>st. P st \<Longrightarrow> P' st) \<Longrightarrow> ensures P m Q"
  by (auto simp: ensures_def)

lemma ensures_post: "ensures P m Q' \<Longrightarrow> (\<And>x st. Q' x st \<Longrightarrow> Q x st) \<Longrightarrow> ensures P m Q"
  by (fastforce simp: ensures_def split: prod.splits sum.splits)

text \<open>Steps that leave the claims on overlays and the handle counter as they are.\<close>

definition steady :: "'a fop \<Rightarrow> bool" where
  "steady m \<longleftrightarrow> (\<forall>X k st. tables_ok X k st \<longrightarrow> tables_ok X k (snd (m st)))"

named_theorems steadies \<open>handlers that keep the tables\<close>

lemma steady_ensures:
  assumes "steady m" and "\<And>i. 0 \<le> X i"
  shows "ensures (tables_ok X k) m (\<lambda>_. tables_ok X k)"
  unfolding ensures_def
proof (intro allI impI)
  fix st
  assume "tables_ok X k st"
  with assms(1) have "tables_ok X k (snd (m st))" by (auto simp: steady_def)
  moreover from this have "tables_ok none 0 (snd (m st))" by (rule tables_ok_weaken) (simp_all add: assms(2))
  ultimately show "case m st of (Inl e, st') \<Rightarrow> tables_ok none 0 st' | (Inr x, st') \<Rightarrow> tables_ok X k st'"
    by (auto split: prod.splits sum.splits)
qed

lemma steady_bind [steadies]: "steady m \<Longrightarrow> (\<And>x. steady (f x)) \<Longrightarrow> steady (fu_bind m f)"
  by (fastforce simp: steady_def fu_bind_def split: prod.splits sum.splits)

lemma steady_if [steadies]: "steady m \<Longrightarrow> steady m' \<Longrightarrow> steady (if b then m else m')"
  by simp

lemma steady_option [steadies]: "steady m \<Longrightarrow> (\<And>x. steady (f x)) \<Longrightarrow> steady (case v of None \<Rightarrow> m | Some x \<Rightarrow> f x)"
  by (cases v) auto

lemma steady_basic [steadies]:
  "steady (fu_ret x)" "steady (fu_fail e)" "steady (fu_get g)" "steady (fu_call c m)" "steady (node_of e i)"
  by (auto simp: steady_def fu_ret_def fu_fail_def fu_get_def fu_call_def node_of_def table_defs rw_handles_def refs_of_def
      split: prod.splits sum.splits option.splits)

lemma steady_register [steadies]: "steady (register n)"
  using ino_avoids(2) [of n]
  by (auto simp: steady_def register_def table_defs rw_handles_def refs_of_def ROOT_def)

lemma steady_count: "steady (fu_bind (register n) (\<lambda>i.
     fu_bind (fu_put (\<lambda>st. st\<lparr>fu_nlookup := (fu_nlookup st)(i \<mapsto> or_else (fu_nlookup st i) 0 + 1)\<rparr>)) (\<lambda>_. fu_ret i)))"
  using ino_avoids(2) [of n]
  by (auto simp: steady_def register_def fu_bind_def fu_put_def fu_ret_def table_defs rw_handles_def refs_of_def ROOT_def or_else_def
      split: option.splits) (meson less_imp_le)

lemma steady_remember [steadies]: "steady (remember n)"
  unfolding remember_def by (rule steady_count)

lemma forget_one_ok: "0 \<le> k \<Longrightarrow> tables_ok X j st \<Longrightarrow> tables_ok X j (forget_one (i, k) st)"
  by (auto simp: forget_one_def table_defs rw_handles_def refs_of_def Let_def or_else_def split: option.splits if_splits)

lemma steady_forget [steadies]: "\<forall>(i, k) \<in> set xs. 0 \<le> k \<Longrightarrow> steady (fu_forget xs)"
proof -
  have "\<forall>(i, k) \<in> set xs. 0 \<le> k \<Longrightarrow> tables_ok X j st \<Longrightarrow> tables_ok X j (fold forget_one xs st)" for X j st
    by (induction xs arbitrary: st) (auto intro: forget_one_ok)
  then show "\<forall>(i, k) \<in> set xs. 0 \<le> k \<Longrightarrow> steady (fu_forget xs)" by (simp add: steady_def fu_forget_def fu_put_def)
qed

lemma steady_paths [steadies]: "steady (fu_path c E i)" "steady (fu_child c E i nm)"
proof -
  show p: "steady (fu_path c E i)" unfolding fu_path_def by (intro steadies)
  show "steady (fu_child c E i nm)" unfolding fu_child_def by (intro steadies p)
qed

lemma steady_attr [steadies]: "steady (attr_of E i info)" "steady (fu_getattr E i)" "steady (announce E n)"
proof -
  show a: "steady (attr_of E i info)" for i info unfolding attr_of_def by (intro steadies)
  show "steady (fu_getattr E i)" unfolding fu_getattr_def by (intro steadies a)
  show "steady (announce E n)" unfolding announce_def by (intro steadies a)
qed

section \<open>Handles and overlays\<close>

lemma rw_update: "rw_handles i (AList.update fh h hs) \<le> rw_handles i hs + (if \<exists>p. h = H_RW p i then 1 else 0)"
  by (induction hs) (auto simp: rw_handles_def)

lemma rw_delete:
  assumes "distinct (map fst hs)"
  shows "rw_handles i (AList.delete fh hs) = rw_handles i hs - (if \<exists>p. map_of hs fh = Some (H_RW p i) then 1 else 0)"
  using assms
proof (induction hs)
  case (Cons e hs)
  have same: "AList.delete fh hs = hs" if "fh \<notin> set (map fst hs)" using that by (simp add: delete_id)
  from Cons show ?case by (auto simp: rw_handles_def same split: if_splits)
qed (simp add: rw_handles_def)

lemma set_handle_ok:
  assumes "tables_ok X fh st" and "\<And>i. Y i + (if \<exists>p. h = H_RW p i then 1 else 0) \<le> X i"
  shows "tables_ok Y fh (st\<lparr>fu_open := AList.update fh h (fu_open st)\<rparr>)"
proof -
  have "rw_handles i (AList.update fh h (fu_open st)) + Y i \<le> refs_of i st" for i
    using assms(1) assms(2) [of i] rw_update [of i fh h "fu_open st"]
    unfolding tables_ok_def overlays_held_def by (smt (verit))
  with assms(1) show ?thesis
    by (auto simp: table_defs refs_of_def update_keys distinct_update dom_update)
qed

lemma ensures_set:
  "\<not> is_H_RW h \<Longrightarrow> ensures (tables_ok X fh) (set_handle fh h) (\<lambda>_. tables_ok X fh)"
  by (auto simp: ensures_def set_handle_def fu_put_def intro!: set_handle_ok)

lemma ensures_set_rw: "ensures (tables_ok (one i) fh) (set_handle fh (H_RW p i)) (\<lambda>_. tables_ok none fh)"
  by (auto simp: ensures_def set_handle_def fu_put_def intro!: set_handle_ok)

lemma handle_key: "handle_at fh st = Some h \<Longrightarrow> tables_ok X k st \<Longrightarrow> tables_ok X fh st"
  by (force simp: handle_at_def tables_ok_def handles_ok_def dest: map_of_SomeD)

lemma ensures_handle:
  assumes "\<And>h. ensures (tables_ok X fh) (f (Some h)) Q" and "ensures (tables_ok X 0) (f None) Q"
  shows "ensures (tables_ok X 0) (fu_bind (fu_get (handle_at fh)) f) Q"
  unfolding ensures_def
proof (intro allI impI)
  fix st
  assume ok: "tables_ok X 0 st"
  show "case fu_bind (fu_get (handle_at fh)) f st of (Inl e, st') \<Rightarrow> tables_ok none 0 st' | (Inr x, st') \<Rightarrow> Q x st'"
  proof (cases "handle_at fh st")
    case None
    with assms(2) ok show ?thesis by (simp add: ensures_def fu_bind_def fu_get_def)
  next
    case (Some h)
    with assms(1) [of h] handle_key [OF Some ok] show ?thesis by (simp add: ensures_def fu_bind_def fu_get_def)
  qed
qed

lemma ensures_run_d:
  "(\<And>d'. \<not> is_H_RW (H d')) \<Longrightarrow> ensures (tables_ok none fh) (run_d c H fh m d) (\<lambda>_. tables_ok none fh)"
proof -
  assume H: "\<And>d'. \<not> is_H_RW (H d')"
  have "tables_ok none fh (st\<lparr>fu_db := s, fu_open := AList.update fh (H d') (fu_open st)\<rparr>)" if "tables_ok none fh st" for st s d'
  proof -
    have "tables_ok none fh (st\<lparr>fu_db := s\<rparr>)" using that by (simp add: table_defs refs_of_def)
    from set_handle_ok [OF this, of none "H d'"] H [of d'] show ?thesis by (auto simp: is_H_RW_def)
  qed
  moreover from this have "tables_ok none 0 (st\<lparr>fu_db := s, fu_open := AList.update fh (H d') (fu_open st)\<rparr>)"
    if "tables_ok none fh st" for st s d' using that by (blast intro: tables_ok_weaken)
  ultimately show ?thesis by (auto simp: ensures_def run_d_def split: prod.splits sum.splits)
qed

lemma steady_run_file [steadies]: "steady (run_file c i m)"
  by (fastforce simp: steady_def run_file_def table_defs refs_of_def split: prod.splits option.splits if_splits)

lemma steady_append_commit [steadies]: "steady (append_commit E fh)"
  unfolding steady_def
proof (intro allI impI)
  fix X k st
  assume ok: "tables_ok X k st"
  show "tables_ok X k (snd (append_commit E fh st))"
  proof (cases "\<exists>path buf i. handle_at fh st = Some (H_Append path buf i) \<and> buf \<noteq> []")
    case True
    then obtain path buf i where h: "handle_at fh st = Some (H_Append path buf i)" "buf \<noteq> []" by blast
    have k: "tables_ok X fh (st\<lparr>fu_db := s\<rparr>)" for s using handle_key [OF h(1) ok] by (simp add: table_defs refs_of_def)
    have "tables_ok X k (st\<lparr>fu_db := s\<rparr>)" for s using ok by (simp add: table_defs refs_of_def)
    moreover have "tables_ok X k (st\<lparr>fu_db := s, fu_open := AList.update fh (H_Append path [] i) (fu_open st)\<rparr>)" for s
      using set_handle_ok [OF k [of s], of X "H_Append path [] i"] ok by (simp add: tables_ok_def)
    ultimately show ?thesis
      using h by (auto simp: append_commit_def fu_defs fu_call_def set_handle_def split: prod.splits sum.splits)
  next
    case False
    then have "append_commit E fh st = (Inr (), st)"
      by (auto simp: append_commit_def fu_defs split: option.splits handle.splits)
    with ok show ?thesis by simp
  qed
qed

lemma steady_settle [steadies]: "steady (settle E i)"
proof -
  have "steady (commit_all E fhs)" for fhs by (induction fhs) (auto intro: steadies)
  then show ?thesis unfolding settle_def by (intro steadies)
qed

lemma ensures_openfile: "ensures (tables_ok none k) (openfile E i path) (\<lambda>_. tables_ok (one i) k)"
  unfolding ensures_def
proof (intro allI impI)
  fix st
  assume ok: "tables_ok none k st"
  have more: "tables_ok (one i) k (st\<lparr>fu_db := s, fu_files := (fu_files st)(i \<mapsto> sf)\<rparr>)" if "sf_refs sf = refs_of i st + 1" for s sf
    using ok that unfolding table_defs refs_of_def
    by (fastforce split: option.splits if_splits)
  have "tables_ok none 0 (st\<lparr>fu_db := s\<rparr>)" for s using ok by (simp add: table_defs refs_of_def)
  moreover from more [of _ "fu_db st"] have "tables_ok (one i) k (st\<lparr>fu_files := (fu_files st)(i \<mapsto> sf)\<rparr>)"
    if "sf_refs sf = refs_of i st + 1" for sf using that by simp
  ultimately show "case openfile E i path st of (Inl e, st') \<Rightarrow> tables_ok none 0 st' | (Inr x, st') \<Rightarrow> tables_ok (one i) k st'"
    using more by (auto simp: openfile_def fu_defs fu_call_def refs_of_def split: option.splits prod.splits sum.splits)
qed

lemma ensures_next_fh: "ensures (tables_ok X j) next_fh (\<lambda>fh. tables_ok X fh)"
  by (auto simp: ensures_def next_fh_def table_defs rw_handles_def refs_of_def le_SucI)

lemma ensures_drop: "ensures (tables_ok (one i) k) (drop_openfile i) (\<lambda>_. tables_ok none 0)"
  unfolding ensures_def
proof (intro allI impI)
  fix st
  assume ok: "tables_ok (one i) k st"
  then have held: "rw_handles j (fu_open st) + one i j \<le> refs_of j st" for j by (simp add: tables_ok_def overlays_held_def)
  from held [of i] have i: "rw_handles i (fu_open st) + 1 \<le> refs_of i st" by simp
  then obtain sf where sf: "fu_files st i = Some sf" "rw_handles i (fu_open st) + 1 \<le> sf_refs sf"
    by (auto simp: refs_of_def rw_handles_def split: option.splits)
  have rest: "rw_handles j (fu_open st) \<le> refs_of j st" if "j \<noteq> i" for j
    using held [of j] that by simp
  have "rw_handles j (fu_open st) \<le> refs_of j (st\<lparr>fu_files := (fu_files st)(i := None)\<rparr>)" if "sf_refs sf - 1 \<le> 0" for j
    using that rest [of j] sf(2) by (auto simp: refs_of_def)
  moreover have "rw_handles j (fu_open st) \<le> refs_of j (st\<lparr>fu_files := (fu_files st)(i \<mapsto> sf\<lparr>sf_refs := sf_refs sf - 1\<rparr>)\<rparr>)" for j
    using rest [of j] sf(2) by (auto simp: refs_of_def)
  ultimately show "case drop_openfile i st of (Inl e, st') \<Rightarrow> tables_ok none 0 st' | (Inr x, st') \<Rightarrow> tables_ok none 0 st'"
    using ok sf(1) by (auto simp: drop_openfile_def fu_put_def tables_ok_def overlays_held_def inodes_ok_def handles_ok_def)
qed

lemma pop_ok:
  assumes "tables_ok none 0 st" and "handle_at fh st = Some h"
  shows "tables_ok (case h of H_RW p i \<Rightarrow> one i | _ \<Rightarrow> none) 0 (st\<lparr>fu_open := AList.delete fh (fu_open st)\<rparr>)"
proof -
  have d: "distinct (map fst (fu_open st))" using assms(1) by (simp add: tables_ok_def handles_ok_def)
  have rw: "rw_handles i (fu_open st) \<le> refs_of i st" for i using assms(1) by (simp add: tables_ok_def overlays_held_def)
  have "rw_handles i (AList.delete fh (fu_open st)) + (case h of H_RW p j \<Rightarrow> one j | _ \<Rightarrow> none) i \<le> refs_of i st" for i
    using rw [of i] assms(2) unfolding rw_delete [OF d] handle_at_def by (cases h) auto
  moreover have "\<forall>k \<in> fst ` set (AList.delete fh (fu_open st)). k \<le> fu_fh st"
    using AList.dom_delete_subset [of fh "fu_open st"] assms(1) unfolding tables_ok_def handles_ok_def by blast
  ultimately show ?thesis using assms(1) d
    by (auto simp: tables_ok_def overlays_held_def inodes_ok_def handles_ok_def refs_of_def distinct_delete)
qed

section \<open>Requests\<close>

datatype fuse_request =
    Fu_Forget "(inode \<times> nat) list" | Fu_Getattr inode | Fu_Lookup inode string | Fu_Access inode
  | Fu_Opendir inode | Fu_Readdir nat nat nat | Fu_Releasedir nat
  | Fu_Mkdir inode string int | Fu_Create inode string int int | Fu_Symlink inode string bytes | Fu_Link inode inode string
  | Fu_Mknod inode string int | Fu_Unlink inode string | Fu_Rename inode string inode string
  | Fu_Setxattr inode string bytes | Fu_Getxattr inode string | Fu_Listxattr inode | Fu_Removexattr inode string | Fu_Readlink inode
  | Fu_Open inode int | Fu_Read nat nat nat | Fu_Write nat nat bytes | Fu_Setattr inode attr_request "nat option"
  | Fu_Flush nat | Fu_Fsync nat | Fu_Release nat

definition fu_void :: "'a fop \<Rightarrow> unit fop" where
  "fu_void m = fu_bind m (\<lambda>_. fu_ret ())"

text \<open>A reply buffer with room for some number of entries.\<close>

definition counted_reply :: "nat reply" where
  "counted_reply room nm a k = (case room of 0 \<Rightarrow> None | Suc r \<Rightarrow> Some r)"

fun fu_serve :: "fuse_env \<Rightarrow> fuse_request \<Rightarrow> unit fop" where
  "fu_serve E (Fu_Forget xs) = fu_forget (map (map_prod id int) xs)"
| "fu_serve E (Fu_Getattr i) = fu_void (fu_getattr E i)"
| "fu_serve E (Fu_Lookup i nm) = fu_void (fu_lookup E i nm)"
| "fu_serve E (Fu_Access i) = fu_void (fu_access i)"
| "fu_serve E (Fu_Opendir i) = fu_void (fu_opendir E i)"
| "fu_serve E (Fu_Readdir fh start room) = fu_void (fu_readdir E counted_reply fh start room)"
| "fu_serve E (Fu_Releasedir fh) = fu_releasedir fh"
| "fu_serve E (Fu_Mkdir i nm mode) = fu_void (fu_mkdir E i nm mode)"
| "fu_serve E (Fu_Create i nm mode flags) = fu_void (fu_create E i nm mode flags)"
| "fu_serve E (Fu_Symlink i nm target) = fu_void (fu_symlink E i nm target)"
| "fu_serve E (Fu_Link i p nm) = fu_void (fu_link E i p nm)"
| "fu_serve E (Fu_Mknod i nm mode) = fu_void (fu_mknod E i nm mode)"
| "fu_serve E (Fu_Unlink i nm) = fu_unlink E i nm"
| "fu_serve E (Fu_Rename p old q nm) = fu_rename E p old q nm"
| "fu_serve E (Fu_Setxattr i nm val) = fu_setxattr E i nm val"
| "fu_serve E (Fu_Getxattr i nm) = fu_void (fu_getxattr E i nm)"
| "fu_serve E (Fu_Listxattr i) = fu_void (fu_listxattr E i)"
| "fu_serve E (Fu_Removexattr i nm) = fu_removexattr E i nm"
| "fu_serve E (Fu_Readlink i) = fu_void (fu_readlink E i)"
| "fu_serve E (Fu_Open i flags) = fu_void (fu_open_file E i flags)"
| "fu_serve E (Fu_Read fh off n) = fu_void (fu_read E fh off n)"
| "fu_serve E (Fu_Write fh off data) = fu_void (fu_write E fh off data)"
| "fu_serve E (Fu_Setattr i a fh) = fu_void (fu_setattr E i a fh)"
| "fu_serve E (Fu_Flush fh) = fu_flush E fh"
| "fu_serve E (Fu_Fsync fh) = fu_fsync E fh"
| "fu_serve E (Fu_Release fh) = fu_release E fh"

lemma steady_directories [steadies]:
  "steady (fu_readdir E reply fh start tok)" "steady (fu_releasedir fh)" "steady (fu_access i)" "steady (fu_lookup E i nm)"
proof -
  have "steady (readdir_from E reply es k tok)" for es k tok
  proof (induction es arbitrary: k tok)
    case (Cons e es)
    have reg: "steady (fu_bind (register (ls_node e)) (\<lambda>i. attr_of E i info))" for info by (intro steadies)
    show ?case unfolding steady_def
    proof (intro allI impI)
      fix X j st assume ok: "tables_ok X j st"
      obtain r st1 where c: "inside (stat_by_id (fe_mount E) (ls_node e)) st = (r, st1)" by force
      with ok have ok1: "tables_ok X j st1" using steady_basic(4) unfolding steady_def by (metis snd_conv)
      show "tables_ok X j (snd (readdir_from E reply (e # es) k tok st))"
      proof (cases r)
        case (Inl x)
        with c Cons.IH ok1 show ?thesis by (simp add: steady_def)
      next
        case (Inr info)
        obtain q st2 where a: "fu_bind (register (ls_node e)) (\<lambda>i. attr_of E i info) st1 = (q, st2)" by force
        then have "tables_ok X j st2" using reg [of info] ok1 unfolding steady_def by (metis snd_conv)
        with c Inr a Cons.IH show ?thesis by (auto simp: steady_def split: sum.splits option.splits)
      qed
    qed
  qed (simp add: steady_def)
  then show "steady (fu_readdir E reply fh start tok)" by (simp add: steady_def fu_readdir_def split: option.splits)
  show "steady (fu_releasedir fh)" by (auto simp: steady_def fu_releasedir_def fu_put_def table_defs refs_of_def)
  show "steady (fu_access i)" unfolding fu_access_def by (intro steadies)
  show "steady (fu_lookup E i nm)" unfolding fu_lookup_def by (intro steadies)
qed

lemma steady_names [steadies]:
  "steady (fu_mkdir E i nm mode)" "steady (fu_symlink E i nm target)" "steady (fu_link E i p nm)" "steady (fu_mknod E i nm mode)"
  "steady (fu_unlink E i nm)" "steady (fu_rename E p old q nm)" "steady (xattr_name nm)" "steady (fu_setxattr E i nm val)"
  "steady (fu_getxattr E i nm)" "steady (fu_listxattr E i)" "steady (fu_removexattr E i nm)" "steady (fu_readlink E i)"
  unfolding fu_mkdir_def fu_symlink_def fu_link_def fu_mknod_def set_perms_def fu_unlink_def fu_rename_def xattr_name_def
    fu_setxattr_def fu_getxattr_def fu_listxattr_def fu_removexattr_def fu_readlink_def
  by (intro steadies)+

section \<open>Handlers that open and close\<close>

lemma ensures_zero: "ensures P m (\<lambda>_. tables_ok none k) \<Longrightarrow> ensures P m (\<lambda>_. tables_ok none 0)"
  by (erule ensures_post) (auto intro: tables_ok_weaken)

lemma ensures_steady:
  "steady m \<Longrightarrow> ensures (tables_ok none k) m (\<lambda>_. tables_ok none k)"
  "steady m \<Longrightarrow> ensures (tables_ok (one i) k) m (\<lambda>_. tables_ok (one i) k)"
  by (rule steady_ensures, assumption, simp)+

lemma steady_zero: "steady m \<Longrightarrow> ensures (tables_ok none k) m (\<lambda>_. tables_ok none 0)"
  by (rule ensures_zero) (rule ensures_steady(1))

lemma ensures_if: "ensures P m Q \<Longrightarrow> ensures P m' Q \<Longrightarrow> ensures P (if b then m else m') Q"
  by simp

text \<open>The end of an opening: the handle takes the reference that is free.\<close>

lemma ensures_new_rw: "ensures (tables_ok (one i) fh) (fu_bind (set_handle fh (H_RW p i)) (\<lambda>_. fu_ret x)) (\<lambda>_. tables_ok none 0)"
  by (rule ensures_bind [OF ensures_set_rw]) (intro steady_zero steadies)

lemma ensures_new: "\<not> is_H_RW h \<Longrightarrow> ensures (tables_ok none fh) (fu_bind (set_handle fh h) (\<lambda>_. fu_ret x)) (\<lambda>_. tables_ok none 0)"
  by (rule ensures_bind [OF ensures_set]) (assumption, intro steady_zero steadies)

lemma opendir_ok: "ensures (tables_ok none 0) (fu_opendir E i) (\<lambda>_. tables_ok none 0)"
proof -
  have dirs: "ensures (tables_ok none fh) (fu_put (\<lambda>st. st\<lparr>fu_dirs := (fu_dirs st)(fh \<mapsto> es)\<rparr>)) (\<lambda>_. tables_ok none fh)" for fh es
    by (auto simp: ensures_def fu_put_def table_defs rw_handles_def refs_of_def)
  show ?thesis unfolding fu_opendir_def
    by (rule ensures_bind [OF ensures_steady(1)], intro steadies, rule ensures_bind [OF ensures_steady(1)], intro steadies,
      rule ensures_bind [OF ensures_next_fh], rule ensures_bind [OF dirs], intro steady_zero steadies)
qed

lemma open_ok: "ensures (tables_ok none 0) (fu_open_file E i flags) (\<lambda>_. tables_ok none 0)"
proof -
  have rw: "ensures (tables_ok none 0) (fu_bind next_fh (\<lambda>fh. fu_bind (openfile E i path) (\<lambda>_.
      fu_bind (if flags AND O_TRUNC \<noteq> 0 then run_file wrap i (file_truncate E 0) else fu_ret ()) (\<lambda>_.
      fu_bind (set_handle fh (H_RW path i)) (\<lambda>_. fu_ret fh))))) (\<lambda>_. tables_ok none 0)" for path
    by (rule ensures_bind [OF ensures_next_fh], rule ensures_bind [OF ensures_openfile],
      rule ensures_bind [OF ensures_steady(2)], intro steadies, rule ensures_new_rw)
  have new: "ensures (tables_ok none 0) (fu_bind next_fh (\<lambda>fh. fu_bind (set_handle fh h) (\<lambda>_. fu_ret fh))) (\<lambda>_. tables_ok none 0)"
    if "\<not> is_H_RW h" for h
    by (rule ensures_bind [OF ensures_next_fh], rule ensures_new [OF that])
  show ?thesis unfolding fu_open_file_def Let_def
  proof (rule ensures_bind [OF ensures_steady(1)], intro steadies, intro ensures_if)
    fix path
    show "ensures (tables_ok none 0) (fu_bind (inside (open_read (fe_mount E) path)) (\<lambda>d.
        fu_bind next_fh (\<lambda>fh. fu_bind (set_handle fh (H_Read path d i)) (\<lambda>_. fu_ret fh)))) (\<lambda>_. tables_ok none 0)"
      by (rule ensures_bind [OF ensures_steady(1)], intro steadies, rule new) simp
    show "ensures (tables_ok none 0) (fu_bind (inside (open_write (fe_lib E) (fe_mount E) path TRUNCATE None)) (\<lambda>d.
        fu_bind next_fh (\<lambda>fh. fu_bind (set_handle fh (H_Write path d 0 i)) (\<lambda>_. fu_ret fh)))) (\<lambda>_. tables_ok none 0)"
      by (rule ensures_bind [OF ensures_steady(1)], intro steadies, rule new) simp
  qed (rule new, simp, rule rw)
qed

lemma create_ok: "ensures (tables_ok none 0) (fu_create E p nm mode flags) (\<lambda>_. tables_ok none 0)"
proof -
  have opened: "ensures (tables_ok none fh) (if flags AND O_APPEND \<noteq> 0 then set_handle fh (H_Append path [] i)
      else if flags AND O_ACCMODE = O_RDWR then fu_bind (openfile E i path) (\<lambda>_. set_handle fh (H_RW path i))
      else fu_bind (inside (open_write (fe_lib E) (fe_mount E) path TRUNCATE None)) (\<lambda>d. set_handle fh (H_Write path d 0 i)))
    (\<lambda>_. tables_ok none fh)" for fh path i
    by (auto intro!: ensures_set ensures_bind [OF ensures_openfile] ensures_set_rw ensures_bind [OF ensures_steady(1)] steadies)
  show ?thesis unfolding fu_create_def set_perms_def
    by (rule ensures_bind [OF ensures_steady(1)], intro steadies, rule ensures_bind [OF ensures_steady(1)], intro steadies,
      rule ensures_bind [OF ensures_steady(1)], intro steadies, rule ensures_bind [OF ensures_steady(1)], intro steadies,
      rule ensures_bind [OF ensures_next_fh], rule ensures_bind [OF opened], intro steady_zero steadies)
qed

lemma read_ok: "ensures (tables_ok none 0) (fu_read E fh off n) (\<lambda>_. tables_ok none 0)"
  unfolding fu_read_def
proof (rule ensures_handle)
  fix h
  show "ensures (tables_ok none fh) (case Some h of
       None \<Rightarrow> fu_fail EIO
     | Some (H_Read path d i) \<Rightarrow>
         fu_bind (settle E i) (\<lambda>_.
         run_d wrap (\<lambda>d'. H_Read path d' i) fh (d_bind (d_seek (int off) SET) (\<lambda>_. d_read (fe_lib E) (Some n))) d)
     | Some (H_RW path i) \<Rightarrow> run_file wrap i (file_read E off n)
     | Some _ \<Rightarrow> fu_fail ENOTSUP) (\<lambda>_. tables_ok none 0)"
  proof (cases h)
    case (H_Read path d i)
    show ?thesis unfolding H_Read option.case handle.case
      by (rule ensures_bind [OF ensures_steady(1)], intro steadies, rule ensures_zero [OF ensures_run_d], simp)
  qed (auto intro!: steady_zero steadies)
qed (auto intro!: steady_zero steadies)

lemma ensures_advance: "ensures (tables_ok none fh) (fu_bind (advance fh k) (\<lambda>_. fu_ret x)) (\<lambda>_. tables_ok none 0)"
  unfolding advance_def
proof (rule ensures_bind)
  have h: "ensures (tables_ok none fh) (case h of Some (H_Write path d pos i) \<Rightarrow> set_handle fh (H_Write path d (pos + k) i) | _ \<Rightarrow> fu_ret ())
      (\<lambda>_. tables_ok none fh)" for h
    by (auto split: option.splits handle.splits intro: ensures_set ensures_steady(1) [OF steady_basic(1)])
  show "ensures (tables_ok none fh) (fu_bind (fu_get (handle_at fh)) (\<lambda>h. case h of
      Some (H_Write path d pos i) \<Rightarrow> set_handle fh (H_Write path d (pos + k) i) | _ \<Rightarrow> fu_ret ())) (\<lambda>_. tables_ok none fh)"
    by (rule ensures_bind [OF ensures_steady(1)], intro steadies, rule h)
qed (intro steady_zero steadies)

lemma write_ok: "ensures (tables_ok none 0) (fu_write E fh off data) (\<lambda>_. tables_ok none 0)"
  unfolding fu_write_def
proof (rule ensures_handle)
  fix h
  show "ensures (tables_ok none fh) (case Some h of
       None \<Rightarrow> fu_fail EIO
     | Some (H_Append path buf i) \<Rightarrow>
         fu_bind (set_handle fh (H_Append path (buf @ data) i)) (\<lambda>_.
         fu_bind (if length (buf @ data) \<ge> APPEND_BATCH then append_commit E fh else fu_ret ()) (\<lambda>_.
         fu_ret (length data)))
     | Some (H_Write path d pos i) \<Rightarrow>
         if off = pos then
           fu_bind (run_d wrap (\<lambda>d'. H_Write path d' pos i) fh (d_write (fe_lib E) data) d) (\<lambda>k.
           fu_bind (advance fh k) (\<lambda>_. fu_ret k))
         else fu_fail ENOTSUP
     | Some (H_RW path i) \<Rightarrow> run_file wrap i (file_write E off data)
     | Some (H_Read path d i) \<Rightarrow> fu_fail ENOTSUP) (\<lambda>_. tables_ok none 0)"
  proof (cases h)
    case (H_Append path buf i)
    show ?thesis unfolding H_Append option.case handle.case
      by (rule ensures_bind [OF ensures_set], simp, intro steady_zero steadies)
  next
    case (H_Write path d pos i)
    show ?thesis unfolding H_Write option.case handle.case
      by (rule ensures_if, rule ensures_bind [OF ensures_run_d], simp, rule ensures_advance, intro steady_zero steadies)
  qed (auto intro!: steady_zero steadies)
qed (auto intro!: steady_zero steadies)

lemma flush_ok: "ensures (tables_ok none 0) (fu_flush E fh) (\<lambda>_. tables_ok none 0)"
  unfolding fu_flush_def
proof (rule ensures_handle)
  fix h
  show "ensures (tables_ok none fh) (case Some h of
       Some (H_RW path i) \<Rightarrow> run_file wrap i (file_flush E)
     | Some (H_Append path buf i) \<Rightarrow> append_commit E fh
     | Some (H_Write path d pos i) \<Rightarrow>
         fu_bind (run_d wrap (\<lambda>d'. H_Write path d' pos i) fh (d_close (fe_lib E)) d) (\<lambda>_.
         fu_bind (openfile E i path) (\<lambda>_.
         set_handle fh (H_RW path i)))
     | _ \<Rightarrow> fu_ret ()) (\<lambda>_. tables_ok none 0)"
  proof (cases h)
    case (H_Write path d pos i)
    show ?thesis unfolding H_Write option.case handle.case
      by (rule ensures_bind [OF ensures_run_d], simp, rule ensures_bind [OF ensures_openfile], rule ensures_zero [OF ensures_set_rw])
  qed (auto intro!: steady_zero steadies)
qed (auto intro!: steady_zero steadies)

lemma steady_finish [steadies]: "steady (finish_d m d)"
  by (auto simp: steady_def finish_d_def table_defs refs_of_def split: prod.splits)

lemma ensures_pop:
  assumes "\<And>h. ensures (tables_ok (case h of H_RW p i \<Rightarrow> one i | _ \<Rightarrow> none) 0) (f (Some h)) (\<lambda>_. tables_ok none 0)"
    and "ensures (tables_ok none 0) (f None) (\<lambda>_. tables_ok none 0)"
  shows "ensures (tables_ok none 0) (fu_bind (fu_get (handle_at fh)) (\<lambda>h. fu_bind (pop_handle fh) (\<lambda>_. f h))) (\<lambda>_. tables_ok none 0)"
  unfolding ensures_def
proof (intro allI impI)
  fix st
  assume ok: "tables_ok none 0 st"
  let ?st = "st\<lparr>fu_open := AList.delete fh (fu_open st)\<rparr>"
  have run: "fu_bind (fu_get (handle_at fh)) (\<lambda>h. fu_bind (pop_handle fh) (\<lambda>_. f h)) st = f (handle_at fh st) ?st"
    by (simp add: fu_bind_def fu_get_def pop_handle_def fu_put_def)
  show "case fu_bind (fu_get (handle_at fh)) (\<lambda>h. fu_bind (pop_handle fh) (\<lambda>_. f h)) st of
      (Inl e, st') \<Rightarrow> tables_ok none 0 st' | (Inr x, st') \<Rightarrow> tables_ok none 0 st'"
  proof (cases "handle_at fh st")
    case None
    then have "AList.delete fh (fu_open st) = fu_open st" by (simp add: handle_at_def map_of_eq_None_iff delete_id)
    with ensuresD [OF assms(2) ok] show ?thesis unfolding run None by simp
  next
    case (Some h)
    show ?thesis unfolding run Some by (rule ensuresD [OF assms(1) pop_ok [OF ok Some]])
  qed
qed

lemma release_ok: "ensures (tables_ok none 0) (fu_release E fh) (\<lambda>_. tables_ok none 0)"
  unfolding fu_release_def
proof (rule ensures_pop)
  fix h
  show "ensures (tables_ok (case h of H_RW p i \<Rightarrow> one i | _ \<Rightarrow> none) 0) (case Some h of
       None \<Rightarrow> fu_ret ()
     | Some (H_Write path d pos i) \<Rightarrow> finish_d (d_close (fe_lib E)) d
     | Some (H_Read path d i) \<Rightarrow> finish_d (d_close (fe_lib E)) d
     | Some (H_RW path i) \<Rightarrow> fu_bind (run_file wrap i (file_flush E)) (\<lambda>_. drop_openfile i)
     | Some (H_Append path buf i) \<Rightarrow>
         if buf \<noteq> [] then fu_bind (inside (append_op (fe_lib E) (fe_mount E) path buf)) (\<lambda>_. fu_ret ())
         else fu_ret ()) (\<lambda>_. tables_ok none 0)"
  proof (cases h)
    case (H_RW p i)
    show ?thesis unfolding H_RW handle.case option.case
      by (rule ensures_bind [OF ensures_steady(2)], intro steadies, rule ensures_drop)
  qed (simp_all only: handle.case option.case, (intro steady_zero steadies)+)
qed (simp only: option.case, intro steady_zero steadies)

lemma steady_setattr [steadies]: "steady (fu_setattr E i a fh)"
proof -
  have "steady (set_size E i new fh)" for new
    unfolding set_size_def by (rule steady_bind) (auto split: option.splits handle.splits intro!: steadies)
  then show ?thesis unfolding fu_setattr_def by (intro steadies)
qed

section \<open>Every sequence of requests\<close>

lemma void_ok: "ensures P m (\<lambda>_. tables_ok none 0) \<Longrightarrow> ensures P (fu_void m) (\<lambda>_. tables_ok none 0)"
  unfolding fu_void_def by (erule ensures_bind) (intro steady_zero steadies)

lemma serve_ok: "ensures (tables_ok none 0) (fu_serve E r) (\<lambda>_. tables_ok none 0)"
proof (cases r)
  case (Fu_Forget xs)
  have "\<forall>(i, k) \<in> set (map (map_prod id int) xs). 0 \<le> k" by auto
  then show ?thesis unfolding Fu_Forget fu_serve.simps by (intro steady_zero steady_forget)
qed (simp_all only: fu_serve.simps fu_fsync_def, (intro void_ok opendir_ok create_ok open_ok read_ok write_ok flush_ok release_ok
    steady_zero steady_attr steady_directories steady_names steady_setattr)+)

definition fu_run :: "fuse_env \<Rightarrow> fuse_request list \<Rightarrow> fuse \<Rightarrow> fuse" where
  "fu_run E rs st = fold (\<lambda>r st. snd (fu_serve E r st)) rs st"

lemma run_ok: "tables_ok none 0 st \<Longrightarrow> tables_ok none 0 (fu_run E rs st)"
proof (induction rs arbitrary: st)
  case (Cons r rs)
  from ensuresD [OF serve_ok Cons.prems, of E r] have "tables_ok none 0 (snd (fu_serve E r st))"
    by (auto split: prod.splits sum.splits)
  from Cons.IH [OF this] show ?case by (simp add: fu_run_def)
qed (simp add: fu_run_def)

lemma init_ok: "fuse_init E s = (Inr st, s') \<Longrightarrow> tables_ok none 0 st"
  by (auto simp: fuse_init_def table_defs rw_handles_def refs_of_def split: prod.splits sum.splits if_splits)

lemma rw_counted: "(fh, H_RW p i) \<in> set hs \<Longrightarrow> 0 < rw_handles i hs"
  unfolding rw_handles_def by (auto simp: filter_empty_conv)

text \<open>C17
  Whatever requests a mount serves, in whatever order and however many of them fail, its
  tables agree: the root stays mapped, an inode is only ever mapped to the node it is derived
  from, an inode the kernel holds is mapped, no two open handles share a number, each
  read-write handle finds the overlay of its inode, and the overlay counts at least as many
  references as there are read-write handles on it.
\<close>

theorem fuse_tables_kept:
  assumes "fuse_init E s = (Inr st0, s')" and "st = fu_run E rs st0"
  shows "fu_n st ROOT \<noteq> None \<and> (\<forall>i n. fu_n st i = Some n \<longrightarrow> i = ROOT \<or> i = ino n)
     \<and> (\<forall>i k. fu_nlookup st i = Some k \<longrightarrow> 0 < k \<and> fu_n st i \<noteq> None)
     \<and> distinct (map fst (fu_open st)) \<and> (\<forall>fh \<in> fst ` set (fu_open st). fh \<le> fu_fh st)
     \<and> (\<forall>fh p i. handle_at fh st = Some (H_RW p i) \<longrightarrow>
          (\<exists>sf. fu_files st i = Some sf \<and> rw_handles i (fu_open st) \<le> sf_refs sf))"
proof -
  have ok: "tables_ok none 0 st" unfolding assms(2) by (rule run_ok [OF init_ok [OF assms(1)]])
  have "\<exists>sf. fu_files st i = Some sf \<and> rw_handles i (fu_open st) \<le> sf_refs sf" if "handle_at fh st = Some (H_RW p i)" for fh p i
  proof -
    have "0 < rw_handles i (fu_open st)" using that rw_counted by (auto simp: handle_at_def dest!: map_of_SomeD)
    moreover have "rw_handles i (fu_open st) \<le> refs_of i st" using ok by (simp add: tables_ok_def overlays_held_def)
    ultimately show ?thesis by (auto simp: refs_of_def split: option.splits)
  qed
  with ok show ?thesis by (auto simp: tables_ok_def inodes_ok_def handles_ok_def)
qed

text \<open>A session on the example volume: look \<open>/a\<close> up, open it twice, close it once, fail, look.\<close>

definition demo_requests :: "fuse_request list" where
  "demo_requests = [Fu_Lookup ROOT ''a'', Fu_Open (ino ''f'') O_RDWR, Fu_Open (ino ''f'') O_RDWR, Fu_Release 1,
     Fu_Lookup ROOT ''zz'', Fu_Getattr (ino ''f'')]"

theorem fuse_tables_kept_witness:
  "\<exists>st0 s' sf. fuse_init demo_env demo = (Inr st0, s') \<and> fu_files (fu_run demo_env demo_requests st0) (ino ''f'') = Some sf
     \<and> 1 \<le> sf_refs sf \<and> handle_at 2 (fu_run demo_env demo_requests st0) = Some (H_RW ''/a'' (ino ''f''))"
proof -
  obtain st0 s' where init: "fuse_init demo_env demo = (Inr st0, s')" and
    h: "handle_at 2 (fu_run demo_env demo_requests st0) = Some (H_RW ''/a'' (ino ''f''))"
  proof -
    have "case fuse_init demo_env demo of (Inl e, s) \<Rightarrow> False
       | (Inr st, s) \<Rightarrow> handle_at 2 (fu_run demo_env demo_requests st) = Some (H_RW ''/a'' (ino ''f''))"
      by code_simp
    then show ?thesis using that by (auto split: prod.splits sum.splits)
  qed
  from h have "0 < rw_handles (ino ''f'') (fu_open (fu_run demo_env demo_requests st0))"
    using rw_counted by (auto simp: handle_at_def dest!: map_of_SomeD)
  with fuse_tables_kept [OF init refl, of demo_requests] h init show ?thesis by fastforce
qed

end
