(* ===== verification/Paths.thy ===== *)
theory Paths
  imports Facade
begin

text \<open>
  \<open>AloelitePath\<close> (\<open>aloelite/path.py\<close>): a path object is the normalised path it holds, beside
  the mount its methods pass on to. The algebra of names, parents and suffixes is pure; the
  methods that read or change the file are operations, a generator being the list of what it
  yields. The recursion of \<open>_walk\<close>, which a cycle of containers would not end, takes the
  frames left on Python's stack as fuel and raises RecursionError without.

  \<open>fnmatch\<close> is the function of the standard library on a system whose case is significant.
\<close>

section \<open>Path algebra\<close>

definition norm :: "string \<Rightarrow> string" where
  "norm path = CHR ''/'' # join_path (split_path path)"

definition child :: "string \<Rightarrow> string \<Rightarrow> string" where
  "child p other = norm (p @ CHR ''/'' # other)"

text \<open>\<open>rsplit("/", 1)\<close> of a string that has a slash.\<close>

definition rsplit :: "string \<Rightarrow> string \<times> string" where
  "rsplit p = (let parts = split_on CHR ''/'' p in (join_with CHR ''/'' (butlast parts), last parts))"

definition name_of :: "string \<Rightarrow> string" where
  "name_of p = (if p = ''/'' then [] else snd (rsplit p))"

definition parent_of :: "string \<Rightarrow> string" where
  "parent_of p = (if p = ''/'' then p
     else (let head = fst (rsplit p) in norm (if head \<noteq> [] then head else ''/'')))"

definition parts_of :: "string \<Rightarrow> string list" where
  "parts_of p = filter (\<lambda>s. s \<noteq> []) (split_on CHR ''/'' p)"

text \<open>\<open>rfind\<close>, \<open>None\<close> being its -1.\<close>

definition rfind :: "char \<Rightarrow> string \<Rightarrow> nat option" where
  "rfind c s = (if c \<in> set s then Some (length s - Suc (length (takeWhile (\<lambda>x. x \<noteq> c) (rev s)))) else None)"

definition suffix_of :: "string \<Rightarrow> string" where
  "suffix_of p = (case rfind CHR ''.'' (name_of p) of
     Some i \<Rightarrow> if i > 0 then drop i (name_of p) else [] | None \<Rightarrow> [])"

definition stem_of :: "string \<Rightarrow> string" where
  "stem_of p = (let s = suffix_of p in if s \<noteq> [] then take (length (name_of p) - length s) (name_of p) else name_of p)"

section \<open>Inspection\<close>

definition path_type :: "mount_id \<Rightarrow> string \<Rightarrow> node_type option op" where
  "path_type mount p = bind_op (attempt {NotFound, NotAContainer} (stat mount p)) (\<lambda>i. ret (map_option ni_type i))"

definition is_dir :: "mount_id \<Rightarrow> string \<Rightarrow> bool op" where
  "is_dir mount p = bind_op (path_type mount p) (\<lambda>ty. ret (ty = Some CONTAINER))"

definition is_file :: "mount_id \<Rightarrow> string \<Rightarrow> bool op" where
  "is_file mount p = bind_op (path_type mount p) (\<lambda>ty. ret (ty = Some ENTRY))"

definition iterdir :: "mount_id \<Rightarrow> string \<Rightarrow> string list op" where
  "iterdir mount p =
     bind_op (list_dir mount p) (\<lambda>es. ret (map (\<lambda>e. child p (ls_name e)) (filter ls_visible es)))"

section \<open>Patterns\<close>

text \<open>The members of a character class, ranges included.\<close>

fun in_class :: "string \<Rightarrow> char \<Rightarrow> bool" where
  "in_class (a # b # d # r) c =
     (if b = CHR ''-'' then (a \<le> c \<and> c \<le> d) \<or> in_class r c else a = c \<or> in_class (b # d # r) c)"
| "in_class (a # r) c \<longleftrightarrow> a = c \<or> in_class r c"
| "in_class [] c \<longleftrightarrow> False"

text \<open>The class that starts a pattern, after its opening bracket: negation, members and the rest.\<close>

definition bracket :: "string \<Rightarrow> (bool \<times> string \<times> string) option" where
  "bracket p =
     (let neg = (take 1 p = ''!''); q = (if neg then drop 1 p else p);
          lead = (if take 1 q = '']'' then '']'' else []); r = drop (length lead) q;
          body = takeWhile (\<lambda>c. c \<noteq> CHR '']'') r
      in if length body = length r then None
         else Some (neg, lead @ body, drop (Suc (length body)) r))"

lemma bracket_shorter:
  assumes "bracket p = Some (n, b, r)"
  shows "length r < length p"
proof -
  obtain k and q body :: string where q: "length q \<le> length p" "length body < length (drop k q)" "r = drop (Suc (length body)) (drop k q)"
  proof -
    let ?q = "if take 1 p = ''!'' then drop 1 p else p"
    let ?k = "length (if take 1 ?q = '']'' then '']'' else ([] :: string))"
    let ?body = "takeWhile (\<lambda>c. c \<noteq> CHR '']'') (drop ?k ?q)"
    have "length ?body \<noteq> length (drop ?k ?q)" "r = drop (Suc (length ?body)) (drop ?k ?q)"
      using assms by (auto simp: bracket_def Let_def split: if_splits)
    moreover have "length ?body \<le> length (drop ?k ?q)" by (rule length_takeWhile_le)
    ultimately show thesis using that [of ?q ?body ?k] by (simp add: le_neq_implies_less)
  qed
  then have "length r < length (drop k q)" by simp
  with q(1) show ?thesis by simp
qed

function fnmatch :: "string \<Rightarrow> string \<Rightarrow> bool" where
  "fnmatch [] s = (s = [])"
| "fnmatch (c # p) s =
     (if c = CHR ''*'' then fnmatch p s \<or> (if s = [] then False else fnmatch (c # p) (tl s))
      else if s = [] then False
      else if c = CHR ''?'' then fnmatch p (tl s)
      else if c = CHR ''['' then
        (case bracket p of
           None \<Rightarrow> hd s = c \<and> fnmatch p (tl s)
         | Some (neg, cls, p') \<Rightarrow> (in_class cls (hd s) \<noteq> neg) \<and> fnmatch p' (tl s))
      else hd s = c \<and> fnmatch p (tl s))"
  by pat_completeness auto
termination
  by (relation "measures [length \<circ> fst, length \<circ> snd]") (auto dest: bracket_shorter)

section \<open>Walking\<close>

fun concat_op :: "('a \<Rightarrow> 'b list op) \<Rightarrow> 'a list \<Rightarrow> 'b list op" where
  "concat_op f [] = ret []"
| "concat_op f (x # xs) = bind_op (f x) (\<lambda>ys. bind_op (concat_op f xs) (\<lambda>zs. ret (ys @ zs)))"

primrec walk_glob :: "nat \<Rightarrow> mount_id \<Rightarrow> string \<Rightarrow> string list \<Rightarrow> string list op" where
  "walk_glob 0 mount base segs = fail RecursionError"
| "walk_glob (Suc k) mount base segs =
     (case segs of [] \<Rightarrow> fail IndexError
      | head # rest \<Rightarrow>
        if head = ''**'' then
          bind_op (if rest \<noteq> [] then walk_glob k mount base rest else ret [base]) (\<lambda>here.
          bind_op (iterdir mount base) (\<lambda>cs.
          bind_op (concat_op (\<lambda>c. bind_op (is_dir mount c) (\<lambda>d.
             if d then walk_glob k mount c segs else ret [])) cs) (\<lambda>below.
          ret (here @ below))))
        else
          bind_op (iterdir mount base) (\<lambda>cs.
          concat_op (\<lambda>c.
             if \<not> fnmatch head (name_of c) then ret []
             else if rest = [] then ret [c]
             else bind_op (is_dir mount c) (\<lambda>d. if d then walk_glob k mount c rest else ret [])) cs))"

definition glob :: "nat \<Rightarrow> mount_id \<Rightarrow> string \<Rightarrow> string \<Rightarrow> string list op" where
  "glob frames mount p pattern =
     (let segs = filter (\<lambda>s. s \<noteq> []) (split_on CHR ''/'' pattern)
      in if segs \<noteq> [] then walk_glob frames mount p segs else ret [])"

definition rglob :: "nat \<Rightarrow> mount_id \<Rightarrow> string \<Rightarrow> string \<Rightarrow> string list op" where
  "rglob frames mount p pattern = glob frames mount p (''**/'' @ pattern)"

section \<open>Content\<close>

definition write_bytes :: "crypto_lib \<Rightarrow> mount_id \<Rightarrow> string \<Rightarrow> bytes \<Rightarrow> unit op" where
  "write_bytes L mount p data =
     bind_op (exists_path mount p) (\<lambda>ex.
     if ex then write_all L mount p data else bind_op (create_entry L mount p data) (\<lambda>_. ret ()))"

definition open_path :: "crypto_lib \<Rightarrow> mount_id \<Rightarrow> string \<Rightarrow> string \<Rightarrow> descriptor op" where
  "open_path L mount p mode =
     (if mode = ''r'' \<or> mode = ''rb'' then open_read mount p
      else if mode = ''w'' \<or> mode = ''wb'' then open_write L mount p TRUNCATE None
      else if mode = ''a'' \<or> mode = ''ab'' then
        bind_op (exists_path mount p) (\<lambda>ex.
        bind_op (if \<not> ex then bind_op (create_entry L mount p []) (\<lambda>_. ret ()) else ret ()) (\<lambda>_.
        open_write L mount p APPEND None))
      else fail ValueError)"

section \<open>Structure\<close>

text \<open>A path, its number of segments and whether it is normalised, which bound the recursion of \<open>mkdir\<close>.\<close>

definition path_rank :: "string \<Rightarrow> nat" where
  "path_rank p = 2 * length (split_path p) + (if norm p = p then 0 else 1)"

lemma split_norm [simp]: "split_path (norm p) = split_path p"
  by (simp add: norm_def) (rule split_join_path, blast intro: split_path_ok)

lemma norm_idem [simp]: "norm (norm p) = norm p"
  by (simp add: norm_def [of "norm p"]) (simp add: norm_def)

lemma split_path_butlast: "length (split_path (fst (rsplit p))) \<le> length (split_path p)"
proof -
  let ?b = "butlast (split_on CHR ''/'' p)"
  have "filter (\<lambda>s. s \<noteq> []) (split_on CHR ''/'' (join_with CHR ''/'' ?b)) = filter (\<lambda>s. s \<noteq> []) ?b"
  proof (cases "?b = []")
    case False
    moreover have "\<forall>s \<in> set ?b. CHR ''/'' \<notin> set s" by (auto dest: in_set_butlastD split_on_no_sep)
    ultimately have "split_on CHR ''/'' (join_with CHR ''/'' ?b) = ?b" by (rule split_on_join)
    then show ?thesis by simp
  qed simp
  moreover have "length (filter P (butlast xs)) \<le> length (filter P xs)" for P and xs :: "string list"
    by (cases xs rule: rev_cases) simp_all
  moreover have "fst (rsplit p) = join_with CHR ''/'' ?b" by (simp add: rsplit_def Let_def)
  ultimately show ?thesis by (simp only: split_path_def)
qed

lemma split_normal:
  assumes "norm p = p" and "p \<noteq> ''/''"
  shows "split_path p \<noteq> []" and "split_on CHR ''/'' p = [] # split_path p"
proof -
  have p: "p = CHR ''/'' # join_path (split_path p)" using assms(1) by (simp add: norm_def)
  with assms(2) show ne: "split_path p \<noteq> []" by (metis join_path_def join_with.simps(1))
  have "split_on CHR ''/'' (join_path (split_path p)) = split_path p"
    using ne by (simp add: join_path_def split_on_join split_path_ok [unfolded segment_ok_def])
  then show "split_on CHR ''/'' p = [] # split_path p" by (subst p) simp
qed

lemma rsplit_normal:
  assumes "norm p = p" and "p \<noteq> ''/''"
  shows "rsplit p = (if butlast (split_path p) = [] then [] else CHR ''/'' # join_path (butlast (split_path p)),
    last (split_path p))"
  using split_normal [OF assms] by (cases "butlast (split_path p)") (simp_all add: rsplit_def Let_def join_path_def)

lemma parent_normal:
  assumes "norm p = p" and "p \<noteq> ''/''"
  shows "parent_of p = CHR ''/'' # join_path (butlast (split_path p))" "split_path (parent_of p) = butlast (split_path p)"
    "name_of p = last (split_path p)"
proof -
  have ok: "\<forall>s \<in> set (butlast (split_path p)). segment_ok s" by (auto dest: in_set_butlastD split_path_ok)
  then have sp: "split_path (join_path (butlast (split_path p))) = butlast (split_path p)" by (rule split_join_path)
  show par: "parent_of p = CHR ''/'' # join_path (butlast (split_path p))"
    using assms(2) sp by (simp add: parent_of_def rsplit_normal [OF assms] norm_def Let_def join_path_def)
  show "split_path (parent_of p) = butlast (split_path p)" by (simp add: par sp)
  show "name_of p = last (split_path p)" using assms(2) by (simp add: name_of_def rsplit_normal [OF assms])
qed

lemma parent_rank:
  assumes "p \<noteq> ''/''" and "parent_of p \<noteq> ''/''"
  shows "path_rank (parent_of p) < path_rank p"
proof -
  have par: "parent_of p = norm (fst (rsplit p))"
    using assms by (auto simp: parent_of_def Let_def norm_def join_path_def split: if_splits)
  have le: "length (split_path (fst (rsplit p))) \<le> length (split_path p)"
    by (rule split_path_butlast)
  show ?thesis
  proof (cases "norm p = p")
    case True
    with split_normal(1) [OF True assms(1)] parent_normal(2) [OF True assms(1)] par show ?thesis
      by (simp add: path_rank_def)
  qed (use le in \<open>simp add: path_rank_def par\<close>)
qed

text \<open>\<open>mkdir\<close>, whose recursion is on the parent.\<close>

function path_mkdir :: "mount_id \<Rightarrow> bool \<Rightarrow> bool \<Rightarrow> string \<Rightarrow> string op" where
  "path_mkdir mount with_parents exist_ok p =
     bind_op (exists_path mount p) (\<lambda>ex.
     if ex then bind_op (if exist_ok then is_dir mount p else ret False) (\<lambda>d.
       if d then ret p else fail FileExistsError)
     else bind_op (if with_parents \<and> p \<noteq> ''/'' then
           (if parent_of p \<noteq> ''/'' then bind_op (exists_path mount (parent_of p)) (\<lambda>pe.
              if \<not> pe then path_mkdir mount True True (parent_of p) else ret p) else ret p)
         else ret p) (\<lambda>_.
       bind_op (create_container mount p) (\<lambda>_. ret p)))"
  by pat_completeness auto
termination
  by (relation "measure (\<lambda>(m, w, e, p). path_rank p)") (auto simp: parent_rank)

declare path_mkdir.simps [simp del]

definition path_rename :: "mount_id \<Rightarrow> string \<Rightarrow> string \<Rightarrow> string op" where
  "path_rename mount p target =
     (let dst = norm target in bind_op (move mount p dst) (\<lambda>_. ret dst))"

definition path_copy :: "mount_id \<Rightarrow> string \<Rightarrow> string \<Rightarrow> string op" where
  "path_copy mount p target =
     (let dst = norm target in bind_op (copy mount p dst) (\<lambda>_. ret dst))"

section \<open>The algebra of paths\<close>

lemma child_split [simp]: "split_path (child p q) = split_path p @ split_path q"
  by (simp add: child_def split_path_append)

lemma child_parent:
  assumes "norm p = p" and "p \<noteq> ''/''"
  shows "child (parent_of p) (name_of p) = p"
proof -
  have "segment_ok (last (split_path p))" using split_normal(1) [OF assms] split_path_ok last_in_set by blast
  then have "split_path (child (parent_of p) (name_of p)) = split_path p"
    using split_normal(1) [OF assms] by (simp add: parent_normal(2,3) [OF assms] split_path_segment)
  then have "norm (child (parent_of p) (name_of p)) = norm p" by (simp add: norm_def)
  then show ?thesis using assms(1) by (simp add: child_def)
qed

lemma stem_suffix: "stem_of p @ suffix_of p = name_of p"
proof (cases "suffix_of p = []")
  case False
  then obtain i where "suffix_of p = drop i (name_of p)" by (auto simp: suffix_of_def split: option.splits if_splits)
  then have "take (length (name_of p) - length (suffix_of p)) (name_of p) @ suffix_of p = name_of p"
    by (metis append_take_drop_id diff_diff_cancel drop_all length_drop nat_le_linear append_Nil2 diff_zero take_all)
  with False show ?thesis by (simp add: stem_of_def Let_def)
qed (simp add: stem_of_def)

lemma resolve_norm: "resolve t mp (norm p) = resolve t mp p"
  by (simp add: resolve_def)

lemma resolve_parent_norm: "resolve_parent t mp (norm p) = resolve_parent t mp p"
  by (simp add: resolve_parent_def)

section \<open>Properties\<close>

text \<open>C20
  Normalising a path changes its spelling and never what it names: a normalised path is its
  own normal form, resolves to the same node or error under every mount point, has the same
  parent and last segment, and two paths have one normal form exactly when they have the
  same segments.
\<close>

theorem path_norm_transparent:
  "norm (norm p) = norm p \<and> resolve t mp (norm p) = resolve t mp p
     \<and> resolve_parent t mp (norm p) = resolve_parent t mp p \<and> (norm p = norm q \<longleftrightarrow> parts_of p = parts_of q)"
proof -
  have "parts_of x = split_path x" for x by (simp add: parts_of_def split_path_def)
  moreover have "norm p = norm q \<longleftrightarrow> split_path p = split_path q"
    by (metis norm_def split_norm)
  ultimately show ?thesis by (simp add: resolve_norm resolve_parent_norm)
qed

text \<open>
  The parts of a path object put it together again: the parent joined with the name is the
  path, the stem before the suffix is the name, and joining appends the segments.
\<close>

lemma path_algebra:
  assumes "norm p = p" and "p \<noteq> ''/''"
  shows "child (parent_of p) (name_of p) = p \<and> stem_of p @ suffix_of p = name_of p
    \<and> parts_of (child p q) = parts_of p @ parts_of q \<and> norm (parent_of p) = parent_of p"
proof -
  have "parts_of x = split_path x" for x by (simp add: parts_of_def split_path_def)
  moreover have "norm (parent_of p) = parent_of p"
    by (simp add: norm_def parent_normal(2) [OF assms]) (simp add: parent_normal(1) [OF assms])
  ultimately show ?thesis using child_parent [OF assms] stem_suffix by simp
qed

lemma path_algebra_witness:
  "child (parent_of ''/a/b.tar.gz'') (name_of ''/a/b.tar.gz'') = ''/a/b.tar.gz'' \<and> suffix_of ''/a/b.tar.gz'' = ''.gz''"
proof -
  have "norm ''/a/b.tar.gz'' = ''/a/b.tar.gz''" "suffix_of ''/a/b.tar.gz'' = ''.gz''" by code_simp+
  with path_algebra [of "''/a/b.tar.gz''" "[]"] show ?thesis by simp
qed

end
