(* ===== verification/Pruning.thy ===== *)
theory Pruning
  imports Demo
begin

text \<open>
  What the garbage collector of \<open>aloelite/operations.py\<close> keeps and what it takes. A content
  prune keeps the bytes of every file, every version of an entry some live lock holds, and
  of the others as many superseded versions as the retention policy asks for, newest first;
  afterwards the chunk pool holds no chunk that nothing refers to.
\<close>

section \<open>The tables after a content prune\<close>

definition pruned :: "timestamp \<Rightarrow> volume_id option \<Rightarrow> tables \<Rightarrow> tables" where
  "pruned ts volume t = snd (prune_content_chunks (snd (prune_content_versions ts volume t)))"

lemma pruned_frame [simp]:
  "nodes (pruned ts v t) = nodes t" "contents (pruned ts v t) = contents t"
  "edges (pruned ts v t) = edges t" "volumes (pruned ts v t) = volumes t"
  "mounts (pruned ts v t) = mounts t" "locks (pruned ts v t) = locks t"
  "xattrs (pruned ts v t) = xattrs t"
  "versions (pruned ts v t) = filter (\<lambda>r. \<not> prunable_version ts v t r) (versions t)"
  "chunks (pruned ts v t) = filter (\<lambda>c. ch_hash c \<in> cv_hash ` set (versions (pruned ts v t))) (chunks t)"
  by (simp_all add: pruned_def prune_content_chunks_def prune_content_versions_def)

text \<open>Whether a row is taken depends on the entry and the version alone.\<close>

definition spared :: "timestamp \<Rightarrow> volume_id option \<Rightarrow> tables \<Rightarrow> node_id \<Rightarrow> nat \<Rightarrow> bool" where
  "spared ts volume t n v \<longleftrightarrow>
     retained_version t n v \<or> n \<in> lk_node ` set (valid_lock ts t)
     \<or> (volume \<noteq> None \<and> \<not> (\<exists>r \<in> set (nodes t). nd_id r = n \<and> nd_volume r = volume))"

lemma prunable_iff: "prunable_version ts volume t r \<longleftrightarrow> \<not> spared ts volume t (cv_node r) (cv_version r)"
  by (auto simp: prunable_version_def spared_def)

lemma row_at_filter_key:
  "(\<And>r. P r \<longleftrightarrow> Q (key r)) \<Longrightarrow> row_at key k (filter P rs) = (if Q k then row_at key k rs else None)"
  by (induction rs) auto

lemma pruned_manifest:
  "manifest (pruned ts volume t) n v = (if spared ts volume t n v then manifest t n v else Map.empty)"
proof -
  have "row_at version_key (n, v, i) (versions (pruned ts volume t)) =
      (if spared ts volume t n v then row_at version_key (n, v, i) (versions t) else None)" for i
    using row_at_filter_key [of "\<lambda>r. \<not> prunable_version ts volume t r"
        "\<lambda>(n, v, i). spared ts volume t n v" version_key "(n, v, i)" "versions t"]
    by (simp add: prunable_iff version_key_def)
  then show ?thesis by (auto simp: manifest_def)
qed

lemma pruned_piece:
  assumes "manifest (pruned ts volume t) n v i = Some h"
  shows "piece L c (pruned ts volume t) h = piece L c t h"
proof -
  from assms have "h \<in> cv_hash ` set (versions (pruned ts volume t))"
    by (auto simp: manifest_def simp del: pruned_frame dest: row_at_SomeD)
  then have "chunk_at (pruned ts volume t) h = chunk_at t h"
    using row_at_filter_key [of "\<lambda>c. ch_hash c \<in> cv_hash ` set (versions (pruned ts volume t))"
        "\<lambda>h. h \<in> cv_hash ` set (versions (pruned ts volume t))" ch_hash h "chunks t"]
    by (simp only: pruned_frame(9) if_True)
  then show ?thesis by (simp add: piece_def)
qed

lemma pruned_stored:
  assumes "stored L c t n v ps" and "spared ts volume t n v \<or> ps = []"
  shows "stored L c (pruned ts volume t) n v ps"
proof (cases "spared ts volume t n v")
  case True
  then have m: "manifest (pruned ts volume t) n v = manifest t n v" by (simp add: pruned_manifest)
  show ?thesis unfolding stored_def m
  proof
    fix i
    show "case manifest t n v i of None \<Rightarrow> length ps \<le> i
      | Some h \<Rightarrow> i < length ps \<and> piece L c (pruned ts volume t) h = Some (ps ! i)"
      using assms(1) pruned_piece [of ts volume t n v i] unfolding m stored_def
      by (cases "manifest t n v i") (auto dest!: spec [of _ i])
  qed
qed (use assms(2) in \<open>simp add: stored_def pruned_manifest\<close>)

text \<open>The committed version is always spared, unless it has no chunk at all.\<close>

lemma committed_spared:
  assumes "content_at t n = Some r" and "manifest t n (ct_version r) i \<noteq> None"
  shows "spared ts volume t n (ct_version r)"
proof -
  from assms(2) obtain q where "row_at version_key (n, ct_version r, i) (versions t) = Some q"
    by (auto simp: manifest_def)
  then have "q \<in> set (versions t)" "cv_node q = n" "cv_version q = ct_version r"
    by (auto simp: version_key_def dest: row_at_SomeD)
  then have "ct_version r \<in> set (version_numbers t n)" by (auto simp: version_numbers_def intro!: rev_image_eqI)
  with assms(1) show ?thesis by (simp add: spared_def retained_version_def)
qed

lemma pruned_content:
  assumes "content_is L c cs t n B"
  shows "content_is L c cs (pruned ts volume t) n B"
proof -
  from assms obtain r where r: "content_at t n = Some r" "ct_size r = length B"
    "stored L c t n (ct_version r) (split_chunks cs B)" by (auto simp: content_is_def)
  have "spared ts volume t n (ct_version r)" if "split_chunks cs B \<noteq> []"
    using committed_spared [OF r(1), of 0] stored_length [OF r(3), of 0] that by auto
  with r pruned_stored [OF r(3), of ts volume] show ?thesis by (auto simp: content_is_def)
qed

lemma pruned_keys: "keys_ok t \<Longrightarrow> keys_ok (pruned ts volume t)"
  by (simp add: keys_ok_def distinct_map_filter)

lemma pruned_collision: "collision_free L c U t \<Longrightarrow> collision_free L c U (pruned ts volume t)"
  by (auto simp: collision_free_def)

section \<open>The operation\<close>

lemma prune_content_eq:
  assumes "\<not> in_txn s" and "pending_wm s = []"
  shows "prune_content volume s =
    (Inr (length (filter (prunable_version (sql_now s) volume (tabs s)) (versions (tabs s))),
       length (filter (\<lambda>c. ch_hash c \<notin> cv_hash ` set (versions (pruned (sql_now s) volume (tabs s)))) (chunks (tabs s)))),
     s\<lparr>tabs := pruned (sql_now s) volume (tabs s)\<rparr>)"
  using assms
  by (simp add: prune_content_def txn_def bind_op_def gets_def ret_def sql_count_def flush_nothing
      pruned_def prune_content_chunks_def prune_content_versions_def)

lemma pruned_same_view: "same_view s (s\<lparr>tabs := pruned ts volume (tabs s)\<rparr>)"
  by (simp add: same_view_def same_tree_def type_at_def fun_eq_iff)

lemma pruned_file:
  assumes "file_at L U cs s mount path n B"
  shows "file_at L U cs (s\<lparr>tabs := pruned ts volume (tabs s)\<rparr>) mount path n B"
proof -
  from assms obtain m vr where leaf: "leaf_for_write mount path s = (Inr (m, n), s)"
    and o: "volume_at (tabs s) (m_volume m) = Some vr" "vl_chunk_size vr = cs" "0 < cs" "\<not> in_txn s"
      "pending_wm s = []" "keys_ok (tabs s)" "collision_free L (cipher_of s) U (tabs s)"
      "content_is L (cipher_of s) cs (tabs s) n B"
    by (auto simp: file_at_def)
  have "leaf_for_write mount path (s\<lparr>tabs := pruned ts volume (tabs s)\<rparr>)
      = (Inr (m, n), s\<lparr>tabs := pruned ts volume (tabs s)\<rparr>)"
    using leaf pruned_same_view by (rule leaf_for_write_in_txn) simp
  then show ?thesis using o pruned_keys pruned_collision pruned_content
    by (auto simp: file_at_def simp del: pruned_frame(8,9))
qed

text \<open>C25
  A content prune never touches the bytes of a file: it succeeds, and every file of every
  mount reads as before and stays writable.
\<close>

theorem prune_content_keeps_bytes:
  assumes "file_at L U cs s mount path n B"
  shows "\<exists>counts s'. prune_content volume s = (Inr counts, s') \<and> file_at L U cs s' mount path n B
     \<and> read_all L mount path s' = (Inr B, s')"
proof -
  from assms have "\<not> in_txn s" "pending_wm s = []" by (auto simp: file_at_def)
  from prune_content_eq [OF this, of volume] pruned_file [OF assms] file_at_read show ?thesis by blast
qed

theorem prune_content_keeps_bytes_witness:
  "\<exists>counts s'. prune_content None demo = (Inr counts, s') \<and> read_all toy_lib ''m'' ''/a'' s' = (Inr [1, 2, 3, 4, 5], s')"
  using prune_content_keeps_bytes [OF demo_file(1), of None] by blast

section \<open>Writers in flight\<close>

text \<open>C26
  A content prune spares the writers: every version of an entry under a live lock, the
  staged chunks of an uncommitted stream included, is stored afterwards as it was.
\<close>

theorem prune_content_spares_writers:
  assumes "\<not> in_txn s" and "pending_wm s = []"
    and "l \<in> set (valid_lock (sql_now s) (tabs s))" and "stored L c (tabs s) (lk_node l) v ps"
  shows "\<exists>counts s'. prune_content volume s = (Inr counts, s')
     \<and> manifest (tabs s') (lk_node l) v = manifest (tabs s) (lk_node l) v \<and> stored L c (tabs s') (lk_node l) v ps"
proof -
  have "spared (sql_now s) volume (tabs s) (lk_node l) v" using assms(3) by (simp add: spared_def)
  with pruned_stored [OF assms(4), of "sql_now s" volume] pruned_manifest [of "sql_now s" volume "tabs s"]
  show ?thesis unfolding prune_content_eq [OF assms(1,2)] by auto
qed

text \<open>An open stream: version 2 of the entry is staged and not yet committed.\<close>

definition demo_writing :: db where
  "demo_writing = demo\<lparr>tabs := demo_tables\<lparr>locks := [\<lparr>lk_id = ''k'', lk_mount = ''m'', lk_node = ''f'',
        lk_expires = None, lk_created = 1\<rparr>],
     versions := versions demo_tables @ [\<lparr>cv_node = ''f'', cv_version = 2, cv_index = 0,
        cv_hash = chunk_hash toy_lib [1, 2, 3, 4]\<rparr>]\<rparr>\<rparr>"

lemma demo_writing_staged: "stored toy_lib IdentityCipher (tabs demo_writing) ''f'' 2 [[1, 2, 3, 4]]"
proof -
  have "manifest (tabs demo_writing) ''f'' 2 i = (if i = 0 then Some (chunk_hash toy_lib [1, 2, 3, 4]) else None)" for i
    by (auto simp: manifest_def demo_writing_def demo_tables_def version_key_def)
  moreover have "piece toy_lib IdentityCipher (tabs demo_writing) (chunk_hash toy_lib [1, 2, 3, 4]) = Some [1, 2, 3, 4]"
    by (simp add: piece_def demo_writing_def demo_tables_def demo_chunk_def)
  ultimately show ?thesis by (simp add: stored_def)
qed

theorem prune_content_spares_writers_witness:
  "\<exists>counts s'. prune_content None demo_writing = (Inr counts, s')
     \<and> stored toy_lib IdentityCipher (tabs s') ''f'' 2 [[1, 2, 3, 4]]"
proof -
  let ?l = "\<lparr>lk_id = ''k'', lk_mount = ''m'', lk_node = ''f'', lk_expires = None, lk_created = 1\<rparr>"
  have "\<not> in_txn demo_writing" "pending_wm demo_writing = []"
    "?l \<in> set (valid_lock (sql_now demo_writing) (tabs demo_writing))"
    by (simp_all add: demo_writing_def demo_def demo_tables_def valid_lock_def lock_live_def mount_live_def demo_mount_def)
  from prune_content_spares_writers [OF this, of toy_lib IdentityCipher 2 "[[1, 2, 3, 4]]" None]
    demo_writing_staged show ?thesis by auto
qed

section \<open>Retention\<close>

definition superseded :: "tables \<Rightarrow> node_id \<Rightarrow> nat \<Rightarrow> nat set" where
  "superseded t n committed = {w \<in> set (version_numbers t n). w < committed}"

lemma set_version_numbers: "w \<in> set (version_numbers t n) \<longleftrightarrow> (\<exists>r \<in> set (versions t). cv_node r = n \<and> cv_version r = w)"
  by (auto simp: version_numbers_def)

lemma finite_superseded [simp]: "finite (superseded t n committed)"
  by (simp add: superseded_def)

lemma rank_card: "superseded_rank t n committed v = card {w \<in> superseded t n committed. v \<le> w}"
proof -
  have "distinct (filter (\<lambda>w. v \<le> w \<and> w < committed) (version_numbers t n))"
    by (simp add: version_numbers_def)
  from distinct_card [OF this] show ?thesis
    by (simp add: superseded_rank_def superseded_def conj_ac)
qed

text \<open>Of a finite set, the elements with at most \<open>m\<close> elements from them on are its \<open>m\<close> largest.\<close>

definition newest :: "nat \<Rightarrow> nat set \<Rightarrow> nat set" where
  "newest m S = {v \<in> S. card {w \<in> S. v \<le> w} \<le> m}"

lemma card_newest: "finite S \<Longrightarrow> card (newest m S) = min m (card S)"
proof (induction rule: finite_linorder_min_induct)
  case (insert b A)
  have new: "b \<notin> A" using insert.hyps(2) by blast
  have "{w \<in> insert b A. b \<le> w} = insert b A" using insert.hyps(2) by force
  moreover have "{w \<in> insert b A. v \<le> w} = {w \<in> A. v \<le> w}" if "v \<in> A" for v
    using insert.hyps(2) that by force
  ultimately have "newest m (insert b A) = (if card A < m then insert b (newest m A) else newest m A)"
    using insert.hyps(1) new by (auto simp: newest_def)
  moreover have "finite (newest m A)" "b \<notin> newest m A" using insert.hyps(1) new by (auto simp: newest_def)
  ultimately show ?case using insert.IH insert.hyps(1) new by auto
qed (simp add: newest_def)

lemma newest_upward: "finite S \<Longrightarrow> v \<in> newest m S \<Longrightarrow> w \<in> S \<Longrightarrow> v \<le> w \<Longrightarrow> w \<in> newest m S"
proof -
  assume a: "finite S" "v \<in> newest m S" "w \<in> S" "v \<le> w"
  then have "card {x \<in> S. w \<le> x} \<le> card {x \<in> S. v \<le> x}" by (intro card_mono) auto
  with a show ?thesis by (simp add: newest_def)
qed

definition policy :: "int option \<Rightarrow> nat set \<Rightarrow> nat set" where
  "policy keep S = (case keep of None \<Rightarrow> S | Some k \<Rightarrow> newest (nat (k - 1)) S)"

lemma retained_iff:
  assumes "content_at t n = Some r"
  shows "retained_version t n v \<longleftrightarrow> v \<in> set (version_numbers t n) \<and> v = ct_version r
     \<or> v \<in> policy (ct_keep r) (superseded t n (ct_version r))"
proof -
  have "int c \<le> max (k - 1) 0 \<longleftrightarrow> c \<le> nat (k - 1)" for c k by linarith
  then show ?thesis using assms
    by (auto simp: retained_version_def policy_def newest_def rank_card superseded_def split: option.splits)
qed

lemma pruned_versions:
  "set (version_numbers (pruned ts volume t) n) = {v \<in> set (version_numbers t n). spared ts volume t n v}"
  by (auto simp: set_version_numbers prunable_iff)

text \<open>
  The retention policy, exactly: of an entry nobody holds, a content prune leaves the
  committed version and the newest \<open>keep - 1\<close> of the superseded ones (all of them without a
  policy), and takes every version above the committed one.
\<close>

lemma prune_content_retention:
  assumes "\<not> in_txn s" and "pending_wm s = []" and "content_at (tabs s) n = Some r"
    and "n \<notin> lk_node ` set (valid_lock (sql_now s) (tabs s))"
    and "volume = None \<or> (\<exists>d \<in> set (nodes (tabs s)). nd_id d = n \<and> nd_volume d = volume)"
    and S: "S = superseded (tabs s) n (ct_version r)"
  shows "\<exists>counts s'. prune_content volume s = (Inr counts, s')
     \<and> set (version_numbers (tabs s') n) - {ct_version r} = policy (ct_keep r) S
     \<and> card (policy (ct_keep r) S) = (case ct_keep r of None \<Rightarrow> card S | Some k \<Rightarrow> min (nat (k - 1)) (card S))
     \<and> (\<forall>v \<in> policy (ct_keep r) S. \<forall>w \<in> S. v \<le> w \<longrightarrow> w \<in> policy (ct_keep r) S)"
proof -
  have sp: "spared (sql_now s) volume (tabs s) n v \<longleftrightarrow> retained_version (tabs s) n v" for v
    using assms(4,5) by (auto simp: spared_def)
  have sub: "policy (ct_keep r) S \<subseteq> S" by (auto simp: policy_def newest_def split: option.splits)
  have "set (version_numbers (pruned (sql_now s) volume (tabs s)) n) - {ct_version r} = policy (ct_keep r) S"
    unfolding pruned_versions sp retained_iff [OF assms(3)] using sub unfolding S
    by (auto simp: superseded_def)
  moreover have "card (policy (ct_keep r) S) = (case ct_keep r of None \<Rightarrow> card S | Some k \<Rightarrow> min (nat (k - 1)) (card S))"
    using S by (auto simp: policy_def card_newest split: option.splits)
  moreover have "\<forall>v \<in> policy (ct_keep r) S. \<forall>w \<in> S. v \<le> w \<longrightarrow> w \<in> policy (ct_keep r) S"
    using newest_upward [of S] S by (auto simp: policy_def split: option.splits)
  ultimately show ?thesis unfolding prune_content_eq [OF assms(1,2)] by auto
qed

text \<open>An entry with three superseded versions and a policy of two.\<close>

definition demo_history :: db where
  "demo_history = demo\<lparr>tabs := demo_tables\<lparr>contents := [\<lparr>ct_node = ''f'', ct_version = 4, ct_size = 1, ct_keep = Some 2\<rparr>],
     versions := map (\<lambda>v. \<lparr>cv_node = ''f'', cv_version = v, cv_index = 0, cv_hash = chunk_hash toy_lib [5]\<rparr>)
       [1, 2, 3, 4, 5]\<rparr>\<rparr>"

lemma prune_content_retention_witness:
  "\<exists>counts s'. prune_content (Some ''v'') demo_history = (Inr counts, s')
     \<and> set (version_numbers (tabs s') ''f'') - {4} = policy (Some 2) {1, 2, 3} \<and> card (policy (Some 2) {1, 2, 3}) = 1"
proof -
  have "superseded (tabs demo_history) ''f'' 4 = {1, 2, 3}"
    by (auto simp: superseded_def set_version_numbers demo_history_def)
  moreover have "\<not> in_txn demo_history" "pending_wm demo_history = []"
    "content_at (tabs demo_history) ''f'' = Some \<lparr>ct_node = ''f'', ct_version = 4, ct_size = 1, ct_keep = Some 2\<rparr>"
    "''f'' \<notin> lk_node ` set (valid_lock (sql_now demo_history) (tabs demo_history))"
    "\<exists>d \<in> set (nodes (tabs demo_history)). nd_id d = ''f'' \<and> nd_volume d = Some ''v''"
    by (simp_all add: demo_history_def demo_def demo_tables_def demo_node_def valid_lock_def)
  ultimately show ?thesis
    using prune_content_retention [of demo_history "''f''" "\<lparr>ct_node = ''f'', ct_version = 4, ct_size = 1, ct_keep = Some 2\<rparr>"
        "Some ''v''" "{1, 2, 3}"] by auto
qed

section \<open>A prune is complete\<close>

lemma spared_pruned:
  assumes "spared ts volume t n v" and "v \<in> set (version_numbers t n)"
  shows "spared ts volume (pruned ts volume t) n v"
proof -
  have sub: "superseded (pruned ts volume t) n k \<subseteq> superseded t n k" for k
    by (auto simp: superseded_def pruned_versions)
  then have "superseded_rank (pruned ts volume t) n k v \<le> superseded_rank t n k v" for k
    unfolding rank_card by (intro card_mono) auto
  then have "retained_version (pruned ts volume t) n v" if "retained_version t n v"
    using that assms unfolding retained_version_def
    by (auto simp: pruned_versions split: option.splits intro: order_trans [rotated])
  moreover have "valid_lock ts (pruned ts volume t) = valid_lock ts t"
    by (simp add: valid_lock_def lock_live_def cong: filter_cong)
  ultimately show ?thesis using assms(1) by (auto simp: spared_def)
qed

lemma pruned_twice: "pruned ts volume (pruned ts volume t) = pruned ts volume t"
proof -
  let ?u = "pruned ts volume t"
  have v: "versions (pruned ts volume ?u) = versions ?u"
  proof -
    have "\<not> prunable_version ts volume ?u r" if "r \<in> set (versions ?u)" for r
    proof -
      from that have "r \<in> set (versions t)" "spared ts volume t (cv_node r) (cv_version r)"
        by (simp_all add: prunable_iff)
      then show ?thesis using spared_pruned [of ts volume t "cv_node r" "cv_version r"]
        by (auto simp: prunable_iff set_version_numbers)
    qed
    then show ?thesis unfolding pruned_frame(8) [of ts volume ?u] by (intro filter_True ballI)
  qed
  have "chunks (pruned ts volume ?u) = chunks ?u"
    unfolding pruned_frame(9) [of ts volume ?u] v by (rule filter_True) (simp only: pruned_frame(9), simp)
  with v show ?thesis by (intro tables.equality) simp_all
qed

text \<open>
  A content prune is complete: afterwards every chunk in the pool is referenced by some
  version, and a second prune at the same time finds nothing to take.
\<close>

lemma prune_content_complete:
  assumes "\<not> in_txn s" and "pending_wm s = []"
  shows "\<exists>counts s'. prune_content volume s = (Inr counts, s')
     \<and> ch_hash ` set (chunks (tabs s')) \<subseteq> cv_hash ` set (versions (tabs s'))
     \<and> prune_content volume s' = (Inr (0, 0), s')"
proof -
  let ?u = "pruned (sql_now s) volume (tabs s)" and ?s = "s\<lparr>tabs := pruned (sql_now s) volume (tabs s)\<rparr>"
  have r: "ch_hash c \<in> cv_hash ` set (versions ?u)" if "c \<in> set (chunks ?u)" for c
    using that by (simp only: pruned_frame(9)) simp
  have v: "\<not> prunable_version (sql_now s) volume ?u q" if "q \<in> set (versions ?u)" for q
  proof -
    from that have "q \<in> set (versions (pruned (sql_now s) volume ?u))" by (simp only: pruned_twice)
    then show ?thesis by (simp only: pruned_frame(8)) simp
  qed
  have "prune_content volume ?s = (Inr (0, 0), ?s)"
    using prune_content_eq [of ?s volume] assms r v
    by (simp add: pruned_twice filter_empty_conv del: pruned_frame)
  then show ?thesis unfolding prune_content_eq [OF assms] using r by auto
qed

lemma prune_content_complete_witness:
  "\<exists>counts s'. prune_content None demo_history = (Inr counts, s') \<and> prune_content None s' = (Inr (0, 0), s')"
proof -
  have "\<not> in_txn demo_history" "pending_wm demo_history = []"
    by (simp_all add: demo_history_def demo_def)
  from prune_content_complete [OF this, of None] show ?thesis by blast
qed

end
