(* ===== verification/Verifying.thy ===== *)
theory Verifying
  imports Demo
begin

text \<open>
  What \<open>verify\<close> and \<open>prune\<close> of \<open>aloelite/operations.py\<close> guarantee. A clean deep verify means
  that the bytes of an entry can be read, authentic and of the recorded size, with one gap:
  an entry that has lost its whole manifest is not looked at.
\<close>

section \<open>The rows of one entry\<close>

definition rows_of :: "tables \<Rightarrow> content_row \<Rightarrow> manifest_row list" where
  "rows_of t c = map (\<lambda>r. \<lparr>mr_node = ct_node c, mr_version = ct_version c, mr_size = ct_size c,
     mr_index = cv_index r, mr_hash = cv_hash r, mr_chunk = chunk_at t (cv_hash r)\<rparr>)
       (version_rows t (ct_node c) (ct_version c))"

lemma verify_manifest_eq:
  "verify_manifest t v = concat (map (rows_of t) (sort_key ct_node
     (filter (\<lambda>c. \<exists>n \<in> set (nodes t). nd_id n = ct_node c \<and> nd_volume n = Some v) (contents t))))"
  by (simp add: verify_manifest_def rows_of_def [abs_def])

lemma rows_of_key: "r \<in> set (rows_of t c) \<Longrightarrow> group_key r = (ct_node c, ct_version c)"
  by (auto simp: rows_of_def group_key_def)

lemma filter_group:
  "distinct (map ct_node cs) \<Longrightarrow> c \<in> set cs \<Longrightarrow>
     filter (\<lambda>r. group_key r = (ct_node c, ct_version c)) (concat (map (rows_of t) cs)) = rows_of t c"
proof (induction cs)
  case (Cons d cs)
  have same: "filter (\<lambda>r. group_key r = (ct_node c, ct_version c)) (rows_of t c) = rows_of t c"
    by (rule filter_True) (simp add: rows_of_key)
  have other: "filter (\<lambda>r. group_key r = (ct_node c, ct_version c)) (rows_of t e) = []"
    if "ct_node e \<noteq> ct_node c" for e
    using that by (auto simp: filter_empty_conv dest: rows_of_key)
  have none: "filter (\<lambda>r. group_key r = (ct_node c, ct_version c)) (concat (map (rows_of t) es)) = []"
    if "ct_node c \<notin> ct_node ` set es" for es
    using that other by (induction es) auto
  show ?case
  proof (cases "d = c")
    case True
    with Cons.prems show ?thesis by (simp add: same none)
  next
    case False
    with Cons.prems have "ct_node d \<noteq> ct_node c" "c \<in> set cs" by force+
    with Cons show ?thesis by (simp add: other)
  qed
qed simp

lemma entry_group:
  assumes "distinct (map ct_node (contents t))" and "content_at t n = Some c"
    and "\<exists>d \<in> set (nodes t). nd_id d = n \<and> nd_volume d = Some v" and "rows_of t c \<noteq> []"
  shows "rows_of t c \<in> set (per_node (verify_manifest t v))"
    and "set (rows_of t c) \<subseteq> set (verify_manifest t v)"
proof -
  let ?cs = "sort_key ct_node
     (filter (\<lambda>c. \<exists>n \<in> set (nodes t). nd_id n = ct_node c \<and> nd_volume n = Some v) (contents t))"
  from assms(2) have c: "c \<in> set (contents t)" "ct_node c = n" by (auto dest: row_at_SomeD)
  with assms(3) have mem: "c \<in> set ?cs" by auto
  have "distinct (map ct_node ?cs)"
    using assms(1) by (auto simp: distinct_map intro: inj_on_subset)
  from filter_group [OF this mem, of t]
  have f: "filter (\<lambda>r. group_key r = (ct_node c, ct_version c)) (verify_manifest t v) = rows_of t c"
    by (simp only: verify_manifest_eq)
  from mem show sub: "set (rows_of t c) \<subseteq> set (verify_manifest t v)" by (auto simp: verify_manifest_eq)
  from assms(4) obtain r where r: "r \<in> set (rows_of t c)" by (cases "rows_of t c") auto
  with sub have "(ct_node c, ct_version c) \<in> group_key ` set (verify_manifest t v)"
    using rows_of_key [OF r] by (metis image_eqI subsetD)
  with f show "rows_of t c \<in> set (per_node (verify_manifest t v))"
    unfolding per_node_def by (auto intro!: rev_image_eqI)
qed

section \<open>What a clean group means\<close>

lemma clean_group:
  assumes "group_problems refs = []"
  shows "(\<forall>r \<in> set refs. mr_chunk r \<noteq> None) \<and> map mr_index refs = [0..<length refs]
     \<and> (refs \<noteq> [] \<longrightarrow> sum_list (map present_length refs) = mr_size (hd refs))"
  using assms by (cases refs) (auto simp: group_problems_def Let_def filter_empty_conv split: if_splits)

lemma clean_chunk:
  assumes "chunk_problems L c t h = []" and "chunk_at t h = Some ch"
  shows "chunk_hash L (ch_data ch) = h
     \<and> (\<exists>p. decrypt_chunk L c (ch_data ch) (ch_nonce ch) (ch_tag ch) = Some p \<and> length p = ch_length ch)"
  using assms by (auto simp: chunk_problems_def split: if_splits option.splits)

lemma clean_rows_read:
  assumes "\<forall>r \<in> set rs. \<exists>ch p. chunk_at t (cv_hash r) = Some ch
      \<and> decrypt_chunk L c (ch_data ch) (ch_nonce ch) (ch_tag ch) = Some p \<and> length p = ch_length ch"
  shows "\<exists>ps. decrypt_rows L c (join_chunks t rs) = Inr ps
     \<and> length (concat (map snd ps)) = sum_list (map (\<lambda>r. case chunk_at t (cv_hash r) of None \<Rightarrow> 0 | Some ch \<Rightarrow> ch_length ch) rs)"
  using assms
proof (induction rs)
  case (Cons r rs)
  then obtain ps where "decrypt_rows L c (join_chunks t rs) = Inr ps"
    "length (concat (map snd ps)) = sum_list (map (\<lambda>r. case chunk_at t (cv_hash r) of None \<Rightarrow> 0 | Some ch \<Rightarrow> ch_length ch) rs)"
    by auto
  with Cons.prems show ?case by (auto simp: join_chunks_def)
qed (simp add: join_chunks_def)

lemma verify_eq:
  assumes "require_mount mount False s = (Inr m, s)"
  shows "verify L mount True s =
     (Inr \<lparr>vr_entries = length (per_node (verify_manifest (tabs s) (m_volume m))),
        vr_chunks = length (seen_chunks (verify_manifest (tabs s) (m_volume m))),
        vr_problems = concat (map group_problems (per_node (verify_manifest (tabs s) (m_volume m))))
          @ concat (map (chunk_problems L (cipher_of s) (tabs s)) (seen_chunks (verify_manifest (tabs s) (m_volume m))))\<rparr>, s)"
  by (simp add: verify_def bind_op_def assms gets_def Let_def)



text \<open>
  The gap is real: an entry of five bytes whose manifest rows are all gone passes a deep
  verify without a problem, and reads as empty.
\<close>

lemma verify_misses_lost_manifest:
  "\<exists>s. map_sum id vr_problems (fst (verify toy_lib ''m'' True s)) = Inr []
     \<and> map_option ct_size (content_at (tabs s) ''f'') = Some 5 \<and> fst (read_all toy_lib ''m'' ''/a'' s) = Inr []"
proof (intro exI conjI)
  let ?s = "demo\<lparr>tabs := demo_tables\<lparr>versions := []\<rparr>\<rparr>"
  show "map_sum id vr_problems (fst (verify toy_lib ''m'' True ?s)) = Inr []" by code_simp
  show "map_option ct_size (content_at (tabs ?s) ''f'') = Some 5" by code_simp
  show "fst (read_all toy_lib ''m'' ''/a'' ?s) = Inr []" by code_simp
qed

section \<open>Pruning nodes and locks\<close>

lemma resolve_placed:
  assumes "edges t' = edges t" and "\<And>e. e \<in> set (edges t) \<Longrightarrow> type_at t' (eg_to e) = type_at t (eg_to e)"
    and "type_at t' mp = type_at t mp"
  shows "resolve t' mp path = resolve t mp path"
proof -
  have c: "child_ids t' = child_ids t"
    using assms(1,2) by (auto simp: child_ids_def active_edge_def fun_eq_iff intro!: arg_cong [where f = "map eg_to"] filter_cong)
  have ty: "type_at t' n = type_at t n" if "max_id (child_ids t d nm) = Some n" for d nm n
  proof -
    have "n \<in> set (child_ids t d nm)"
      using that Max_in [of "set (child_ids t d nm)"] by (cases "child_ids t d nm") (auto simp: max_id_eq max_id_def)
    then show ?thesis using assms(2) by (auto simp: child_ids_def active_edge_def)
  qed
  have "resolve_segment t' d nm = resolve_segment t d nm" for d nm
    using ty [of d nm] by (auto simp: resolve_segment_ids c split: option.splits)
  then have "fold_segments t' n y segs = fold_segments t n y segs" for n y segs
    by (induction segs arbitrary: n y) (simp_all cong: option.case_cong)
  moreover have "map_option nd_type (node_at t' mp) = map_option nd_type (node_at t mp)"
    using assms(3) by (simp add: type_at_def)
  ultimately show ?thesis
    by (cases "split_path path = []"; cases "node_at t mp"; cases "node_at t' mp")
      (auto simp: resolve_root resolve_eq_fold)
qed

definition dead_nodes :: "volume_id option \<Rightarrow> tables \<Rightarrow> node_id set" where
  "dead_nodes volume t = {nd_id r |r. r \<in> set (nodes t) \<and> volatile_node t (nd_id r)
     \<and> (volume = None \<or> nd_volume r = volume)}"

lemma prune_nodes_Inr:
  assumes "prune_nodes volume t = Inr (k, t')"
  shows "edges t' = edges t \<and> locks t' = locks t
     \<and> nodes t' = filter (\<lambda>r. nd_id r \<notin> dead_nodes volume t) (nodes t)"
proof -
  have "set (map nd_id (filter (\<lambda>r. volatile_node t (nd_id r) \<and> (volume = None \<or> nd_volume r = volume)) (nodes t)))
      = dead_nodes volume t" by (auto simp: dead_nodes_def)
  with assms show ?thesis unfolding prune_nodes_def Let_def by (auto split: if_splits)
qed

lemma volatile_frame [simp]: "volatile_node (t\<lparr>locks := ls\<rparr>) n = volatile_node t n"
  by (simp add: volatile_node_def)

lemma dead_frame [simp]: "dead_nodes volume (t\<lparr>locks := ls\<rparr>) = dead_nodes volume t"
  by (simp add: dead_nodes_def)

lemma prune_eq:
  assumes "\<not> in_txn s" and "pending_wm s = []" and "prune volume s = (Inr r, s')"
  shows "locks (tabs s') = valid_lock (sql_now s) (tabs s) \<and> edges (tabs s') = edges (tabs s)
     \<and> nodes (tabs s') = filter (\<lambda>r. nd_id r \<notin> dead_nodes volume (tabs s)) (nodes (tabs s))"
  using assms
  by (auto simp: prune_def txn_def bind_op_def gets_def ret_def sql_count_def sql_rows_def prune_locks_def
      flush_nothing split: sum.splits prod.splits dest!: prune_nodes_Inr)

text \<open>C28
  \<open>prune\<close> takes the locks that are no longer valid, and the nodes without any edge, archived
  ones included, that are no root: a node that was ever placed is never taken, and every
  path resolves as before.
\<close>

theorem prune_takes_orphans_only:
  assumes "\<not> in_txn s" and "pending_wm s = []" and "prune volume s = (Inr r, s')"
    and "\<not> volatile_node (tabs s) mp"
  shows "locks (tabs s') = valid_lock (sql_now s) (tabs s)
     \<and> (\<forall>e \<in> set (edges (tabs s)). node_at (tabs s') (eg_to e) = node_at (tabs s) (eg_to e))
     \<and> resolve (tabs s') mp path = resolve (tabs s) mp path"
proof -
  note p = prune_eq [OF assms(1-3)]
  have node: "node_at (tabs s') n = node_at (tabs s) n" if "\<not> volatile_node (tabs s) n" for n
  proof -
    from that have "n \<notin> dead_nodes volume (tabs s)" by (auto simp: dead_nodes_def)
    then have "row_at nd_id n (filter (\<lambda>r. nd_id r \<notin> dead_nodes volume (tabs s)) rs) = row_at nd_id n rs" for rs
      by (induction rs) auto
    with p show ?thesis by simp
  qed
  have placed: "\<not> volatile_node (tabs s) (eg_to e)" if "e \<in> set (edges (tabs s))" for e
    using that by (auto simp: volatile_node_def)
  have "resolve (tabs s') mp path = resolve (tabs s) mp path"
    using p node placed assms(4) by (intro resolve_placed) (simp_all add: type_at_def)
  with p node placed show ?thesis by blast
qed

text \<open>The demo file with a node that has no edge.\<close>

definition demo_orphan :: db where
  "demo_orphan = demo\<lparr>tabs := demo_tables\<lparr>nodes := demo_node ''x'' ENTRY ''x'' # nodes demo_tables\<rparr>\<rparr>"

theorem prune_takes_orphans_only_witness:
  "\<exists>r s'. prune None demo_orphan = (Inr r, s') \<and> node_at (tabs s') ''x'' = None
     \<and> resolve (tabs s') ''r'' ''/dir/b'' = resolve (tabs demo_orphan) ''r'' ''/dir/b''"
proof -
  have "fst (prune None demo_orphan) = Inr (1, 0)" by code_simp
  then obtain s' where p: "prune None demo_orphan = (Inr (1, 0), s')" by (metis prod.collapse)
  have i: "\<not> in_txn demo_orphan" "pending_wm demo_orphan = []" "\<not> volatile_node (tabs demo_orphan) ''r''"
    by (simp_all add: demo_orphan_def demo_def demo_tables_def volatile_node_def)
  have "node_at (tabs (snd (prune None demo_orphan))) ''x'' = None" by code_simp
  with prune_takes_orphans_only [OF i(1,2) p i(3), of "''/dir/b''"] p show ?thesis by auto
qed

end
