(* ===== verification/Namespace.thy ===== *)
theory Namespace
  imports Demo
begin

text \<open>
  The namespace of a file as an abstract object, and the structural operations of
  \<open>aloelite/operations.py\<close> as refinements of operations on it. A \<open>namespace\<close> is the set of
  the active placements (container, name, node) and the types of the nodes. Paths are read
  off it alone: a name in a container is the greatest of the nodes placed there under it.
  \<open>ns_step\<close> says what each operation means, and \<open>namespace_refined\<close> that the code does it.
\<close>

section \<open>Abstract namespaces\<close>

record namespace =
  ns_places :: "(node_id \<times> string \<times> node_id) set"
  ns_types :: "node_id \<rightharpoonup> node_type"

definition ns_children :: "namespace \<Rightarrow> node_id \<Rightarrow> string \<Rightarrow> node_id set" where
  "ns_children ns d nm = {n. (d, nm, n) \<in> ns_places ns \<and> ns_types ns n \<noteq> None}"

definition ns_segment :: "namespace \<Rightarrow> node_id \<Rightarrow> string \<Rightarrow> (node_id \<times> node_type) option" where
  "ns_segment ns d nm =
     (if ns_children ns d nm = {} then None
      else map_option (\<lambda>ty. (Max (ns_children ns d nm), ty)) (ns_types ns (Max (ns_children ns d nm))))"

fun ns_walk :: "namespace \<Rightarrow> node_id \<Rightarrow> node_type \<Rightarrow> string list \<Rightarrow> fs_error + node_id \<times> node_type" where
  "ns_walk ns n ty [] = Inr (n, ty)"
| "ns_walk ns n ty (s # ss) =
     (if ty \<noteq> CONTAINER then Inl NotAContainer
      else case ns_segment ns n s of None \<Rightarrow> Inl NotFound | Some (n', ty') \<Rightarrow> ns_walk ns n' ty' ss)"

definition ns_find :: "namespace \<Rightarrow> node_id \<Rightarrow> string \<Rightarrow> fs_error + node_id \<times> node_type" where
  "ns_find ns mp path =
     (if split_path path = [] then (case ns_types ns mp of None \<Rightarrow> Inl NotFound | Some ty \<Rightarrow> Inr (mp, ty))
      else ns_walk ns mp CONTAINER (split_path path))"

definition ns_parent :: "namespace \<Rightarrow> node_id \<Rightarrow> string \<Rightarrow> fs_error + node_id \<times> string" where
  "ns_parent ns mp path =
     (if split_path path = [] then Inl NotFound
      else case ns_walk ns mp CONTAINER (butlast (split_path path)) of
        Inl e \<Rightarrow> Inl e
      | Inr (p, ty) \<Rightarrow> if ty \<noteq> CONTAINER then Inl NotAContainer else Inr (p, last (split_path path)))"

definition namespace_of :: "tables \<Rightarrow> namespace" where
  "namespace_of t = \<lparr>ns_places = {(eg_from e, eg_name e, eg_to e) | e. e \<in> set (active_edge t)}, ns_types = type_at t\<rparr>"

lemma ns_types_of [simp]: "ns_types (namespace_of t) = type_at t"
  by (simp add: namespace_of_def)

lemma ns_places_of: "ns_places (namespace_of t) = set (map (\<lambda>e. (eg_from e, eg_name e, eg_to e)) (active_edge t))"
  by (auto simp: namespace_of_def)

lemma ns_children_of: "ns_children (namespace_of t) d nm = set (child_ids t d nm)"
  by (auto simp: ns_children_def namespace_of_def child_ids_def)

lemma ns_segment_of: "ns_segment (namespace_of t) d nm = resolve_segment t d nm"
  unfolding resolve_segment_ids ns_segment_def ns_children_of
  by (simp add: max_id_eq namespace_of_def cong: option.case_cong)

lemma ns_walk_of:
  "ns_walk (namespace_of t) n ty segs = map_sum id (\<lambda>r. (rs_node r, rs_type r)) (fold_segments t n ty segs)"
  by (induction segs arbitrary: n ty) (auto simp: ns_segment_of split: option.splits)

lemma ns_find_of: "ns_find (namespace_of t) mp path = map_sum id (\<lambda>r. (rs_node r, rs_type r)) (resolve t mp path)"
  by (auto simp: ns_find_def ns_walk_of resolve_root resolve_eq_fold type_at_def split: option.splits)

lemma ns_parent_of: "ns_parent (namespace_of t) mp path = resolve_parent t mp path"
proof (cases "split_path path = []")
  case False
  then show ?thesis
    by (simp add: ns_parent_def ns_walk_of resolve_parent_eq_fold split: sum.splits)
qed (simp add: ns_parent_def resolve_parent_def)

section \<open>Ancestors and subtrees\<close>

definition ns_child :: "namespace \<Rightarrow> (node_id \<times> node_id) set" where
  "ns_child ns = {(d, n). \<exists>nm. (d, nm, n) \<in> ns_places ns}"

lemma ns_child_of: "ns_child (namespace_of t) = placement t"
  by (auto simp: ns_child_def namespace_of_def placement_def)

lemma ancestors_Nil [simp]: "ancestors t k [] = []"
  by (cases k) simp_all

lemma relpow_first: "(a, b) \<in> R ^^ Suc k \<longleftrightarrow> (\<exists>c. (a, c) \<in> R \<and> (c, b) \<in> R ^^ k)"
  by (metis relpow_Suc_D2 relpow_Suc_I2)

lemma ex_from_one: "(\<exists>j. 1 \<le> j \<and> j \<le> Suc k \<and> Q j) \<longleftrightarrow> Q 1 \<or> (\<exists>j. 1 \<le> j \<and> j \<le> k \<and> Q (Suc j))"
proof (intro iffI; elim exE conjE disjE)
  fix j assume "1 \<le> j" "j \<le> Suc k" "Q j"
  then show "Q 1 \<or> (\<exists>j. 1 \<le> j \<and> j \<le> k \<and> Q (Suc j))"
    by (cases "j = 1") (auto intro!: exI [of _ "j - 1"])
qed auto

lemma ex_from_zero: "(\<exists>j \<le> Suc k. Q j) \<longleftrightarrow> Q 0 \<or> (\<exists>j \<le> k. Q (Suc j))"
proof (intro iffI; elim exE conjE disjE)
  fix j assume "j \<le> Suc k" "Q j"
  then show "Q 0 \<or> (\<exists>j \<le> k. Q (Suc j))" by (cases j) auto
qed auto

lemma ancestors_iff:
  "a \<in> set (ancestors t k ns) \<longleftrightarrow> (\<exists>n \<in> set ns. \<exists>j. 1 \<le> j \<and> j \<le> k \<and> (a, n) \<in> placement t ^^ j)"
proof (induction k arbitrary: ns)
  case (Suc k)
  let ?ps = "concat (map (parents t) ns)"
  have par: "p \<in> set (parents t n) \<longleftrightarrow> (p, n) \<in> placement t" for p n
    by (auto simp: parents_def placement_def)
  have ps: "p \<in> set ?ps \<longleftrightarrow> (\<exists>n \<in> set ns. (p, n) \<in> placement t)" for p
    by (simp add: par)
  have "a \<in> set (ancestors t (Suc k) ns) \<longleftrightarrow> a \<in> set ?ps \<or> a \<in> set (ancestors t k ?ps)"
    by (cases "ns = []") (simp_all add: Let_def)
  also have "\<dots> \<longleftrightarrow> (\<exists>n \<in> set ns. (a, n) \<in> placement t
      \<or> (\<exists>j. 1 \<le> j \<and> j \<le> k \<and> (a, n) \<in> placement t ^^ Suc j))"
  proof -
    have "(a, n) \<in> placement t ^^ Suc j \<longleftrightarrow> (\<exists>p. (p, n) \<in> placement t \<and> (a, p) \<in> placement t ^^ j)" for n j
      by (auto simp: relcomp_unfold)
    moreover have "a \<in> set (ancestors t k ?ps) \<longleftrightarrow>
        (\<exists>p. (\<exists>n \<in> set ns. (p, n) \<in> placement t) \<and> (\<exists>j. 1 \<le> j \<and> j \<le> k \<and> (a, p) \<in> placement t ^^ j))"
      unfolding Suc.IH Bex_def ps ..
    ultimately show ?thesis unfolding ps by blast
  qed
  also have "\<dots> \<longleftrightarrow> (\<exists>n \<in> set ns. \<exists>j. 1 \<le> j \<and> j \<le> Suc k \<and> (a, n) \<in> placement t ^^ j)"
    unfolding ex_from_one by simp
  finally show ?case .
qed simp

text \<open>The guard against cycles, exactly: the node itself, or up to 256 placements above.\<close>

definition ns_cycle :: "namespace \<Rightarrow> node_id \<Rightarrow> node_id \<Rightarrow> bool" where
  "ns_cycle ns n p \<longleftrightarrow> (\<exists>j \<le> 256. (n, p) \<in> ns_child ns ^^ j)"

lemma ns_cycle_of: "ns_cycle (namespace_of t) n p \<longleftrightarrow> check_cycle t n p"
proof -
  have "(\<exists>j \<le> k. Q j) \<longleftrightarrow> Q 0 \<or> (\<exists>j. 1 \<le> j \<and> j \<le> k \<and> Q j)" for Q and k :: nat
    by (metis One_nat_def Suc_leI le0 neq0_conv)
  from this [of 256 "\<lambda>j. (n, p) \<in> placement t ^^ j"] show ?thesis
    by (auto simp: ns_cycle_def ns_child_of check_cycle_def node_ancestor_def ancestors_iff depth_bound_def)
qed

lemma subtree_levels_Nil [simp]: "subtree_levels t k [] = []"
  by (cases k) simp_all

lemma subtree_levels_iff:
  "n \<in> st_node ` set (subtree_levels t k ws) \<longleftrightarrow>
     (\<exists>w \<in> set ws. \<exists>j \<le> k. (st_node w, n) \<in> placement t ^^ j)"
proof (induction k arbitrary: ws)
  case (Suc k)
  let ?cs = "concat (map (child_rows t) ws)"
  have step: "(\<exists>w \<in> set ?cs. Q (st_node w)) \<longleftrightarrow> (\<exists>w \<in> set ws. \<exists>c. (st_node w, c) \<in> placement t \<and> Q c)" for Q
  proof -
    have "st_node ` set (child_rows t w) = {c. (st_node w, c) \<in> placement t}" for w
      by (force simp: child_rows_def placement_def image_iff)
    then have "(\<exists>x \<in> set (child_rows t w). Q (st_node x)) \<longleftrightarrow> (\<exists>c. (st_node w, c) \<in> placement t \<and> Q c)" for w
      by (metis (mono_tags, lifting) image_iff mem_Collect_eq)
    then show ?thesis by (simp add: image_iff)
  qed
  have "n \<in> st_node ` set (subtree_levels t (Suc k) ws) \<longleftrightarrow>
      n \<in> st_node ` set ws \<or> n \<in> st_node ` set (subtree_levels t k ?cs)" by auto
  also have "\<dots> \<longleftrightarrow> (\<exists>w \<in> set ws. st_node w = n
      \<or> (\<exists>c. (st_node w, c) \<in> placement t \<and> (\<exists>j \<le> k. (c, n) \<in> placement t ^^ j)))"
    unfolding trans [OF Suc.IH step] by auto
  also have "\<dots> \<longleftrightarrow> (\<exists>w \<in> set ws. \<exists>j \<le> Suc k. (st_node w, n) \<in> placement t ^^ j)"
  proof (rule bex_cong [OF refl])
    fix w
    show "(st_node w = n \<or> (\<exists>c. (st_node w, c) \<in> placement t \<and> (\<exists>j \<le> k. (c, n) \<in> placement t ^^ j))) \<longleftrightarrow>
        (\<exists>j \<le> Suc k. (st_node w, n) \<in> placement t ^^ j)"
      unfolding ex_from_zero relpow_first by auto
  qed
  finally show ?case .
qed (auto simp: image_iff)

definition ns_subtree :: "namespace \<Rightarrow> node_id \<Rightarrow> node_id set" where
  "ns_subtree ns root = {n. \<exists>j \<le> 256. (root, n) \<in> ns_child ns ^^ j}"

lemma ns_subtree_of: "node_at t root \<noteq> None \<Longrightarrow> st_node ` set (subtree t root) = ns_subtree (namespace_of t) root"
  by (auto simp: subtree_def ns_subtree_def ns_child_of depth_bound_def subtree_levels_iff set_eq_iff)

section \<open>What the templates do to the namespace\<close>

lemma namespace_same: "edges t' = edges t \<Longrightarrow> type_at t' = type_at t \<Longrightarrow> namespace_of t' = namespace_of t"
  by (simp add: namespace_of_def active_edge_def)

lemma type_at_ctime [simp]: "type_at (touch_ctime ts n t) = type_at t"
  by (auto simp: fun_eq_iff touch_ctime_def type_at_def row_at_update option.map_comp comp_def intro!: option.map_cong)

lemma edges_ctime [simp]: "edges (touch_ctime ts n t) = edges t"
  by (simp add: touch_ctime_def)

lemma namespace_insert_edge:
  assumes "insert_edge ts r t = Inr t'" and "\<not> eg_archived r"
  shows "namespace_of t' = (namespace_of t)\<lparr>ns_places := insert (eg_from r, eg_name r, eg_to r) (ns_places (namespace_of t))\<rparr>"
proof -
  from assms have "t' = touch_ctime ts (eg_to r) (t\<lparr>edges := edges t @ [r]\<rparr>)"
    by (auto simp: insert_edge_def Let_def split: if_splits)
  moreover have "type_at (t\<lparr>edges := es\<rparr>) = type_at t" for es by (simp add: type_at_def fun_eq_iff)
  ultimately have "edges t' = edges t @ [r]" "type_at t' = type_at t" by simp_all
  with assms(2) show ?thesis by (auto simp: namespace_of_def active_edge_def)
qed

lemma namespace_archive:
  "namespace_of (snd (archive_where ts P t)) =
     (namespace_of t)\<lparr>ns_places := {(eg_from e, eg_name e, eg_to e) |e. e \<in> set (active_edge t) \<and> \<not> P e}\<rparr>"
proof -
  have f: "edges (fold (\<lambda>e. touch_ctime ts (eg_to e)) es u) = edges u"
    "type_at (fold (\<lambda>e. touch_ctime ts (eg_to e)) es u) = type_at u" for es :: "edge_row list" and u
    by (induction es arbitrary: u) simp_all
  have "type_at (t\<lparr>edges := es\<rparr>) = type_at t" for es by (simp add: type_at_def fun_eq_iff)
  then show ?thesis
    by (auto simp: archive_where_def Let_def namespace_of_def active_edge_def f split: if_splits)
qed

lemma namespace_insert_node:
  assumes "insert_node r t = Inr t'"
  shows "namespace_of t' = (namespace_of t)\<lparr>ns_types := (type_at t)(nd_id r \<mapsto> nd_type r)\<rparr>"
    and "type_at t (nd_id r) = None" and "node_at t' (nd_id r) = Some r"
  using assms
  by (auto simp: insert_node_def namespace_of_def active_edge_def type_at_def fun_eq_iff row_at_insert split: if_splits option.splits)

lemma namespace_flush [simp]: "namespace_of (tabs (flush_watermarks s)) = namespace_of (tabs s)"
proof -
  have "edges (fold (\<lambda>(v, st). raise_wm v st) ws t) = edges t"
    "nodes (fold (\<lambda>(v, st). raise_wm v st) ws t) = nodes t" for ws t
    by (induction ws arbitrary: t) (auto simp: raise_wm_def)
  then show ?thesis by (intro namespace_same) (simp_all add: flush_watermarks_def type_at_def fun_eq_iff)
qed

lemma node_flush [simp]: "node_at (tabs (flush_watermarks s)) n = node_at (tabs s) n"
proof -
  have "nodes (fold (\<lambda>(v, st). raise_wm v st) ws t) = nodes t" for ws t
    by (induction ws arbitrary: t) (auto simp: raise_wm_def)
  then show ?thesis by (simp add: flush_watermarks_def)
qed

section \<open>What the steps of an operation do\<close>

lemma mint_tabs: "mint_id v s = (r, s') \<Longrightarrow> tabs s' = tabs s"
  by (auto simp: mint_id_def Let_def split: prod.splits sum.splits)

lemma create_monotonic_Inr:
  assumes "create_monotonic ins (Some v) s = (Inr i, s')"
  shows "\<exists>t. ins i (tabs s) = Inr t \<and> namespace_of (tabs s') = namespace_of t \<and> (\<forall>n. node_at (tabs s') n = node_at t n)"
proof -
  from assms obtain s1 t where "mint_id v s = (Inr i, s1)" "ins i (tabs s1) = Inr t"
    and s': "tabs s' = t \<or> tabs s' = tabs (flush_watermarks (s1\<lparr>tabs := t\<rparr>))"
    by (auto simp: create_monotonic_def op_elims flush_if_idle_def split: if_splits)
  then have "ins i (tabs s) = Inr t" by (simp add: mint_tabs)
  moreover have "namespace_of (tabs s') = namespace_of t \<and> (\<forall>n. node_at (tabs s') n = node_at t n)"
    using s' by auto
  ultimately show ?thesis by blast
qed

lemma new_node_Inr:
  assumes "new_node m ty nm c md meta s = (Inr n, s')"
  shows "type_at (tabs s) n = None
     \<and> namespace_of (tabs s') = (namespace_of (tabs s))\<lparr>ns_types := (type_at (tabs s))(n \<mapsto> ty)\<rparr>
     \<and> (\<exists>r. node_at (tabs s') n = Some r \<and> nd_name r = nm)"
proof -
  from assms obtain c' where "create_monotonic (create_node_sql ty nm c' md (Some (m_volume m)) (meta_to_json meta))
      (Some (m_volume m)) s = (Inr n, s')" by (auto simp: new_node_def op_elims)
  from create_monotonic_Inr [OF this] obtain t where
    "create_node_sql ty nm c' md (Some (m_volume m)) (meta_to_json meta) n (tabs s) = Inr t"
    "namespace_of (tabs s') = namespace_of t" "node_at (tabs s') n = node_at t n" by blast
  then obtain r where "insert_node r (tabs s) = Inr t" "nd_id r = n" "nd_type r = ty" "nd_name r = nm"
    "namespace_of (tabs s') = namespace_of t" "node_at (tabs s') n = node_at t n"
    by (auto simp: create_node_sql_def)
  with namespace_insert_node [OF this(1)] show ?thesis by auto
qed

lemma link_node_Inr:
  assumes "link_node m p n nm s = (Inr e, s')"
  shows "\<exists>x. (case nm of Some y \<Rightarrow> x = y | None \<Rightarrow> \<exists>r. node_at (tabs s) n = Some r \<and> nd_name r = x)
     \<and> namespace_of (tabs s') = (namespace_of (tabs s))\<lparr>ns_places := insert (p, x, n) (ns_places (namespace_of (tabs s)))\<rparr>"
proof -
  from assms obtain ts where "create_monotonic (create_edge_sql ts p n (m_volume m) nm) (Some (m_volume m)) s = (Inr e, s')"
    by (auto simp: link_node_def op_elims)
  from create_monotonic_Inr [OF this] obtain t where
    t: "create_edge_sql ts p n (m_volume m) nm e (tabs s) = Inr t" "namespace_of (tabs s') = namespace_of t" by blast
  then show ?thesis
    by (auto simp: create_edge_sql_def split: option.splits dest!: namespace_insert_edge)
qed

text \<open>Storing content leaves nodes and placements alone.\<close>

definition nodes_and_edges :: "node_row list \<Rightarrow> edge_row list \<Rightarrow> db \<Rightarrow> bool" where
  "nodes_and_edges ns es s \<longleftrightarrow> nodes (tabs s) = ns \<and> edges (tabs s) = es"

lemma content_keeps_nodes: "preserves (nodes_and_edges ns es) (put_initial_content L m n data)"
proof -
  have ver: "insert_version r t = Inr t' \<Longrightarrow> nodes t' = nodes t \<and> edges t' = edges t" for r t t'
    by (auto simp: insert_version_def split: if_splits)
  have st: "preserves (nodes_and_edges ns es) (stage_chunk L n v i p)" for v i p
    unfolding stage_chunk_def Let_def
  proof (rule preserves_bind)
    show "preserves (nodes_and_edges ns es) (encrypt_op L p)"
      by (simp add: preserves_def nodes_and_edges_def encrypt_op_def)
    have "preserves (nodes_and_edges ns es) (sql_update (upsert_chunk_row c))" for c
      by (simp add: preserves_def nodes_and_edges_def sql_update_def upsert_chunk_row_def)
    moreover have "preserves (nodes_and_edges ns es) (sql (insert_version r))" for r
      using ver by (auto simp: preserves_def nodes_and_edges_def sql_def split: sum.splits)
    ultimately show "preserves (nodes_and_edges ns es) (case x of (ct, n_c, tag) \<Rightarrow>
        bind_op (sql_update (upsert_chunk_row \<lparr>ch_hash = chunk_hash L ct, ch_data = ct,
          ch_length = length p, ch_nonce = n_c, ch_tag = tag\<rparr>))
        (\<lambda>_. sql (insert_version \<lparr>cv_node = n, cv_version = v, cv_index = i, cv_hash = chunk_hash L ct\<rparr>)))" for x
      by (cases x) (auto intro!: preserves_bind)
  qed
  have "preserves (nodes_and_edges ns es) (stage_list L n v i ps)" for v i ps
    by (induction ps arbitrary: i) (auto intro!: preserving st)
  moreover have "preserves (nodes_and_edges ns es) (sql (insert_content c))" for c
    by (auto simp: preserves_def nodes_and_edges_def sql_def insert_content_def split: sum.splits if_splits)
  moreover have "preserves (nodes_and_edges ns es) (chunk_size_of v)" "preserves (nodes_and_edges ns es) (split_op k d)" for v k d
    unfolding chunk_size_of_def split_op_def by (intro preserving)+
  ultimately show ?thesis
    unfolding put_initial_content_def stage_chunks_def Let_def by (intro preserving)
qed

lemma put_initial_content_Inr:
  assumes "put_initial_content L m n data s = (Inr u, s')"
  shows "namespace_of (tabs s') = namespace_of (tabs s) \<and> node_at (tabs s') k = node_at (tabs s) k"
proof -
  have "nodes_and_edges (nodes (tabs s)) (edges (tabs s)) s" by (simp add: nodes_and_edges_def)
  with content_keeps_nodes [of "nodes (tabs s)" "edges (tabs s)" L m n data] assms
  have "nodes_and_edges (nodes (tabs s)) (edges (tabs s)) s'" unfolding preserves_def by (metis snd_conv)
  then show ?thesis by (simp add: nodes_and_edges_def namespace_of_def active_edge_def type_at_def fun_eq_iff)
qed

lemma txn_InrD:
  assumes "txn m s = (Inr x, s')"
  shows "\<exists>s1. m (s\<lparr>in_txn := True\<rparr>) = (Inr x, s1) \<and> namespace_of (tabs s') = namespace_of (tabs s1)"
  using assms by (auto simp: txn_def split: if_splits prod.splits sum.splits)

section \<open>The specification\<close>

datatype ns_cmd =
    Ns_Create string node_type bytes
  | Ns_Link string string
  | Ns_Rename string string
  | Ns_Move string string
  | Ns_Remove string
  | Ns_Remove_Tree string

definition ns_place :: "node_id \<times> string \<times> node_id \<Rightarrow> namespace \<Rightarrow> namespace" where
  "ns_place x ns = ns\<lparr>ns_places := insert x (ns_places ns)\<rparr>"

definition ns_unplace :: "(node_id \<times> string \<times> node_id) set \<Rightarrow> namespace \<Rightarrow> namespace" where
  "ns_unplace X ns = ns\<lparr>ns_places := ns_places ns - X\<rparr>"

text \<open>The operations on the mount at \<open>mp\<close>; \<open>new\<close> is the id a creation was given.\<close>

fun ns_step :: "node_id \<Rightarrow> node_id option \<Rightarrow> ns_cmd \<Rightarrow> namespace \<Rightarrow> fs_error + namespace" where
  "ns_step mp new (Ns_Create path ty data) ns =
     (case ns_parent ns mp path of Inl e \<Rightarrow> Inl e
      | Inr (p, nm) \<Rightarrow> Inr (ns_place (p, nm, the new) (ns\<lparr>ns_types := (ns_types ns)(the new \<mapsto> ty)\<rparr>)))"
| "ns_step mp new (Ns_Link src dst) ns =
     (case ns_find ns mp src of Inl e \<Rightarrow> Inl e
      | Inr (n, ty) \<Rightarrow> if ty = CONTAINER then Inl NotAnEntry
          else (case ns_parent ns mp dst of Inl e \<Rightarrow> Inl e
                | Inr (p, nm) \<Rightarrow> if ns_segment ns p nm \<noteq> None then Inl AlreadyExists
                    else Inr (ns_place (p, nm, n) ns)))"
| "ns_step mp new (Ns_Rename path nm) ns =
     (if nm = [] then Inl Nameless
      else case ns_parent ns mp path of Inl e \<Rightarrow> Inl e
      | Inr (p, old) \<Rightarrow> (case ns_find ns mp path of Inl e \<Rightarrow> Inl e
          | Inr (n, ty) \<Rightarrow> Inr (ns_place (p, nm, n) (ns_unplace {(p, old, n)} ns))))"
| "ns_step mp new (Ns_Move src dst) ns =
     (case ns_find ns mp src of Inl e \<Rightarrow> Inl e
      | Inr (n, ty) \<Rightarrow> (case ns_parent ns mp src of Inl e \<Rightarrow> Inl e
          | Inr (p, old) \<Rightarrow> (case ns_parent ns mp dst of Inl e \<Rightarrow> Inl e
              | Inr (q, nm) \<Rightarrow> if ty = CONTAINER \<and> ns_cycle ns n q then Inl WouldCycle
                  else Inr (ns_place (q, nm, n) (ns_unplace {(p, old, n)} ns)))))"
| "ns_step mp new (Ns_Remove path) ns =
     (case ns_find ns mp path of Inl e \<Rightarrow> Inl e
      | Inr (n, ty) \<Rightarrow> if ty = CONTAINER \<and> (\<exists>x c. (n, x, c) \<in> ns_places ns) then Inl NotEmpty
          else (case ns_parent ns mp path of Inl e \<Rightarrow> Inl e
                | Inr (p, nm) \<Rightarrow> Inr (ns_unplace {(p, nm, n)} ns)))"
| "ns_step mp new (Ns_Remove_Tree path) ns =
     (case ns_find ns mp path of Inl e \<Rightarrow> Inl e
      | Inr (n, ty) \<Rightarrow> Inr (ns_unplace {(d, x, c). c \<in> ns_subtree ns n} ns))"

fun ns_call :: "crypto_lib \<Rightarrow> mount_id \<Rightarrow> ns_cmd \<Rightarrow> node_id option op" where
  "ns_call L mount (Ns_Create path ty data) =
     bind_op (if ty = CONTAINER then create_container mount path
              else if ty = ENTRY then create_entry L mount path data
              else create_special L mount path ty data) (\<lambda>n. ret (Some n))"
| "ns_call L mount (Ns_Link src dst) = bind_op (link mount src dst) (\<lambda>_. ret None)"
| "ns_call L mount (Ns_Rename path nm) = bind_op (rename mount path nm) (\<lambda>_. ret None)"
| "ns_call L mount (Ns_Move src dst) = bind_op (move mount src dst) (\<lambda>_. ret None)"
| "ns_call L mount (Ns_Remove path) = bind_op (remove mount path) (\<lambda>_. ret None)"
| "ns_call L mount (Ns_Remove_Tree path) = bind_op (remove_recursive mount path) (\<lambda>_. ret None)"

section \<open>The operations refine it\<close>

lemma require_mount_txn:
  "require_mount mount w s = (Inr m, s) \<Longrightarrow>
     require_mount mount w (s\<lparr>in_txn := True\<rparr>) = (Inr m', s') \<longleftrightarrow> m' = m \<and> s' = s\<lparr>in_txn := True\<rparr>"
  using require_mount_same [of s "s\<lparr>in_txn := True\<rparr>" mount w] require_mount_reads [of mount w "s\<lparr>in_txn := True\<rparr>"]
  by (cases "require_mount mount w (s\<lparr>in_txn := True\<rparr>)") auto

text \<open>Inversion of a successful run, one rule per primitive.\<close>

lemma run_Inr:
  "ret x s = (Inr y, s') \<longleftrightarrow> y = x \<and> s' = s"
  "fail e s = (Inr y, s') \<longleftrightarrow> False"
  "guard_op b e s = (Inr u, s') \<longleftrightarrow> b \<and> s' = s"
  "gets g s = (Inr z, s') \<longleftrightarrow> z = g s \<and> s' = s"
  "get_sum h s = (Inr v, s') \<longleftrightarrow> h s = Inr v \<and> s' = s"
  "sql_update f s = (Inr u, s') \<longleftrightarrow> s' = s\<lparr>tabs := f (tabs s)\<rparr>"
  "sql_count c s = (Inr k, s') \<longleftrightarrow> k = fst (c (tabs s)) \<and> s' = s\<lparr>tabs := snd (c (tabs s))\<rparr>"
  by (auto simp: op_elims sql_count_def)

lemma run_reads:
  "resolve_op mp path s = (Inr r, s') \<longleftrightarrow> resolve (tabs s) mp path = Inr r \<and> s' = s"
  "resolve_parent_op mp path s = (Inr q, s') \<longleftrightarrow> resolve_parent (tabs s) mp path = Inr q \<and> s' = s"
  "require_name nm s = (Inr u, s') \<longleftrightarrow> nm \<noteq> [] \<and> s' = s"
  "refuse_if_held n mount s = (Inr u, s') \<longleftrightarrow> \<not> check_lock_held (sql_now s) (tabs s) n mount \<and> s' = s"
  by (auto simp: resolve_op_def resolve_parent_op_def require_name_def refuse_if_held_def bind_op_eq_Inr run_Inr)

lemmas run_elims = bind_op_eq_Inr run_Inr run_reads

lemma link_new_node:
  assumes "link_node m p n None s = (Inr e, s')" and "node_at (tabs s) n = Some r"
  shows "namespace_of (tabs s') = ns_place (p, nd_name r, n) (namespace_of (tabs s))"
  using link_node_Inr [OF assms(1)] assms(2) by (auto simp: ns_place_def)

text \<open>The body the three creations share: a node, its content, its placement.\<close>

lemma created:
  assumes "new_node m ty nm c md meta s = (Inr n, s1)"
    and "namespace_of (tabs s2) = namespace_of (tabs s1)" and "node_at (tabs s2) n = node_at (tabs s1) n"
    and "link_node m p n None s2 = (Inr e, s')"
  shows "namespace_of (tabs s') = ns_place (p, nm, n) ((namespace_of (tabs s))\<lparr>ns_types := (type_at (tabs s))(n \<mapsto> ty)\<rparr>)
     \<and> type_at (tabs s) n = None"
proof -
  from new_node_Inr [OF assms(1)] obtain r where
    r: "type_at (tabs s) n = None" "node_at (tabs s1) n = Some r" "nd_name r = nm"
    "namespace_of (tabs s1) = (namespace_of (tabs s))\<lparr>ns_types := (type_at (tabs s))(n \<mapsto> ty)\<rparr>" by blast
  with link_new_node [OF assms(4), of r] assms(2,3) show ?thesis by simp
qed

lemma create_refined:
  assumes m: "require_mount mount True s = (Inr m, s)"
    and run: "(if ty = CONTAINER then create_container mount path
              else if ty = ENTRY then create_entry L mount path data
              else create_special L mount path ty data) s = (Inr n, s')"
  shows "ns_step (m_point m) (Some n) (Ns_Create path ty data) (namespace_of (tabs s)) = Inr (namespace_of (tabs s'))
     \<and> type_at (tabs s) n = None"
proof -
  let ?body = "\<lambda>leaf. bind_op (require_mount mount True) (\<lambda>m.
     bind_op (resolve_parent_op (m_point m) path) (\<lambda>(parent, nm).
     bind_op (require_name nm) (\<lambda>_.
     bind_op (new_node m ty nm None None None) (\<lambda>node.
     bind_op (leaf m node) (\<lambda>_.
     bind_op (link_node m parent node None) (\<lambda>_.
     ret node))))))"
  let ?leaf = "\<lambda>m node. if ty = CONTAINER then ret () else put_initial_content L m node data"
  have "bind_op (ret ()) f = f ()" for f :: "unit \<Rightarrow> node_id op" by (simp add: fun_eq_iff bind_op_def ret_def)
  with run have "txn (?body ?leaf) s = (Inr n, s')"
    by (cases ty) (simp_all add: create_container_def create_entry_def create_entry_internal_def create_special_def)
  from txn_InrD [OF this] obtain s1 where
    s1: "?body ?leaf (s\<lparr>in_txn := True\<rparr>) = (Inr n, s1)" "namespace_of (tabs s') = namespace_of (tabs s1)" by blast
  from s1(1) obtain p nm s2 s3 e where
    par: "resolve_parent (tabs s) (m_point m) path = Inr (p, nm)"
    and st: "new_node m ty nm None None None (s\<lparr>in_txn := True\<rparr>) = (Inr n, s2)"
      "?leaf m n s2 = (Inr (), s3)" "link_node m p n None s3 = (Inr e, s1)"
    by (auto simp: run_elims require_mount_txn [OF m] simp del: if_split)
  have "namespace_of (tabs s3) = namespace_of (tabs s2)" "node_at (tabs s3) n = node_at (tabs s2) n"
    using st(2) put_initial_content_Inr [of L m n data s2 "()" s3 n]
    by (auto simp: ret_def split: if_splits)
  from created [OF st(1) this st(3)] s1(2) par show ?thesis by (simp add: ns_parent_of)
qed

lemma link_refined:
  assumes m: "require_mount mount True s = (Inr m, s)" and run: "link mount src dst s = (Inr (), s')"
  shows "ns_step (m_point m) new (Ns_Link src dst) (namespace_of (tabs s)) = Inr (namespace_of (tabs s'))"
proof -
  from txn_InrD [OF run [unfolded link_def]] obtain s1 found p nm e where
    f: "resolve (tabs s) (m_point m) src = Inr found" "rs_type found \<noteq> CONTAINER"
      "resolve_parent (tabs s) (m_point m) dst = Inr (p, nm)" "resolve_segment (tabs s) p nm = None"
    and l: "link_node m p (rs_node found) (case node_at (tabs s) (rs_node found) of None \<Rightarrow> Some nm
        | Some r \<Rightarrow> if nd_name r \<noteq> nm then Some nm else None) (s\<lparr>in_txn := True\<rparr>) = (Inr e, s1)"
    and s': "namespace_of (tabs s') = namespace_of (tabs s1)"
    by (auto simp: run_elims require_mount_txn [OF m] simp del: not_None_eq split_paired_Ex split_paired_All)
  from link_node_Inr [OF l] have "namespace_of (tabs s1) = ns_place (p, nm, rs_node found) (namespace_of (tabs s))"
    by (auto simp: ns_place_def split: option.splits if_splits)
  with f s' show ?thesis by (simp add: ns_find_of ns_parent_of ns_segment_of)
qed

lemma resolved_placed:
  assumes "resolve t mp path = Inr r" and "resolve_parent t mp path = Inr (p, nm)"
  shows "(p, nm, rs_node r) \<in> ns_places (namespace_of t)"
proof -
  from assms(2) have "split_path path \<noteq> []" by (auto simp: resolve_parent_def Let_def split: if_splits)
  from resolve_via_parent [OF assms(1) this] assms(2)
  have "ns_segment (namespace_of t) p nm = Some (rs_node r, rs_type r)" by (auto simp: ns_segment_of)
  then have "ns_children (namespace_of t) p nm \<noteq> {}" "Max (ns_children (namespace_of t) p nm) = rs_node r"
    by (auto simp: ns_segment_def split: if_splits)
  then have "rs_node r \<in> ns_children (namespace_of t) p nm" unfolding ns_children_of by (metis List.finite_set Max_in)
  then show ?thesis by (simp add: ns_children_def)
qed

lemma archived_placement:
  "namespace_of (snd (archive_placement ts p n nm t)) = ns_unplace {(p, nm, n)} (namespace_of t)"
proof -
  have "{(eg_from e, eg_name e, eg_to e) |e. e \<in> set (active_edge t) \<and> \<not> (eg_from e = p \<and> eg_to e = n \<and> eg_name e = nm)}
      = ns_places (namespace_of t) - {(p, nm, n)}" by (auto simp: namespace_of_def)
  then show ?thesis by (simp add: archive_placement_def namespace_archive ns_unplace_def)
qed

lemma renamed_node [simp]: "namespace_of (rename_node_if_sole ts n nm t) = namespace_of t"
  by (rule namespace_same)
    (auto simp: rename_node_if_sole_def type_at_def fun_eq_iff row_at_update option.map_comp comp_def intro!: option.map_cong)

lemma renamed_placement:
  assumes "(p, old, n) \<in> ns_places (namespace_of t)"
  shows "namespace_of (rename_placement p n old nm t) = ns_place (p, nm, n) (ns_unplace {(p, old, n)} (namespace_of t))"
proof -
  let ?f = "\<lambda>e. (eg_from e, eg_name e, eg_to e)"
  let ?g = "\<lambda>e. if eg_from e = p \<and> eg_to e = n \<and> eg_name e = old then e\<lparr>eg_name := nm\<rparr> else e"
  have "active_edge (rename_placement p n old nm t) = map ?g (active_edge t)"
  proof -
    have "filter (\<lambda>e. \<not> eg_archived e) (map (\<lambda>e. if eg_from e = p \<and> eg_to e = n \<and> \<not> eg_archived e
        \<and> eg_name e = old then e\<lparr>eg_name := nm\<rparr> else e) es) = map ?g (filter (\<lambda>e. \<not> eg_archived e) es)" for es
      by (induction es) auto
    then show ?thesis by (simp add: active_edge_def rename_placement_def)
  qed
  then have "ns_places (namespace_of (rename_placement p n old nm t)) =
      (\<lambda>x. if x = (p, old, n) then (p, nm, n) else x) ` ns_places (namespace_of t)"
  proof -
    assume "active_edge (rename_placement p n old nm t) = map ?g (active_edge t)"
    then have "ns_places (namespace_of (rename_placement p n old nm t)) = (\<lambda>e. ?f (?g e)) ` set (active_edge t)"
      by (simp add: ns_places_of image_image)
    also have "\<dots> = (\<lambda>e. if ?f e = (p, old, n) then (p, nm, n) else ?f e) ` set (active_edge t)"
      by (rule image_cong) auto
    finally show ?thesis unfolding ns_places_of set_map image_image .
  qed
  also have "\<dots> = insert (p, nm, n) (ns_places (namespace_of t) - {(p, old, n)})"
    using assms by auto
  finally have "ns_places (namespace_of (rename_placement p n old nm t)) =
      insert (p, nm, n) (ns_places (namespace_of t) - {(p, old, n)})" .
  moreover have "type_at (rename_placement p n old nm t) = type_at t"
    by (simp add: rename_placement_def type_at_def fun_eq_iff)
  ultimately show ?thesis by (simp add: namespace_of_def ns_place_def ns_unplace_def)
qed

lemma rename_refined:
  assumes m: "require_mount mount True s = (Inr m, s)" and run: "rename mount path nm s = (Inr (), s')"
  shows "ns_step (m_point m) new (Ns_Rename path nm) (namespace_of (tabs s)) = Inr (namespace_of (tabs s'))"
proof -
  from txn_InrD [OF run [unfolded rename_def]] obtain found p old where
    f: "nm \<noteq> []" "resolve_parent (tabs s) (m_point m) path = Inr (p, old)" "resolve (tabs s) (m_point m) path = Inr found"
    and s': "namespace_of (tabs s') = namespace_of (rename_placement p (rs_node found) old nm (tabs s))"
    by (auto simp: run_elims require_mount_txn [OF m])
  then show ?thesis using renamed_placement [OF resolved_placed [OF f(3,2)]]
    by (simp add: ns_find_of ns_parent_of)
qed

lemma remove_refined:
  assumes m: "require_mount mount True s = (Inr m, s)" and run: "remove mount path s = (Inr (), s')"
  shows "ns_step (m_point m) new (Ns_Remove path) (namespace_of (tabs s)) = Inr (namespace_of (tabs s'))"
proof -
  from txn_InrD [OF run [unfolded remove_def]] obtain found p nm where
    f: "resolve (tabs s) (m_point m) path = Inr found" "\<not> (rs_type found = CONTAINER \<and> check_empty (tabs s) (rs_node found))"
      "resolve_parent (tabs s) (m_point m) path = Inr (p, nm)"
    and s': "namespace_of (tabs s') = namespace_of (snd (archive_placement (sql_now s) p (rs_node found) nm (tabs s)))"
    by (auto simp: run_elims require_mount_txn [OF m])
  moreover have "check_empty (tabs s) k \<longleftrightarrow> (\<exists>x c. (k, x, c) \<in> ns_places (namespace_of (tabs s)))" for k
    by (auto simp: check_empty_def namespace_of_def)
  ultimately show ?thesis by (simp add: ns_find_of ns_parent_of archived_placement)
qed

lemma remove_tree_refined:
  assumes m: "require_mount mount True s = (Inr m, s)" and run: "remove_recursive mount path s = (Inr (), s')"
  shows "ns_step (m_point m) new (Ns_Remove_Tree path) (namespace_of (tabs s)) = Inr (namespace_of (tabs s'))"
proof -
  from txn_InrD [OF run [unfolded remove_recursive_def]] obtain found where
    f: "resolve (tabs s) (m_point m) path = Inr found"
    and s': "namespace_of (tabs s') = namespace_of (snd (archive_subtree (sql_now s) (rs_node found) (tabs s)))"
    by (auto simp: run_elims require_mount_txn [OF m])
  have "node_at (tabs s) (rs_node found) \<noteq> None" using resolved_node_exists [OF f] by auto
  note sub = ns_subtree_of [OF this]
  have "namespace_of (snd (archive_subtree (sql_now s) (rs_node found) (tabs s))) =
      ns_unplace {(d, x, c). c \<in> ns_subtree (namespace_of (tabs s)) (rs_node found)} (namespace_of (tabs s))"
    unfolding archive_subtree_def Let_def namespace_archive set_map sub
    by (auto simp: ns_unplace_def namespace_of_def)
  with f s' show ?thesis by (simp add: ns_find_of)
qed

lemma rename_if:
  "(if b then sql_update (rename_node_if_sole ts n nm) else ret ()) s = (Inr (), s') \<Longrightarrow>
     namespace_of (tabs s') = namespace_of (tabs s)"
  by (auto simp: run_elims split: if_splits)

lemma move_refined:
  assumes m: "require_mount mount True s = (Inr m, s)" and run: "move mount src dst s = (Inr (), s')"
  shows "ns_step (m_point m) new (Ns_Move src dst) (namespace_of (tabs s)) = Inr (namespace_of (tabs s'))"
proof -
  let ?arch = "\<lambda>found p old. snd (archive_placement (sql_now s) p (rs_node found) old (tabs s))"
  from txn_InrD [OF run [unfolded move_def Let_def]] obtain s1 s3 found p old q nm e b ts
    where f: "resolve (tabs s) (m_point m) src = Inr found" "resolve_parent (tabs s) (m_point m) src = Inr (p, old)"
      "resolve_parent (tabs s) (m_point m) dst = Inr (q, nm)"
      "\<not> (rs_type found = CONTAINER \<and> check_cycle (tabs s) (rs_node found) q)"
    and l: "link_node m q (rs_node found)
        (if case node_at (?arch found p old) (rs_node found) of None \<Rightarrow> False | Some r \<Rightarrow> nd_name r \<noteq> nm then Some nm else None)
        (s\<lparr>in_txn := True, tabs := ?arch found p old\<rparr>) = (Inr e, s3)"
    and s1: "(if b then sql_update (rename_node_if_sole ts (rs_node found) nm) else ret ()) s3 = (Inr (), s1)"
    and s': "namespace_of (tabs s') = namespace_of (tabs s1)"
    by (clarsimp simp: run_elims require_mount_txn [OF m] simp del: if_split)
  from link_node_Inr [OF l] have "namespace_of (tabs s3) = ns_place (q, nm, rs_node found) (namespace_of (?arch found p old))"
    by (auto simp: ns_place_def split: if_splits option.splits)
  with f s' rename_if [OF s1] show ?thesis
    by (simp add: ns_find_of ns_parent_of ns_cycle_of archived_placement)
qed

text \<open>C24
  The structural operations refine the abstract namespace: whenever a call succeeds, its
  guards held and the placements and types of the file are those \<open>ns_step\<close> gives; a created
  node did not exist before.
\<close>

theorem namespace_refined:
  assumes "require_mount mount True s = (Inr m, s)" and "ns_call L mount cmd s = (Inr new, s')"
  shows "ns_step (m_point m) new cmd (namespace_of (tabs s)) = Inr (namespace_of (tabs s'))
     \<and> (\<forall>n. new = Some n \<longrightarrow> type_at (tabs s) n = None)"
proof (cases cmd)
  case (Ns_Create path ty data)
  with assms(2) obtain n where "new = Some n" "(if ty = CONTAINER then create_container mount path
      else if ty = ENTRY then create_entry L mount path data
      else create_special L mount path ty data) s = (Inr n, s')"
    by (auto simp: run_elims simp del: if_split)
  with create_refined [OF assms(1) this(2)] Ns_Create show ?thesis by simp
qed (use assms(2) link_refined [OF assms(1)] rename_refined [OF assms(1)] move_refined [OF assms(1)]
      remove_refined [OF assms(1)] remove_tree_refined [OF assms(1)] in \<open>auto simp: run_elims\<close>)

theorem namespace_refined_witness:
  "\<exists>s'. move ''m'' ''/a'' ''/dir/c'' demo = (Inr (), s')
     \<and> ns_places (namespace_of (tabs s')) = {(''r'', ''dir'', ''d''), (''d'', ''c'', ''f''), (''d'', ''b'', ''g'')}"
proof -
  have "fst (move ''m'' ''/a'' ''/dir/c'' demo) = Inr ()" by code_simp
  then obtain s' where mv: "move ''m'' ''/a'' ''/dir/c'' demo = (Inr (), s')" by (metis prod.collapse)
  let ?m = "\<lparr>m_id = ''m'', m_point = ''r'', m_volume = ''v'', m_enc_mode = ''none''\<rparr>"
  have "fst (require_mount ''m'' True demo) = Inr ?m" by code_simp
  then have m: "require_mount ''m'' True demo = (Inr ?m, demo)"
    using require_mount_reads [of "''m''" True demo] by (metis prod.collapse)
  have c: "ns_call toy_lib ''m'' (Ns_Move ''/a'' ''/dir/c'') demo = (Inr None, s')"
    by (simp add: run_elims mv)
  have places: "ns_places (namespace_of (tabs demo)) = {(''r'', ''dir'', ''d''), (''r'', ''a'', ''f''), (''d'', ''b'', ''g'')}"
    by (auto simp: ns_places_of active_edge_def demo_def demo_tables_def demo_edge_def)
  have "map_sum id (\<lambda>r. (rs_node r, rs_type r)) (resolve (tabs demo) ''r'' ''/a'') = Inr (''f'', ENTRY)"
    "resolve_parent (tabs demo) ''r'' ''/a'' = Inr (''r'', ''a'')"
    "resolve_parent (tabs demo) ''r'' ''/dir/c'' = Inr (''d'', ''c'')" by code_simp+
  then have "ns_step ''r'' None (Ns_Move ''/a'' ''/dir/c'') (namespace_of (tabs demo)) =
      Inr (ns_place (''d'', ''c'', ''f'') (ns_unplace {(''r'', ''a'', ''f'')} (namespace_of (tabs demo))))"
    by (simp add: ns_find_of ns_parent_of)
  with namespace_refined [OF m c] have "namespace_of (tabs s') =
      ns_place (''d'', ''c'', ''f'') (ns_unplace {(''r'', ''a'', ''f'')} (namespace_of (tabs demo)))" by simp
  then have "ns_places (namespace_of (tabs s')) = {(''r'', ''dir'', ''d''), (''d'', ''c'', ''f''), (''d'', ''b'', ''g'')}"
    by (auto simp: ns_place_def ns_unplace_def places)
  with mv show ?thesis by blast
qed

section \<open>What a creation makes visible\<close>

lemma ns_walk_new:
  assumes "\<And>d x. (d, x) \<noteq> (p, nm) \<Longrightarrow> ns_segment ns' d x = ns_segment ns d x" and "ns_segment ns p nm = None"
  shows "ns_walk ns k ty segs = Inr r \<Longrightarrow> ns_walk ns' k ty segs = Inr r"
proof (induction segs arbitrary: k ty)
  case (Cons x segs)
  then obtain k' ty' where seg: "ty = CONTAINER" "ns_segment ns k x = Some (k', ty')" "ns_walk ns k' ty' segs = Inr r"
    by (auto split: if_splits option.splits)
  with assms(2) have "(k, x) \<noteq> (p, nm)" by auto
  with assms(1) [OF this] seg Cons.IH show ?case by simp
qed simp

lemma ns_walk_snoc:
  "ns_walk ns k ty (segs @ [x]) = (case ns_walk ns k ty segs of Inl e \<Rightarrow> Inl e
     | Inr (d, ty') \<Rightarrow> if ty' \<noteq> CONTAINER then Inl NotAContainer
         else (case ns_segment ns d x of None \<Rightarrow> Inl NotFound | Some r \<Rightarrow> Inr r))"
  by (induction segs arbitrary: k ty) (auto split: option.splits)

lemma ns_parent_find:
  assumes "ns_parent ns mp path = Inr (p, nm)"
  shows "ns_find ns mp path = (case ns_segment ns p nm of None \<Rightarrow> Inl NotFound | Some r \<Rightarrow> Inr r)"
    and "split_path path \<noteq> [] \<and> ns_walk ns mp CONTAINER (butlast (split_path path)) = Inr (p, CONTAINER) \<and> nm = last (split_path path)"
proof -
  show *: "split_path path \<noteq> [] \<and> ns_walk ns mp CONTAINER (butlast (split_path path)) = Inr (p, CONTAINER) \<and> nm = last (split_path path)"
    using assms by (auto simp: ns_parent_def split: if_splits sum.splits)
  with ns_walk_snoc [of ns mp CONTAINER "butlast (split_path path)" "last (split_path path)"]
  show "ns_find ns mp path = (case ns_segment ns p nm of None \<Rightarrow> Inl NotFound | Some r \<Rightarrow> Inr r)"
    by (simp add: ns_find_def)
qed

text \<open>
  A new node is what its path names from then on, if the path named nothing before, and
  no other name in any container changes its meaning.
\<close>

lemma placed_visible:
  assumes ns': "namespace_of t' = ns_place (p, nm, n) ((namespace_of t)\<lparr>ns_types := (type_at t)(n \<mapsto> ty)\<rparr>)"
    and par: "resolve_parent t mp path = Inr (p, nm)" and fresh: "type_at t n = None"
    and absent: "resolve t mp path = Inl NotFound" and refs: "\<forall>e \<in> set (active_edge t). node_at t (eg_to e) \<noteq> None"
  shows "resolve t' mp path = Inr \<lparr>rs_node = n, rs_type = ty\<rparr> \<and> resolve_segment t p nm = None
     \<and> (\<forall>d x. (d, x) \<noteq> (p, nm) \<longrightarrow> resolve_segment t' d x = resolve_segment t d x)"
proof -
  let ?ns = "namespace_of t" and ?ns' = "namespace_of t'"
  have par': "ns_parent ?ns mp path = Inr (p, nm)" using par by (simp add: ns_parent_of)
  have unplaced: "(d, x, n) \<notin> ns_places ?ns" for d x
    using refs fresh by (auto simp: namespace_of_def type_at_def)
  have kids: "ns_children ?ns' d x = (if (d, x) = (p, nm) then insert n (ns_children ?ns d x) else ns_children ?ns d x)" for d x
    using unplaced by (auto simp: ns_children_def ns' ns_place_def)
  have seg: "ns_segment ?ns' d x = ns_segment ?ns d x" if "(d, x) \<noteq> (p, nm)" for d x
  proof -
    have k: "ns_children ?ns' d x = ns_children ?ns d x" using that kids by auto
    have "Max (ns_children ?ns d x) \<noteq> n" if "ns_children ?ns d x \<noteq> {}"
    proof -
      have "Max (ns_children ?ns d x) \<in> ns_children ?ns d x"
        using that unfolding ns_children_of by (intro Max_in) auto
      with fresh show ?thesis by (auto simp: ns_children_def)
    qed
    then show ?thesis unfolding ns_segment_def k by (auto simp: ns' ns_place_def)
  qed
  from absent ns_parent_find(1) [OF par'] have none: "ns_segment ?ns p nm = None"
    by (simp add: ns_find_of split: option.splits)
  have "ns_children ?ns p nm = {}"
  proof (rule ccontr)
    assume ne: "ns_children ?ns p nm \<noteq> {}"
    then have "Max (ns_children ?ns p nm) \<in> ns_children ?ns p nm" unfolding ns_children_of by (intro Max_in) auto
    then obtain y where "ns_types ?ns (Max (ns_children ?ns p nm)) = Some y" by (auto simp only: ns_children_def)
    with none ne show False by (simp add: ns_segment_def)
  qed
  then have new: "ns_segment ?ns' p nm = Some (n, ty)"
  proof -
    have "ns_types ?ns' n = Some ty" unfolding ns' by (simp add: ns_place_def)
    moreover have "ns_children ?ns' p nm = {n}" using kids [of p nm] \<open>ns_children ?ns p nm = {}\<close> by simp
    ultimately show ?thesis by (simp add: ns_segment_def)
  qed
  note w = ns_parent_find(2) [OF par']
  have "ns_walk ?ns' mp CONTAINER (butlast (split_path path)) = Inr (p, CONTAINER)"
    by (rule ns_walk_new [OF seg none]) (use w in auto)
  with w have "ns_parent ?ns' mp path = Inr (p, nm)" by (simp add: ns_parent_def)
  from ns_parent_find(1) [OF this] new have "ns_find ?ns' mp path = Inr (n, ty)" by simp
  then have "resolve t' mp path = Inr \<lparr>rs_node = n, rs_type = ty\<rparr>"
    by (cases "resolve t' mp path") (auto simp: ns_find_of intro: resolved.equality)
  with seg none show ?thesis by (auto simp: ns_segment_of)
qed

lemma create_placed:
  assumes "require_mount mount True s = (Inr m, s)" and "ns_call L mount (Ns_Create path ty data) s = (Inr (Some n), s')"
  obtains p nm where "resolve_parent (tabs s) (m_point m) path = Inr (p, nm)" "type_at (tabs s) n = None"
    "namespace_of (tabs s') = ns_place (p, nm, n) ((namespace_of (tabs s))\<lparr>ns_types := (type_at (tabs s))(n \<mapsto> ty)\<rparr>)"
  using namespace_refined [OF assms] that by (auto simp: ns_parent_of split: sum.splits)

lemma create_visible:
  assumes "require_mount mount True s = (Inr m, s)" and "ns_call L mount (Ns_Create path ty data) s = (Inr (Some n), s')"
    and "resolve (tabs s) (m_point m) path = Inl NotFound"
    and "\<forall>e \<in> set (active_edge (tabs s)). node_at (tabs s) (eg_to e) \<noteq> None"
  shows "resolve (tabs s') (m_point m) path = Inr \<lparr>rs_node = n, rs_type = ty\<rparr>
     \<and> (\<exists>p nm. resolve_parent (tabs s) (m_point m) path = Inr (p, nm)
          \<and> (\<forall>d x. (d, x) \<noteq> (p, nm) \<longrightarrow> resolve_segment (tabs s') d x = resolve_segment (tabs s) d x))"
  using create_placed [OF assms(1,2)] placed_visible [OF _ _ _ assms(3,4)] by metis

lemma create_visible_witness:
  "\<exists>n s'. create_container ''m'' ''/dir/sub'' demo = (Inr n, s')
     \<and> resolve (tabs s') ''r'' ''/dir/sub'' = Inr \<lparr>rs_node = n, rs_type = CONTAINER\<rparr>"
proof -
  let ?m = "\<lparr>m_id = ''m'', m_point = ''r'', m_volume = ''v'', m_enc_mode = ''none''\<rparr>"
  have "fst (require_mount ''m'' True demo) = Inr ?m" by code_simp
  then have m: "require_mount ''m'' True demo = (Inr ?m, demo)"
    using require_mount_reads [of "''m''" True demo] by (metis prod.collapse)
  have "map_sum id (\<lambda>_. ()) (fst (create_container ''m'' ''/dir/sub'' demo)) = Inr ()" by code_simp
  then obtain n s' where c: "create_container ''m'' ''/dir/sub'' demo = (Inr n, s')"
    by (cases "create_container ''m'' ''/dir/sub'' demo"; cases "fst (create_container ''m'' ''/dir/sub'' demo)") auto
  then have run: "ns_call toy_lib ''m'' (Ns_Create ''/dir/sub'' CONTAINER []) demo = (Inr (Some n), s')"
    by (simp add: run_elims)
  have "resolve (tabs demo) ''r'' ''/dir/sub'' = Inl NotFound" by code_simp
  moreover have "\<forall>e \<in> set (active_edge (tabs demo)). node_at (tabs demo) (eg_to e) \<noteq> None"
    by (simp add: active_edge_def demo_def demo_tables_def demo_edge_def demo_node_def)
  ultimately show ?thesis using create_visible [OF m run] c by auto
qed

section \<open>The reach of the cycle guard\<close>

text \<open>A chain of containers, each the only child of the one before.\<close>

definition chain_id :: "nat \<Rightarrow> node_id" where
  "chain_id i = replicate i CHR ''x''"

definition chain :: "nat \<Rightarrow> tables" where
  "chain k = empty_tables\<lparr>edges := map (\<lambda>i. demo_edge (chain_id i) (chain_id i) (chain_id (Suc i)) ''d'') [0..<k]\<rparr>"

lemma chain_placement: "(a, b) \<in> placement (chain k) \<longleftrightarrow> (\<exists>i < k. a = chain_id i \<and> b = chain_id (Suc i))"
  by (force simp: placement_def active_edge_def chain_def empty_tables_def demo_edge_def)

lemma chain_length: "(a, b) \<in> placement (chain k) ^^ j \<Longrightarrow> length b = length a + j"
  by (induction j arbitrary: b) (fastforce simp: chain_placement chain_id_def)+

lemma chain_reach: "i \<le> k \<Longrightarrow> (chain_id 0, chain_id i) \<in> placement (chain k) ^^ i"
proof (induction i)
  case (Suc i)
  then have "(chain_id 0, chain_id i) \<in> placement (chain k) ^^ i" "(chain_id i, chain_id (Suc i)) \<in> placement (chain k)"
    by (auto simp: chain_placement intro!: exI [of _ i])
  then show ?case by (rule relpow_Suc_I)
qed simp

text \<open>
  The guard of \<open>move\<close> looks 256 placements up and no further: it answers exactly whether the
  moved container is the new parent or one of its first 256 ancestors, so a container can
  be moved below a descendant that is deeper than that, which makes a cycle.
\<close>

lemma cycle_guard_reach:
  "(check_cycle t n p \<longleftrightarrow> (\<exists>j \<le> 256. (n, p) \<in> placement t ^^ j))
   \<and> (\<exists>t' n' p'. (n', p') \<in> (placement t')\<^sup>+ \<and> \<not> check_cycle t' n' p')"
proof -
  have reach: "check_cycle t n p \<longleftrightarrow> (\<exists>j \<le> 256. (n, p) \<in> placement t ^^ j)" for t n p
    by (simp add: ns_cycle_of [symmetric] ns_cycle_def ns_child_of)
  have "j = 257" if "(chain_id 0, chain_id 257) \<in> placement (chain 257) ^^ j" for j
    using chain_length [OF that] by (simp add: chain_id_def)
  then have "\<not> check_cycle (chain 257) (chain_id 0) (chain_id 257)" unfolding reach by fastforce
  moreover have "(chain_id 0, chain_id 257) \<in> (placement (chain 257))\<^sup>+"
    using chain_reach [of 257 257] trancl_power [of "(chain_id 0, chain_id 257)" "placement (chain 257)"]
    by (auto intro!: exI [of _ 257])
  ultimately show ?thesis using reach by blast
qed

end
