(* ===== verification/Invariants.thy ===== *)
theory Invariants
  imports Packing
begin

text \<open>
  What keeps a property of the tables. The interface \<open>table_invariant\<close> asks of a predicate
  \<open>I\<close> that every SQL template of the engine keeps it, and gives back, proved once, that
  every operation of the API keeps it, whatever its arguments, on every path, errors
  included; \<open>volume_invariant\<close> adds the insert of a volume and the link of its root, and with
  them \<open>create_volume\<close>.
  The descriptor methods are lifted the same way. The interpretations are in \<open>Integrity\<close>.
\<close>

section \<open>Preservation\<close>

lemma preserves_case_prod [preserving]:
  "(\<And>a b. preserves P (f a b)) \<Longrightarrow> preserves P (case p of (a, b) \<Rightarrow> f a b)"
  by (cases p) simp

lemma preserves_case_option [preserving]:
  "preserves P m \<Longrightarrow> (\<And>x. preserves P (f x)) \<Longrightarrow> preserves P (case z of None \<Rightarrow> m | Some x \<Rightarrow> f x)"
  by (cases z) simp_all

lemma preserves_case_list [preserving]:
  "preserves P m \<Longrightarrow> (\<And>x xs. preserves P (f x xs)) \<Longrightarrow> preserves P (case z of [] \<Rightarrow> m | x # xs \<Rightarrow> f x xs)"
  by (cases z) simp_all

lemma preserves_case_sum [preserving]:
  "(\<And>x. preserves P (f x)) \<Longrightarrow> (\<And>x. preserves P (g x)) \<Longrightarrow> preserves P (case z of Inl x \<Rightarrow> f x | Inr x \<Rightarrow> g x)"
  by (cases z) simp_all

lemma preserves_result: "preserves P m \<Longrightarrow> m s = (r, s') \<Longrightarrow> P s \<Longrightarrow> P s'"
  unfolding preserves_def by (metis snd_conv)

text \<open>What only reads keeps anything.\<close>

lemma preserves_reads [preserving]:
  "preserves P (require_mount mount w)" "preserves P (resolve_op mp path)"
  "preserves P (resolve_parent_op mp path)" "preserves P (require_name nm)"
  "preserves P (refuse_if_held n mount)" "preserves P (volume_with_root vol)"
  "preserves P (unlock_volume L k r)" "preserves P (require_own_lock mount l)"
  unfolding require_mount_def resolve_op_def resolve_parent_op_def require_name_def refuse_if_held_def
    volume_with_root_def unlock_volume_def require_own_lock_def
  by (intro preserving)+

text \<open>The same for descriptor methods.\<close>

definition d_preserves :: "(db \<Rightarrow> bool) \<Rightarrow> 'a dop \<Rightarrow> bool" where
  "d_preserves P m \<longleftrightarrow> (\<forall>d s. P s \<longrightarrow> P (snd (snd (m d s))))"

lemma d_preserves_run: "preserves P m \<Longrightarrow> P s \<Longrightarrow> P (snd (snd (run_op m d s)))"
  by (fastforce simp: preserves_def run_op_def split: prod.splits)

lemma d_preservesD: "d_preserves P m \<Longrightarrow> m d s = (r, d', s') \<Longrightarrow> P s \<Longrightarrow> P s'"
  unfolding d_preserves_def by (metis snd_conv)

lemma d_preservesS: "d_preserves P m \<Longrightarrow> P s \<Longrightarrow> P (snd (snd (m d s)))"
  by (simp add: d_preserves_def)

lemma d_preserves_bind: "d_preserves P m \<Longrightarrow> (\<And>x. d_preserves P (f x)) \<Longrightarrow> d_preserves P (d_bind m f)"
  unfolding d_preserves_def [of P "d_bind m f"] d_bind_def
  by (auto split: prod.splits sum.splits) (blast dest: d_preservesD intro: d_preservesS)+

section \<open>The interface\<close>

text \<open>No live lock of another mount is on the node.\<close>

definition grantable :: "timestamp \<Rightarrow> tables \<Rightarrow> lock_row \<Rightarrow> bool" where
  "grantable clk t l \<longleftrightarrow> (\<forall>x \<in> set (valid_lock clk t). lk_node x = lk_node l \<longrightarrow> lk_mount x = lk_mount l)"

locale table_invariant =
  fixes I :: "timestamp \<Rightarrow> tables \<Rightarrow> bool"
  assumes insert_node_law: "I clk t \<Longrightarrow> insert_node r t = Inr t' \<Longrightarrow> nd_volume r \<noteq> None \<Longrightarrow> I clk t'"
    and insert_content_law: "I clk t \<Longrightarrow> insert_content cr t = Inr t' \<Longrightarrow> I clk t'"
    and upsert_chunk_law: "I clk t \<Longrightarrow> I clk (upsert_chunk_row ch t)"
    and insert_version_law: "I clk t \<Longrightarrow> insert_version vr t = Inr t' \<Longrightarrow> I clk t'"
    and insert_edge_law: "I clk t \<Longrightarrow> insert_edge ts er t = Inr t' \<Longrightarrow> I clk t'"
    and update_crypto_law: "I clk t \<Longrightarrow> update_volume_crypto v mode w t = Inr t' \<Longrightarrow> I clk t'"
    and raise_wm_law: "I clk t \<Longrightarrow> I clk (raise_wm v st t)"
    and insert_mount_law: "I clk t \<Longrightarrow> insert_mount mr t = Inr t' \<Longrightarrow> I clk t'"
    and set_mount_state_law: "I clk t \<Longrightarrow>
      ms = UNMOUNTED \<or> (\<forall>m \<in> set (mounts t). mt_id m = mt \<longrightarrow> mt_state m \<noteq> UNMOUNTED) \<Longrightarrow> I clk (set_mount_state mt ms t)"
    and renew_mount_law: "I clk t \<Longrightarrow> mt \<in> mt_id ` set (valid_mount clk t) \<Longrightarrow> I clk (renew_mount_sql mt x t)"
    and insert_lock_law: "I clk t \<Longrightarrow> insert_lock lr t = Inr t' \<Longrightarrow> grantable clk t lr \<Longrightarrow> I clk t'"
    and release_lock_law: "I clk t \<Longrightarrow> I clk (release_lock l t)"
    and renew_lock_law: "I clk t \<Longrightarrow> l \<in> lk_id ` set (valid_lock clk t) \<Longrightarrow> I clk (renew_lock_sql l x t)"
    and update_content_law: "I clk t \<Longrightarrow> I clk (update_content ts n version sz t)"
    and set_retention_law: "I clk t \<Longrightarrow> I clk (set_retention_keep n keep t)"
    and rename_placement_law: "I clk t \<Longrightarrow> I clk (rename_placement p n old nm t)"
    and rename_node_law: "I clk t \<Longrightarrow> I clk (rename_node_if_sole ts n nm t)"
    and update_node_law: "I clk t \<Longrightarrow>
      (\<And>r. nd_id (f r) = nd_id r \<and> nd_type (f r) = nd_type r \<and> nd_volume (f r) = nd_volume r) \<Longrightarrow> I clk (update_node n f t)"
    and archive_law: "I clk t \<Longrightarrow> I clk (snd (archive_where ts Q t))"
    and xattr_set_law: "I clk t \<Longrightarrow> xattr_set_sql n key val t = Inr t' \<Longrightarrow> I clk t'"
    and xattr_remove_law: "I clk t \<Longrightarrow> I clk (snd (xattr_remove_sql n key t))"
    and prune_locks_law: "I clk t \<Longrightarrow> I clk (snd (prune_locks ts t))"
    and prune_nodes_law: "I clk t \<Longrightarrow> prune_nodes vol t = Inr (k, t') \<Longrightarrow> I clk t'"
    and prune_versions_law: "I clk t \<Longrightarrow> I clk (snd (prune_content_versions ts vol t))"
    and prune_chunks_law: "I clk t \<Longrightarrow> I clk (snd (prune_content_chunks t))"
begin

abbreviation holding :: "timestamp \<Rightarrow> db \<Rightarrow> bool" where
  "holding clk s \<equiv> sql_now s = clk \<and> I clk (tabs s)"

lemma keeps_sql: "(\<And>t t'. I clk t \<Longrightarrow> g t = Inr t' \<Longrightarrow> I clk t') \<Longrightarrow> preserves (holding clk) (sql g)"
  by (auto simp: preserves_def sql_def split: sum.splits)

lemma keeps_update: "(\<And>t. I clk t \<Longrightarrow> I clk (g t)) \<Longrightarrow> preserves (holding clk) (sql_update g)"
  by (auto simp: preserves_def sql_update_def)

lemma keeps_count: "(\<And>t. I clk t \<Longrightarrow> I clk (snd (g t))) \<Longrightarrow> preserves (holding clk) (sql_count g)"
  by (auto simp: preserves_def sql_count_def)

lemma keeps_rows: "(\<And>t k t'. I clk t \<Longrightarrow> g t = Inr (k, t') \<Longrightarrow> I clk t') \<Longrightarrow> preserves (holding clk) (sql_rows g)"
  by (auto simp: preserves_def sql_rows_def split: sum.splits)

lemma flush_keeps: "holding clk s \<Longrightarrow> holding clk (flush_watermarks s)"
proof -
  have "I clk t \<Longrightarrow> I clk (fold (\<lambda>(v, st). raise_wm v st) ws t)" for ws t
    by (induction ws arbitrary: t) (auto simp: raise_wm_law)
  then show "holding clk s \<Longrightarrow> ?thesis" by (simp add: flush_watermarks_def)
qed

lemma txn_keeps [preserving]:
  assumes "preserves (holding clk) m"
  shows "preserves (holding clk) (txn m)"
  unfolding preserves_def
proof (intro allI impI)
  fix s assume s: "holding clk s"
  obtain r s' where m: "m (s\<lparr>in_txn := True\<rparr>) = (r, s')" by (metis prod.exhaust)
  have "holding clk (s\<lparr>in_txn := True\<rparr>)" using s by simp
  with assms m have s': "holding clk s'" unfolding preserves_def by (metis (no_types, lifting) snd_conv)
  show "holding clk (snd (txn m s))"
    using s s' flush_keeps [OF s'] m by (cases r) (simp_all add: txn_def)
qed

lemma draws_keep [preserving]:
  "preserves (holding clk) (draw k)" "preserves (holding clk) gen_id" "preserves (holding clk) (mint_id v)"
  "preserves (holding clk) (encrypt_op L p)" "preserves (holding clk) (random_bytes k)" "preserves (holding clk) (wrap_op L key p)"
  "preserves (holding clk) (install c ss)" "preserves (holding clk) flush_if_idle"
  by (auto simp: preserves_def draw_def gen_id_def mint_id_def encrypt_op_def random_bytes_def wrap_op_def
      install_def flush_if_idle_def flush_keeps Let_def split: prod.splits sum.splits)

lemma create_monotonic_keeps:
  "(\<And>i t t'. I clk t \<Longrightarrow> ins i t = Inr t' \<Longrightarrow> I clk t') \<Longrightarrow> preserves (holding clk) (create_monotonic ins v)"
  unfolding create_monotonic_def by (intro preserving draws_keep keeps_sql) auto

text \<open>The templates as operations.\<close>

lemma insert_versions_keeps: "I clk t \<Longrightarrow> insert_versions rs t = Inr t' \<Longrightarrow> I clk t'"
  by (induction rs arbitrary: t) (auto split: sum.splits dest: insert_version_law)

lemma create_node_keeps: "I clk t \<Longrightarrow> create_node_sql ty nm c m (Some v) meta i t = Inr t' \<Longrightarrow> I clk t'"
  unfolding create_node_sql_def by (erule (1) insert_node_law) simp

lemma create_edge_keeps: "I clk t \<Longrightarrow> create_edge_sql ts from to v nm i t = Inr t' \<Longrightarrow> I clk t'"
  by (auto simp: create_edge_sql_def split: option.splits intro: insert_edge_law)

lemma copy_refs_keeps: "I clk t \<Longrightarrow> copy_chunk_refs dst dv n v t = Inr t' \<Longrightarrow> I clk t'"
  unfolding copy_chunk_refs_def by (rule insert_versions_keeps)

lemma copy_range_keeps: "I clk t \<Longrightarrow> copy_chunk_refs_range n dv v lo hi t = Inr t' \<Longrightarrow> I clk t'"
  unfolding copy_chunk_refs_range_def by (rule insert_versions_keeps)

lemma set_owner_keeps: "I clk t \<Longrightarrow> I clk (set_owner_sql ts n u g md t)"
  unfolding set_owner_sql_def by (erule update_node_law) simp

lemma inserts_keep [preserving]:
  "preserves (holding clk) (create_monotonic (create_node_sql ty nm c md (Some vo) meta) v)"
  "preserves (holding clk) (create_monotonic (create_edge_sql ts from to vol en) v)"
  "preserves (holding clk) (sql (insert_content cr))" "preserves (holding clk) (sql (insert_version vr))"
  "preserves (holding clk) (sql (copy_chunk_refs dst dv n sv))" "preserves (holding clk) (sql (copy_chunk_refs_range n dv sv lo hi))"
  "preserves (holding clk) (sql (update_volume_crypto vol mode w))"
  "preserves (holding clk) (sql (insert_mount mr))"
  "preserves (holding clk) (sql (xattr_set_sql n k val))"
  by (rule create_monotonic_keeps, erule (1) create_node_keeps)
    (rule create_monotonic_keeps, erule (1) create_edge_keeps,
     (rule keeps_sql, erule (1) insert_content_law insert_version_law copy_refs_keeps copy_range_keeps
        update_crypto_law insert_mount_law xattr_set_law)+)

lemma updates_keep [preserving]:
  "preserves (holding clk) (sql_update (upsert_chunk_row ch))" "preserves (holding clk) (sql_update (release_lock l))"
  "preserves (holding clk) (sql_update (update_content ts n v sz))" "preserves (holding clk) (sql_update (set_retention_keep n keep))"
  "preserves (holding clk) (sql_update (rename_placement p n old nm))" "preserves (holding clk) (sql_update (rename_node_if_sole ts n nm))"
  "preserves (holding clk) (sql_update (set_owner_sql ts n u g md))"
  "preserves (holding clk) (sql_update (set_mount_state mt UNMOUNTED))"
  by (rule keeps_update, erule upsert_chunk_law release_lock_law update_content_law set_retention_law
      rename_placement_law rename_node_law set_owner_keeps set_mount_state_law [OF _ disjI1, OF _ refl])+

lemma update_node_keeps [preserving]:
  "(\<And>r. nd_id (f r) = nd_id r \<and> nd_type (f r) = nd_type r \<and> nd_volume (f r) = nd_volume r)
     \<Longrightarrow> preserves (holding clk) (sql_update (update_node n f))"
  by (rule keeps_update, erule update_node_law)

lemma counts_keep [preserving]:
  "preserves (holding clk) (sql_count (archive_placement ts p n nm))" "preserves (holding clk) (sql_count (archive_edge ts e))"
  "preserves (holding clk) (sql_count (archive_subtree ts n))" "preserves (holding clk) (sql_count (xattr_remove_sql n k))"
  "preserves (holding clk) (sql_count (prune_locks ts))" "preserves (holding clk) (sql_count (prune_content_versions ts vol))"
  "preserves (holding clk) (sql_count prune_content_chunks)" "preserves (holding clk) (sql_rows (prune_nodes vol))"
  unfolding archive_placement_def archive_edge_def archive_subtree_def Let_def
  by (rule keeps_count, erule archive_law xattr_remove_law prune_locks_law prune_versions_law prune_chunks_law
     | rule keeps_rows, erule (1) prune_nodes_law)+

text \<open>Helpers shared by the operations.\<close>

lemma keeps_content_parts [preserving]:
  "preserves (holding clk) (stage_chunk L n v i p)" "preserves (holding clk) (stage_list L n v i ps)"
  "preserves (holding clk) (split_op cs data)" "preserves (holding clk) (chunk_size_of vol)" "preserves (holding clk) (alloc_version n)"
  "preserves (holding clk) (content_meta n)" "preserves (holding clk) (read_range_op L n v lo hi)"
  "preserves (holding clk) (commit_content n v sz)" "preserves (holding clk) (carry n v sv lo hi)"
proof -
  show st: "preserves (holding clk) (stage_chunk L n v i p)" for L n v i p
    unfolding stage_chunk_def Let_def by (intro preserving)
  show "preserves (holding clk) (stage_list L n v i ps)"
    by (induction ps arbitrary: i) (simp_all add: preserving st)
qed (unfold split_op_def chunk_size_of_def alloc_version_def content_meta_def read_range_op_def commit_content_def carry_def,
    (intro preserving)+)

lemma keeps_stages [preserving]:
  "preserves (holding clk) (stage_chunks L n v vol data)" "preserves (holding clk) (stage_from L n v i cs data)"
  unfolding stage_chunks_def stage_from_def by (intro preserving)+

lemma keeps_prologue [preserving]:
  "preserves (holding clk) (resolve_leaf mount path w)" "preserves (holding clk) (leaf_for_write mount path)"
  "preserves (holding clk) (size_only mount path)"
  unfolding resolve_leaf_def leaf_for_write_def size_only_def by (intro preserving)+

lemma keeps_nodes [preserving]:
  "preserves (holding clk) (new_node m ty nm c md meta)" "preserves (holding clk) (link_node m p n en)"
  "preserves (holding clk) (put_initial_content L m n data)"
  unfolding new_node_def link_node_def put_initial_content_def Let_def by (intro preserving)+

lemma keeps_session [preserving]:
  "preserves (holding clk) (unlock_session L vol root crow mid nm pin)"
  unfolding unlock_session_def by (intro preserving)

text \<open>The updates that need their guard, with the reads that establish it.\<close>

lemma keeps_new_lock:
  "preserves (holding clk) (bind_op (gets (\<lambda>s. check_any_lock (sql_now s) (tabs s) n)) (\<lambda>held.
     bind_op (guard_op (\<not> held) LockHeld) (\<lambda>_.
     bind_op gen_id (\<lambda>lid.
     bind_op (gets now) (\<lambda>ts.
     bind_op (sql (create_lock lid mt n (x ts) ts)) (\<lambda>_.
     ret (h lid ts)))))))"
proof -
  have "I clk t'" if "I clk t" "\<not> check_any_lock clk t n" "create_lock lid mt n x' ts t = Inr t'" for t t' lid x' ts
    using insert_lock_law [OF that(1) that(3) [unfolded create_lock_def]] that(2)
    by (auto simp: grantable_def check_any_lock_def)
  then show ?thesis
    by (auto simp: preserves_def bind_op_def guard_op_def gets_def ret_def fail_def gen_id_def sql_def
        split: prod.splits sum.splits)
qed

lemma keeps_writer_lock: "preserves (holding clk) (writer_lock mount n l)"
proof -
  have "I clk t'" if "I clk t" "\<not> check_lock_held clk t n mount" "create_lock lid mount n x' ts t = Inr t'" for t t' lid x' ts
    using insert_lock_law [OF that(1) that(3) [unfolded create_lock_def]] that(2)
    by (auto simp: grantable_def check_lock_held_def)
  then have "preserves (holding clk) (writer_lock mount n None)"
    by (auto simp: writer_lock_def refuse_if_held_def preserves_def bind_op_def guard_op_def gets_def ret_def fail_def
        gen_id_def sql_def split: prod.splits sum.splits)
  moreover have "preserves (holding clk) (writer_lock mount n (Some x))" for x
    unfolding writer_lock_def by (simp, intro preserving)
  ultimately show ?thesis by (cases l) auto
qed

lemma keeps_renewed_lock:
  "preserves (holding clk) (bind_op (require_own_lock mount l) (\<lambda>row. bind_op (gets now) (\<lambda>ts.
     bind_op (sql_update (renew_lock_sql l (x ts))) (\<lambda>_. ret (h row ts)))))"
proof -
  have "l \<in> lk_id ` set (valid_lock clk t)" if "get_lock clk t l = Some (row, True)" for t row
    using that by (auto simp: get_lock_def valid_lock_def split: option.splits if_splits dest!: row_at_SomeD)
  then show ?thesis
    by (auto simp: require_own_lock_def preserves_def bind_op_def gets_def ret_def fail_def sql_update_def
        intro!: renew_lock_law split: prod.splits sum.splits option.splits if_splits)
qed

lemma keeps_renewed_mount:
  "preserves (holding clk) (bind_op (require_mount mount False) (\<lambda>_. bind_op (gets now) (\<lambda>ts.
     sql_update (renew_mount_sql mount (x ts)))))"
proof -
  have "mount \<in> mt_id ` set (valid_mount (sql_now s) (tabs s))" if "require_mount mount False s = (Inr m, s')" for m s s'
    using that by (auto simp: require_mount_iff get_valid_mount_def split: option.splits dest!: row_at_SomeD)
  then show ?thesis using require_mount_reads
    by (auto simp: preserves_def bind_op_def gets_def sql_update_def
        intro!: renew_mount_law split: prod.splits sum.splits) (metis snd_conv)+
qed

lemma keeps_new_mount:
  assumes "mt_state r = NEW" and "mt_id r = mid"
  shows "preserves (holding clk) (bind_op (sql (insert_mount r)) (\<lambda>_.
     bind_op (unlock_session L vol root crow mid nm pin) (\<lambda>_.
     bind_op (sql_update (set_mount_state mid ACTIVE)) (\<lambda>_. ret x))))"
proof -
  have quiet: "preserves (\<lambda>s. R (sql_now s) (tabs s)) (unlock_session L vol root crow mid nm pin)" for R
  proof -
    have "preserves (\<lambda>s. R (sql_now s) (tabs s)) (draw k)" "preserves (\<lambda>s. R (sql_now s) (tabs s)) (random_bytes k)"
      "preserves (\<lambda>s. R (sql_now s) (tabs s)) (install c ss)" for k c ss
      by (auto simp: preserves_def draw_def random_bytes_def install_def)
    then show ?thesis unfolding unlock_session_def by (intro preserving)
  qed
  show ?thesis unfolding preserves_def
  proof (intro allI impI)
    fix s assume s: "holding clk s"
    show "holding clk (snd (bind_op (sql (insert_mount r)) (\<lambda>_. bind_op (unlock_session L vol root crow mid nm pin) (\<lambda>_.
       bind_op (sql_update (set_mount_state mid ACTIVE)) (\<lambda>_. ret x))) s))"
    proof (cases "insert_mount r (tabs s)")
      case (Inl e)
      with s show ?thesis by (simp add: bind_op_def sql_def)
    next
      case (Inr t')
      define R where "R = (\<lambda>k t. k = clk \<and> I clk t
        \<and> (\<forall>m \<in> set (mounts t). mt_id m = mid \<longrightarrow> mt_state m \<noteq> UNMOUNTED))"
      from Inr have t': "mounts t' = mounts (tabs s) @ [r]" "\<forall>m \<in> set (mounts (tabs s)). mt_id m \<noteq> mt_id r"
        by (auto simp: insert_mount_def row_at_None_iff image_iff split: if_splits)
      obtain r1 s1 where u: "unlock_session L vol root crow mid nm pin (s\<lparr>tabs := t'\<rparr>) = (r1, s1)" by (metis prod.exhaust)
      have "R (sql_now (s\<lparr>tabs := t'\<rparr>)) (tabs (s\<lparr>tabs := t'\<rparr>))"
        using s t' assms insert_mount_law [OF _ Inr] by (auto simp: R_def)
      then have "R (sql_now s1) (tabs s1)"
        using quiet [of R] u unfolding preserves_def by (metis (no_types, lifting) snd_conv)
      then show ?thesis using Inr u set_mount_state_law [of clk "tabs s1" ACTIVE mid]
        by (cases r1) (auto simp: bind_op_def sql_def sql_update_def ret_def R_def)
    qed
  qed
qed

lemmas keeps_guarded = keeps_new_lock keeps_writer_lock keeps_renewed_lock keeps_renewed_mount keeps_new_mount

section \<open>Every operation keeps the invariant\<close>

lemma keeps_volumes [preserving]:
  "preserves (holding clk) (change_pin L vol old_pin new_pin)" "preserves (holding clk) (mount_volume L vol path ttl pin acc who ov)"
  "preserves (holding clk) (unmount mount)" "preserves (holding clk) (renew_mount mount ttl)"
  unfolding change_pin_def mount_volume_def unmount_def renew_mount_def mount_info_def Let_def
  by (intro keeps_guarded preserving; simp)+

lemma keeps_writes [preserving]:
  "preserves (holding clk) (write_all L mount path data)" "preserves (holding clk) (append_op L mount path data)"
  "preserves (holding clk) (write_range L mount path off data)" "preserves (holding clk) (truncate_op L mount path sz)"
  unfolding write_all_def append_op_def write_range_def truncate_op_def Let_def by (intro preserving)+

lemma keeps_creation [preserving]:
  "preserves (holding clk) (create_container mount path)" "preserves (holding clk) (create_entry_internal L mount path data)"
  "preserves (holding clk) (create_entry L mount path data)" "preserves (holding clk) (create_special L mount path ty data)"
  "preserves (holding clk) (link mount path dst)"
  unfolding create_container_def create_entry_def create_entry_internal_def create_special_def link_def
  by (intro preserving)+

lemma keeps_structure [preserving]:
  "preserves (holding clk) (rename mount path nm)" "preserves (holding clk) (move mount path dst)"
  "preserves (holding clk) (remove mount path)" "preserves (holding clk) (remove_recursive mount path)"
  unfolding rename_def move_def remove_def remove_recursive_def Let_def by (intro preserving)+

lemma keeps_attributes [preserving]:
  "preserves (holding clk) (set_mtime mount n ts)" "preserves (holding clk) (set_atime mount n ts)"
  "preserves (holding clk) (set_owner mount path u g md)" "preserves (holding clk) (set_xattr mount path k val)"
  "preserves (holding clk) (remove_xattr mount path k)" "preserves (holding clk) (set_metadata mount path meta)"
  unfolding set_mtime_def set_atime_def set_owner_def set_xattr_def remove_xattr_def set_metadata_def
  by (intro preserving; simp)+

lemma keeps_locks [preserving]:
  "preserves (holding clk) (lock mount path ttl)" "preserves (holding clk) (unlock mount l)" "preserves (holding clk) (renew_lock mount l ttl)"
  unfolding lock_def unlock_def renew_lock_def by (intro keeps_guarded preserving)+

lemma keeps_maintenance [preserving]:
  "preserves (holding clk) (prune vol)" "preserves (holding clk) (set_retention mount path keep)" "preserves (holding clk) (prune_content vol)"
  unfolding prune_def set_retention_def prune_content_def by (intro preserving)+

lemma keeps_copy_rows [preserving]: "preserves (holding clk) (copy_rows m dp dn rows idmap root)"
proof (induction rows arbitrary: idmap root)
  case (Cons r rows)
  then show ?case unfolding copy_rows.simps Let_def copy_content_def by (intro preserving)
qed (simp add: preserving)

lemma keeps_restore [preserving]: "preserves (holding clk) (restore_nodes L m p pns ids)"
proof (induction pns arbitrary: ids)
  case (Cons pn pns)
  then show ?case
    unfolding restore_nodes.simps restore_node_def metadata_of_def restore_owner_def restore_xattrs_def Let_def
    by (intro preserving) (auto split: mp.splits option.splits intro!: preserving)
qed (simp add: preserving)

lemma keeps_packing [preserving]:
  "preserves (holding clk) (copy mount path dst)" "preserves (holding clk) (pack L M mount path)" "preserves (holding clk) (unpack L M mount path)"
  unfolding copy_def pack_def unpack_def Let_def by (intro preserving)+

section \<open>Descriptors\<close>

lemma d_keeps_txn:
  assumes "d_preserves (holding clk) m"
  shows "d_preserves (holding clk) (d_txn m)"
  unfolding d_preserves_def
proof (intro allI impI)
  fix d s assume s: "holding clk s"
  obtain r d' s' where m: "m d (s\<lparr>in_txn := True\<rparr>) = (r, d', s')" by (metis prod_cases3)
  have "holding clk (s\<lparr>in_txn := True\<rparr>)" using s by simp
  with d_preservesD [OF assms m] have s': "holding clk s'" by blast
  show "holding clk (snd (snd (d_txn m d s)))"
    using s s' flush_keeps [OF s'] m by (cases r) (simp_all add: d_txn_def)
qed

lemma d_keeps_steps:
  "d_preserves (holding clk) claim_version" "d_preserves (holding clk) (stage_own L p)" "d_preserves (holding clk) release_own" "d_preserves (holding clk) check_own_lock"
  "d_preserves (holding clk) (\<lambda>d. run_op (commit_content (g d) (v d) (z d)) d)"
proof -
  have c: "holding clk s \<Longrightarrow> holding clk (snd (carry n v sv lo hi s))" for s n v sv lo hi
    using keeps_content_parts(9) by (simp add: preserves_def)
  show "d_preserves (holding clk) claim_version"
    unfolding d_preserves_def claim_version_def Let_def using c
    by (auto simp: ret_def split: prod.splits sum.splits option.splits if_splits) (metis snd_conv)+
  show "d_preserves (holding clk) (stage_own L p)" unfolding d_preserves_def stage_own_def using d_preserves_run [of "holding clk"] keeps_content_parts(1) by blast
  show "d_preserves (holding clk) release_own" unfolding d_preserves_def release_own_def
    using d_preserves_run [OF updates_keep(2)] by (auto split: option.splits)
  show "d_preserves (holding clk) check_own_lock" unfolding d_preserves_def check_own_lock_def by (auto split: option.splits prod.splits)
  show "d_preserves (holding clk) (\<lambda>d. run_op (commit_content (g d) (v d) (z d)) d)"
    unfolding d_preserves_def using d_preserves_run [of "holding clk"] keeps_content_parts(8) by blast
qed

lemma d_keeps_flush_one: "d_preserves (holding clk) (flush_one_chunk L)"
proof -
  have "d_preserves (holding clk) (d_txn (d_bind claim_version (\<lambda>_. stage_own L p)))" for p
    by (intro d_keeps_txn d_preserves_bind d_keeps_steps)
  from d_preservesD [OF this] show ?thesis unfolding d_preserves_def flush_one_chunk_def
    by (auto split: prod.splits sum.splits)
qed

lemma d_keeps_flush_full: "d_preserves (holding clk) (flush_full L k)"
proof (induction k)
  case (Suc k)
  from d_preservesD [OF d_keeps_flush_one [where L = L]] d_preservesD [OF Suc] d_preservesS [OF Suc] show ?case unfolding d_preserves_def
    by (auto split: prod.splits sum.splits)
qed (simp add: d_preserves_def)

lemma d_keeps_methods:
  "d_preserves (holding clk) (d_read L k)" "d_preserves (holding clk) (d_seek off wh)" "d_preserves (holding clk) d_tell" "d_preserves (holding clk) (d_write L data)"
  "d_preserves (holding clk) d_abort" "d_preserves (holding clk) (d_close L)" "d_preserves (holding clk) (d_exit L b)"
proof -
  show "d_preserves (holding clk) (d_read L k)" "d_preserves (holding clk) (d_seek off wh)" "d_preserves (holding clk) d_tell"
    by (auto simp: d_preserves_def d_read_def d_seek_def d_tell_def Let_def split: sum.splits option.splits whence.splits)
  show "d_preserves (holding clk) (d_write L data)" unfolding d_preserves_def [of "holding clk" "d_write L data"] d_write_def Let_def
    using d_preservesD [OF d_keeps_flush_full] by (auto simp del: flush_full.simps split: prod.splits sum.splits)
  have r: "d_preserves (holding clk) (d_txn release_own)" by (intro d_keeps_txn d_keeps_steps)
  show ab: "d_preserves (holding clk) d_abort" unfolding d_preserves_def [of "holding clk" d_abort] d_abort_def Let_def
    using d_preservesD [OF r] by (auto split: prod.splits)
  have "d_preserves (holding clk) (\<lambda>d0. (commit_body L) d0)"
  proof -
    have "d_preserves (holding clk) (\<lambda>d. d_bind (if d_pending d \<noteq> [] then stage_own L (d_pending d) else (\<lambda>d s. (Inr (), d, s))) (\<lambda>_.
        d_bind (run_op (commit_content (d_node d) (or_else (d_version d) 0) (d_flushed d + length (d_pending d)))) (\<lambda>_.
        release_own)) d)"
      unfolding d_preserves_def
    proof (intro allI impI)
      fix d s assume s: "holding clk s"
      have "d_preserves (holding clk) (d_bind (if P then stage_own L p else (\<lambda>d s. (Inr (), d, s))) (\<lambda>_.
          d_bind (run_op (commit_content n v z)) (\<lambda>_. release_own)))" for P p n v z
      proof (intro d_preserves_bind d_keeps_steps)
        show "d_preserves (holding clk) (if P then stage_own L p else (\<lambda>d s. (Inr (), d, s)))"
          using d_keeps_steps(2) by (auto simp: d_preserves_def)
      qed
      with s show "holding clk (snd (snd (d_bind (if d_pending d \<noteq> [] then stage_own L (d_pending d) else (\<lambda>d s. (Inr (), d, s))) (\<lambda>_.
        d_bind (run_op (commit_content (d_node d) (or_else (d_version d) 0) (d_flushed d + length (d_pending d)))) (\<lambda>_.
        release_own)) d s)))" by (simp add: d_preserves_def)
    qed
    then show ?thesis unfolding commit_body_def by (intro d_preserves_bind d_keeps_steps)
  qed
  then have "d_preserves (holding clk) (d_txn (commit_body L))" by (intro d_keeps_txn)
  from d_preservesD [OF this] show cl: "d_preserves (holding clk) (d_close L)" unfolding d_preserves_def [of "holding clk" "d_close L"] d_close_def Let_def
    by (auto split: prod.splits)
  show "d_preserves (holding clk) (d_exit L b)" using ab cl by (simp add: d_exit_def)
qed

lemma keeps_opening [preserving]:
  "preserves (holding clk) (open_read mount path)" "preserves (holding clk) (open_write L mount path mode l)"
  unfolding open_read_def open_write_def resolve_or_create_def append_start_def
  by (intro keeps_guarded preserving)+

end

text \<open>With the insert of a volume, which has no root yet.\<close>

locale volume_invariant = table_invariant +
  assumes link_root_law: "I clk t \<Longrightarrow> link_root v root t = Inr t' \<Longrightarrow> I clk t'"
    and insert_volume_law: "I clk t \<Longrightarrow> insert_volume vr t = Inr t' \<Longrightarrow> vl_root vr = None \<Longrightarrow> I clk t'"
begin

lemma keeps_create_volume [preserving]: "preserves (holding clk) (create_volume L nm cs pin mode)"
proof -
  have "preserves (holding clk) (sql (insert_volume r))" if "vl_root r = None" for r
    using insert_volume_law that by (intro keeps_sql) blast
  moreover have "preserves (holding clk) (sql (link_root v root))" for v root
    using link_root_law by (intro keeps_sql) blast
  ultimately show ?thesis unfolding create_volume_def Let_def by (intro preserving) simp_all
qed

end

end
