(* ===== verification/Integrity.thy ===== *)
theory Integrity
  imports Invariants
begin

text \<open>
  The structural invariants of the file: unique keys, every foreign key resolved, an edge
  from a container to a node of the same volume (EDGE-4, PI-6), at most one active placement
  of a container (PI-1), a root per node at most. \<open>schema_ok\<close> states them over the \<open>shape\<close>
  of the tables, the columns they read, so that an update of any other column keeps them by
  keeping the shape. Every template and every operation of the API keeps \<open>schema_ok\<close>, a
  failed transaction leaves the tables as they were, and so every reachable file is sound.
\<close>

section \<open>The invariant\<close>

record shape =
  sh_nodes :: "(node_id \<times> node_type \<times> volume_id option) list"
  sh_contents :: "node_id list"
  sh_chunks :: "string list"
  sh_versions :: "((node_id \<times> nat \<times> nat) \<times> string) list"
  sh_edges :: "(edge_id \<times> node_id \<times> node_id \<times> volume_id \<times> bool) list"
  sh_volumes :: "(volume_id \<times> node_id option) list"
  sh_mounts :: "(mount_id \<times> volume_id \<times> node_id) list"
  sh_locks :: "(lock_id \<times> mount_id \<times> node_id) list"
  sh_xattrs :: "(node_id \<times> string) list"

definition shape_of :: "tables \<Rightarrow> shape" where
  "shape_of t =
     \<lparr>sh_nodes = map (\<lambda>r. (nd_id r, nd_type r, nd_volume r)) (nodes t),
      sh_contents = map ct_node (contents t),
      sh_chunks = map ch_hash (chunks t),
      sh_versions = map (\<lambda>r. (version_key r, cv_hash r)) (versions t),
      sh_edges = map (\<lambda>e. (eg_id e, eg_from e, eg_to e, eg_volume e, eg_archived e)) (edges t),
      sh_volumes = map (\<lambda>v. (vl_id v, vl_root v)) (volumes t),
      sh_mounts = map (\<lambda>m. (mt_id m, mt_volume m, mt_point m)) (mounts t),
      sh_locks = map (\<lambda>l. (lk_id l, lk_mount l, lk_node l)) (locks t),
      sh_xattrs = map (\<lambda>x. (xa_node x, xa_name x)) (xattrs t)\<rparr>"

definition keys_unique :: "shape \<Rightarrow> bool" where
  "keys_unique h \<longleftrightarrow>
     distinct (map fst (sh_nodes h)) \<and> distinct (sh_contents h) \<and> distinct (sh_chunks h)
     \<and> distinct (map fst (sh_versions h)) \<and> distinct (map fst (sh_edges h))
     \<and> distinct (map fst (sh_volumes h)) \<and> distinct (map fst (sh_mounts h))
     \<and> distinct (map fst (sh_locks h)) \<and> distinct (sh_xattrs h)"

text \<open>The references of one row; a known node is the target of most of them.\<close>

definition known :: "shape \<Rightarrow> node_id \<Rightarrow> bool" where
  "known h n \<longleftrightarrow> n \<in> fst ` set (sh_nodes h)"

definition volume_known :: "shape \<Rightarrow> volume_id \<Rightarrow> bool" where
  "volume_known h v \<longleftrightarrow> v \<in> fst ` set (sh_volumes h)"

definition node_ref :: "shape \<Rightarrow> node_id \<times> node_type \<times> volume_id option \<Rightarrow> bool" where
  "node_ref h = (\<lambda>(n, ty, v). case v of None \<Rightarrow> False | Some x \<Rightarrow> volume_known h x)"

definition version_ref :: "shape \<Rightarrow> (node_id \<times> nat \<times> nat) \<times> string \<Rightarrow> bool" where
  "version_ref h = (\<lambda>((n, v, i), c). known h n \<and> c \<in> set (sh_chunks h))"

definition volume_ref :: "shape \<Rightarrow> volume_id \<times> node_id option \<Rightarrow> bool" where
  "volume_ref h = (\<lambda>(v, r). case r of None \<Rightarrow> True | Some x \<Rightarrow> known h x)"

definition mount_ref :: "shape \<Rightarrow> mount_id \<times> volume_id \<times> node_id \<Rightarrow> bool" where
  "mount_ref h = (\<lambda>(m, v, p). volume_known h v \<and> known h p)"

definition lock_ref :: "shape \<Rightarrow> lock_id \<times> mount_id \<times> node_id \<Rightarrow> bool" where
  "lock_ref h = (\<lambda>(l, m, n). m \<in> fst ` set (sh_mounts h) \<and> known h n)"

definition endpoint :: "shape \<Rightarrow> node_id \<Rightarrow> node_type set \<Rightarrow> volume_id \<Rightarrow> bool" where
  "endpoint h n tys v \<longleftrightarrow> (\<exists>(m, ty, vn) \<in> set (sh_nodes h). m = n \<and> ty \<in> tys \<and> vn \<in> {None, Some v})"

definition edge_ref :: "shape \<Rightarrow> edge_id \<times> node_id \<times> node_id \<times> volume_id \<times> bool \<Rightarrow> bool" where
  "edge_ref h = (\<lambda>(e, f, c, v, a).
     endpoint h f {CONTAINER} v \<and> endpoint h c UNIV v \<and> volume_known h v)"

definition refs_resolved :: "shape \<Rightarrow> bool" where
  "refs_resolved h \<longleftrightarrow>
     list_all (node_ref h) (sh_nodes h) \<and> list_all (known h) (sh_contents h)
     \<and> list_all (version_ref h) (sh_versions h) \<and> list_all (volume_ref h) (sh_volumes h)
     \<and> list_all (mount_ref h) (sh_mounts h) \<and> list_all (lock_ref h) (sh_locks h)
     \<and> list_all (\<lambda>(n, k). known h n) (sh_xattrs h) \<and> list_all (edge_ref h) (sh_edges h)"

definition is_container :: "shape \<Rightarrow> node_id \<Rightarrow> bool" where
  "is_container h n \<longleftrightarrow> (\<exists>v. (n, CONTAINER, v) \<in> set (sh_nodes h))"

definition placed :: "shape \<Rightarrow> node_id list" where
  "placed h = map (\<lambda>(e, f, c, v, a). c)
     (filter (\<lambda>(e, f, c, v, a). \<not> a \<and> is_container h c) (sh_edges h))"

definition single_parent :: "shape \<Rightarrow> bool" where
  "single_parent h \<longleftrightarrow> distinct (placed h)"

definition roots_unique :: "shape \<Rightarrow> bool" where
  "roots_unique h \<longleftrightarrow> distinct (filter (\<lambda>r. r \<noteq> None) (map snd (sh_volumes h)))"

definition schema_ok :: "tables \<Rightarrow> bool" where
  "schema_ok t \<longleftrightarrow> (let h = shape_of t in
     keys_unique h \<and> refs_resolved h \<and> single_parent h \<and> roots_unique h)"

lemmas shape_defs = keys_unique_def refs_resolved_def single_parent_def placed_def roots_unique_def

lemma schema_ok_empty: "schema_ok empty_tables"
  by (simp add: schema_ok_def shape_of_def empty_tables_def shape_defs Let_def)

lemma schema_ok_same_shape: "shape_of t' = shape_of t \<Longrightarrow> schema_ok t' = schema_ok t"
  by (simp add: schema_ok_def)

section \<open>Updates that keep the shape\<close>

named_theorems shape_same

lemma shape_touch [shape_same]:
  "shape_of (touch_modified ts n t) = shape_of t" "shape_of (touch_ctime ts n t) = shape_of t"
  by (auto simp: shape_of_def touch_modified_def touch_ctime_def)

lemma shape_update_node [shape_same]:
  assumes "\<And>r. nd_id (f r) = nd_id r \<and> nd_type (f r) = nd_type r \<and> nd_volume (f r) = nd_volume r"
  shows "shape_of (update_node n f t) = shape_of t"
  using assms by (auto simp: shape_of_def update_node_def)

lemma shape_rename_node [shape_same]: "shape_of (rename_node_if_sole ts n nm t) = shape_of t"
  by (auto simp: shape_of_def rename_node_if_sole_def)

lemma shape_set_owner [shape_same]: "shape_of (set_owner_sql ts n u g m t) = shape_of t"
  unfolding set_owner_sql_def by (rule shape_update_node) simp

lemma shape_update_content [shape_same]: "shape_of (update_content ts n v sz t) = shape_of t"
proof (cases "content_at t n = None")
  case False
  then show ?thesis unfolding update_content_def
    by (simp add: shape_touch) (auto simp: shape_of_def)
qed (simp add: update_content_def)

lemma shape_set_retention [shape_same]: "shape_of (set_retention_keep n k t) = shape_of t"
  by (auto simp: shape_of_def set_retention_keep_def)

lemma shape_rename_placement [shape_same]: "shape_of (rename_placement p n old nm t) = shape_of t"
  by (auto simp: shape_of_def rename_placement_def)

lemma shape_raise_wm [shape_same]: "shape_of (raise_wm v st t) = shape_of t"
  by (auto simp: shape_of_def raise_wm_def)

lemma shape_set_mount_state [shape_same]: "shape_of (set_mount_state m st t) = shape_of t"
  by (simp add: shape_of_def set_mount_state_def)

lemma shape_renew_mount [shape_same]: "shape_of (renew_mount_sql m x t) = shape_of t"
  by (simp add: shape_of_def renew_mount_sql_def)

lemma shape_renew_lock [shape_same]: "shape_of (renew_lock_sql l x t) = shape_of t"
  by (simp add: shape_of_def renew_lock_sql_def)

lemma schema_ok_update: "schema_ok t \<Longrightarrow> shape_of (f t) = shape_of t \<Longrightarrow> schema_ok (f t)"
  by (simp add: schema_ok_def)

section \<open>Inserts\<close>

definition grows :: "shape \<Rightarrow> shape \<Rightarrow> bool" where
  "grows h h' \<longleftrightarrow> set (sh_nodes h) \<subseteq> set (sh_nodes h') \<and> set (sh_chunks h) \<subseteq> set (sh_chunks h')
     \<and> fst ` set (sh_volumes h) \<subseteq> fst ` set (sh_volumes h') \<and> fst ` set (sh_mounts h) \<subseteq> fst ` set (sh_mounts h')"

lemma refs_grow:
  assumes "grows h h'"
  shows "known h n \<Longrightarrow> known h' n" and "volume_known h v \<Longrightarrow> volume_known h' v"
    and "node_ref h a \<Longrightarrow> node_ref h' a" and "version_ref h b \<Longrightarrow> version_ref h' b"
    and "volume_ref h c \<Longrightarrow> volume_ref h' c" and "mount_ref h d \<Longrightarrow> mount_ref h' d"
    and "lock_ref h e \<Longrightarrow> lock_ref h' e" and "edge_ref h f \<Longrightarrow> edge_ref h' f"
proof -
  show k: "known h' n" if "known h n" for n
    using that assms image_mono [of "set (sh_nodes h)" "set (sh_nodes h')" fst] by (auto simp: known_def grows_def)
  show v: "volume_known h' v" if "volume_known h v" for v
    using that assms by (auto simp: volume_known_def grows_def)
  show "node_ref h a \<Longrightarrow> node_ref h' a" using v by (auto simp: node_ref_def split: option.splits)
  show "version_ref h b \<Longrightarrow> version_ref h' b" using k assms by (auto simp: version_ref_def grows_def)
  show "volume_ref h c \<Longrightarrow> volume_ref h' c" using k by (auto simp: volume_ref_def split: option.splits)
  show "mount_ref h d \<Longrightarrow> mount_ref h' d" using k v by (auto simp: mount_ref_def)
  show "lock_ref h e \<Longrightarrow> lock_ref h' e" using k assms by (auto simp: lock_ref_def grows_def)
  have sub: "set (sh_nodes h) \<subseteq> set (sh_nodes h')" using assms by (simp add: grows_def)
  have "endpoint h' n tys w" if "endpoint h n tys w" for n tys w
    using that unfolding endpoint_def by (elim bexE) (rule bexI, assumption, erule subsetD [OF sub])
  then show "edge_ref h f \<Longrightarrow> edge_ref h' f" using v by (auto simp: edge_ref_def)
qed

lemma refs_grow_all:
  assumes "grows h h'" and "refs_resolved h"
  shows "list_all (node_ref h') (sh_nodes h)" "list_all (known h') (sh_contents h)"
    "list_all (version_ref h') (sh_versions h)" "list_all (volume_ref h') (sh_volumes h)"
    "list_all (mount_ref h') (sh_mounts h)" "list_all (lock_ref h') (sh_locks h)"
    "list_all (\<lambda>(n, k). known h' n) (sh_xattrs h)" "list_all (edge_ref h') (sh_edges h)"
  using assms(2) refs_grow [OF assms(1)] by (auto simp: refs_resolved_def list_all_iff)

lemma known_shape: "known (shape_of t) n \<longleftrightarrow> n \<in> nd_id ` set (nodes t)"
  "volume_known (shape_of t) v \<longleftrightarrow> v \<in> vl_id ` set (volumes t)"
  "m \<in> fst ` set (sh_mounts (shape_of t)) \<longleftrightarrow> m \<in> mt_id ` set (mounts t)"
  by (auto simp: shape_of_def known_def volume_known_def image_image)

text \<open>A placement's target exists, so a fresh node leaves the placed containers alone.\<close>

lemma placed_fresh_node:
  assumes "refs_resolved h" and "n \<notin> fst ` set (sh_nodes h)"
  shows "placed (h\<lparr>sh_nodes := sh_nodes h @ [(n, ty, v)]\<rparr>) = placed h"
proof -
  have "is_container (h\<lparr>sh_nodes := sh_nodes h @ [(n, ty, v)]\<rparr>) c = is_container h c"
    if "(e, f, c, w, a) \<in> set (sh_edges h)" for e f c w a
  proof -
    from assms(1) that have "edge_ref h (e, f, c, w, a)" by (auto simp: refs_resolved_def list_all_iff)
    then have "c \<in> fst ` set (sh_nodes h)" by (force simp: edge_ref_def endpoint_def)
    with assms(2) have "c \<noteq> n" by auto
    then show ?thesis by (auto simp: is_container_def)
  qed
  then show ?thesis unfolding placed_def by (intro arg_cong2 [where f = map] filter_cong) auto
qed

lemma schema_okD:
  assumes "schema_ok t"
  shows "keys_unique (shape_of t)" "refs_resolved (shape_of t)" "single_parent (shape_of t)" "roots_unique (shape_of t)"
  using assms by (simp_all add: schema_ok_def Let_def)

lemma insert_node_ok:
  assumes "schema_ok t" and "insert_node r t = Inr t'" and hasvol: "nd_volume r \<noteq> None"
  shows "schema_ok t'"
proof -
  from assms(2) have t': "t' = t\<lparr>nodes := nodes t @ [r]\<rparr>" and new: "nd_id r \<notin> nd_id ` set (nodes t)"
    and vol: "case nd_volume r of None \<Rightarrow> True | Some v \<Rightarrow> v \<in> vl_id ` set (volumes t)"
    by (auto simp: insert_node_def row_at_None_iff split: if_splits option.splits)
  let ?h = "shape_of t"
  have h: "shape_of t' = ?h\<lparr>sh_nodes := sh_nodes ?h @ [(nd_id r, nd_type r, nd_volume r)]\<rparr>"
    by (simp add: t' shape_of_def)
  note ok = schema_okD [OF assms(1)]
  have g: "grows ?h (shape_of t')" unfolding h by (auto simp: grows_def)
  have "keys_unique (shape_of t')" using ok(1) new unfolding h
    by (auto simp: keys_unique_def shape_of_def comp_def)
  moreover have "node_ref (shape_of t') (nd_id r, nd_type r, nd_volume r)"
    using vol hasvol by (auto simp: node_ref_def known_shape t' split: option.splits)
  then have "refs_resolved (shape_of t')" using refs_grow_all [OF g ok(2)]
    unfolding refs_resolved_def by (simp add: h)
  moreover have "placed (shape_of t') = placed ?h"
    unfolding h using ok(2) new by (intro placed_fresh_node) (auto simp: known_shape simp flip: known_def)
  then have "single_parent (shape_of t')" using ok(3) by (simp add: single_parent_def)
  moreover have "roots_unique (shape_of t')" using ok(4) unfolding h by (simp add: roots_unique_def)
  ultimately show ?thesis by (simp add: schema_ok_def Let_def)
qed

text \<open>
  The other inserts append to one list and leave the nodes alone. \<open>schema_okI\<close> collects what
  is left to show of the new shape.
\<close>

lemma schema_okI:
  "keys_unique (shape_of t) \<Longrightarrow> refs_resolved (shape_of t) \<Longrightarrow> single_parent (shape_of t)
     \<Longrightarrow> roots_unique (shape_of t) \<Longrightarrow> schema_ok t"
  by (simp add: schema_ok_def Let_def)

lemma placed_cong:
  "sh_edges h' = sh_edges h \<Longrightarrow> sh_nodes h' = sh_nodes h \<Longrightarrow> placed h' = placed h"
  by (simp add: placed_def is_container_def)

lemma single_parent_same:
  "single_parent h \<Longrightarrow> sh_edges h' = sh_edges h \<Longrightarrow> sh_nodes h' = sh_nodes h \<Longrightarrow> single_parent h'"
  unfolding single_parent_def by (drule (1) placed_cong) simp

lemma insert_content_ok:
  assumes "schema_ok t" and "insert_content r t = Inr t'"
  shows "schema_ok t'"
proof -
  from assms(2) have t': "t' = t\<lparr>contents := contents t @ [r]\<rparr>" and new: "ct_node r \<notin> ct_node ` set (contents t)"
    and nd: "ct_node r \<in> nd_id ` set (nodes t)"
    by (auto simp: insert_content_def row_at_None_iff split: if_splits)
  have h: "shape_of t' = (shape_of t)\<lparr>sh_contents := sh_contents (shape_of t) @ [ct_node r]\<rparr>"
    by (simp add: t' shape_of_def)
  note ok = schema_okD [OF assms(1)]
  have g: "grows (shape_of t) (shape_of t')" unfolding h by (simp add: grows_def)
  have k: "known (shape_of t') (ct_node r)" using nd by (simp add: known_shape t')
  show ?thesis
  proof (rule schema_okI)
    show "keys_unique (shape_of t')" using ok(1) new by (simp add: h keys_unique_def) (simp add: shape_of_def)
    show "refs_resolved (shape_of t')"
      using refs_grow_all [OF g ok(2)] k unfolding refs_resolved_def by (simp add: h)
    show "single_parent (shape_of t')" by (rule single_parent_same [OF ok(3)]) (simp_all add: h)
    show "roots_unique (shape_of t')" using ok(4) by (simp add: h roots_unique_def)
  qed
qed

lemma upsert_chunk_ok:
  assumes "schema_ok t"
  shows "schema_ok (upsert_chunk_row r t)"
proof (cases "chunk_at t (ch_hash r) = None")
  case True
  let ?t = "t\<lparr>chunks := chunks t @ [r]\<rparr>"
  from True have new: "ch_hash r \<notin> ch_hash ` set (chunks t)" by (simp add: row_at_None_iff)
  have h: "shape_of ?t = (shape_of t)\<lparr>sh_chunks := sh_chunks (shape_of t) @ [ch_hash r]\<rparr>"
    by (simp add: shape_of_def)
  note ok = schema_okD [OF assms]
  have g: "grows (shape_of t) (shape_of ?t)" unfolding h by (auto simp: grows_def)
  have "schema_ok ?t"
  proof (rule schema_okI)
    show "keys_unique (shape_of ?t)" using ok(1) new by (simp add: h keys_unique_def) (simp add: shape_of_def)
    show "refs_resolved (shape_of ?t)"
      using refs_grow_all [OF g ok(2)] unfolding refs_resolved_def by (simp add: h)
    show "single_parent (shape_of ?t)" by (rule single_parent_same [OF ok(3)]) (simp_all add: h)
    show "roots_unique (shape_of ?t)" using ok(4) by (simp add: h roots_unique_def)
  qed
  with True show ?thesis by (simp add: upsert_chunk_row_def)
qed (simp add: upsert_chunk_row_def assms)

lemma insert_version_ok:
  assumes "schema_ok t" and "insert_version r t = Inr t'"
  shows "schema_ok t'"
proof -
  from assms(2) have t': "t' = t\<lparr>versions := versions t @ [r]\<rparr>"
    and new: "version_key r \<notin> version_key ` set (versions t)"
    and nd: "cv_node r \<in> nd_id ` set (nodes t)" and ch: "cv_hash r \<in> ch_hash ` set (chunks t)"
    by (auto simp: insert_version_def row_at_None_iff split: if_splits)
  have h: "shape_of t' = (shape_of t)\<lparr>sh_versions := sh_versions (shape_of t) @ [(version_key r, cv_hash r)]\<rparr>"
    by (simp add: t' shape_of_def)
  note ok = schema_okD [OF assms(1)]
  have g: "grows (shape_of t) (shape_of t')" unfolding h by (simp add: grows_def)
  have k: "version_ref (shape_of t') (version_key r, cv_hash r)"
    using nd ch by (simp add: version_ref_def known_shape t' version_key_def) (simp add: shape_of_def)
  show ?thesis
  proof (rule schema_okI)
    show "keys_unique (shape_of t')" using ok(1) new
      by (simp add: h keys_unique_def) (auto simp: shape_of_def comp_def)
    show "refs_resolved (shape_of t')"
      using refs_grow_all [OF g ok(2)] k unfolding refs_resolved_def by (simp add: h)
    show "single_parent (shape_of t')" by (rule single_parent_same [OF ok(3)]) (simp_all add: h)
    show "roots_unique (shape_of t')" using ok(4) by (simp add: h roots_unique_def)
  qed
qed

lemma insert_mount_ok:
  assumes "schema_ok t" and "insert_mount r t = Inr t'"
  shows "schema_ok t'"
proof -
  from assms(2) have t': "t' = t\<lparr>mounts := mounts t @ [r]\<rparr>" and new: "mt_id r \<notin> mt_id ` set (mounts t)"
    and vl: "mt_volume r \<in> vl_id ` set (volumes t)" and nd: "mt_point r \<in> nd_id ` set (nodes t)"
    by (auto simp: insert_mount_def row_at_None_iff split: if_splits)
  have h: "shape_of t' = (shape_of t)\<lparr>sh_mounts := sh_mounts (shape_of t) @ [(mt_id r, mt_volume r, mt_point r)]\<rparr>"
    by (simp add: t' shape_of_def)
  note ok = schema_okD [OF assms(1)]
  have g: "grows (shape_of t) (shape_of t')" unfolding h by (auto simp: grows_def)
  have k: "mount_ref (shape_of t') (mt_id r, mt_volume r, mt_point r)"
    using nd vl by (simp add: mount_ref_def known_shape t')
  show ?thesis
  proof (rule schema_okI)
    show "keys_unique (shape_of t')" using ok(1) new
      by (simp add: h keys_unique_def) (auto simp: shape_of_def comp_def)
    show "refs_resolved (shape_of t')"
      using refs_grow_all [OF g ok(2)] k unfolding refs_resolved_def by (simp add: h)
    show "single_parent (shape_of t')" by (rule single_parent_same [OF ok(3)]) (simp_all add: h)
    show "roots_unique (shape_of t')" using ok(4) by (simp add: h roots_unique_def)
  qed
qed

lemma insert_lock_ok:
  assumes "schema_ok t" and "insert_lock r t = Inr t'"
  shows "schema_ok t'"
proof -
  from assms(2) have t': "t' = t\<lparr>locks := locks t @ [r]\<rparr>" and new: "lk_id r \<notin> lk_id ` set (locks t)"
    and mt: "lk_mount r \<in> mt_id ` set (mounts t)" and nd: "lk_node r \<in> nd_id ` set (nodes t)"
    by (auto simp: insert_lock_def row_at_None_iff split: if_splits)
  have h: "shape_of t' = (shape_of t)\<lparr>sh_locks := sh_locks (shape_of t) @ [(lk_id r, lk_mount r, lk_node r)]\<rparr>"
    by (simp add: t' shape_of_def)
  note ok = schema_okD [OF assms(1)]
  have g: "grows (shape_of t) (shape_of t')" unfolding h by (auto simp: grows_def)
  have k: "lock_ref (shape_of t') (lk_id r, lk_mount r, lk_node r)"
    using nd mt known_shape(3) [of "lk_mount r" t'] by (simp add: lock_ref_def known_shape t')
  show ?thesis
  proof (rule schema_okI)
    show "keys_unique (shape_of t')" using ok(1) new
      by (simp add: h keys_unique_def) (auto simp: shape_of_def comp_def)
    show "refs_resolved (shape_of t')"
      using refs_grow_all [OF g ok(2)] k unfolding refs_resolved_def by (simp add: h)
    show "single_parent (shape_of t')" by (rule single_parent_same [OF ok(3)]) (simp_all add: h)
    show "roots_unique (shape_of t')" using ok(4) by (simp add: h roots_unique_def)
  qed
qed

lemma insert_volume_ok:
  assumes "schema_ok t" and "insert_volume r t = Inr t'" and "vl_root r = None"
  shows "schema_ok t'"
proof -
  from assms(2) have t': "t' = t\<lparr>volumes := volumes t @ [r]\<rparr>" and new: "vl_id r \<notin> vl_id ` set (volumes t)"
    by (auto simp: insert_volume_def row_at_None_iff split: if_splits)
  have h: "shape_of t' = (shape_of t)\<lparr>sh_volumes := sh_volumes (shape_of t) @ [(vl_id r, None)]\<rparr>"
    by (simp add: t' shape_of_def assms(3))
  note ok = schema_okD [OF assms(1)]
  have g: "grows (shape_of t) (shape_of t')" unfolding h by (auto simp: grows_def)
  show ?thesis
  proof (rule schema_okI)
    show "keys_unique (shape_of t')" using ok(1) new
      by (simp add: h keys_unique_def) (auto simp: shape_of_def comp_def)
    show "refs_resolved (shape_of t')"
      using refs_grow_all [OF g ok(2)] unfolding refs_resolved_def by (simp add: h volume_ref_def)
    show "single_parent (shape_of t')" by (rule single_parent_same [OF ok(3)]) (simp_all add: h)
    show "roots_unique (shape_of t')" using ok(4) by (simp add: h roots_unique_def)
  qed
qed

lemma is_container_row:
  "is_container (shape_of t) n \<longleftrightarrow> (\<exists>r \<in> set (nodes t). nd_id r = n \<and> nd_type r = CONTAINER)"
  by (force simp: is_container_def shape_of_def)

lemma is_container_at:
  assumes "keys_unique (shape_of t)" and "is_container (shape_of t) n"
  obtains r where "node_at t n = Some r" "nd_type r = CONTAINER"
proof -
  from assms(2) obtain r where r: "r \<in> set (nodes t)" "nd_id r = n" "nd_type r = CONTAINER"
    by (auto simp: is_container_row)
  have "distinct (map nd_id (nodes t))" using assms(1) by (simp add: keys_unique_def shape_of_def comp_def)
  from row_at_mem [OF this r(1)] r that show ?thesis by simp
qed

lemma endpoint_at:
  "node_at t n = Some r \<Longrightarrow> nd_type r \<in> tys \<Longrightarrow> volume_agrees r v \<Longrightarrow> endpoint (shape_of t) n tys v"
  by (auto dest!: row_at_SomeD simp: endpoint_def shape_of_def volume_agrees_def intro!: bexI)

lemma placed_active:
  "c \<in> set (placed (shape_of t)) \<Longrightarrow> has_active_parent t c"
  by (auto simp: placed_def shape_of_def has_active_parent_def)

lemma insert_edge_row_ok:
  assumes "schema_ok t" and new: "eg_id r \<notin> eg_id ` set (edges t)" and gd: "edge_guards t r"
  shows "schema_ok (t\<lparr>edges := edges t @ [r]\<rparr>)"
proof -
  let ?t = "t\<lparr>edges := edges t @ [r]\<rparr>"
  let ?e = "(eg_id r, eg_from r, eg_to r, eg_volume r, eg_archived r)"
  have h: "shape_of ?t = (shape_of t)\<lparr>sh_edges := sh_edges (shape_of t) @ [?e]\<rparr>" by (simp add: shape_of_def)
  note ok = schema_okD [OF assms(1)]
  have g: "grows (shape_of t) (shape_of ?t)" unfolding h by (simp add: grows_def)
  from gd obtain f c where ends: "node_at t (eg_from r) = Some f" "node_at t (eg_to r) = Some c"
    "nd_type f = CONTAINER" "volume_agrees f (eg_volume r)" "volume_agrees c (eg_volume r)"
    and one: "\<not> eg_archived r \<Longrightarrow> nd_type c = CONTAINER \<Longrightarrow> \<not> has_active_parent t (eg_to r)"
    and vl: "eg_volume r \<in> vl_id ` set (volumes t)"
    by (auto simp: edge_guards_def row_at_None_iff split: option.splits)
  have "edge_ref (shape_of t) ?e"
    using endpoint_at [OF ends(1) _ ends(4), of "{CONTAINER}"] endpoint_at [OF ends(2) _ ends(5), of UNIV] ends(3) vl
    by (simp add: edge_ref_def known_shape)
  then have er: "edge_ref (shape_of ?t) ?e" by (rule refs_grow(8) [OF g])
  have pl: "placed (shape_of ?t) = placed (shape_of t) @
      (if \<not> eg_archived r \<and> is_container (shape_of t) (eg_to r) then [eg_to r] else [])"
    by (simp add: h placed_def is_container_def)
  show ?thesis
  proof (rule schema_okI)
    show "keys_unique (shape_of ?t)" using ok(1) new
      by (simp add: h keys_unique_def) (auto simp: shape_of_def comp_def)
    show "refs_resolved (shape_of ?t)"
      using refs_grow_all [OF g ok(2)] er unfolding refs_resolved_def by (simp add: h)
    have "eg_to r \<notin> set (placed (shape_of t))"
      if a: "\<not> eg_archived r" "is_container (shape_of t) (eg_to r)"
    proof -
      from is_container_at [OF ok(1) a(2)] ends(2) have "nd_type c = CONTAINER" by auto
      from one [OF a(1) this] show ?thesis using placed_active by blast
    qed
    then show "single_parent (shape_of ?t)" using ok(3) by (simp add: single_parent_def pl)
    show "roots_unique (shape_of ?t)" using ok(4) by (simp add: h roots_unique_def)
  qed
qed

lemma insert_edge_ok:
  assumes "schema_ok t" and "insert_edge ts r t = Inr t'"
  shows "schema_ok t'"
proof -
  from assms(2) have "eg_id r \<notin> eg_id ` set (edges t)" "edge_guards t r"
    by (auto simp: insert_edge_def row_at_None_iff split: if_splits)
  from insert_edge_row_ok [OF assms(1) this] have "schema_ok (t\<lparr>edges := edges t @ [r]\<rparr>)" .
  moreover have "t' = (if eg_archived r then t\<lparr>edges := edges t @ [r]\<rparr>
      else touch_ctime ts (eg_to r) (t\<lparr>edges := edges t @ [r]\<rparr>))"
    using assms(2) by (simp add: insert_edge_def Let_def split: if_splits)
  ultimately show ?thesis using schema_ok_same_shape [OF shape_touch(2)] by simp
qed

text \<open>The root link, archiving and deletion.\<close>

lemma distinct_value_update:
  "distinct (map fst vs) \<Longrightarrow> distinct (filter P (map snd vs)) \<Longrightarrow> \<forall>(k, x) \<in> set vs. k \<noteq> v \<longrightarrow> x \<noteq> r \<Longrightarrow>
     distinct (filter P (map (\<lambda>(k, x). if k = v then r else x) vs))"
proof (induction vs)
  case (Cons p vs)
  obtain k x where p: "p = (k, x)" by force
  show ?case
  proof (cases "k = v")
    case True
    with Cons.prems p have "\<forall>q \<in> set vs. fst q \<noteq> v" by force
    then have e: "map (\<lambda>(k, x). if k = v then r else x) (p # vs) = r # map snd vs"
      using p True by (auto simp: case_prod_beta)
    have "r \<notin> snd ` set vs" using Cons.prems(3) \<open>\<forall>q \<in> set vs. fst q \<noteq> v\<close> by fastforce
    moreover have "distinct (filter P (map snd vs))" using Cons.prems(2) by (auto split: if_splits)
    ultimately show ?thesis unfolding e by simp
  next
    case False
    have "x \<notin> (\<lambda>(k, x). if k = v then r else x) ` set vs" if "P x"
      using Cons.prems p False that by (force split: if_splits)
    with Cons p False show ?thesis by (auto split: if_splits)
  qed
qed simp

lemma link_root_ok:
  assumes "schema_ok t" and "link_root v root t = Inr t'"
  shows "schema_ok t'"
proof -
  let ?u = "\<lambda>r. if vl_id r = v then r\<lparr>vl_root := Some root\<rparr> else r"
  from assms(2) have t': "t' = t\<lparr>volumes := map ?u (volumes t)\<rparr>"
    and nd: "root \<in> nd_id ` set (nodes t)" and un: "\<And>r. r \<in> set (volumes t) \<Longrightarrow> vl_id r \<noteq> v \<Longrightarrow> vl_root r \<noteq> Some root"
    by (auto simp: link_root_def row_at_None_iff split: if_splits)
  have h: "shape_of t' = (shape_of t)\<lparr>sh_volumes := map (\<lambda>(k, x). (k, if k = v then Some root else x)) (sh_volumes (shape_of t))\<rparr>"
    by (simp add: t' shape_of_def)
  note ok = schema_okD [OF assms(1)]
  have sv: "sh_volumes (shape_of t') = map (\<lambda>(k, x). (k, if k = v then Some root else x)) (sh_volumes (shape_of t))"
    by (simp add: h)
  have fst: "map fst (sh_volumes (shape_of t')) = map fst (sh_volumes (shape_of t))"
    by (simp add: h comp_def case_prod_beta)
  then have "fst ` set (sh_volumes (shape_of t')) = fst ` set (sh_volumes (shape_of t))" by (metis set_map)
  then have g: "grows (shape_of t) (shape_of t')" by (simp add: grows_def h)
  show ?thesis
  proof (rule schema_okI)
    show "keys_unique (shape_of t')" using ok(1) fst by (simp add: keys_unique_def) (simp add: h)
    have "volume_ref (shape_of t') (k, Some root)" for k using nd by (simp add: volume_ref_def known_shape t')
    then have "list_all (volume_ref (shape_of t')) (sh_volumes (shape_of t'))"
      using refs_grow_all(4) [OF g ok(2)] unfolding sv list_all_iff by auto
    then show "refs_resolved (shape_of t')"
      using refs_grow_all [OF g ok(2)] unfolding refs_resolved_def by (simp add: h)
    show "single_parent (shape_of t')" by (rule single_parent_same [OF ok(3)]) (simp_all add: h)
    have "distinct (map fst (sh_volumes (shape_of t)))" using ok(1) by (simp add: keys_unique_def)
    moreover have "\<forall>(k, x) \<in> set (sh_volumes (shape_of t)). k \<noteq> v \<longrightarrow> x \<noteq> Some root"
      using un by (auto simp: shape_of_def)
    moreover have "map snd (sh_volumes (shape_of t')) =
        map (\<lambda>(k, x). if k = v then Some root else x) (sh_volumes (shape_of t))"
      by (auto simp: sv)
    ultimately show "roots_unique (shape_of t')"
      using distinct_value_update [of "sh_volumes (shape_of t)" "\<lambda>r. r \<noteq> None" v "Some root"] ok(4)
      by (simp add: roots_unique_def)
  qed
qed

lemma update_volume_crypto_ok:
  assumes "schema_ok t" and "update_volume_crypto v m w t = Inr t'"
  shows "schema_ok t'"
proof -
  from assms(2) have "shape_of t' = shape_of t"
    by (auto simp: update_volume_crypto_def shape_of_def split: if_splits)
  with assms(1) show ?thesis by (simp add: schema_ok_def)
qed

lemma distinct_filter_weaker:
  assumes "distinct (map k (filter P es))" and "\<And>e. k (f e) = k e" and "\<And>e. P' (f e) \<Longrightarrow> P e"
  shows "distinct (map k (filter P' (map f es)))"
  using assms(1)
proof (induction es)
  case (Cons e es)
  have "k e \<notin> k ` {x \<in> f ` set es. P' x}" if "P' (f e)"
    using Cons.prems assms(3) [OF that] assms(2,3) by (auto simp: image_iff) (metis assms(3))
  with Cons assms(2) show ?case by (auto split: if_splits)
qed simp

lemma archive_where_ok:
  assumes "schema_ok t"
  shows "schema_ok (snd (archive_where ts P t))"
proof -
  let ?f = "\<lambda>e. if \<not> eg_archived e \<and> P e then e\<lparr>eg_archived := True\<rparr> else e"
  let ?t = "t\<lparr>edges := map ?f (edges t)\<rparr>"
  have touch: "shape_of (fold (\<lambda>e. touch_ctime ts (eg_to e)) es u) = shape_of u" for es u
    by (induction es arbitrary: u) (simp_all add: shape_touch)
  note ok = schema_okD [OF assms]
  have same: "sh_nodes (shape_of ?t) = sh_nodes (shape_of t)" "sh_contents (shape_of ?t) = sh_contents (shape_of t)"
    "sh_chunks (shape_of ?t) = sh_chunks (shape_of t)" "sh_versions (shape_of ?t) = sh_versions (shape_of t)"
    "sh_volumes (shape_of ?t) = sh_volumes (shape_of t)" "sh_mounts (shape_of ?t) = sh_mounts (shape_of t)"
    "sh_locks (shape_of ?t) = sh_locks (shape_of t)" "sh_xattrs (shape_of ?t) = sh_xattrs (shape_of t)"
    "map fst (sh_edges (shape_of ?t)) = map fst (sh_edges (shape_of t))"
    by (simp_all add: shape_of_def comp_def)
  have g: "grows (shape_of t) (shape_of ?t)" by (simp add: grows_def same)
  have "list_all (edge_ref (shape_of ?t)) (sh_edges (shape_of ?t))"
    using refs_grow_all(8) [OF g ok(2)]
    by (auto simp: list_all_iff edge_ref_def) (auto simp: shape_of_def split: if_splits)
  then have "refs_resolved (shape_of ?t)"
    using refs_grow_all [OF g ok(2)] unfolding refs_resolved_def by (simp add: same)
  moreover have "keys_unique (shape_of ?t)" using ok(1) by (simp add: keys_unique_def same)
  moreover have "distinct (map eg_to (filter (\<lambda>e. \<not> eg_archived e \<and> is_container (shape_of t) (eg_to e)) (map ?f (edges t))))"
    using ok(3) by (intro distinct_filter_weaker [where P = "\<lambda>e. \<not> eg_archived e \<and> is_container (shape_of t) (eg_to e)"])
      (auto simp: single_parent_def placed_def shape_of_def filter_map comp_def split: if_splits)
  then have "single_parent (shape_of ?t)"
    by (simp add: single_parent_def placed_def shape_of_def filter_map comp_def is_container_def)
  moreover have "roots_unique (shape_of ?t)" using ok(4) by (simp add: roots_unique_def same)
  ultimately have "schema_ok ?t" by (intro schema_okI)
  then show ?thesis by (simp add: archive_where_def Let_def schema_ok_def touch)
qed

text \<open>Rows go: locks, extended attributes, manifest rows, unreferenced chunks, volatile nodes.\<close>

definition rows_resolved :: "tables \<Rightarrow> bool" where
  "rows_resolved t \<longleftrightarrow>
     (\<forall>r \<in> set (nodes t). case nd_volume r of None \<Rightarrow> False | Some v \<Rightarrow> v \<in> vl_id ` set (volumes t))
     \<and> (\<forall>r \<in> set (contents t). ct_node r \<in> nd_id ` set (nodes t))
     \<and> (\<forall>r \<in> set (versions t). cv_node r \<in> nd_id ` set (nodes t) \<and> cv_hash r \<in> ch_hash ` set (chunks t))
     \<and> (\<forall>r \<in> set (volumes t). case vl_root r of None \<Rightarrow> True | Some n \<Rightarrow> n \<in> nd_id ` set (nodes t))
     \<and> (\<forall>m \<in> set (mounts t). mt_volume m \<in> vl_id ` set (volumes t) \<and> mt_point m \<in> nd_id ` set (nodes t))
     \<and> (\<forall>l \<in> set (locks t). lk_mount l \<in> mt_id ` set (mounts t) \<and> lk_node l \<in> nd_id ` set (nodes t))
     \<and> (\<forall>x \<in> set (xattrs t). xa_node x \<in> nd_id ` set (nodes t))
     \<and> (\<forall>e \<in> set (edges t). (\<exists>f \<in> set (nodes t). nd_id f = eg_from e \<and> nd_type f = CONTAINER \<and> volume_agrees f (eg_volume e))
          \<and> (\<exists>c \<in> set (nodes t). nd_id c = eg_to e \<and> volume_agrees c (eg_volume e))
          \<and> eg_volume e \<in> vl_id ` set (volumes t))"

lemma endpoint_row:
  "endpoint (shape_of t) n tys v \<longleftrightarrow> (\<exists>r \<in> set (nodes t). nd_id r = n \<and> nd_type r \<in> tys \<and> volume_agrees r v)"
  by (auto simp: endpoint_def shape_of_def volume_agrees_def)

lemma list_all_shape:
  "list_all P (sh_nodes (shape_of t)) \<longleftrightarrow> (\<forall>r \<in> set (nodes t). P (nd_id r, nd_type r, nd_volume r))"
  "list_all P1 (sh_contents (shape_of t)) \<longleftrightarrow> (\<forall>r \<in> set (contents t). P1 (ct_node r))"
  "list_all P2 (sh_versions (shape_of t)) \<longleftrightarrow> (\<forall>r \<in> set (versions t). P2 (version_key r, cv_hash r))"
  "list_all P3 (sh_volumes (shape_of t)) \<longleftrightarrow> (\<forall>r \<in> set (volumes t). P3 (vl_id r, vl_root r))"
  "list_all P4 (sh_mounts (shape_of t)) \<longleftrightarrow> (\<forall>m \<in> set (mounts t). P4 (mt_id m, mt_volume m, mt_point m))"
  "list_all P5 (sh_locks (shape_of t)) \<longleftrightarrow> (\<forall>l \<in> set (locks t). P5 (lk_id l, lk_mount l, lk_node l))"
  "list_all P6 (sh_xattrs (shape_of t)) \<longleftrightarrow> (\<forall>x \<in> set (xattrs t). P6 (xa_node x, xa_name x))"
  "list_all P7 (sh_edges (shape_of t)) \<longleftrightarrow> (\<forall>e \<in> set (edges t). P7 (eg_id e, eg_from e, eg_to e, eg_volume e, eg_archived e))"
  by (simp_all add: shape_of_def list_all_iff)

lemma refs_rows: "refs_resolved (shape_of t) \<longleftrightarrow> rows_resolved t"
proof -
  have "c \<in> set (sh_chunks (shape_of t)) \<longleftrightarrow> c \<in> ch_hash ` set (chunks t)" for c by (simp add: shape_of_def)
  then show ?thesis
    unfolding refs_resolved_def rows_resolved_def list_all_shape node_ref_def version_ref_def volume_ref_def
      mount_ref_def lock_ref_def edge_ref_def version_key_def prod.case known_shape endpoint_row
    by simp
qed

lemma schema_ok_fewer:
  assumes "schema_ok t"
    and same: "nodes t' = nodes t" "contents t' = contents t" "edges t' = edges t" "volumes t' = volumes t"
      "mounts t' = mounts t"
    and locks: "set (locks t') \<subseteq> set (locks t)" "distinct (map lk_id (locks t'))"
    and xattrs: "set (xattrs t') \<subseteq> set (xattrs t)" "distinct (map (\<lambda>x. (xa_node x, xa_name x)) (xattrs t'))"
    and versions: "set (versions t') \<subseteq> set (versions t)" "distinct (map version_key (versions t'))"
    and chunks: "distinct (map ch_hash (chunks t'))" "cv_hash ` set (versions t') \<subseteq> ch_hash ` set (chunks t')"
  shows "schema_ok t'"
proof (rule schema_okI)
  note ok = schema_okD [OF assms(1)]
  show "keys_unique (shape_of t')" using ok(1) locks(2) xattrs(2) versions(2) chunks(1)
    by (simp add: keys_unique_def shape_of_def same comp_def)
  have "rows_resolved t" using ok(2) by (simp add: refs_rows)
  then show "refs_resolved (shape_of t')"
    unfolding refs_rows rows_resolved_def same using locks(1) xattrs(1) versions(1) chunks(2) by blast
  show "single_parent (shape_of t')" by (rule single_parent_same [OF ok(3)]) (simp_all add: shape_of_def same)
  show "roots_unique (shape_of t')" using ok(4) by (simp add: shape_of_def same roots_unique_def)
qed

lemma keys_rows:
  assumes "schema_ok t"
  shows "distinct (map nd_id (nodes t))" "distinct (map ct_node (contents t))" "distinct (map ch_hash (chunks t))"
    "distinct (map version_key (versions t))" "distinct (map eg_id (edges t))" "distinct (map vl_id (volumes t))"
    "distinct (map mt_id (mounts t))" "distinct (map lk_id (locks t))"
    "distinct (map (\<lambda>x. (xa_node x, xa_name x)) (xattrs t))"
  using schema_okD(1) [OF assms] by (simp_all add: keys_unique_def shape_of_def comp_def)

lemma rows_okD: "schema_ok t \<Longrightarrow> rows_resolved t"
  using schema_okD(2) refs_rows by blast

lemma fewer_facts:
  assumes "schema_ok t"
  shows "distinct (map ch_hash (chunks t)) \<and> distinct (map version_key (versions t)) \<and> distinct (map lk_id (locks t))
     \<and> distinct (map (\<lambda>x. (xa_node x, xa_name x)) (xattrs t)) \<and> (\<forall>r \<in> set (versions t). cv_hash r \<in> ch_hash ` set (chunks t))"
  using keys_rows [OF assms] rows_okD [OF assms] by (simp add: rows_resolved_def)

lemma release_lock_ok: "schema_ok t \<Longrightarrow> schema_ok (release_lock l t)"
  by (rule schema_ok_fewer, assumption, insert fewer_facts [of t]) (auto simp: release_lock_def distinct_map_filter)

lemma prune_locks_ok: "schema_ok t \<Longrightarrow> schema_ok (snd (prune_locks ts t))"
  by (rule schema_ok_fewer, assumption, insert fewer_facts [of t]) (auto simp: prune_locks_def valid_lock_def distinct_map_filter)

lemma xattr_remove_ok: "schema_ok t \<Longrightarrow> schema_ok (snd (xattr_remove_sql n nm t))"
  by (rule schema_ok_fewer, assumption, insert fewer_facts [of t]) (auto simp: xattr_remove_sql_def distinct_map_filter)

lemma prune_content_versions_ok: "schema_ok t \<Longrightarrow> schema_ok (snd (prune_content_versions ts v t))"
  by (rule schema_ok_fewer, assumption, insert fewer_facts [of t]) (auto simp: prune_content_versions_def distinct_map_filter)

lemma prune_content_chunks_ok: "schema_ok t \<Longrightarrow> schema_ok (snd (prune_content_chunks t))"
  by (rule schema_ok_fewer, assumption, insert fewer_facts [of t]) (auto simp: prune_content_chunks_def distinct_map_filter, force)

lemma xattr_set_ok:
  assumes "schema_ok t" and "xattr_set_sql n nm val t = Inr t'"
  shows "schema_ok t'"
proof (cases "xattr_row_at t n nm = None")
  case False
  with assms(2) have "shape_of t' = shape_of t"
    by (auto simp: xattr_set_sql_def shape_of_def)
  with assms(1) show ?thesis by (simp add: schema_ok_def)
next
  case True
  let ?x = "\<lparr>xa_node = n, xa_name = nm, xa_value = val\<rparr>"
  from True assms(2) have t': "t' = t\<lparr>xattrs := xattrs t @ [?x]\<rparr>" and nd: "n \<in> nd_id ` set (nodes t)"
    by (auto simp: xattr_set_sql_def row_at_None_iff split: if_splits)
  from True have new: "(n, nm) \<notin> (\<lambda>x. (xa_node x, xa_name x)) ` set (xattrs t)"
    by (auto simp: xattr_row_at_def find_None_iff)
  note ok = schema_okD [OF assms(1)]
  show ?thesis
  proof (rule schema_okI)
    show "keys_unique (shape_of t')" using ok(1) new by (simp add: keys_unique_def t') (simp add: shape_of_def)
    show "refs_resolved (shape_of t')" using rows_okD [OF assms(1)] nd
      by (simp add: refs_rows rows_resolved_def t' split: option.splits)
    show "single_parent (shape_of t')" by (rule single_parent_same [OF ok(3)]) (simp_all add: t' shape_of_def)
    show "roots_unique (shape_of t')" using ok(4) by (simp add: t' shape_of_def roots_unique_def)
  qed
qed

lemma prune_nodes_ok:
  assumes "schema_ok t" and "prune_nodes v t = Inr (k, t')"
  shows "schema_ok t'"
proof -
  define dead where "dead = map nd_id (filter (\<lambda>r. volatile_node t (nd_id r) \<and> (v = None \<or> nd_volume r = v)) (nodes t))"
  from assms(2) have free: "\<And>e. e \<in> set (edges t) \<Longrightarrow> eg_from e \<notin> set dead"
      "\<And>m. m \<in> set (mounts t) \<Longrightarrow> mt_point m \<notin> set dead" "\<And>l. l \<in> set (locks t) \<Longrightarrow> lk_node l \<notin> set dead"
    and t': "t' = t\<lparr>nodes := filter (\<lambda>r. nd_id r \<notin> set dead) (nodes t),
             contents := filter (\<lambda>r. ct_node r \<notin> set dead) (contents t),
             versions := filter (\<lambda>r. cv_node r \<notin> set dead) (versions t),
             xattrs := filter (\<lambda>r. xa_node r \<notin> set dead) (xattrs t)\<rparr>"
    by (auto simp: prune_nodes_def Let_def simp flip: dead_def split: if_splits)
  have vol: "volatile_node t n" if "n \<in> set dead" for n using that by (auto simp: dead_def)
  then have to: "\<And>e. e \<in> set (edges t) \<Longrightarrow> eg_to e \<notin> set dead"
    and rt: "\<And>r n. r \<in> set (volumes t) \<Longrightarrow> vl_root r = Some n \<Longrightarrow> n \<notin> set dead"
    by (auto simp: volatile_node_def)
  have nodes: "n \<in> nd_id ` set (nodes t') \<longleftrightarrow> n \<in> nd_id ` set (nodes t) \<and> n \<notin> set dead" for n
    by (auto simp: t')
  note ok = schema_okD [OF assms(1)] and keys = keys_rows [OF assms(1)] and rows = rows_okD [OF assms(1)]
  show ?thesis
  proof (rule schema_okI)
    show "keys_unique (shape_of t')" using keys
      by (simp add: keys_unique_def shape_of_def t' comp_def distinct_map_filter)
    have "rows_resolved t'"
      unfolding rows_resolved_def
    proof (intro conjI ballI)
      fix e assume e: "e \<in> set (edges t')"
      then have e': "e \<in> set (edges t)" by (simp add: t')
      with rows obtain f c where "f \<in> set (nodes t)" "nd_id f = eg_from e" "nd_type f = CONTAINER" "volume_agrees f (eg_volume e)"
        "c \<in> set (nodes t)" "nd_id c = eg_to e" "volume_agrees c (eg_volume e)" "eg_volume e \<in> vl_id ` set (volumes t)"
        unfolding rows_resolved_def by blast
      with free(1) [OF e'] to [OF e']
      show "\<exists>f \<in> set (nodes t'). nd_id f = eg_from e \<and> nd_type f = CONTAINER \<and> volume_agrees f (eg_volume e)"
        "\<exists>c \<in> set (nodes t'). nd_id c = eg_to e \<and> volume_agrees c (eg_volume e)"
        "eg_volume e \<in> vl_id ` set (volumes t')"
        by (auto simp: t')
    qed (use rows free rt in \<open>auto simp: rows_resolved_def nodes split: option.splits\<close>,
        (auto simp: t' rows_resolved_def split: option.splits)?)
    then show "refs_resolved (shape_of t')" by (simp add: refs_rows)
    have "is_container (shape_of t') n = is_container (shape_of t) n" if "n \<notin> set dead" for n
      using that by (auto simp: is_container_row t')
    then have "placed (shape_of t') = placed (shape_of t)"
      unfolding placed_def using to by (intro arg_cong2 [where f = map] refl) (auto simp: shape_of_def t' intro!: filter_cong)
    then show "single_parent (shape_of t')" using ok(3) by (simp add: single_parent_def)
    show "roots_unique (shape_of t')" using ok(4) by (simp add: shape_of_def t' roots_unique_def)
  qed
qed

section \<open>Every operation keeps the invariants\<close>

interpretation soundness: volume_invariant "\<lambda>_. schema_ok"
proof unfold_locales
  fix t t' :: tables
  assume ok: "schema_ok t"
  show "insert_node r t = Inr t' \<Longrightarrow> nd_volume r \<noteq> None \<Longrightarrow> schema_ok t'" for r by (rule insert_node_ok [OF ok])
  show "insert_content r t = Inr t' \<Longrightarrow> schema_ok t'" for r by (rule insert_content_ok [OF ok])
  show "schema_ok (upsert_chunk_row c t)" for c by (rule upsert_chunk_ok [OF ok])
  show "insert_version r t = Inr t' \<Longrightarrow> schema_ok t'" for r by (rule insert_version_ok [OF ok])
  show "insert_edge ts r t = Inr t' \<Longrightarrow> schema_ok t'" for ts r by (rule insert_edge_ok [OF ok])
  show "link_root v r t = Inr t' \<Longrightarrow> schema_ok t'" for v r by (rule link_root_ok [OF ok])
  show "update_volume_crypto v m w t = Inr t' \<Longrightarrow> schema_ok t'" for v m w by (rule update_volume_crypto_ok [OF ok])
  show "insert_mount r t = Inr t' \<Longrightarrow> schema_ok t'" for r by (rule insert_mount_ok [OF ok])
  show "insert_lock r t = Inr t' \<Longrightarrow> schema_ok t'" for r by (rule insert_lock_ok [OF ok])
  show "insert_volume r t = Inr t' \<Longrightarrow> vl_root r = None \<Longrightarrow> schema_ok t'" for r by (rule insert_volume_ok [OF ok])
  show "schema_ok (release_lock l t)" for l by (rule release_lock_ok [OF ok])
  show "schema_ok (snd (archive_where ts Q t))" for ts Q by (rule archive_where_ok [OF ok])
  show "xattr_set_sql n k v t = Inr t' \<Longrightarrow> schema_ok t'" for n k v by (rule xattr_set_ok [OF ok])
  show "schema_ok (snd (xattr_remove_sql n k t))" for n k by (rule xattr_remove_ok [OF ok])
  show "schema_ok (snd (prune_locks ts t))" for ts by (rule prune_locks_ok [OF ok])
  show "prune_nodes v t = Inr (k, t') \<Longrightarrow> schema_ok t'" for v k by (rule prune_nodes_ok [OF ok])
  show "schema_ok (snd (prune_content_versions ts v t))" for ts v by (rule prune_content_versions_ok [OF ok])
  show "schema_ok (snd (prune_content_chunks t))" by (rule prune_content_chunks_ok [OF ok])
qed (simp_all add: schema_ok_def shape_same)

text \<open>
  No operation but \<open>create_volume\<close> touches a volume's root, and that one sets it: outside a
  transaction every volume has a root. Inside, all but those of \<open>X\<close>.
\<close>

definition rooted_but :: "volume_id set \<Rightarrow> tables \<Rightarrow> bool" where
  "rooted_but X t \<longleftrightarrow> (\<forall>v \<in> set (volumes t). vl_root v \<noteq> None \<or> vl_id v \<in> X)"

lemma volumes_frame [simp]:
  "volumes (touch_modified ts n t) = volumes t" "volumes (touch_ctime ts n t) = volumes t"
  "volumes (upsert_chunk_row ch t) = volumes t" "volumes (release_lock l t) = volumes t"
  "volumes (update_content ts n v sz t) = volumes t" "volumes (set_retention_keep n k t) = volumes t"
  "volumes (rename_placement p n old nm t) = volumes t" "volumes (rename_node_if_sole ts n nm t) = volumes t"
  "volumes (set_mount_state mt ms t) = volumes t" "volumes (renew_mount_sql mt x t) = volumes t"
  "volumes (renew_lock_sql l x t) = volumes t" "volumes (update_node n f t) = volumes t"
  "volumes (snd (xattr_remove_sql n nm t)) = volumes t" "volumes (snd (prune_locks ts t)) = volumes t"
  "volumes (snd (prune_content_versions ts vol t)) = volumes t" "volumes (snd (prune_content_chunks t)) = volumes t"
  by (simp_all add: touch_modified_def touch_ctime_def upsert_chunk_row_def release_lock_def update_content_def
      set_retention_keep_def rename_placement_def rename_node_if_sole_def set_mount_state_def renew_mount_sql_def
      renew_lock_sql_def update_node_def xattr_remove_sql_def prune_locks_def prune_content_versions_def prune_content_chunks_def)

lemma volumes_archive [simp]: "volumes (snd (archive_where ts Q t)) = volumes t"
proof -
  have "volumes (fold (\<lambda>e. touch_ctime ts (eg_to e)) es u) = volumes u" for es :: "edge_row list" and u
    by (induction es arbitrary: u) simp_all
  then show ?thesis by (simp add: archive_where_def Let_def)
qed

lemma volumes_insert:
  "insert_node nr t = Inr t' \<Longrightarrow> volumes t' = volumes t" "insert_content cr t = Inr t' \<Longrightarrow> volumes t' = volumes t"
  "insert_version vr t = Inr t' \<Longrightarrow> volumes t' = volumes t" "insert_edge ts er t = Inr t' \<Longrightarrow> volumes t' = volumes t"
  "insert_mount mr t = Inr t' \<Longrightarrow> volumes t' = volumes t" "insert_lock lr t = Inr t' \<Longrightarrow> volumes t' = volumes t"
  "xattr_set_sql n k val t = Inr t' \<Longrightarrow> volumes t' = volumes t" "prune_nodes vol t = Inr (c, t') \<Longrightarrow> volumes t' = volumes t"
  by (auto simp: insert_node_def insert_content_def insert_version_def insert_edge_def insert_mount_def insert_lock_def
      xattr_set_sql_def prune_nodes_def Let_def split: if_splits)

interpretation roots: table_invariant "\<lambda>_. rooted_but X" for X
proof unfold_locales
  fix t t' :: tables and v st mode w
  show "rooted_but X t \<Longrightarrow> rooted_but X (raise_wm v st t)" by (auto simp: rooted_but_def raise_wm_def)
  show "rooted_but X t \<Longrightarrow> update_volume_crypto v mode w t = Inr t' \<Longrightarrow> rooted_but X t'"
    by (fastforce simp: rooted_but_def update_volume_crypto_def split: if_splits)
qed (simp_all add: rooted_but_def, (drule volumes_insert, simp)+)

lemma link_root_roots: "rooted_but {v} t \<Longrightarrow> link_root v r t = Inr t' \<Longrightarrow> rooted_but {} t'"
  by (auto simp: rooted_but_def link_root_def split: if_splits)

lemma create_volume_rooted:
  assumes "rooted_but {} (tabs s)"
  shows "rooted_but {} (tabs (snd (create_volume L nm cs pin mode s)))"
proof -
  define rest :: "string \<Rightarrow> string \<Rightarrow> string op" where "rest = (\<lambda>vid root.
     bind_op (case pin of None \<Rightarrow> ret ()
       | Some p \<Rightarrow> bind_op (random_bytes 32) (\<lambda>k_v.
           bind_op (wrap_op L (derive_unlock_key L p (volume_hash L vid root)) k_v) (\<lambda>wrapped.
           sql (update_volume_crypto vid (if pin \<noteq> None then mode else ''none'') wrapped)))) (\<lambda>_. ret vid))"
  define body where "body =
     bind_op gen_id (\<lambda>vid.
     bind_op (gets now) (\<lambda>ts.
     bind_op (sql (insert_volume \<lparr>vl_id = vid, vl_root = None, vl_name = nm, vl_created = ts, vl_api = 2,
        vl_chunk_size = cs, vl_wm = Stamp 0 0, vl_enc_mode = (if pin \<noteq> None then mode else ''none''), vl_wrapped = None\<rparr>)) (\<lambda>_.
     bind_op (create_monotonic (create_node_sql CONTAINER ''/'' ts None (Some vid) None) (Some vid)) (\<lambda>root.
     bind_op (sql (link_root vid root)) (\<lambda>_. rest vid root)))))"
  have ok: "rooted_but {} (tabs s')" if "body (s\<lparr>in_txn := True\<rparr>) = (Inr vid, s')" for vid s'
  proof -
    from that obtain v s1 t2 root s3 t4 where
      g: "gen_id (s\<lparr>in_txn := True\<rparr>) = (Inr v, s1)"
      and iv: "insert_volume \<lparr>vl_id = v, vl_root = None, vl_name = nm, vl_created = now s1, vl_api = 2,
        vl_chunk_size = cs, vl_wm = Stamp 0 0, vl_enc_mode = (if pin \<noteq> None then mode else ''none''), vl_wrapped = None\<rparr> (tabs s1) = Inr t2"
      and nd: "create_monotonic (create_node_sql CONTAINER ''/'' (now s1) None (Some v) None) (Some v) (s1\<lparr>tabs := t2\<rparr>) = (Inr root, s3)"
      and lr: "link_root v root (tabs s3) = Inr t4" and re: "rest v root (s3\<lparr>tabs := t4\<rparr>) = (Inr vid, s')"
      unfolding body_def by (auto simp: op_elims)
    from g have "tabs s1 = tabs s" by (auto simp: gen_id_def)
    with assms iv have "rooted_but {v} t2" by (auto simp: rooted_but_def insert_volume_def split: if_splits)
    then have "roots.holding {v} (sql_now s1) (s1\<lparr>tabs := t2\<rparr>)" by simp
    from preserves_result [OF roots.inserts_keep(1) nd this] have "rooted_but {v} (tabs s3)" by simp
    from link_root_roots [OF this lr] have "rooted_but {} t4" .
    then have "roots.holding {} (sql_now s3) (s3\<lparr>tabs := t4\<rparr>)" by simp
    moreover have "preserves (roots.holding {} clk) (rest v root)" for clk
      unfolding rest_def by (intro preserving)
    ultimately have "roots.holding {} (sql_now s3) s'" using re by (rule preserves_result [rotated 2])
    then show ?thesis by simp
  qed
  have "rooted_but {} (tabs (snd (txn body s)))"
  proof (cases "in_txn s")
    case False
    obtain r s' where m: "body (s\<lparr>in_txn := True\<rparr>) = (r, s')" by force
    with ok assms roots.flush_keeps [where s = s' and clk = "sql_now s'" and X = "{}"] False show ?thesis by (cases r) (auto simp: txn_def)
  qed (simp add: txn_def assms)
  moreover have "create_volume L nm cs pin mode = bind_op (txn body) (\<lambda>vid.
      get_opt TypeError (\<lambda>s. map_option volume_info_of (volume_at (tabs s) vid)))"
    by (cases pin) (simp_all add: create_volume_def body_def rest_def Let_def)
  ultimately show ?thesis
    by (auto simp: bind_op_def get_opt_def split: prod.splits sum.splits option.splits) 
qed

text \<open>No operation moves SQLite's clock.\<close>

interpretation clock: volume_invariant "\<lambda>_ _. True"
  by unfold_locales simp_all

lemma create_volume_roots:
  "preserves (\<lambda>s. sql_now s = clk \<and> rooted_but {} (tabs s)) (create_volume L nm cs pin mode)"
  using clock.keeps_create_volume [where clk = clk and L = L and nm = nm and cs = cs and pin = pin and mode = mode]
    create_volume_rooted by (simp add: preserves_def)

section \<open>Health\<close>

lemma node_at_row: "schema_ok t \<Longrightarrow> r \<in> set (nodes t) \<Longrightarrow> node_at t (nd_id r) = Some r"
  using row_at_mem [OF keys_rows(1)] by blast

text \<open>A sound file with rooted volumes has no anomaly but, possibly, a cycle.\<close>

lemma health_only_cycles:
  assumes "schema_ok t" and "rooted_but {} t" and "(k, i) \<in> set (health_anomaly t)"
  shows "k = Cycle"
proof -
  note rows = rows_okD [OF assms(1)]
  have edge: "\<exists>f c. node_at t (eg_from e) = Some f \<and> node_at t (eg_to e) = Some c
      \<and> volume_agrees f (eg_volume e) \<and> volume_agrees c (eg_volume e)" if "e \<in> set (edges t)" for e
  proof -
    from rows that obtain f c where "f \<in> set (nodes t)" "nd_id f = eg_from e" "volume_agrees f (eg_volume e)"
      "c \<in> set (nodes t)" "nd_id c = eg_to e" "volume_agrees c (eg_volume e)"
      unfolding rows_resolved_def by blast
    with node_at_row [OF assms(1)] show ?thesis by metis
  qed
  have vol: "nd_volume r \<noteq> None" if "r \<in> set (nodes t)" for r
    using rows that by (auto simp: rows_resolved_def split: option.splits)
  have root: "\<exists>n. vl_root v = Some n \<and> node_at t n \<noteq> None" if "v \<in> set (volumes t)" for v
    using rows assms(2) that by (fastforce simp: rows_resolved_def rooted_but_def row_at_None_iff split: option.splits)
  show ?thesis using assms(3) edge vol root
    by (fastforce simp: health_anomaly_def split: option.splits)
qed

end
