(* ===== verification/Creating.thy ===== *)
theory Creating
  imports Namespace Integrity
begin

text \<open>
  What a creation stores. \<open>create_entry\<close> (\<open>aloelite/operations.py\<close>) inserts the node, its
  content row, the chunks of the first version and the placement in one transaction: the new
  path is then a writable file with the bytes that were given, and every other file has kept
  its bytes. \<open>beside n t t'\<close> says that two states of the tables differ in what belongs to \<open>n\<close>
  alone, as far as the content of files is concerned.
\<close>

section \<open>Frames\<close>

definition volumes_alike :: "tables \<Rightarrow> tables \<Rightarrow> bool" where
  "volumes_alike t t' \<longleftrightarrow>
     (\<forall>v. map_option (\<lambda>r. (vl_enc_mode r, vl_chunk_size r)) (volume_at t' v) = map_option (\<lambda>r. (vl_enc_mode r, vl_chunk_size r)) (volume_at t v))"

definition beside :: "node_id \<Rightarrow> tables \<Rightarrow> tables \<Rightarrow> bool" where
  "beside n t t' \<longleftrightarrow> mounts t' = mounts t \<and> locks t' = locks t \<and> volumes_alike t t' \<and> pool_le t t'
     \<and> (\<forall>k. k \<noteq> n \<longrightarrow> content_at t' k = content_at t k \<and> manifest t' k = manifest t k)"

lemma beside_refl [simp]: "beside n t t"
  by (simp add: beside_def volumes_alike_def)

lemma beside_trans: "beside n t t' \<Longrightarrow> beside n t' t'' \<Longrightarrow> beside n t t''"
  by (auto simp: beside_def volumes_alike_def intro: pool_le_trans)

lemma beside_same:
  "mounts t' = mounts t \<Longrightarrow> locks t' = locks t \<Longrightarrow> volumes t' = volumes t \<Longrightarrow> chunks t' = chunks t
     \<Longrightarrow> contents t' = contents t \<Longrightarrow> versions t' = versions t \<Longrightarrow> beside n t t'"
  by (simp add: beside_def volumes_alike_def pool_le_def manifest_def fun_eq_iff)

lemma alike_raise: "volumes_alike t (raise_wm v st t)"
proof -
  have "map_option (\<lambda>r. (vl_enc_mode r, vl_chunk_size r)) (row_at vl_id x (map (\<lambda>r. if vl_id r = v \<and> vl_wm r < st then r\<lparr>vl_wm := st\<rparr> else r) vs)) =
      map_option (\<lambda>r. (vl_enc_mode r, vl_chunk_size r)) (row_at vl_id x vs)" for x and vs :: "volume_row list"
    by (induction vs) auto
  then show ?thesis by (simp add: volumes_alike_def raise_wm_def)
qed

lemma beside_flush: "beside n (tabs s) (tabs (flush_watermarks s))"
proof -
  have up: "beside n t (raise_wm v st t)" for t v st
    using alike_raise [of t v st] by (simp add: beside_def raise_wm_def pool_le_def manifest_def fun_eq_iff)
  have "beside n t (fold (\<lambda>(v, st). raise_wm v st) ws t)" for ws t
  proof (induction ws arbitrary: t)
    case (Cons w ws)
    from beside_trans [OF up Cons.IH] show ?case by (simp add: split_def)
  qed simp
  then show ?thesis by (simp add: flush_watermarks_def)
qed

lemma flush_frame:
  "contents (tabs (flush_watermarks s)) = contents (tabs s)" "versions (tabs (flush_watermarks s)) = versions (tabs s)"
  "chunks (tabs (flush_watermarks s)) = chunks (tabs s)" "pending_wm (flush_watermarks s) = []"
  "cipher_of (flush_watermarks s) = cipher_of s" "sql_now (flush_watermarks s) = sql_now s"
proof -
  have "contents (fold (\<lambda>(v, st). raise_wm v st) ws t) = contents t \<and> versions (fold (\<lambda>(v, st). raise_wm v st) ws t) = versions t
     \<and> chunks (fold (\<lambda>(v, st). raise_wm v st) ws t) = chunks t" for ws t
    by (induction ws arbitrary: t) (auto simp: raise_wm_def)
  then show "contents (tabs (flush_watermarks s)) = contents (tabs s)" "versions (tabs (flush_watermarks s)) = versions (tabs s)"
    "chunks (tabs (flush_watermarks s)) = chunks (tabs s)" "pending_wm (flush_watermarks s) = []"
    "cipher_of (flush_watermarks s) = cipher_of s" "sql_now (flush_watermarks s) = sql_now s"
    by (simp_all add: flush_watermarks_def)
qed

section \<open>The steps of a creation\<close>

text \<open>A step inside a transaction that changes the tables only in the given way.\<close>

definition steps_to :: "db \<Rightarrow> db \<Rightarrow> tables \<Rightarrow> bool" where
  "steps_to s s' t \<longleftrightarrow> tabs s' = t \<and> in_txn s' = in_txn s \<and> cipher_of s' = cipher_of s \<and> sql_now s' = sql_now s"

lemma create_monotonic_steps:
  assumes "create_monotonic ins (Some v) s = (Inr i, s')" and "in_txn s"
  shows "\<exists>t. ins i (tabs s) = Inr t \<and> steps_to s s' t"
proof -
  from assms(1) obtain s1 t where m: "mint_id v s = (Inr i, s1)" "ins i (tabs s1) = Inr t"
    and s': "flush_if_idle (s1\<lparr>tabs := t\<rparr>) = (Inr (), s')"
    by (auto simp: create_monotonic_def op_elims)
  from m(1) have "tabs s1 = tabs s" "in_txn s1 = in_txn s" "cipher_of s1 = cipher_of s" "sql_now s1 = sql_now s"
    by (auto simp: mint_id_def Let_def split: prod.splits sum.splits)
  with m(2) s' assms(2) show ?thesis by (auto simp: steps_to_def flush_if_idle_def)
qed

lemma new_node_steps:
  assumes "new_node m ty nm c md meta s = (Inr n, s')" and "in_txn s"
  shows "\<exists>r. nd_id r = n \<and> node_at (tabs s) n = None \<and> steps_to s s' ((tabs s)\<lparr>nodes := nodes (tabs s) @ [r]\<rparr>)"
proof -
  from assms(1) obtain c' where "create_monotonic (create_node_sql ty nm c' md (Some (m_volume m)) (meta_to_json meta))
      (Some (m_volume m)) s = (Inr n, s')" by (auto simp: new_node_def op_elims)
  from create_monotonic_steps [OF this assms(2)] obtain t where
    t: "create_node_sql ty nm c' md (Some (m_volume m)) (meta_to_json meta) n (tabs s) = Inr t" "steps_to s s' t" by blast
  then obtain r where "insert_node r (tabs s) = Inr t" "nd_id r = n" by (auto simp: create_node_sql_def)
  with t(2) show ?thesis by (intro exI [of _ r]) (auto simp: insert_node_def split: if_splits)
qed

lemma link_node_steps:
  assumes "link_node m p n nm s = (Inr e, s')" and "in_txn s"
  shows "\<exists>t. steps_to s s' t \<and> beside k (tabs s) t \<and> contents t = contents (tabs s) \<and> versions t = versions (tabs s)
     \<and> chunks t = chunks (tabs s)"
proof -
  from assms(1) obtain ts where "create_monotonic (create_edge_sql ts p n (m_volume m) nm) (Some (m_volume m)) s = (Inr e, s')"
    by (auto simp: link_node_def op_elims)
  from create_monotonic_steps [OF this assms(2)] obtain t where
    t: "create_edge_sql ts p n (m_volume m) nm e (tabs s) = Inr t" "steps_to s s' t" by blast
  then have "mounts t = mounts (tabs s) \<and> locks t = locks (tabs s) \<and> volumes t = volumes (tabs s) \<and> chunks t = chunks (tabs s)
     \<and> contents t = contents (tabs s) \<and> versions t = versions (tabs s)"
    by (auto simp: create_edge_sql_def insert_edge_def touch_ctime_def Let_def split: option.splits if_splits)
  with t(2) beside_same show ?thesis by blast
qed

lemma initial_content_steps:
  assumes run: "put_initial_content L m n data s = (Inr u, s')"
    and "lib_ok L" and keys: "keys_ok (tabs s)" and cf: "collision_free L (cipher_of s) U (tabs s)" and "fits U cs data"
    and vol: "volume_at (tabs s) (m_volume m) = Some vr" "vl_chunk_size vr = cs" "0 < cs"
    and new: "\<And>v j. manifest (tabs s) n v j = None"
  shows "beside n (tabs s) (tabs s') \<and> steps_to s s' (tabs s') \<and> keys_ok (tabs s') \<and> collision_free L (cipher_of s) U (tabs s')
     \<and> content_is L (cipher_of s) cs (tabs s') n data"
proof -
  let ?v = "if data = [] then 0 else 1 :: nat"
  let ?row = "\<lparr>ct_node = n, ct_version = ?v, ct_size = length data, ct_keep = None\<rparr>"
  let ?s1 = "s\<lparr>tabs := (tabs s)\<lparr>contents := contents (tabs s) @ [?row]\<rparr>\<rparr>"
  from run have none: "content_at (tabs s) n = None" "node_at (tabs s) n \<noteq> None"
    and rest: "(if data = [] then ret () else bind_op (stage_chunks L n ?v (m_volume m) data) (\<lambda>_. ret ())) ?s1 = (Inr (), s')"
    by (auto simp: put_initial_content_def Let_def op_elims insert_content_def split: if_splits)
  have row: "content_at (tabs ?s1) k = (if k = n then Some ?row else content_at (tabs s) k)" for k
    using none by (auto simp: row_at_append split: option.splits)
  have man: "manifest (tabs ?s1) = manifest (tabs s)" by (simp add: manifest_def fun_eq_iff)
  have k1: "keys_ok (tabs ?s1)" using keys by (simp add: keys_ok_def)
  have cf1: "collision_free L (cipher_of ?s1) U (tabs ?s1)" using cf by (simp add: collision_free_def)
  have g: "grown L n ?v (slots 0 (split_chunks cs data)) ?s1 s' \<and> collision_free L (cipher_of s) U (tabs s')"
  proof (cases "data = []")
    case True
    with rest have "s' = ?s1" by (simp add: op_elims)
    moreover have "slots 0 (split_chunks cs data) = Map.empty" using True by (simp add: split_chunks.simps slots_def fun_eq_iff)
    ultimately show ?thesis using grown_refl [OF k1] cf1 by simp
  next
    case False
    from stage_chunks_ok [of L ?s1 U cs data n "m_volume m" vr ?v] assms(2,5) k1 cf1 none(2) vol new man
    obtain s2 where s2: "stage_chunks L n ?v (m_volume m) data ?s1 = (Inr (length data), s2)"
      "grown L n ?v (slots 0 (split_chunks cs data)) ?s1 s2" "collision_free L (cipher_of s) U (tabs s2)" by auto
    with rest False have "s' = s2" by (simp add: op_elims)
    with s2 show ?thesis by simp
  qed
  then have fr: "content_frame ?s1 s'" by (simp add: grown_def)
  note D = content_frameD [OF fr]
  have "stored L (cipher_of ?s1) (tabs s') n ?v (split_chunks cs data)"
    by (rule grown_stored) (use g new man in auto)
  moreover have "content_at (tabs s') k = content_at (tabs ?s1) k" for k using D by simp
  ultimately have "content_is L (cipher_of s) cs (tabs s') n data"
    unfolding content_is_def using row by (intro exI [of _ ?row]) simp
  moreover have "beside n (tabs s) (tabs s')"
    using g D row man by (auto simp: beside_def volumes_alike_def grown_def pool_le_def fun_eq_iff)
  moreover have "steps_to s s' (tabs s')" using D by (simp add: steps_to_def)
  ultimately show ?thesis using g by (simp add: grown_def)
qed


section \<open>The created file\<close>

lemma require_mount_beside:
  assumes "require_mount mount w s = (Inr m, s)" and "beside n (tabs s) (tabs s')"
    and "sql_now s' = sql_now s" and "cipher_of s' = cipher_of s"
  shows "require_mount mount w s' = (Inr m, s')"
proof -
  from assms(1) obtain row v where gv: "get_valid_mount mount s = Some (row, v)"
    and v: "(vl_enc_mode v \<noteq> ''none'') = encrypts (cipher_of s)" "\<not> (w \<and> mt_access row = ''ro'')"
      "m = \<lparr>m_id = mount, m_point = mt_point row, m_volume = mt_volume row, m_enc_mode = vl_enc_mode v\<rparr>"
    by (auto simp: require_mount_iff)
  from gv have row: "row_at mt_id mount (valid_mount (sql_now s) (tabs s)) = Some row" "volume_at (tabs s) (mt_volume row) = Some v"
    by (auto simp: get_valid_mount_def split: option.splits)
  have "map_option (\<lambda>r. (vl_enc_mode r, vl_chunk_size r)) (volume_at (tabs s') (mt_volume row)) = Some (vl_enc_mode v, vl_chunk_size v)"
    using assms(2) row(2) by (simp add: beside_def volumes_alike_def)
  then obtain v' where v': "volume_at (tabs s') (mt_volume row) = Some v'" "vl_enc_mode v' = vl_enc_mode v" by auto
  have "get_valid_mount mount s' = Some (row, v')"
    using assms(2,3) row(1) v'(1) by (simp add: get_valid_mount_def valid_mount_def beside_def)
  then show ?thesis using v v'(2) assms(4) by (auto simp: require_mount_iff)
qed

lemma locks_beside: "beside n t t' \<Longrightarrow> check_lock_held ts t' k mount = check_lock_held ts t k mount"
  by (simp add: check_lock_held_def valid_lock_def lock_live_def beside_def cong: filter_cong)

lemma stored_beside: "beside n t t' \<Longrightarrow> k \<noteq> n \<Longrightarrow> stored L c t k v ps \<Longrightarrow> stored L c t' k v ps"
  by (erule stored_frame) (auto simp: beside_def fun_eq_iff)

text \<open>A file in the old state whose path still leads to it.\<close>

lemma file_at_beside:
  assumes fl: "file_at L U cs s mount q k C" and b: "beside n (tabs s) (tabs s')" and "k \<noteq> n"
    and st: "sql_now s' = sql_now s" "cipher_of s' = cipher_of s" "\<not> in_txn s'" "pending_wm s' = []"
    and ok: "keys_ok (tabs s')" "collision_free L (cipher_of s') U (tabs s')"
    and res: "\<And>mp r. resolve (tabs s) mp q = Inr r \<Longrightarrow> resolve (tabs s') mp q = Inr r"
  shows "file_at L U cs s' mount q k C"
proof -
  from fl obtain m vr where leaf: "leaf_for_write mount q s = (Inr (m, k), s)" and v: "volume_at (tabs s) (m_volume m) = Some vr" "vl_chunk_size vr = cs"
    and cs: "0 < cs" and c: "content_is L (cipher_of s) cs (tabs s) k C" by (auto simp: file_at_def)
  from leaf_for_write_leaf [OF leaf] obtain r where r: "require_mount mount True s = (Inr m, s)"
    "resolve (tabs s) (m_point m) q = Inr r" "rs_type r \<noteq> CONTAINER" "rs_node r = k" by (auto simp: resolve_leaf_iff)
  have "require_mount mount True s' = (Inr m, s')" by (rule require_mount_beside [OF r(1) b st(1,2)])
  then have "resolve_leaf mount q True s' = (Inr (m, k), s')" using res [OF r(2)] r(3,4) by (auto simp: resolve_leaf_iff)
  moreover have "\<not> check_lock_held (sql_now s) (tabs s) k mount" using leaf by (simp add: leaf_for_write_iff)
  ultimately have "leaf_for_write mount q s' = (Inr (m, k), s')" using locks_beside [OF b] st(1) by (simp add: leaf_for_write_iff)
  moreover have "\<exists>vr'. volume_at (tabs s') (m_volume m) = Some vr' \<and> vl_chunk_size vr' = cs"
  proof -
    have "map_option (\<lambda>r. (vl_enc_mode r, vl_chunk_size r)) (volume_at (tabs s') (m_volume m)) = Some (vl_enc_mode vr, vl_chunk_size vr)"
      using b v(1) by (simp add: beside_def volumes_alike_def)
    then show ?thesis using v(2) by auto
  qed
  moreover have "content_is L (cipher_of s') cs (tabs s') k C"
    using c stored_beside [OF b assms(3)] b assms(3) st(2) by (auto simp: content_is_def beside_def)
  ultimately show ?thesis using cs st ok by (auto simp: file_at_def)
qed

lemma schema_facts:
  assumes "schema_ok t"
  shows "keys_ok t" and "node_at t n = None \<Longrightarrow> manifest t n v j = None"
    and "l \<in> set (locks t) \<Longrightarrow> node_at t (lk_node l) \<noteq> None"
    and "e \<in> set (edges t) \<Longrightarrow> node_at t (eg_to e) \<noteq> None"
    and "content_at t n \<noteq> None \<Longrightarrow> node_at t n \<noteq> None"
proof -
  let ?h = "shape_of t"
  have k: "keys_unique ?h" "refs_resolved ?h" using assms by (simp_all add: schema_ok_def Let_def)
  have known: "known ?h k \<longleftrightarrow> node_at t k \<noteq> None" for k
    by (force simp: known_def shape_of_def row_at_None_iff)
  from k(1) show "keys_ok t" by (simp add: keys_unique_def keys_ok_def shape_of_def comp_def)
  show "l \<in> set (locks t) \<Longrightarrow> node_at t (lk_node l) \<noteq> None"
    using k(2) known [of "lk_node l"] by (auto simp: refs_resolved_def list_all_iff lock_ref_def shape_of_def)
  show "content_at t n \<noteq> None \<Longrightarrow> node_at t n \<noteq> None"
    using k(2) known [of n] by (auto simp: refs_resolved_def list_all_iff shape_of_def dest!: row_at_SomeD)
  show "e \<in> set (edges t) \<Longrightarrow> node_at t (eg_to e) \<noteq> None"
  proof -
    assume "e \<in> set (edges t)"
    with k(2) have "endpoint ?h (eg_to e) UNIV (eg_volume e)" by (auto simp: refs_resolved_def list_all_iff edge_ref_def shape_of_def)
    then have "known ?h (eg_to e)" by (force simp: endpoint_def known_def)
    then show "node_at t (eg_to e) \<noteq> None" using known by simp
  qed
  show "node_at t n = None \<Longrightarrow> manifest t n v j = None"
  proof (rule ccontr)
    assume none: "node_at t n = None" and "manifest t n v j \<noteq> None"
    then obtain r where "r \<in> set (versions t)" "cv_node r = n"
      by (auto simp: manifest_def version_key_def dest!: row_at_SomeD)
    with k(2) have "known ?h n" by (force simp: refs_resolved_def list_all_iff version_ref_def shape_of_def version_key_def)
    with known none show False by simp
  qed
qed

lemma create_internal_steps:
  assumes run: "create_entry_internal L mount path data s = (Inr n, s')" and "in_txn s" and "schema_ok (tabs s)"
    and lib: "lib_ok L" and cf: "collision_free L (cipher_of s) U (tabs s)" and fit: "fits U cs data"
    and m: "require_mount mount True s = (Inr m, s)"
    and vol: "volume_at (tabs s) (m_volume m) = Some vr" "vl_chunk_size vr = cs" "0 < cs"
  shows "node_at (tabs s) n = None \<and> beside n (tabs s) (tabs s') \<and> steps_to s s' (tabs s') \<and> keys_ok (tabs s')
     \<and> collision_free L (cipher_of s) U (tabs s') \<and> content_is L (cipher_of s) cs (tabs s') n data"
proof -
  from run m obtain parent nm s1 s2 e where
    n1: "new_node m ENTRY nm None None None s = (Inr n, s1)" and c2: "put_initial_content L m n data s1 = (Inr (), s2)"
    and l3: "link_node m parent n None s2 = (Inr e, s')"
    by (auto simp: create_entry_internal_def run_elims split: prod.splits)
  from new_node_steps [OF n1 assms(2)] obtain r where r: "nd_id r = n" "node_at (tabs s) n = None"
    "steps_to s s1 ((tabs s)\<lparr>nodes := nodes (tabs s) @ [r]\<rparr>)" by blast
  then have t1: "tabs s1 = (tabs s)\<lparr>nodes := nodes (tabs s) @ [r]\<rparr>" "in_txn s1" "cipher_of s1 = cipher_of s" "sql_now s1 = sql_now s"
    using assms(2) by (simp_all add: steps_to_def)
  have man: "manifest (tabs s1) = manifest (tabs s)" by (simp add: t1(1) manifest_def fun_eq_iff)
  have b1: "beside n (tabs s) (tabs s1)" by (rule beside_same) (simp_all add: t1(1))
  have k1: "keys_ok (tabs s1)" using schema_facts(1) [OF assms(3)] by (simp add: keys_ok_def t1(1))
  have f1: "collision_free L (cipher_of s1) U (tabs s1)" using cf t1 by (simp add: collision_free_def)
  have v1: "volume_at (tabs s1) (m_volume m) = Some vr" using vol(1) t1(1) by simp
  have new: "manifest (tabs s1) n v j = None" for v j unfolding man by (rule schema_facts(2) [OF assms(3) r(2)])
  note c = initial_content_steps [OF c2 lib k1 f1 fit v1 vol(2,3) new]
  from c t1 have "in_txn s2" by (simp add: steps_to_def)
  from link_node_steps [OF l3 this] obtain t where
    t: "steps_to s2 s' t" "beside n (tabs s2) t" "contents t = contents (tabs s2)" "versions t = versions (tabs s2)" "chunks t = chunks (tabs s2)"
    by blast
  then have t': "tabs s' = t" by (simp add: steps_to_def)
  have "content_is L (cipher_of s) cs t n data"
    using c t(3) stored_cong [OF t(5,4)] t1(3) by (simp add: content_is_def)
  moreover have "keys_ok t" using c t(4) by (simp add: keys_ok_def)
  moreover have "collision_free L (cipher_of s) U t" using c t(5) t1(3) collision_free_chunks by metis
  moreover have "beside n (tabs s) t" using b1 c t(2) beside_trans by blast
  moreover have "steps_to s s' t" using t(1) c t1 assms(2) by (simp add: steps_to_def)
  ultimately show ?thesis using r(2) unfolding t' by blast
qed

text \<open>Resolution after the creation, for the new path and for those that led somewhere before.\<close>

lemma resolve_kept:
  assumes seg: "\<And>d x. (d, x) \<noteq> (p, nm) \<Longrightarrow> resolve_segment t' d x = resolve_segment t d x" and "resolve_segment t p nm = None"
    and ty: "\<And>k y. type_at t k = Some y \<Longrightarrow> type_at t' k = Some y" and r: "resolve t mp q = Inr r"
  shows "resolve t' mp q = Inr r"
proof -
  have w: "ns_walk (namespace_of t) k y segs = Inr z \<Longrightarrow> ns_walk (namespace_of t') k y segs = Inr z" for k y segs z
    by (rule ns_walk_new [of p nm]) (use seg assms(2) in \<open>simp_all add: ns_segment_of\<close>)
  have "ns_find (namespace_of t) mp q = Inr (rs_node r, rs_type r)" using r by (simp add: ns_find_of)
  then have "ns_find (namespace_of t') mp q = Inr (rs_node r, rs_type r)"
    using w ty by (auto simp: ns_find_def split: if_splits option.splits)
  then show ?thesis by (cases "resolve t' mp q") (auto simp: ns_find_of intro: resolved.equality)
qed

text \<open>What a transaction that has placed a new node with content leaves behind.\<close>

lemma new_file_ok:
  assumes sch: "schema_ok (tabs s)" and idle: "\<not> in_txn s"
    and m: "require_mount mount True s = (Inr m, s)"
    and vol: "volume_at (tabs s) (m_volume m) = Some vr" "vl_chunk_size vr = cs" "0 < cs"
    and absent: "resolve (tabs s) (m_point m) path = Inl NotFound"
    and par: "resolve_parent (tabs s) (m_point m) path = Inr (p, nm)" and fresh: "node_at (tabs s) n = None"
    and ns: "namespace_of (tabs s1) = ns_place (p, nm, n) ((namespace_of (tabs s))\<lparr>ns_types := (type_at (tabs s))(n \<mapsto> ty)\<rparr>)"
    and ty: "ty \<noteq> CONTAINER" and b1: "beside n (tabs s) (tabs s1)" and st: "steps_to (s\<lparr>in_txn := True\<rparr>) s1 (tabs s1)"
    and ok1: "keys_ok (tabs s1)" "collision_free L (cipher_of s) U (tabs s1)" "content_is L (cipher_of s) cs (tabs s1) n data"
    and s': "s' = (flush_watermarks s1)\<lparr>in_txn := False\<rparr>"
  shows "file_at L U cs s' mount path n data \<and> (\<forall>q k C. file_at L U cs s mount q k C \<longrightarrow> file_at L U cs s' mount q k C)"
proof -
  have b: "beside n (tabs s) (tabs s')" using beside_trans [OF b1 beside_flush [of n s1]] s' by simp
  have q: "sql_now s' = sql_now s" "cipher_of s' = cipher_of s" "\<not> in_txn s'" "pending_wm s' = []"
    using st by (simp_all add: s' flush_frame steps_to_def)
  have tb: "contents (tabs s') = contents (tabs s1)" "versions (tabs s') = versions (tabs s1)" "chunks (tabs s') = chunks (tabs s1)"
    by (simp_all add: s' flush_frame)
  have ok: "keys_ok (tabs s')" "collision_free L (cipher_of s') U (tabs s')" "content_is L (cipher_of s') cs (tabs s') n data"
    using ok1 tb stored_cong [OF tb(3,2)] collision_free_chunks [OF tb(3)] q(2) by (simp_all add: keys_ok_def content_is_def)
  have ns': "namespace_of (tabs s') = ns_place (p, nm, n) ((namespace_of (tabs s))\<lparr>ns_types := (type_at (tabs s))(n \<mapsto> ty)\<rparr>)"
    using ns by (simp add: s')
  have refs: "\<forall>e \<in> set (active_edge (tabs s)). node_at (tabs s) (eg_to e) \<noteq> None"
    using schema_facts(4) [OF sch] by (auto simp: active_edge_def)
  have "type_at (tabs s) n = None" using fresh by (simp add: type_at_def)
  from placed_visible [OF ns' par this absent refs] have
    here: "resolve (tabs s') (m_point m) path = Inr \<lparr>rs_node = n, rs_type = ty\<rparr>" and none: "resolve_segment (tabs s) p nm = None"
    and seg: "\<And>d x. (d, x) \<noteq> (p, nm) \<Longrightarrow> resolve_segment (tabs s') d x = resolve_segment (tabs s) d x" by auto
  have ty': "type_at (tabs s') k = Some y" if "type_at (tabs s) k = Some y" for k y
    using arg_cong [OF ns', of ns_types] that fresh by (auto simp: ns_place_def type_at_def)
  have res: "resolve (tabs s') mp x = Inr r" if "resolve (tabs s) mp x = Inr r" for mp x r
    by (rule resolve_kept [OF seg none ty' that])
  have rm: "require_mount mount True s' = (Inr m, s')" by (rule require_mount_beside [OF m b q(1,2)])
  with here ty have "resolve_leaf mount path True s' = (Inr (m, n), s')" by (auto simp: resolve_leaf_iff)
  moreover have "\<not> check_lock_held (sql_now s) (tabs s) n mount"
    using schema_facts(3) [OF sch] fresh by (fastforce simp: check_lock_held_def valid_lock_def)
  ultimately have leaf: "leaf_for_write mount path s' = (Inr (m, n), s')"
    using locks_beside [OF b] q(1) by (simp add: leaf_for_write_iff)
  have "map_option (\<lambda>r. (vl_enc_mode r, vl_chunk_size r)) (volume_at (tabs s') (m_volume m)) = Some (vl_enc_mode vr, cs)"
    using b vol(1,2) by (simp add: beside_def volumes_alike_def)
  then have "\<exists>vr'. volume_at (tabs s') (m_volume m) = Some vr' \<and> vl_chunk_size vr' = cs" by auto
  with leaf q ok vol(3) have "file_at L U cs s' mount path n data" by (auto simp: file_at_def)
  moreover have "file_at L U cs s' mount x k C" if "file_at L U cs s mount x k C" for x k C
  proof (rule file_at_beside [OF that b _ q ok(1,2) res])
    from that obtain y where "leaf_for_write mount x s = (Inr (y, k), s)" by (auto simp: file_at_def)
    from resolve_leaf_node [OF leaf_for_write_leaf [OF this]] fresh show "k \<noteq> n" by auto
  qed
  ultimately show ?thesis by blast
qed

text \<open>C5
  In a file that satisfies the schema's invariants, as every reachable one does, what
  \<open>create_entry\<close> writes at a path that named nothing is there: the path is a writable file with
  exactly those bytes, \<open>read_all\<close> returns them, and every other file is where it was with the
  bytes it had.
\<close>

theorem create_entry_reads:
  assumes lib: "lib_ok L" and sch: "schema_ok (tabs s)" and cf: "collision_free L (cipher_of s) U (tabs s)" and fit: "fits U cs data"
    and m: "require_mount mount True s = (Inr m, s)"
    and vol: "volume_at (tabs s) (m_volume m) = Some vr" "vl_chunk_size vr = cs" "0 < cs"
    and absent: "resolve (tabs s) (m_point m) path = Inl NotFound"
    and run: "create_entry L mount path data s = (Inr n, s')"
  shows "file_at L U cs s' mount path n data \<and> read_all L mount path s' = (Inr data, s')
     \<and> (\<forall>q k C. file_at L U cs s mount q k C \<longrightarrow> file_at L U cs s' mount q k C)"
proof -
  let ?s0 = "s\<lparr>in_txn := True\<rparr>"
  from run obtain s1 where s1: "create_entry_internal L mount path data ?s0 = (Inr n, s1)"
    and s': "s' = (flush_watermarks s1)\<lparr>in_txn := False\<rparr>" and idle: "\<not> in_txn s"
    by (auto simp: create_entry_def txn_def split: if_splits prod.splits sum.splits)
  have m0: "require_mount mount True ?s0 = (Inr m, ?s0)" using m by (simp add: require_mount_txn)
  from create_internal_steps [OF s1 _ _ lib _ fit m0 _ vol(2,3)] sch cf vol(1) have
    st: "node_at (tabs s) n = None" "beside n (tabs s) (tabs s1)" "steps_to ?s0 s1 (tabs s1)" "keys_ok (tabs s1)"
      "collision_free L (cipher_of s) U (tabs s1)" "content_is L (cipher_of s) cs (tabs s1) n data" by auto
  have "ns_call L mount (Ns_Create path ENTRY data) s = (Inr (Some n), s')" using run by (simp add: bind_op_def ret_def)
  from create_placed [OF m this] obtain p nm where par: "resolve_parent (tabs s) (m_point m) path = Inr (p, nm)"
    and ns: "namespace_of (tabs s') = ns_place (p, nm, n) ((namespace_of (tabs s))\<lparr>ns_types := (type_at (tabs s))(n \<mapsto> ENTRY)\<rparr>)"
    by blast
  from ns have "namespace_of (tabs s1) = ns_place (p, nm, n) ((namespace_of (tabs s))\<lparr>ns_types := (type_at (tabs s))(n \<mapsto> ENTRY)\<rparr>)"
    by (simp add: s')
  from new_file_ok [OF sch idle m vol absent par st(1) this _ st(2-6) s'] file_at_read show ?thesis by blast
qed

lemma demo_schema_ok: "schema_ok (tabs demo)"
proof -
  let ?h = "shape_of (tabs demo)"
  note d = shape_of_def demo_def demo_tables_def demo_mount_def demo_edge_def demo_node_def demo_chunk_def
  have "chunk_hash toy_lib [1, 2, 3, 4] \<noteq> chunk_hash toy_lib [5]" by code_simp
  then have "keys_unique ?h" by (simp add: keys_unique_def d version_key_def)
  moreover have "refs_resolved ?h"
    by (simp add: refs_resolved_def node_ref_def volume_known_def known_def version_ref_def volume_ref_def mount_ref_def lock_ref_def
        edge_ref_def endpoint_def version_key_def d)
  moreover have "single_parent ?h" by (simp add: single_parent_def placed_def d)
  moreover have "roots_unique ?h" by (simp add: roots_unique_def d)
  ultimately show ?thesis by (simp add: schema_ok_def Let_def)
qed

theorem create_entry_reads_witness:
  "\<exists>n s'. create_entry toy_lib ''m'' ''/new'' [7, 8] demo = (Inr n, s')
     \<and> read_all toy_lib ''m'' ''/new'' s' = (Inr [7, 8], s')
     \<and> file_at toy_lib UNIV 4 s' ''m'' ''/a'' ''f'' [1, 2, 3, 4, 5]"
proof -
  let ?m = "\<lparr>m_id = ''m'', m_point = ''r'', m_volume = ''v'', m_enc_mode = ''none''\<rparr>"
  have "fst (require_mount ''m'' True demo) = Inr ?m" by code_simp
  then have m: "require_mount ''m'' True demo = (Inr ?m, demo)"
    using require_mount_reads [of "''m''" True demo] by (metis prod.collapse)
  have "map_sum id (\<lambda>_. ()) (fst (create_entry toy_lib ''m'' ''/new'' [7, 8] demo)) = Inr ()" by code_simp
  moreover obtain r s' where "create_entry toy_lib ''m'' ''/new'' [7, 8] demo = (r, s')" by force
  ultimately obtain n where c: "create_entry toy_lib ''m'' ''/new'' [7, 8] demo = (Inr n, s')"
    by (cases r) simp_all
  have "map_sum id (\<lambda>_. ()) (resolve (tabs demo) ''r'' ''/new'') = Inl NotFound" by code_simp
  then have absent: "resolve (tabs demo) (m_point ?m) ''/new'' = Inl NotFound"
    by (cases "resolve (tabs demo) ''r'' ''/new''") simp_all
  obtain vr where v: "volume_at (tabs demo) (m_volume ?m) = Some vr" "vl_chunk_size vr = 4"
    by (simp add: demo_def demo_tables_def)
  have cf: "collision_free toy_lib (cipher_of demo) UNIV (tabs demo)" using demo_file(1) by (simp add: file_at_def)
  from create_entry_reads [OF toy_lib_ok demo_schema_ok cf fits_UNIV m v(1,2) _ absent c] demo_file(1) c show ?thesis by auto
qed

end
