(* ===== verification/Copying.thy ===== *)
theory Copying
  imports Creating
begin

text \<open>
  What \<open>copy\<close> (\<open>aloelite/operations.py\<close>) makes of a file: a node of its own whose manifest refers
  to the chunks of the source's committed version. The new path has the bytes of the source,
  every file keeps its own, and the chunk pool does not grow.
\<close>

lemma row_at_copied:
  "row_at version_key (m, w, j) (map (\<lambda>r. r\<lparr>cv_node := n, cv_version := v\<rparr>)
     (filter (\<lambda>r. cv_node r = k \<and> cv_version r = v) rs)) =
   (if m = n \<and> w = v then map_option (\<lambda>r. r\<lparr>cv_node := n, cv_version := v\<rparr>) (row_at version_key (k, v, j) rs) else None)"
  by (induction rs) (auto simp: version_key_eq)

lemma copy_refs_ok:
  assumes keys: "keys_ok t" and node: "node_at t n \<noteq> None" and st: "stored L c t k v ps" and new: "\<And>j. manifest t n v j = None"
  shows "\<exists>vs. copy_chunk_refs n v k v t = Inr (t\<lparr>versions := vs\<rparr>) \<and> keys_ok (t\<lparr>versions := vs\<rparr>)
     \<and> (\<forall>m w j. manifest (t\<lparr>versions := vs\<rparr>) m w j = (if m = n \<and> w = v then manifest t k v j else manifest t m w j))"
proof -
  let ?f = "\<lambda>r. r\<lparr>cv_node := n, cv_version := v\<rparr>"
  let ?src = "filter (\<lambda>r. cv_node r = k \<and> cv_version r = v) (versions t)"
  let ?rs = "map ?f ?src"
  have ch: "chunk_at t (cv_hash r) \<noteq> None" if "r \<in> set ?src" for r
  proof -
    have "row_at version_key (k, v, cv_index r) (versions t) = Some r"
      using that row_at_mem [of version_key "versions t" r] keys by (auto simp: keys_ok_def version_key_def)
    then have "manifest t k v (cv_index r) = Some (cv_hash r)" by (simp add: manifest_def)
    then have "piece L c t (cv_hash r) \<noteq> None" using st [unfolded stored_def, rule_format, of "cv_index r"] by auto
    then show ?thesis by (auto simp: piece_def split: option.splits)
  qed
  have fresh: "row_at version_key (version_key (?f r)) (versions t) = None" if "r \<in> set ?src" for r
    using new [of "cv_index r"] by (simp add: manifest_def version_key_def)
  have dist: "distinct (map version_key ?rs)"
  proof -
    have "distinct (map version_key ?src)"
      using keys by (auto simp: keys_ok_def distinct_map intro: inj_on_subset)
    then have "inj_on version_key (set ?src)" "distinct ?src" by (auto simp: distinct_map)
    then show ?thesis by (auto simp: distinct_map inj_on_def version_key_def intro!: inj_onI)
  qed
  have run: "copy_chunk_refs n v k v t = Inr (t\<lparr>versions := versions t @ ?rs\<rparr>)"
    unfolding copy_chunk_refs_def by (rule insert_versions_ok) (use ch fresh node dist in auto)
  have "keys_ok (t\<lparr>versions := versions t @ ?rs\<rparr>)"
    using keys dist fresh by (fastforce simp: keys_ok_def row_at_None_iff)
  moreover have "manifest (t\<lparr>versions := versions t @ ?rs\<rparr>) m w j = (if m = n \<and> w = v then manifest t k v j else manifest t m w j)" for m w j
    using new [of j] by (auto simp: manifest_def row_at_append row_at_copied option.map_comp comp_def split: option.splits)
  ultimately show ?thesis using run by blast
qed

lemma copy_content_steps:
  assumes run: "copy_content k n s = (Inr u, s')" and c: "content_is L (cipher_of s) cs (tabs s) k C" and "k \<noteq> n"
    and committed: "\<And>r. content_at (tabs s) k = Some r \<Longrightarrow> ct_version r = 0 \<Longrightarrow> C = []"
    and keys: "keys_ok (tabs s)" and new: "\<And>v j. manifest (tabs s) n v j = None"
  shows "beside n (tabs s) (tabs s') \<and> steps_to s s' (tabs s') \<and> keys_ok (tabs s') \<and> chunks (tabs s') = chunks (tabs s)
     \<and> nodes (tabs s') = nodes (tabs s) \<and> edges (tabs s') = edges (tabs s) \<and> content_is L (cipher_of s) cs (tabs s') n C"
proof -
  from c obtain r where r: "content_at (tabs s) k = Some r" "ct_size r = length C" "stored L (cipher_of s) (tabs s) k (ct_version r) (split_chunks cs C)"
    by (auto simp: content_is_def)
  let ?v = "ct_version r" and ?row = "\<lparr>ct_node = n, ct_version = ct_version r, ct_size = length C, ct_keep = None\<rparr>"
  let ?t1 = "(tabs s)\<lparr>contents := contents (tabs s) @ [?row]\<rparr>"
  from run r(1,2) have none: "content_at (tabs s) n = None" "node_at (tabs s) n \<noteq> None"
    and rest: "(if ?v > 0 then sql (copy_chunk_refs n ?v k ?v) else ret ()) (s\<lparr>tabs := ?t1\<rparr>) = (Inr (), s')"
    by (auto simp: copy_content_def content_meta_def read_content_meta_def or_else_def op_elims insert_content_def split: if_splits)
  have man1: "manifest ?t1 = manifest (tabs s)" by (simp add: manifest_def fun_eq_iff)
  have row: "content_at (?t1\<lparr>versions := vs\<rparr>) x = (if x = n then Some ?row else content_at (tabs s) x)" for x vs
    using none by (auto simp: row_at_append split: option.splits)
  obtain vs where s': "s' = s\<lparr>tabs := ?t1\<lparr>versions := vs\<rparr>\<rparr>" and k': "keys_ok (?t1\<lparr>versions := vs\<rparr>)"
    and man: "\<And>m w j. m \<noteq> n \<Longrightarrow> manifest (?t1\<lparr>versions := vs\<rparr>) m w j = manifest (tabs s) m w j"
    and mine: "\<And>j. manifest (?t1\<lparr>versions := vs\<rparr>) n ?v j = (if ?v > 0 then manifest (tabs s) k ?v j else None)"
  proof (cases "?v > 0")
    case True
    have "stored L (cipher_of s) ?t1 k ?v (split_chunks cs C)" using r(3) stored_cong [of ?t1 "tabs s"] by simp
    from copy_refs_ok [OF _ _ this, of n] keys none(2) new man1 obtain vs where
      vs: "copy_chunk_refs n ?v k ?v ?t1 = Inr (?t1\<lparr>versions := vs\<rparr>)" "keys_ok (?t1\<lparr>versions := vs\<rparr>)"
      "\<And>m w j. manifest (?t1\<lparr>versions := vs\<rparr>) m w j = (if m = n \<and> w = ?v then manifest (tabs s) k ?v j else manifest (tabs s) m w j)"
      by (auto simp: keys_ok_def)
    from rest vs(1) True have "s' = s\<lparr>tabs := ?t1\<lparr>versions := vs\<rparr>\<rparr>" by (simp add: sql_eq)
    with vs True show ?thesis by (intro that [of vs]) simp_all
  next
    case False
    with rest have "s' = s\<lparr>tabs := ?t1\<lparr>versions := versions (tabs s)\<rparr>\<rparr>" by (simp add: op_elims)
    moreover have "manifest (?t1\<lparr>versions := versions (tabs s)\<rparr>) = manifest (tabs s)" by (simp add: manifest_def fun_eq_iff)
    ultimately show ?thesis using False keys new by (intro that [of "versions (tabs s)"]) (simp_all add: keys_ok_def)
  qed
  have "stored L (cipher_of s) (tabs s') n ?v (split_chunks cs C)"
  proof (cases "?v > 0")
    case True
    show ?thesis unfolding stored_def s'
      using r(3) [unfolded stored_def] mine True by (simp add: piece_def cong: option.case_cong)
  next
    case False
    with committed [OF r(1)] have "split_chunks cs C = []" by (simp add: split_chunks.simps)
    then show ?thesis using mine False by (simp add: stored_def s')
  qed
  then have "content_is L (cipher_of s) cs (tabs s') n C"
    unfolding content_is_def using row by (intro exI [of _ ?row]) (simp add: s')
  moreover have "beside n (tabs s) (tabs s')"
    using row man by (simp add: s' beside_def volumes_alike_def pool_le_def fun_eq_iff)
  ultimately show ?thesis using k' by (simp add: s' steps_to_def)
qed

text \<open>The walk below a leaf is the leaf.\<close>

lemma walk_leaf:
  assumes "schema_ok t" and "node_at t k = Some r" and "nd_type r \<noteq> CONTAINER"
  shows "enumerate_subtree t k = [\<lparr>wk_node = k, wk_parent = None, wk_name = nd_name r\<rparr>]"
proof -
  have "eg_from e \<noteq> k" if "e \<in> set (edges t)" for e
  proof
    assume k: "eg_from e = k"
    from assms(1) have h: "keys_unique (shape_of t)" "refs_resolved (shape_of t)" by (simp_all add: schema_ok_def Let_def)
    with that have "endpoint (shape_of t) (eg_from e) {CONTAINER} (eg_volume e)"
      by (auto simp: refs_resolved_def list_all_iff edge_ref_def shape_of_def)
    then obtain x where x: "x \<in> set (nodes t)" "nd_id x = k" "nd_type x = CONTAINER"
      unfolding k by (auto simp: endpoint_def shape_of_def)
    have "distinct (map nd_id (nodes t))" using h(1) by (simp add: keys_unique_def shape_of_def comp_def)
    from row_at_mem [OF this x(1)] x assms(2,3) show False by simp
  qed
  then have "child_rows t w = []" if "st_node w = k" for w
    using that by (auto simp: child_rows_def active_edge_def filter_empty_conv)
  then have "subtree_levels t (Suc d) [w] = [w]" if "st_node w = k" for d w using that by simp
  from this [of "\<lparr>st_node = k, st_parent = None, st_edge = None, st_depth = 0\<rparr>" 255]
  have "subtree t k = [\<lparr>st_node = k, st_parent = None, st_edge = None, st_depth = 0\<rparr>]"
    using assms(2) by (simp add: subtree_def depth_bound_def)
  then show ?thesis using assms(2) by (simp add: enumerate_subtree_def)
qed

text \<open>The steps of a copy of a leaf.\<close>

lemma copy_leaf_run:
  assumes sch: "schema_ok (tabs s)" and info: "node_at (tabs s) k = Some info" and leafy: "nd_type info \<noteq> CONTAINER"
    and m: "require_mount mount True s = (Inr m, s)" and f: "resolve (tabs s) (m_point m) src = Inr found" "rs_node found = k"
    and run: "copy mount src dst s = (Inr n, s')"
  shows "\<exists>p nm cr md meta s2 s3 s4 e. resolve_parent (tabs s) (m_point m) dst = Inr (p, nm) \<and> \<not> in_txn s
     \<and> s' = (flush_watermarks s4)\<lparr>in_txn := False\<rparr> \<and> new_node m (nd_type info) nm cr md meta (s\<lparr>in_txn := True\<rparr>) = (Inr n, s2)
     \<and> copy_content k n s2 = (Inr (), s3) \<and> link_node m p n None s3 = (Inr e, s4)"
proof -
  let ?s0 = "s\<lparr>in_txn := True\<rparr>"
  note walk = walk_leaf [OF sch info leafy]
  from run obtain s4 where body: "bind_op (require_mount mount True) (\<lambda>m.
     bind_op (resolve_op (m_point m) src) (\<lambda>found.
     bind_op (resolve_parent_op (m_point m) dst) (\<lambda>(dst_parent, dst_name).
     bind_op (require_name dst_name) (\<lambda>_.
     bind_op (gets (\<lambda>s. enumerate_subtree (tabs s) (rs_node found))) (\<lambda>rows.
     bind_op (copy_rows m dst_parent dst_name rows Map.empty None) (\<lambda>new_root.
     case new_root of None \<Rightarrow> fail Corrupt | Some n \<Rightarrow> ret n)))))) ?s0 = (Inr n, s4)"
    and s': "s' = (flush_watermarks s4)\<lparr>in_txn := False\<rparr>" and idle: "\<not> in_txn s"
    by (auto simp: copy_def txn_def split: if_splits prod.splits sum.splits)
  from body obtain p nm where par: "resolve_parent (tabs s) (m_point m) dst = Inr (p, nm)"
    and rows: "copy_rows m p nm (enumerate_subtree (tabs s) k) Map.empty None ?s0 = (Inr (Some n), s4)"
    by (auto simp: run_elims require_mount_txn [OF m] f split: option.splits)
  from rows obtain cr md meta s2 s3 e where
    n1: "new_node m (nd_type info) nm cr md meta ?s0 = (Inr n, s2)" and c2: "copy_content k n s2 = (Inr (), s3)"
    and l3: "link_node m p n None s3 = (Inr e, s4)"
    using walk info leafy by (auto simp: run_elims get_opt_def split: option.splits)
  with par idle s' show ?thesis by blast
qed

text \<open>C6
  Copying a file to a path that named nothing gives that path the bytes of the source on a
  new node of its own, without storing a chunk; the source and every other file keep theirs.
\<close>

theorem copy_file_copies:
  assumes sch: "schema_ok (tabs s)" and src: "file_at L U cs s mount src k C"
    and committed: "content_at (tabs s) k = Some row" "ct_version row = 0 \<longrightarrow> C = []"
    and m: "require_mount mount True s = (Inr m, s)" and absent: "resolve (tabs s) (m_point m) dst = Inl NotFound"
    and run: "copy mount src dst s = (Inr n, s')"
  shows "n \<noteq> k \<and> file_at L U cs s' mount dst n C \<and> read_all L mount dst s' = (Inr C, s') \<and> chunks (tabs s') = chunks (tabs s)
     \<and> (\<forall>q j D. file_at L U cs s mount q j D \<longrightarrow> file_at L U cs s' mount q j D)"
proof -
  let ?s0 = "s\<lparr>in_txn := True\<rparr>"
  from src obtain m' vr where leaf: "leaf_for_write mount src s = (Inr (m', k), s)" and vol: "volume_at (tabs s) (m_volume m') = Some vr" "vl_chunk_size vr = cs"
    and cs: "0 < cs" and cf: "collision_free L (cipher_of s) U (tabs s)" and c: "content_is L (cipher_of s) cs (tabs s) k C"
    by (auto simp: file_at_def)
  from leaf_for_write_leaf [OF leaf] m obtain found where mm: "m' = m" and f: "resolve (tabs s) (m_point m) src = Inr found"
    "rs_type found \<noteq> CONTAINER" "rs_node found = k" by (auto simp: resolve_leaf_iff)
  from resolved_node_exists [OF f(1)] obtain info where info: "node_at (tabs s) k = Some info" "nd_type info = rs_type found"
    unfolding f(3) by blast
  have leafy: "nd_type info \<noteq> CONTAINER" using info(2) f(2) by simp
  from copy_leaf_run [OF sch info(1) leafy m f(1,3) run] obtain p nm cr md meta s2 s3 s4 e where
    par: "resolve_parent (tabs s) (m_point m) dst = Inr (p, nm)" and idle: "\<not> in_txn s"
    and s': "s' = (flush_watermarks s4)\<lparr>in_txn := False\<rparr>" and n1: "new_node m (nd_type info) nm cr md meta ?s0 = (Inr n, s2)"
    and c2: "copy_content k n s2 = (Inr (), s3)" and l3: "link_node m p n None s3 = (Inr e, s4)" by blast
  from new_node_steps [OF n1] obtain r where fresh: "node_at (tabs s) n = None"
    and st2: "steps_to ?s0 s2 ((tabs s)\<lparr>nodes := nodes (tabs s) @ [r]\<rparr>)" by auto
  then have t2: "tabs s2 = (tabs s)\<lparr>nodes := nodes (tabs s) @ [r]\<rparr>" "in_txn s2" "cipher_of s2 = cipher_of s"
    by (simp_all add: steps_to_def)
  have kn: "k \<noteq> n" using fresh info(1) by auto
  have man2: "manifest (tabs s2) = manifest (tabs s)" by (simp add: t2(1) manifest_def fun_eq_iff)
  have new: "manifest (tabs s2) n v j = None" for v j unfolding man2 by (rule schema_facts(2) [OF sch fresh])
  have "stored L (cipher_of s) (tabs s2) k v ps = stored L (cipher_of s) (tabs s) k v ps" for v ps
    by (rule stored_cong) (simp_all add: t2(1))
  then have c': "content_is L (cipher_of s2) cs (tabs s2) k C" using c t2 by (simp add: content_is_def)
  have k2: "keys_ok (tabs s2)" using schema_facts(1) [OF sch] by (simp add: keys_ok_def t2(1))
  have com: "C = []" if "content_at (tabs s2) k = Some x" "ct_version x = 0" for x
    using committed that by (simp add: t2(1))
  have copied: "beside n (tabs s2) (tabs s3) \<and> steps_to s2 s3 (tabs s3) \<and> keys_ok (tabs s3) \<and> chunks (tabs s3) = chunks (tabs s2)
     \<and> nodes (tabs s3) = nodes (tabs s2) \<and> edges (tabs s3) = edges (tabs s2) \<and> content_is L (cipher_of s2) cs (tabs s3) n C"
    by (rule copy_content_steps [OF c2 c' kn _ k2 new]) (rule com)
  have st3: "beside n (tabs s2) (tabs s3)" "steps_to s2 s3 (tabs s3)" "keys_ok (tabs s3)" "chunks (tabs s3) = chunks (tabs s2)"
    "nodes (tabs s3) = nodes (tabs s2)" "edges (tabs s3) = edges (tabs s2)" "content_is L (cipher_of s) cs (tabs s3) n C"
    using copied t2(3) by simp_all
  from st3(2) t2(2) have "in_txn s3" by (simp add: steps_to_def)
  from link_node_steps [OF l3 this] obtain t4 where
    t4: "steps_to s3 s4 t4" "beside n (tabs s3) t4" "contents t4 = contents (tabs s3)" "versions t4 = versions (tabs s3)" "chunks t4 = chunks (tabs s3)"
    by blast
  then have t4': "tabs s4 = t4" by (simp add: steps_to_def)
  have "namespace_of (tabs s3) = namespace_of (tabs s2)" "node_at (tabs s3) n = node_at (tabs s2) n"
    using st3(5,6) by (simp_all add: namespace_of_def active_edge_def type_at_def fun_eq_iff)
  from created [OF n1 this l3] have
    ns: "namespace_of (tabs s4) = ns_place (p, nm, n) ((namespace_of (tabs s))\<lparr>ns_types := (type_at (tabs s))(n \<mapsto> nd_type info)\<rparr>)" by simp
  have b2: "beside n (tabs s) (tabs s2)" by (rule beside_same) (simp_all add: t2(1))
  have b: "beside n (tabs s) (tabs s4)" unfolding t4' by (rule beside_trans [OF beside_trans [OF b2 st3(1)] t4(2)])
  have st: "steps_to ?s0 s4 (tabs s4)" using st2 st3(2) t4(1) by (simp add: steps_to_def)
  have ok: "keys_ok (tabs s4)" "collision_free L (cipher_of s) U (tabs s4)" "content_is L (cipher_of s) cs (tabs s4) n C"
    using st3 t4 stored_cong [OF t4(5,4)] cf t2(1) collision_free_chunks [of "tabs s4" "tabs s"]
    by (simp_all add: t4' keys_ok_def content_is_def)
  from vol(1) have v: "volume_at (tabs s) (m_volume m) = Some vr" by (simp add: mm)
  have "chunks (tabs s') = chunks (tabs s)" using st3(4) t4(5) t2(1) by (simp add: s' flush_frame t4')
  with new_file_ok [OF sch idle m v vol(2) cs absent par fresh ns leafy b st ok s'] kn file_at_read show ?thesis by blast
qed

theorem copy_file_copies_witness:
  "\<exists>n s'. copy ''m'' ''/a'' ''/dir/c'' demo = (Inr n, s') \<and> n \<noteq> ''f''
     \<and> read_all toy_lib ''m'' ''/dir/c'' s' = (Inr [1, 2, 3, 4, 5], s') \<and> chunks (tabs s') = chunks (tabs demo)"
proof -
  let ?m = "\<lparr>m_id = ''m'', m_point = ''r'', m_volume = ''v'', m_enc_mode = ''none''\<rparr>"
  have "fst (require_mount ''m'' True demo) = Inr ?m" by code_simp
  then have m: "require_mount ''m'' True demo = (Inr ?m, demo)"
    using require_mount_reads [of "''m''" True demo] by (metis prod.collapse)
  have "map_sum id (\<lambda>_. ()) (fst (copy ''m'' ''/a'' ''/dir/c'' demo)) = Inr ()" by code_simp
  moreover obtain r s' where "copy ''m'' ''/a'' ''/dir/c'' demo = (r, s')" by force
  ultimately obtain n where c: "copy ''m'' ''/a'' ''/dir/c'' demo = (Inr n, s')" by (cases r) simp_all
  have "map_sum id (\<lambda>_. ()) (resolve (tabs demo) ''r'' ''/dir/c'') = Inl NotFound" by code_simp
  then have absent: "resolve (tabs demo) (m_point ?m) ''/dir/c'' = Inl NotFound"
    by (cases "resolve (tabs demo) ''r'' ''/dir/c''") simp_all
  obtain row where com: "content_at (tabs demo) ''f'' = Some row" "ct_version row = 0 \<longrightarrow> [1, 2, 3, 4, 5] = ([] :: byte list)"
    by (simp add: demo_def demo_tables_def)
  from copy_file_copies [OF demo_schema_ok demo_file(1) com m absent c] c show ?thesis by blast
qed

end
