(* ===== verification/DavLock.thy ===== *)
theory DavLock
  imports Prelude "HOL-Library.Sublist"
begin

text \<open>
  The WebDAV lock registry and the \<open>If:\<close> header (\<open>manager/davlock.py\<close>).

  A \<open>dav_lock\<close> is a \<open>DavLock\<close> object. The registry's dict from tokens to locks is the list of
  its values in insertion order, its key being the token of the value. The monotonic clock
  is read in nanoseconds, once per operation, and the UUID of a new token is an argument.
  The registry keeps its locks disjoint: no lock governs the path of another one of the
  same volume, so at most one lock governs any resource, whatever the order of requests.

  A header is parsed by the three regular expressions of the module, written out as the
  functions that match them, and \<open>render\<close> is their inverse on well-formed headers.
\<close>

section \<open>Locks\<close>

definition DEFAULT_TIMEOUT :: int where "DEFAULT_TIMEOUT = 600"

definition MAX_TIMEOUT :: int where "MAX_TIMEOUT = 3600"

definition second :: int where "second = 1000000000"

record dav_lock =
  dl_token :: string
  dl_volume :: string
  dl_path :: string
  dl_depth :: string
  dl_owner_xml :: string
  dl_timeout :: int
  dl_expires_at :: int
  dl_engine_lock :: "string option"

definition expired :: "int \<Rightarrow> dav_lock \<Rightarrow> bool" where
  "expired clock lk \<longleftrightarrow> clock \<ge> dl_expires_at lk"

definition refresh_lock :: "int \<Rightarrow> int option \<Rightarrow> dav_lock \<Rightarrow> dav_lock" where
  "refresh_lock clock timeout lk =
     (let lk' = (case timeout of None \<Rightarrow> lk | Some x \<Rightarrow> lk\<lparr>dl_timeout := x\<rparr>)
      in lk'\<lparr>dl_expires_at := clock + dl_timeout lk' * second\<rparr>)"

text \<open>A path with the slash that ends it, and what is below it.\<close>

definition slashed :: "string \<Rightarrow> string" where
  "slashed p = (if suffix ''/'' p then p else p @ ''/'')"

definition covers :: "dav_lock \<Rightarrow> string \<Rightarrow> bool" where
  "covers lk path \<longleftrightarrow> dl_path lk = path \<or> dl_depth lk = ''infinity'' \<and> prefix (slashed (dl_path lk)) path"

definition is_descendant :: "string \<Rightarrow> string \<Rightarrow> bool" where
  "is_descendant candidate ancestor \<longleftrightarrow> candidate \<noteq> ancestor \<and> prefix (slashed ancestor) candidate"

section \<open>The registry\<close>

type_synonym registry = "dav_lock list"

definition reap :: "int \<Rightarrow> registry \<Rightarrow> registry" where
  "reap clock reg = filter (\<lambda>lk. \<not> expired clock lk) reg"

definition live :: "string \<Rightarrow> registry \<Rightarrow> registry" where
  "live volume reg = filter (\<lambda>lk. dl_volume lk = volume) reg"

definition put_lock :: "dav_lock \<Rightarrow> registry \<Rightarrow> registry" where
  "put_lock lk reg = (if dl_token lk \<in> dl_token ` set reg
     then map (\<lambda>x. if dl_token x = dl_token lk then lk else x) reg else reg @ [lk])"

definition find_lock :: "int \<Rightarrow> string \<Rightarrow> string \<Rightarrow> registry \<Rightarrow> dav_lock option \<times> registry" where
  "find_lock clock volume path reg =
     (let reg' = reap clock reg in (find (\<lambda>lk. covers lk path) (live volume reg'), reg'))"

definition covered_by_subtree :: "int \<Rightarrow> string \<Rightarrow> string \<Rightarrow> registry \<Rightarrow> dav_lock list \<times> registry" where
  "covered_by_subtree clock volume path reg =
     (let reg' = reap clock reg
      in (filter (\<lambda>lk. dl_path lk = path \<or> is_descendant (dl_path lk) path) (live volume reg'), reg'))"

definition get_by_token :: "int \<Rightarrow> string \<Rightarrow> registry \<Rightarrow> dav_lock option \<times> registry" where
  "get_by_token clock token reg = (let reg' = reap clock reg in (row_at dl_token token reg', reg'))"

text \<open>\<open>Inl\<close> is \<open>LockConflict\<close> with the path of the holder.\<close>

definition acquire ::
  "int \<Rightarrow> string \<Rightarrow> string \<Rightarrow> string \<Rightarrow> string \<Rightarrow> string \<Rightarrow> int option \<Rightarrow> registry
     \<Rightarrow> (string + dav_lock) \<times> registry" where
  "acquire clock uuid volume path depth owner_xml timeout reg =
     (let seconds = (case timeout of None \<Rightarrow> DEFAULT_TIMEOUT | Some t \<Rightarrow> max 1 (min t MAX_TIMEOUT));
          reg' = reap clock reg
      in case find (\<lambda>lk. covers lk path \<or> depth = ''infinity'' \<and> is_descendant (dl_path lk) path)
                 (live volume reg') of
           Some lk \<Rightarrow> (Inl (dl_path lk), reg')
         | None \<Rightarrow>
             (let lk = \<lparr>dl_token = ''opaquelocktoken:'' @ uuid, dl_volume = volume, dl_path = path,
                  dl_depth = depth, dl_owner_xml = owner_xml, dl_timeout = seconds,
                  dl_expires_at = clock + seconds * second, dl_engine_lock = None\<rparr>
              in (Inr lk, put_lock lk reg')))"

definition release :: "int \<Rightarrow> string \<Rightarrow> registry \<Rightarrow> dav_lock option \<times> registry" where
  "release clock token reg =
     (let reg' = reap clock reg
      in (row_at dl_token token reg', filter (\<lambda>lk. dl_token lk \<noteq> token) reg'))"

definition release_volume :: "string \<Rightarrow> registry \<Rightarrow> dav_lock list \<times> registry" where
  "release_volume volume reg = (live volume reg, filter (\<lambda>lk. dl_volume lk \<noteq> volume) reg)"

text \<open>The handler's refresh of a lock it looked up: the object in the dict is changed.\<close>

definition refresh_token :: "int \<Rightarrow> int option \<Rightarrow> string \<Rightarrow> registry \<Rightarrow> registry" where
  "refresh_token clock timeout token reg =
     map (\<lambda>lk. if dl_token lk = token then refresh_lock clock timeout lk else lk) reg"

section \<open>The registry as a state machine\<close>

inductive registry_step :: "int \<times> registry \<Rightarrow> int \<times> registry \<Rightarrow> bool" where
  looked: "registry_step (c, reg) (c, snd (find_lock c v p reg))"
| swept: "registry_step (c, reg) (c, snd (covered_by_subtree c v p reg))"
| got: "registry_step (c, reg) (c, snd (get_by_token c tok reg))"
| acquired: "registry_step (c, reg) (c, snd (acquire c u v p d x t reg))"
| refreshed: "registry_step (c, reg) (c, refresh_token c t tok reg)"
| released: "registry_step (c, reg) (c, snd (release c tok reg))"
| cleared: "registry_step (c, reg) (c, snd (release_volume v reg))"
| passed: "c \<le> c' \<Longrightarrow> registry_step (c, reg) (c', reg)"

inductive registry_reachable :: "int \<times> registry \<Rightarrow> bool" where
  empty: "registry_reachable (c, [])"
| step: "registry_reachable s \<Longrightarrow> registry_step s s' \<Longrightarrow> registry_reachable s'"

inductive_cases registry_stepE: "registry_step s s'"

text \<open>Keys are unique, and no lock governs the path of another of its volume.\<close>

definition apart :: "dav_lock \<Rightarrow> dav_lock \<Rightarrow> bool" where
  "apart a b \<longleftrightarrow> dl_volume a \<noteq> dl_volume b \<or> \<not> covers a (dl_path b)"

definition disjoint_locks :: "registry \<Rightarrow> bool" where
  "disjoint_locks reg \<longleftrightarrow> distinct (map dl_token reg)
     \<and> (\<forall>a \<in> set reg. \<forall>b \<in> set reg. dl_token a \<noteq> dl_token b \<longrightarrow> apart a b)"

lemma disjoint_filter: "disjoint_locks reg \<Longrightarrow> disjoint_locks (filter P reg)"
  by (auto simp: disjoint_locks_def distinct_map_filter)

lemma disjoint_reap: "disjoint_locks reg \<Longrightarrow> disjoint_locks (reap c reg)"
  by (simp add: reap_def disjoint_filter)

lemma disjoint_map:
  assumes "disjoint_locks reg"
    and "\<And>lk. dl_token (f lk) = dl_token lk \<and> dl_volume (f lk) = dl_volume lk
      \<and> dl_path (f lk) = dl_path lk \<and> dl_depth (f lk) = dl_depth lk"
  shows "disjoint_locks (map f reg)"
  using assms by (auto simp: disjoint_locks_def apart_def covers_def comp_def)

lemma disjoint_put_lock:
  assumes "disjoint_locks reg" and "\<And>a. a \<in> set reg \<Longrightarrow> apart a lk \<and> apart lk a"
  shows "disjoint_locks (put_lock lk reg)"
proof (cases "dl_token lk \<in> dl_token ` set reg")
  case True
  have "map dl_token (map (\<lambda>x. if dl_token x = dl_token lk then lk else x) reg) = map dl_token reg"
    by (auto simp: comp_def)
  with assms True show ?thesis by (auto simp: disjoint_locks_def put_lock_def simp del: map_map)
next
  case False
  with assms show ?thesis by (auto simp: disjoint_locks_def put_lock_def)
qed

lemma acquire_cases:
  obtains (refused) lk where "acquire c u v p d x t reg = (Inl (dl_path lk), reap c reg)" "lk \<in> set reg"
      "\<not> expired c lk" "dl_volume lk = v" "covers lk p \<or> d = ''infinity'' \<and> is_descendant (dl_path lk) p"
  | (granted) lk where "acquire c u v p d x t reg = (Inr lk, put_lock lk (reap c reg))" "dl_volume lk = v" "dl_path lk = p"
      "dl_depth lk = d" "1 \<le> dl_timeout lk" "dl_timeout lk \<le> MAX_TIMEOUT" "dl_expires_at lk = c + dl_timeout lk * second"
      "\<forall>a \<in> set reg. \<not> expired c a \<and> dl_volume a = v \<longrightarrow> \<not> covers a p \<and> \<not> covers lk (dl_path a)"
proof (cases "find (\<lambda>lk. covers lk p \<or> d = ''infinity'' \<and> is_descendant (dl_path lk) p) (live v (reap c reg))")
  case (Some lk)
  then have "lk \<in> set (live v (reap c reg)) \<and> (covers lk p \<or> d = ''infinity'' \<and> is_descendant (dl_path lk) p)"
    by (auto simp: find_Some_iff)
  with Some refused [of lk] show thesis by (auto simp: acquire_def live_def reap_def)
next
  case None
  define y where "y = (case t of None \<Rightarrow> DEFAULT_TIMEOUT | Some t \<Rightarrow> max 1 (min t MAX_TIMEOUT))"
  have y: "1 \<le> y" "y \<le> MAX_TIMEOUT" by (auto simp: y_def DEFAULT_TIMEOUT_def MAX_TIMEOUT_def split: option.splits)
  have "\<forall>a \<in> set reg. \<not> expired c a \<and> dl_volume a = v \<longrightarrow> \<not> covers a p
      \<and> \<not> (d = ''infinity'' \<and> is_descendant (dl_path a) p)"
    using None by (auto simp: find_None_iff live_def reap_def)
  with None y show thesis
    by (intro granted) (auto simp: acquire_def Let_def y_def [symmetric] covers_def is_descendant_def)
qed

lemma disjoint_acquire:
  assumes "disjoint_locks reg"
  shows "disjoint_locks (snd (acquire c u v p d x t reg))"
proof (cases rule: acquire_cases [of c u v p d x t reg])
  case (refused lk)
  with disjoint_reap [OF assms] show ?thesis by simp
next
  case (granted lk)
  then have "apart a lk \<and> apart lk a" if "a \<in> set (reap c reg)" for a
    using that by (auto simp: apart_def reap_def)
  with disjoint_put_lock [OF disjoint_reap [OF assms]] granted show ?thesis by simp
qed

lemma disjoint_refresh: "disjoint_locks reg \<Longrightarrow> disjoint_locks (refresh_token c t tok reg)"
  unfolding refresh_token_def
  by (erule disjoint_map) (auto simp: refresh_lock_def Let_def split: option.splits)

lemma registry_step_disjoint: "registry_step s s' \<Longrightarrow> disjoint_locks (snd s) \<Longrightarrow> disjoint_locks (snd s')"
  by (erule registry_stepE)
    (simp_all add: find_lock_def covered_by_subtree_def get_by_token_def release_def release_volume_def Let_def
      disjoint_reap disjoint_filter disjoint_acquire disjoint_refresh)

lemma reachable_disjoint: "registry_reachable s \<Longrightarrow> disjoint_locks (snd s)"
proof (induction rule: registry_reachable.induct)
  case (step s s')
  then show ?case by (simp add: registry_step_disjoint)
qed (simp add: disjoint_locks_def)

lemma slashed_prefixes:
  assumes "prefix (slashed p) r" and "prefix (slashed q) r"
  shows "p = q \<or> prefix (slashed p) q \<or> prefix (slashed q) p"
proof -
  have sl: "slashed x = x \<or> slashed x = x @ ''/''" for x by (simp add: slashed_def)
  have cases: "p = q \<or> prefix (slashed p) q \<or> prefix (slashed q) p" if "prefix (slashed p) (slashed q)" for p q
    using sl [of p] sl [of q] that by (auto simp: prefix_snoc)
  from assms consider "prefix (slashed p) (slashed q)" | "prefix (slashed q) (slashed p)"
    by (metis prefix_same_cases)
  then show ?thesis using cases by cases blast+
qed

text \<open>At most one lock governs a resource.\<close>

lemma governing_unique:
  assumes "disjoint_locks reg" and "a \<in> set reg" "b \<in> set reg" "dl_volume a = dl_volume b"
    and "covers a path" "covers b path"
  shows "a = b"
proof (rule ccontr)
  assume ne: "a \<noteq> b"
  from assms(1-3) ne have "dl_token a \<noteq> dl_token b"
    by (auto simp: disjoint_locks_def dest: inj_onD simp flip: distinct_map)
      (metis distinct_map inj_onD)
  with assms(1-4) have "\<not> covers a (dl_path b)" "\<not> covers b (dl_path a)"
    by (auto simp: disjoint_locks_def apart_def)
  with assms(5,6) slashed_prefixes [of "dl_path a" path "dl_path b"] show False by (auto simp: covers_def)
qed

lemma find_lock_governs:
  assumes "registry_reachable (c, reg)"
  shows "fst (find_lock c v p reg) = Some lk \<longleftrightarrow>
    lk \<in> set reg \<and> dl_volume lk = v \<and> covers lk p \<and> \<not> expired c lk"
proof
  assume "fst (find_lock c v p reg) = Some lk"
  then show "lk \<in> set reg \<and> dl_volume lk = v \<and> covers lk p \<and> \<not> expired c lk"
    by (auto simp: find_lock_def Let_def find_Some_iff live_def reap_def simp del: filter_filter dest!: nth_mem)
next
  assume r: "lk \<in> set reg \<and> dl_volume lk = v \<and> covers lk p \<and> \<not> expired c lk"
  then have "lk \<in> set (live v (reap c reg))" by (simp add: live_def reap_def)
  with r obtain x where x: "find (\<lambda>lk. covers lk p) (live v (reap c reg)) = Some x"
    by (metis find_None_iff not_None_eq)
  then have "x \<in> set (live v (reap c reg))" "covers x p" by (auto simp: find_Some_iff)
  then have "x = lk" using governing_unique [OF reachable_disjoint [OF assms]] r
    by (simp add: live_def reap_def)
  with x show "fst (find_lock c v p reg) = Some lk" by (simp add: find_lock_def Let_def)
qed

section \<open>The If: header\<close>

text \<open>The characters of \<open>\s\<close> and of \<open>str.strip\<close>.\<close>

definition py_space :: "char \<Rightarrow> bool" where
  "py_space c \<longleftrightarrow> (of_char c :: nat) \<in> {9, 10, 11, 12, 13, 28, 29, 30, 31, 32, 133, 160}"

definition strip :: "(char \<Rightarrow> bool) \<Rightarrow> string \<Rightarrow> string" where
  "strip P s = rev (dropWhile P (rev (dropWhile P s)))"

text \<open>A condition: negated, state token, entity tag. A list of an \<open>IfHeader\<close> has the resource tag before it.\<close>

type_synonym condition = "bool \<times> string option \<times> string option"

type_synonym if_header = "(string option \<times> condition list) list"

text \<open>\<open>open [^close]* close\<close>: the text between the delimiters and the rest.\<close>

definition delimited :: "char \<Rightarrow> char \<Rightarrow> string \<Rightarrow> (string \<times> string) option" where
  "delimited opn cls s =
     (case s of [] \<Rightarrow> None
      | c # r \<Rightarrow>
          if c \<noteq> opn then None
          else (case dropWhile (\<lambda>x. x \<noteq> cls) r of [] \<Rightarrow> None
                | _ # r' \<Rightarrow> Some (takeWhile (\<lambda>x. x \<noteq> cls) r, r')))"

text \<open>\<open>_TAG_RE\<close>: the lookahead leaves the parenthesis.\<close>

definition match_tag :: "string \<Rightarrow> (string \<times> string) option" where
  "match_tag s =
     (case delimited CHR ''<'' CHR ''>'' s of None \<Rightarrow> None
      | Some (tag, r) \<Rightarrow>
          (case dropWhile py_space r of
             c # r' \<Rightarrow> if c = CHR ''('' then Some (tag, c # r') else None
           | [] \<Rightarrow> None))"

definition match_list :: "string \<Rightarrow> (string \<times> string) option" where
  "match_list s = delimited CHR ''('' CHR '')'' s"

text \<open>\<open>_COND_RE\<close>, without regard to case: its optional \<open>Not\<close>, then a token or an entity tag.\<close>

definition lower :: "char \<Rightarrow> char" where
  "lower c = (if CHR ''A'' \<le> c \<and> c \<le> CHR ''Z'' then char_of (of_char c + (32 :: nat)) else c)"

definition match_not :: "string \<Rightarrow> string option" where
  "match_not s =
     (case drop 3 s of
        c # r \<Rightarrow> if map lower (take 3 s) = ''not'' \<and> py_space c then Some (dropWhile py_space r) else None
      | [] \<Rightarrow> None)"

definition match_entity :: "string \<Rightarrow> (string \<times> string) option" where
  "match_entity s =
     (case s of [] \<Rightarrow> None
      | c # r \<Rightarrow>
          if c \<noteq> CHR ''['' then None
          else let r1 = dropWhile py_space r;
                   r2 = (if map lower (take 2 r1) = ''w/'' then drop 2 r1 else r1)
               in (case delimited CHR 0x22 CHR 0x22 r2 of None \<Rightarrow> None
                   | Some (tag, r3) \<Rightarrow>
                       (case dropWhile py_space r3 of
                          d # r4 \<Rightarrow> if d = CHR '']'' then Some (tag, r4) else None
                        | [] \<Rightarrow> None)))"

definition match_state :: "string \<Rightarrow> ((string option \<times> string option) \<times> string) option" where
  "match_state s =
     (case delimited CHR ''<'' CHR ''>'' s of
        Some (tok, r) \<Rightarrow> Some ((if tok = [] then None else Some tok, None), r)
      | None \<Rightarrow> (case match_entity s of
            Some (tag, r) \<Rightarrow> Some ((None, Some tag), r)
          | None \<Rightarrow> None))"

definition match_cond :: "string \<Rightarrow> (condition \<times> string) option" where
  "match_cond s =
     (case (case match_not s of None \<Rightarrow> None | Some r \<Rightarrow> match_state r) of
        Some ((tok, tag), r) \<Rightarrow> Some ((True, tok, tag), r)
      | None \<Rightarrow> map_option (\<lambda>((tok, tag), r). ((False, tok, tag), r)) (match_state s))"

lemma delimited_shorter: "delimited opn cls s = Some (x, r) \<Longrightarrow> length r < length s"
proof -
  assume a: "delimited opn cls s = Some (x, r)"
  then obtain c q d where "s = c # q" "dropWhile (\<lambda>x. x \<noteq> cls) q = d # r"
    by (auto simp: delimited_def split: list.splits if_splits)
  with length_dropWhile_le [of "\<lambda>x. x \<noteq> cls" q] show ?thesis by simp
qed

lemma match_tag_shorter: "match_tag s = Some (x, r) \<Longrightarrow> length r < length s"
proof -
  assume "match_tag s = Some (x, r)"
  then obtain q where "delimited CHR ''<'' CHR ''>'' s = Some (x, q)" "dropWhile py_space q = r"
    by (auto simp: match_tag_def split: option.splits list.splits if_splits)
  with delimited_shorter length_dropWhile_le [of py_space q] show ?thesis by fastforce
qed

lemma match_entity_shorter: "match_entity s = Some (x, r) \<Longrightarrow> length r < length s"
proof -
  assume "match_entity s = Some (x, r)"
  then obtain q k q3 d where "length q < length s" "delimited CHR 0x22 CHR 0x22 (drop k (dropWhile py_space q)) = Some (x, q3)"
    "dropWhile py_space q3 = d # r"
    by (auto simp: match_entity_def Let_def split: option.splits list.splits if_splits)
      (metis drop0 lessI)+
  with delimited_shorter [of _ _ "drop k (dropWhile py_space q)"] length_dropWhile_le [of py_space q]
    length_dropWhile_le [of py_space q3] show ?thesis by fastforce
qed

lemma match_state_shorter: "match_state s = Some (x, r) \<Longrightarrow> length r < length s"
  by (auto simp: match_state_def split: option.splits dest: delimited_shorter match_entity_shorter)

lemma match_not_shorter: "match_not s = Some r \<Longrightarrow> length r < length s"
proof -
  assume "match_not s = Some r"
  then obtain c q where "drop 3 s = c # q" "r = dropWhile py_space q"
    by (auto simp: match_not_def split: list.splits if_splits)
  then have "length (c # q) \<le> length s" by (metis diff_le_self length_drop)
  moreover have "length r \<le> length q" using \<open>r = dropWhile py_space q\<close> by (simp add: length_dropWhile_le)
  ultimately show ?thesis by simp
qed

lemma match_cond_shorter: "match_cond s = Some (x, r) \<Longrightarrow> length r < length s"
  by (fastforce simp: match_cond_def split: option.splits dest: match_state_shorter match_not_shorter)

text \<open>\<open>finditer\<close> over the body of a list.\<close>

function parse_list :: "string \<Rightarrow> condition list" where
  "parse_list body =
     (if body = [] then []
      else (case match_cond body of
          Some (cond, rest) \<Rightarrow> cond # parse_list rest
        | None \<Rightarrow> parse_list (tl body)))"
  by pat_completeness auto
termination
  by (relation "measure length") (auto dest: match_cond_shorter)

function parse_text :: "string option \<Rightarrow> string \<Rightarrow> if_header" where
  "parse_text current txt =
     (if txt = [] then []
      else (case match_tag txt of
          Some (tag, rest) \<Rightarrow> parse_text (Some tag) rest
        | None \<Rightarrow> (case match_list txt of
              Some (body, rest) \<Rightarrow> (current, parse_list body) # parse_text current rest
            | None \<Rightarrow> parse_text current (tl txt))))"
  by pat_completeness auto
termination
  by (relation "measure (\<lambda>(c, s). length s)") (auto simp: match_list_def dest: match_tag_shorter delimited_shorter)

declare parse_list.simps [simp del] parse_text.simps [simp del]

definition parse_if :: "string \<Rightarrow> if_header" where
  "parse_if raw = parse_text None (strip py_space raw)"

section \<open>Evaluation\<close>

definition header_tokens :: "if_header \<Rightarrow> string set" where
  "header_tokens h = set (concat (map (\<lambda>(tag, conds). concat (map (\<lambda>(neg, tok, etag).
     case tok of None \<Rightarrow> [] | Some x \<Rightarrow> if x = [] then [] else [x]) conds)) h))"

definition lstrip_chars :: "char set \<Rightarrow> string \<Rightarrow> string" where
  "lstrip_chars cs s = dropWhile (\<lambda>c. c \<in> cs) s"

definition etag_eq :: "string \<Rightarrow> string \<Rightarrow> bool" where
  "etag_eq candidate current \<longleftrightarrow>
     strip (\<lambda>c. c = CHR 0x22) candidate =
       strip (\<lambda>c. c = CHR 0x22) (lstrip_chars {CHR ''W'', CHR ''/''} (strip py_space current))"

fun list_passes :: "condition list \<Rightarrow> string set \<Rightarrow> string option \<Rightarrow> bool" where
  "list_passes [] held etag = True"
| "list_passes ((negated, tok, entity) # conds) held etag =
     (let matched = (case tok of
          Some x \<Rightarrow> x \<in> held
        | None \<Rightarrow> (case (entity, etag) of (Some a, Some b) \<Rightarrow> etag_eq a b | _ \<Rightarrow> False))
      in if matched = negated then False else list_passes conds held etag)"

text \<open>\<open>state_for\<close>, whose \<open>None\<close> key is the request's own resource.\<close>

definition evaluate :: "if_header \<Rightarrow> (string option \<rightharpoonup> string set \<times> string option) \<Rightarrow> bool" where
  "evaluate h state_for \<longleftrightarrow> h = []
     \<or> list_ex (\<lambda>(tag, conds).
          let (held, etag) = (case state_for tag of Some x \<Rightarrow> x
              | None \<Rightarrow> (case state_for None of Some x \<Rightarrow> x | None \<Rightarrow> ({}, None)))
          in list_passes conds held etag) h"

section \<open>Rendering a header\<close>

fun render_cond :: "condition \<Rightarrow> string" where
  "render_cond (negated, tok, entity) = (if negated then ''Not '' else []) @
     (case tok of Some x \<Rightarrow> CHR ''<'' # x @ ''>''
      | None \<Rightarrow> (case entity of Some x \<Rightarrow> CHR ''['' # CHR 0x22 # x @ [CHR 0x22, CHR '']''] | None \<Rightarrow> []))"

definition render_list :: "condition list \<Rightarrow> string" where
  "render_list conds = CHR ''('' # concat (map render_cond conds) @ '')''"

fun render :: "if_header \<Rightarrow> string" where
  "render [] = []"
| "render ((tag, conds) # h) =
     (case tag of None \<Rightarrow> [] | Some x \<Rightarrow> CHR ''<'' # x @ ''>'') @ render_list conds @ render h"

text \<open>Delimiters do not occur inside what they delimit, and an untagged list follows no tagged one.\<close>

fun cond_ok :: "condition \<Rightarrow> bool" where
  "cond_ok (negated, Some tok, entity) \<longleftrightarrow> entity = None \<and> tok \<noteq> [] \<and> CHR ''>'' \<notin> set tok \<and> CHR '')'' \<notin> set tok"
| "cond_ok (negated, None, Some tag) \<longleftrightarrow> CHR 0x22 \<notin> set tag \<and> CHR '')'' \<notin> set tag"
| "cond_ok (negated, None, None) \<longleftrightarrow> False"

fun header_ok :: "if_header \<Rightarrow> bool" where
  "header_ok [] \<longleftrightarrow> True"
| "header_ok ((tag, conds) # h) \<longleftrightarrow>
     (\<forall>c \<in> set conds. cond_ok c) \<and> header_ok h
     \<and> (case tag of None \<Rightarrow> True | Some x \<Rightarrow> CHR ''>'' \<notin> set x \<and> (\<forall>(t, _) \<in> set h. t \<noteq> None))"

lemma until_text:
  "c \<notin> set x \<Longrightarrow> takeWhile (\<lambda>y. y \<noteq> c) (x @ c # r) = x \<and> dropWhile (\<lambda>y. y \<noteq> c) (x @ c # r) = c # r"
  by (induction x) auto

lemma delimited_text: "cls \<notin> set x \<Longrightarrow> delimited opn cls (opn # x @ cls # r) = Some (x, r)"
  by (simp add: delimited_def until_text)

lemma char_facts:
  "lower (CHR ''N'') = CHR ''n''" "lower (CHR ''o'') = CHR ''o''" "lower (CHR ''t'') = CHR ''t''"
  "lower (CHR ''<'') = CHR ''<''" "lower (CHR ''['') = CHR ''[''" "lower (CHR 0x22) = CHR 0x22"
  "\<not> py_space (CHR 0x22)" "\<not> py_space (CHR '']'')" "\<not> py_space (CHR ''<'')" "\<not> py_space (CHR ''['')"
  "\<not> py_space (CHR ''('')" "\<not> py_space (CHR '')'')" "py_space (CHR '' '')"
  by code_simp+

lemma match_state_render:
  assumes "cond_ok (neg, tok, entity)"
  shows "match_state (render_cond (False, tok, entity) @ r) = Some ((tok, entity), r)"
proof (cases tok)
  case (Some x)
  with assms delimited_text [of "CHR ''>''" x "CHR ''<''" r] show ?thesis by (simp add: match_state_def)
next
  case None
  with assms obtain x where x: "entity = Some x" "CHR 0x22 \<notin> set x" by (cases entity) auto
  have "map lower (take 2 (CHR 0x22 # y)) \<noteq> ''w/''" for y
    by (simp add: char_facts take_Cons')
  with None x delimited_text [of "CHR 0x22" x "CHR 0x22" "CHR '']'' # r"] show ?thesis
    by (simp add: match_state_def match_entity_def delimited_def [of "CHR ''<''"] Let_def char_facts)
qed

lemma match_cond_render:
  assumes "cond_ok c"
  shows "match_cond (render_cond c @ r) = Some (c, r)"
proof -
  obtain neg tok entity where c: "c = (neg, tok, entity)" by (cases c) auto
  note st = match_state_render [OF assms [unfolded c], of r]
  obtain d q where d: "render_cond (False, tok, entity) @ r = d # q" "d = CHR ''<'' \<or> d = CHR ''[''"
    using assms c by (cases tok; cases entity) auto
  show ?thesis
  proof (cases neg)
    case True
    have "\<not> py_space d" using d(2) by (auto simp: char_facts)
    with True d have "match_not (render_cond c @ r) = Some (render_cond (False, tok, entity) @ r)"
      by (auto simp: match_not_def c char_facts)
    with st True c show ?thesis by (simp add: match_cond_def)
  next
    case False
    have "map lower (take 3 (d # q)) \<noteq> ''not''" using d(2) by (auto simp: take_Cons' char_facts)
    with False d c have "match_not (render_cond c @ r) = None"
      by (auto simp: match_not_def split: list.splits)
    with st False c show ?thesis by (simp add: match_cond_def)
  qed
qed

lemma parse_list_render: "\<forall>c \<in> set conds. cond_ok c \<Longrightarrow> parse_list (concat (map render_cond conds)) = conds"
proof (induction conds)
  case (Cons c conds)
  then have "render_cond c \<noteq> []" by (cases c rule: cond_ok.cases) auto
  with Cons match_cond_render [of c "concat (map render_cond conds)"] show ?case
    by (subst parse_list.simps) simp
qed (subst parse_list.simps, simp)

lemma match_list_render:
  assumes "\<forall>c \<in> set conds. cond_ok c"
  shows "match_list (render_list conds @ r) = Some (concat (map render_cond conds), r)"
proof -
  have "CHR '')'' \<notin> set (render_cond c)" if "cond_ok c" for c
    using that by (cases c rule: cond_ok.cases) auto
  with assms delimited_text [of "CHR '')''" "concat (map render_cond conds)" "CHR ''(''" r]
  show ?thesis by (auto simp: match_list_def render_list_def)
qed

lemma parse_list_step:
  assumes "\<forall>c \<in> set conds. cond_ok c"
  shows "parse_text cur (render_list conds @ r) = (cur, conds) # parse_text cur r"
proof -
  have "match_tag (render_list conds @ r) = None" "render_list conds @ r \<noteq> []"
    by (simp_all add: render_list_def match_tag_def delimited_def)
  with match_list_render [OF assms, of r] parse_list_render [OF assms] show ?thesis
    by (subst parse_text.simps) simp
qed

lemma parse_text_render:
  assumes "header_ok h" and "cur = None \<or> (\<forall>(t, c) \<in> set h. t \<noteq> None)"
  shows "parse_text cur (render h) = h"
  using assms
proof (induction h arbitrary: cur rule: header_ok.induct)
  case 1
  then show ?case by (subst parse_text.simps) simp
next
  case (2 tag conds h)
  show ?case
  proof (cases tag)
    case None
    with 2 show ?thesis using parse_list_step [of conds cur "render h"] by auto
  next
    case (Some x)
    from 2(2) Some have "match_tag (render ((tag, conds) # h)) = Some (x, render_list conds @ render h)"
      using delimited_text [of "CHR ''>''" x "CHR ''<''" "render_list conds @ render h"]
      by (simp add: match_tag_def render_list_def char_facts)
    then have "parse_text cur (render ((tag, conds) # h)) = parse_text (Some x) (render_list conds @ render h)"
      by (subst parse_text.simps) (simp add: Some)
    with 2 Some show ?thesis using parse_list_step [of conds "Some x" "render h"] by auto
  qed
qed

lemma strip_id:
  assumes "s \<noteq> []" and "\<not> P (hd s)" and "\<not> P (last s)"
  shows "strip P s = s"
proof -
  have "dropWhile P s = s" "dropWhile P (rev s) = rev s"
    using assms by (simp_all add: dropWhile_eq_self_iff hd_rev)
  then show ?thesis by (simp add: strip_def)
qed

lemma render_ends: "h \<noteq> [] \<Longrightarrow> render h \<noteq> [] \<and> hd (render h) \<in> {CHR ''('', CHR ''<''} \<and> last (render h) = CHR '')''"
proof (induction h rule: render.induct)
  case (2 tag conds h)
  then show ?case by (cases "h = []") (auto simp: render_list_def last_append split: option.splits)
qed simp

lemma parse_if_render:
  assumes "header_ok h"
  shows "parse_if (render h) = h"
proof -
  have "strip py_space (render h) = render h"
  proof (cases "h = []")
    case False
    with render_ends [OF this] show ?thesis by (intro strip_id) (auto simp: char_facts)
  qed (simp add: strip_def)
  with parse_text_render [OF assms, of None] show ?thesis by (simp add: parse_if_def)
qed

lemma list_passes_iff:
  "list_passes conds held etag \<longleftrightarrow> (\<forall>(negated, tok, entity) \<in> set conds.
     (case tok of Some x \<Rightarrow> x \<in> held
      | None \<Rightarrow> (\<exists>a b. entity = Some a \<and> etag = Some b \<and> etag_eq a b)) \<noteq> negated)"
  by (induction conds held etag rule: list_passes.induct) (auto simp: Let_def split: option.splits)

section \<open>Properties\<close>

text \<open>C18
  Whatever DAV clients ask of the registry and however the clock moves, at most one lock of
  a volume governs a resource, so the lookup that authorises a write answers the governing
  live lock exactly when there is one, and every other client is told who holds it.
\<close>

theorem dav_lock_exclusive:
  assumes "registry_reachable (clock, reg)"
  shows "(fst (find_lock clock v path reg) = Some lk \<longleftrightarrow>
      lk \<in> set reg \<and> dl_volume lk = v \<and> covers lk path \<and> \<not> expired clock lk)
    \<and> (\<forall>a \<in> set reg. \<forall>b \<in> set reg. dl_volume a = dl_volume b \<longrightarrow> covers a path \<longrightarrow> covers b path \<longrightarrow> a = b)"
  using find_lock_governs [OF assms] governing_unique [OF reachable_disjoint [OF assms, simplified]] by blast

definition demo_registry :: registry where
  "demo_registry = snd (acquire 0 ''1'' ''v'' ''/a'' ''infinity'' [] None [])"

lemma demo_registry_reachable: "registry_reachable (0, demo_registry)"
  unfolding demo_registry_def by (rule registry_reachable.step [OF registry_reachable.empty registry_step.acquired])

theorem dav_lock_exclusive_witness:
  "\<exists>lk. fst (find_lock 0 ''v'' ''/a/b'' demo_registry) = Some lk \<and> dl_path lk = ''/a''"
proof -
  define lk where "lk = hd demo_registry"
  have "lk \<in> set demo_registry" "dl_volume lk = ''v''" "covers lk ''/a/b''" "\<not> expired 0 lk" "dl_path lk = ''/a''"
    unfolding lk_def by code_simp+
  with dav_lock_exclusive [OF demo_registry_reachable, of "''v''" "''/a/b''" lk] show ?thesis by blast
qed

text \<open>
  A request for a lock is refused exactly when a live lock of the volume governs the path or,
  for a lock of a whole tree, is held below it; a granted lock lasts between one second and
  the maximum.
\<close>

lemma dav_acquire_decides:
  "(case fst (acquire clock u v path depth owner timeout reg) of
      Inl holder \<Rightarrow> \<exists>lk \<in> set reg. \<not> expired clock lk \<and> dl_volume lk = v \<and> dl_path lk = holder
        \<and> (covers lk path \<or> depth = ''infinity'' \<and> is_descendant holder path)
    | Inr lk \<Rightarrow> (\<forall>other \<in> set reg. \<not> expired clock other \<and> dl_volume other = v \<longrightarrow>
          \<not> covers other path \<and> \<not> covers lk (dl_path other))
        \<and> lk \<in> set (snd (acquire clock u v path depth owner timeout reg))
        \<and> covers lk path \<and> 1 \<le> dl_timeout lk \<and> dl_timeout lk \<le> MAX_TIMEOUT
        \<and> dl_expires_at lk = clock + dl_timeout lk * second)"
proof (cases rule: acquire_cases [of clock u v path depth owner timeout reg])
  case (refused lk)
  then show ?thesis by auto
next
  case (granted lk)
  have "lk \<in> set (put_lock lk r)" for r by (auto simp: put_lock_def)
  with granted show ?thesis by (auto simp: covers_def)
qed

lemma dav_acquire_decides_witness:
  "\<exists>holder. fst (acquire 0 ''2'' ''v'' ''/a/b'' ''0'' [] None demo_registry) = Inl holder
     \<and> (\<exists>lk \<in> set demo_registry. dl_path lk = holder)"
proof -
  have "isl (fst (acquire 0 ''2'' ''v'' ''/a/b'' ''0'' [] None demo_registry))" by code_simp
  with dav_acquire_decides [where reg = demo_registry and clock = 0 and u = "''2''" and v = "''v''" and path = "''/a/b''"
      and depth = "''0''" and owner = "[]" and timeout = None] show ?thesis
    by (auto simp: isl_def)
qed

text \<open>
  The cap on a granted timeout does not hold of a refreshed one: a refresh takes the client's
  value as it is, so a lock of the registry can outlive the maximum by any amount.
\<close>

lemma dav_refresh_uncapped:
  "\<exists>clock reg. registry_reachable (clock, reg) \<and> (\<exists>lk \<in> set reg. MAX_TIMEOUT * 1000 < dl_timeout lk)"
proof -
  have "registry_reachable (0, refresh_token 0 (Some 4000000) (dl_token (hd demo_registry)) demo_registry)"
    by (rule registry_reachable.step [OF demo_registry_reachable registry_step.refreshed])
  moreover have "MAX_TIMEOUT * 1000 < dl_timeout (hd (refresh_token 0 (Some 4000000) (dl_token (hd demo_registry)) demo_registry))"
    "refresh_token 0 (Some 4000000) (dl_token (hd demo_registry)) demo_registry \<noteq> []"
    by code_simp+
  ultimately show ?thesis using hd_in_set by blast
qed



text \<open>
  A header passes when it has no list or some list has all its conditions met, each matched
  against the tokens held on the resource the list is tagged with, or its entity tag, and
  inverted by \<open>Not\<close>.
\<close>

lemma if_header_evaluates:
  "evaluate h state_for \<longleftrightarrow> h = [] \<or> (\<exists>(tag, conds) \<in> set h.
     \<forall>(negated, tok, entity) \<in> set conds.
       (case (case state_for tag of Some x \<Rightarrow> x
           | None \<Rightarrow> (case state_for None of Some x \<Rightarrow> x | None \<Rightarrow> ({}, None))) of
         (held, etag) \<Rightarrow> (case tok of Some x \<Rightarrow> x \<in> held
            | None \<Rightarrow> (\<exists>a b. entity = Some a \<and> etag = Some b \<and> etag_eq a b))) \<noteq> negated)"
  unfolding evaluate_def list_ex_iff list_passes_iff by (simp add: Let_def case_prod_unfold)

lemma if_header_evaluates_witness:
  "evaluate [(None, [(False, Some ''t'', None)])] [None \<mapsto> ({''t''}, None)]"
  using if_header_evaluates [of "[(None, [(False, Some ''t'', None)])]" "[None \<mapsto> ({''t''}, None)]"] by simp

end
