(* ===== verification/Urls.thy ===== *)
theory Urls
  imports DavLock Session
begin

text \<open>
  The pure helpers of the WebDAV frontend (\<open>manager/dav.py\<close>): percent-encoding, URL paths,
  the keys of dead properties, numbers and days, entity tags, byte ranges and timeouts. A Python string is the
  list of its UTF-8 bytes here; \<open>quote\<close> and \<open>unquote\<close> are \<open>urllib.parse\<close>'s on such a list
  (a byte sequence that is not UTF-8 is left as it is instead of replaced). Digits are ASCII.
\<close>

section \<open>Percent-encoding\<close>

definition unreserved :: "char \<Rightarrow> bool" where
  "unreserved c \<longleftrightarrow> CHR ''A'' \<le> c \<and> c \<le> CHR ''Z'' \<or> CHR ''a'' \<le> c \<and> c \<le> CHR ''z''
     \<or> CHR ''0'' \<le> c \<and> c \<le> CHR ''9'' \<or> c \<in> set ''_.-~''"

definition hex_upper :: "nat \<Rightarrow> char" where
  "hex_upper d = ''0123456789ABCDEF'' ! d"

definition hex_value :: "char \<Rightarrow> nat option" where
  "hex_value c =
     (let n = of_char c in
      if 48 \<le> n \<and> n \<le> 57 then Some (n - 48)
      else if 65 \<le> n \<and> n \<le> 70 then Some (n - 55)
      else if 97 \<le> n \<and> n \<le> 102 then Some (n - 87) else None)"

definition quote_char :: "string \<Rightarrow> char \<Rightarrow> string" where
  "quote_char safe c =
     (if unreserved c \<or> c \<in> set safe then [c]
      else [CHR ''%'', hex_upper (of_char c div 16), hex_upper (of_char c mod 16)])"

definition quote :: "string \<Rightarrow> string \<Rightarrow> string" where
  "quote safe s = concat (map (quote_char safe) s)"

fun unquote :: "string \<Rightarrow> string" where
  "unquote [] = []"
| "unquote (c # s) =
     (if c = CHR ''%'' then
        (case s of
           a # b # r \<Rightarrow> (case (hex_value a, hex_value b) of
               (Some x, Some y) \<Rightarrow> char_of (16 * x + y) # unquote r
             | _ \<Rightarrow> c # unquote s)
         | _ \<Rightarrow> c # unquote s)
      else c # unquote s)"

lemma hex_value_upper: "d < 16 \<Longrightarrow> hex_value (hex_upper d) = Some d"
proof -
  have "\<forall>d < 16. hex_value (hex_upper d) = Some d"
    by (simp add: All_less_Suc eval_nat_numeral hex_upper_def hex_value_def Let_def)
  then show "d < 16 \<Longrightarrow> ?thesis" by blast
qed

lemma nibbles: "of_char (c :: char) div 16 < (16 :: nat)" "of_char c mod 16 < (16 :: nat)"
  by (rule less_mult_imp_div_less) simp_all

lemma unquote_quote_char:
  assumes "CHR ''%'' \<notin> set safe"
  shows "unquote (quote_char safe c @ s) = c # unquote s"
proof (cases "unreserved c \<or> c \<in> set safe")
  case True
  moreover have "\<not> unreserved CHR ''%''" by (simp add: unreserved_def less_eq_char_def)
  ultimately show ?thesis using assms by (auto simp: quote_char_def)
next
  case False
  with False show ?thesis by (simp add: quote_char_def hex_value_upper nibbles)
qed

lemma unquote_quote: "CHR ''%'' \<notin> set safe \<Longrightarrow> unquote (quote safe s) = s"
  by (induction s) (simp_all add: quote_def unquote_quote_char)

lemma hex_upper_unreserved: "d < 16 \<Longrightarrow> unreserved (hex_upper d)"
proof -
  have "\<forall>d < 16. unreserved (hex_upper d)"
    by (simp add: All_less_Suc eval_nat_numeral hex_upper_def unreserved_def less_eq_char_def)
  then show "d < 16 \<Longrightarrow> ?thesis" by blast
qed

lemma quote_chars:
  assumes "c \<in> set (quote safe s)"
  shows "unreserved c \<or> c \<in> set safe \<or> c = CHR ''%''"
  using assms by (auto simp: quote_def quote_char_def hex_upper_unreserved nibbles split: if_splits)

section \<open>Paths and links\<close>

text \<open>The loop of \<open>_norm_path\<close>.\<close>

fun norm_segs :: "string list \<Rightarrow> string list \<Rightarrow> string list" where
  "norm_segs segs [] = segs"
| "norm_segs segs (seg # rest) =
     (if seg = [] \<or> seg = ''.'' then norm_segs segs rest
      else if seg = ''..'' then norm_segs (butlast segs) rest
      else norm_segs (segs @ [seg]) rest)"

definition norm_path :: "bool \<Rightarrow> string \<Rightarrow> string" where
  "norm_path decode raw =
     CHR ''/'' # join_path (norm_segs [] (split_on CHR ''/'' (if decode then unquote raw else raw)))"

definition href :: "string \<Rightarrow> string \<Rightarrow> string \<Rightarrow> bool \<Rightarrow> string" where
  "href pfx vid path is_dir =
     (let body = join_path (map (quote []) (split_path path));
          h = pfx @ ''/'' @ quote [] vid;
          h' = (if body \<noteq> [] then h @ ''/'' @ body else h)
      in if is_dir \<and> \<not> suffix ''/'' h' then h' @ ''/'' else h')"

text \<open>\<open>s.partition(c)\<close> without the separator.\<close>

definition partition_at :: "char \<Rightarrow> string \<Rightarrow> string \<times> string" where
  "partition_at c s = (takeWhile (\<lambda>x. x \<noteq> c) s, drop 1 (dropWhile (\<lambda>x. x \<noteq> c) s))"

definition local_name :: "string \<Rightarrow> string \<times> string" where
  "local_name tag = (case tag of c # r \<Rightarrow> if c = CHR ''{'' then partition_at CHR ''}'' r else ([], tag) | [] \<Rightarrow> ([], tag))"

definition DEAD_PREFIX :: string where
  "DEAD_PREFIX = ''dav:''"

definition dead_key :: "string \<Rightarrow> string \<Rightarrow> string" where
  "dead_key ns local = DEAD_PREFIX @ quote [] ns @ '':'' @ local"

definition dead_split :: "string \<Rightarrow> string \<times> string" where
  "dead_split key = (let (encoded, local) = partition_at CHR '':'' (drop (length DEAD_PREFIX) key)
     in (unquote encoded, local))"

section \<open>Numbers\<close>

definition digit :: "char \<Rightarrow> bool" where
  "digit c \<longleftrightarrow> CHR ''0'' \<le> c \<and> c \<le> CHR ''9''"

definition digit_value :: "char \<Rightarrow> nat" where
  "digit_value c = of_char c - 48"

definition digit_char :: "nat \<Rightarrow> char" where
  "digit_char d = ''0123456789'' ! d"

definition parse_nat :: "string \<Rightarrow> nat" where
  "parse_nat s = foldl (\<lambda>a c. 10 * a + digit_value c) 0 s"

fun show_nat :: "nat \<Rightarrow> string" where
  "show_nat n = (if n < 10 then [digit_char n] else show_nat (n div 10) @ [digit_char (n mod 10)])"

declare show_nat.simps [simp del]

definition show_int :: "int \<Rightarrow> string" where
  "show_int i = (if i < 0 then CHR ''-'' # show_nat (nat (- i)) else show_nat (nat i))"

text \<open>\<open>int(s)\<close>: surrounding space, a sign, digits with single underscores between them.\<close>

definition parse_int :: "string \<Rightarrow> int option" where
  "parse_int s =
     (let t = strip py_space s;
          (neg, body) = (case t of c # r \<Rightarrow> if c = CHR ''-'' then (True, r) else if c = CHR ''+'' then (False, r) else (False, t)
             | [] \<Rightarrow> (False, t));
          groups = split_on CHR ''_'' body
      in if list_all (\<lambda>g. g \<noteq> [] \<and> list_all digit g) groups
         then Some (if neg then - int (parse_nat (concat groups)) else int (parse_nat (concat groups)))
         else None)"

text \<open>\<open>s.encode()\<close>\<close>

definition text_bytes :: "string \<Rightarrow> bytes" where
  "text_bytes s = map (\<lambda>c. word_of_nat (of_char c)) s"

text \<open>Year, month and day of a day counted from 1970-01-01, in the years that \<open>datetime\<close> covers.\<close>

definition civil :: "int \<Rightarrow> int \<times> int \<times> int" where
  "civil days =
     (let z = days + 719468;
          era = z div 146097;
          doe = z mod 146097;
          yoe = (doe - doe div 1460 + doe div 36524 - doe div 146096) div 365;
          doy = doe - (365 * yoe + yoe div 4 - yoe div 100);
          mp = (5 * doy + 2) div 153;
          m = (if mp < 10 then mp + 3 else mp - 9)
      in (yoe + era * 400 + (if m \<le> 2 then 1 else 0), m, doy - (153 * mp + 2) div 5 + 1))"

definition padded :: "nat \<Rightarrow> int \<Rightarrow> string" where
  "padded k i = (let t = show_nat (nat i) in replicate (k - length t) CHR ''0'' @ t)"

definition days_from_civil :: "int \<Rightarrow> int \<Rightarrow> int \<Rightarrow> int" where
  "days_from_civil y m d =
     (let y' = (if m \<le> 2 then y - 1 else y);
          yoe = y' mod 400;
          doy = (153 * ((m + 9) mod 12) + 2) div 5 + d - 1
      in y' div 400 * 146097 + (yoe * 365 + yoe div 4 - yoe div 100 + doy) - 719468)"

lemma digit_char [simp]: "d < 10 \<Longrightarrow> digit (digit_char d)" "d < 10 \<Longrightarrow> digit_value (digit_char d) = d"
proof -
  have "\<forall>d < 10. digit (digit_char d) \<and> digit_value (digit_char d) = d"
    by (simp add: All_less_Suc eval_nat_numeral digit_char_def digit_def digit_value_def less_eq_char_def)
  then show "d < 10 \<Longrightarrow> digit (digit_char d)" "d < 10 \<Longrightarrow> digit_value (digit_char d) = d" by simp_all
qed

lemma show_nat_digits: "list_all digit (show_nat n)"
proof (induction n rule: show_nat.induct)
  case (1 n)
  then show ?case by (subst show_nat.simps) simp
qed

lemma parse_show_nat: "parse_nat (show_nat n) = n"
proof (induction n rule: show_nat.induct)
  case (1 n)
  then show ?case by (subst show_nat.simps) (simp add: parse_nat_def)
qed

lemma show_nat_inj: "show_nat a = show_nat b \<Longrightarrow> a = b"
  by (metis parse_show_nat)

section \<open>Entity tags\<close>

definition etag :: "node_info \<Rightarrow> string" where
  "etag info =
     (case ni_version info of
        None \<Rightarrow> [CHR ''W'', CHR ''/'', CHR 0x22] @ ni_id info @ ''-'' @ show_int (ni_modified_at info) @ [CHR 0x22]
      | Some v \<Rightarrow> [CHR 0x22] @ ni_id info @ ''-'' @ show_nat v @ [CHR 0x22])"

text \<open>A match of \<open>_ETAG_RE\<close> at the front: weak or not, the opaque part, the rest.\<close>

definition match_etag :: "string \<Rightarrow> ((bool \<times> string) \<times> string) option" where
  "match_etag s =
     (case (if take 2 s = ''W/'' then delimited CHR 0x22 CHR 0x22 (drop 2 s) else None) of
        Some (opaque, r) \<Rightarrow> Some ((True, opaque), r)
      | None \<Rightarrow> map_option (\<lambda>(opaque, r). ((False, opaque), r)) (delimited CHR 0x22 CHR 0x22 s))"

lemma match_etag_shorter: "match_etag s = Some (x, r) \<Longrightarrow> length r < length s"
  by (fastforce simp: match_etag_def split: option.splits if_splits dest: delimited_shorter)

function find_etags :: "string \<Rightarrow> (bool \<times> string) list" where
  "find_etags s =
     (if s = [] then []
      else (case match_etag s of Some (x, r) \<Rightarrow> x # find_etags r | None \<Rightarrow> find_etags (tl s)))"
  by pat_completeness auto
termination
  by (relation "measure length") (auto dest: match_etag_shorter)

declare find_etags.simps [simp del]

text \<open>\<open>None\<close> is the answer \<open>'*'\<close>.\<close>

definition parse_etag_list :: "string \<Rightarrow> (bool \<times> string) list option" where
  "parse_etag_list raw = (if strip py_space raw = ''*'' then None else Some (find_etags raw))"

definition etag_matches :: "(bool \<times> string) list \<Rightarrow> string option \<Rightarrow> bool \<Rightarrow> bool" where
  "etag_matches candidates current strong =
     (case current of None \<Rightarrow> False
      | Some c \<Rightarrow> (case match_etag (strip py_space c) of
            Some ((cur_weak, cur_opaque), []) \<Rightarrow>
              list_ex (\<lambda>(weak, opaque). opaque = cur_opaque \<and> \<not> (strong \<and> (weak \<or> cur_weak))) candidates
          | _ \<Rightarrow> False))"

text \<open>\<open>_check_preconditions\<close>: \<open>Inl\<close> is the 412 fault, \<open>Inr True\<close> asks for a 304.\<close>

definition check_preconditions ::
  "(string \<rightharpoonup> string) \<Rightarrow> string option \<Rightarrow> bool \<Rightarrow> bool \<Rightarrow> nat + bool" where
  "check_preconditions headers current ex is_read =
     (if (case headers ''If-Match'' of None \<Rightarrow> False
          | Some raw \<Rightarrow> \<not> (case parse_etag_list raw of None \<Rightarrow> ex | Some tags \<Rightarrow> etag_matches tags current True))
      then Inl 412
      else (case headers ''If-None-Match'' of None \<Rightarrow> Inr False
          | Some raw \<Rightarrow>
              if (case parse_etag_list raw of None \<Rightarrow> ex | Some tags \<Rightarrow> etag_matches tags current False)
              then (if is_read then Inr True else Inl 412)
              else Inr False))"

section \<open>Ranges, depths and timeouts\<close>

definition header_or :: "(string \<rightharpoonup> string) \<Rightarrow> string \<Rightarrow> string \<Rightarrow> string" where
  "header_or headers k d = (case headers k of None \<Rightarrow> d | Some v \<Rightarrow> if v = [] then d else v)"

definition depth_of :: "(string \<rightharpoonup> string) \<Rightarrow> string" where
  "depth_of headers = (let d = map lower (strip py_space (header_or headers ''Depth'' ''infinity''))
     in if d \<in> set [''0'', ''1'', ''infinity''] then d else ''infinity'')"

definition upper :: "char \<Rightarrow> char" where
  "upper c = (if CHR ''a'' \<le> c \<and> c \<le> CHR ''z'' then char_of (of_char c - (32 :: nat)) else c)"

definition overwrite :: "(string \<rightharpoonup> string) \<Rightarrow> bool" where
  "overwrite headers \<longleftrightarrow> map upper (strip py_space (header_or headers ''Overwrite'' ''T'')) \<noteq> ''F''"

text \<open>A full match of \<open>bytes=(\d*)-(\d*)\<close>.\<close>

definition match_range :: "string \<Rightarrow> (string \<times> string) option" where
  "match_range s =
     (if take 6 s \<noteq> ''bytes='' then None
      else let r = drop 6 s; first = takeWhile digit r in
        (case dropWhile digit r of
           c # r' \<Rightarrow> if c = CHR ''-'' \<and> list_all digit r' then Some (first, r') else None
         | [] \<Rightarrow> None))"

text \<open>\<open>Inl\<close> is the 416 fault, \<open>Inr None\<close> the whole entity.\<close>

definition parse_range :: "(string \<rightharpoonup> string) \<Rightarrow> nat \<Rightarrow> nat + (nat \<times> nat) option" where
  "parse_range headers sz =
     (case match_range (strip py_space (header_or headers ''Range'' [])) of
        None \<Rightarrow> Inr None
      | Some (first, fin) \<Rightarrow>
          if first = [] \<and> fin = [] then Inr None
          else if first = [] \<and> parse_nat fin = 0 then Inl 416
          else
            let start = (if first = [] then sz - parse_nat fin else parse_nat first);
                stop = (if first = [] \<or> fin = [] then int sz - 1 else int (parse_nat fin))
            in if start \<ge> sz \<or> int start > stop then Inl 416
               else Inr (Some (start, min (nat stop) (sz - 1))))"

text \<open>The loop of \<open>_lock_timeout\<close> over the comma-separated parts.\<close>

fun timeout_parts :: "string list \<Rightarrow> int option" where
  "timeout_parts [] = None"
| "timeout_parts (p # ps) =
     (let part = map lower (strip py_space p) in
      if prefix ''second-'' part \<and> parse_int (drop 7 part) \<noteq> None then parse_int (drop 7 part)
      else if \<not> prefix ''second-'' part \<and> part = ''infinite'' then Some MAX_TIMEOUT
      else timeout_parts ps)"

definition lock_timeout :: "(string \<rightharpoonup> string) \<Rightarrow> int option" where
  "lock_timeout headers = timeout_parts (split_on CHR '','' (case headers ''Timeout'' of None \<Rightarrow> [] | Some v \<Rightarrow> v))"

section \<open>Links are read back\<close>

definition clean_segment :: "string \<Rightarrow> bool" where
  "clean_segment s \<longleftrightarrow> segment_ok s \<and> s \<noteq> ''.'' \<and> s \<noteq> ''..''"

lemma norm_segs_clean:
  "list_all (\<lambda>s. CHR ''/'' \<notin> set s) parts \<Longrightarrow> list_all clean_segment segs \<Longrightarrow> list_all clean_segment (norm_segs segs parts)"
proof (induction parts arbitrary: segs)
  case (Cons p parts)
  have "list_all clean_segment (butlast segs)" using Cons.prems(2) by (auto simp: list_all_iff dest: in_set_butlastD)
  moreover have "clean_segment p" if "p \<noteq> []" "p \<noteq> ''.''" "p \<noteq> ''..''"
    using that Cons.prems(1) by (simp add: clean_segment_def segment_ok_def)
  ultimately show ?case using Cons by simp
qed simp

lemma norm_segs_id: "list_all clean_segment parts \<Longrightarrow> norm_segs segs parts = segs @ parts"
  by (induction segs parts rule: norm_segs.induct) (auto simp: clean_segment_def segment_ok_def)

lemma norm_segs_blank: "norm_segs segs (parts @ [[]]) = norm_segs segs parts"
  by (induction segs parts rule: norm_segs.induct) auto

lemma until_char:
  "c \<notin> set s \<Longrightarrow> takeWhile (\<lambda>x. x \<noteq> c) (s @ c # r) = s"
  "c \<notin> set s \<Longrightarrow> dropWhile (\<lambda>x. x \<noteq> c) (s @ c # r) = c # r"
  by (induction s) auto

lemma unquote_quoted: "unquote (quote [] s @ r) = s @ unquote r"
  by (induction s) (simp_all add: quote_def unquote_quote_char)

lemma unquote_joined:
  "unquote (join_path (map (quote []) segs) @ r) = join_path segs @ unquote r"
proof (induction segs)
  case (Cons s segs)
  have "unquote (CHR ''/'' # x) = CHR ''/'' # unquote x" for x by simp
  with Cons show ?case
    by (cases segs) (simp_all add: join_path_def unquote_quoted)
qed (simp add: join_path_def)

lemma norm_path_joined:
  assumes "list_all clean_segment segs"
  shows "norm_path False (CHR ''/'' # join_path segs) = CHR ''/'' # join_path segs"
    and "norm_path False (CHR ''/'' # join_path segs @ ''/'') = CHR ''/'' # join_path segs"
proof -
  have sp: "split_on CHR ''/'' (join_path segs) = (if segs = [] then [[]] else segs)"
    using assms by (auto simp: join_path_def list_all_iff clean_segment_def segment_ok_def intro: split_on_join)
  then show "norm_path False (CHR ''/'' # join_path segs) = CHR ''/'' # join_path segs"
    using norm_segs_id [OF assms, of "[]"] by (auto simp: norm_path_def join_path_def)
  show "norm_path False (CHR ''/'' # join_path segs @ ''/'') = CHR ''/'' # join_path segs"
    using norm_segs_id [OF assms, of "[]"] norm_segs_blank [of "[]" segs] sp
    by (auto simp: norm_path_def split_on_append join_path_def)
qed

lemma norm_path_decoded: "norm_path True raw = norm_path False (unquote raw)"
  by (simp add: norm_path_def)

text \<open>C30
  Paths of URLs: whatever the client sends, \<open>_norm_path\<close> gives an absolute path without
  empty segments, \<open>.\<close> or \<open>..\<close>, and for every such path the link that the server writes for
  it, taken back as a Destination of the same volume, is the path itself.
\<close>

theorem url_path_roundtrip:
  "(\<exists>segs. list_all clean_segment segs \<and> norm_path decode raw = CHR ''/'' # join_path segs)
   \<and> (list_all clean_segment segs \<longrightarrow>
        norm_path True (drop (length (pfx @ ''/'' @ quote [] vid)) (href pfx vid (CHR ''/'' # join_path segs) is_dir))
          = CHR ''/'' # join_path segs)"
proof (intro conjI impI)
  have "list_all (\<lambda>s. CHR ''/'' \<notin> set s) (split_on CHR ''/'' x)" for x :: string
    by (auto simp: list_all_iff dest: split_on_no_sep)
  then show "\<exists>segs. list_all clean_segment segs \<and> norm_path decode raw = CHR ''/'' # join_path segs"
    by (auto simp: norm_path_def intro!: exI norm_segs_clean)
next
  assume clean: "list_all clean_segment segs"
  let ?base = "pfx @ ''/'' @ quote [] vid"
  have sp: "split_path (CHR ''/'' # join_path segs) = segs"
    using clean by (auto simp: list_all_iff clean_segment_def intro: split_join_path)
  have ne: "join_path (map (quote []) segs) = [] \<longleftrightarrow> segs = []"
  proof (cases segs)
    case (Cons s rest)
    with clean have "s \<noteq> []" by (simp add: clean_segment_def segment_ok_def)
    then have "quote [] s \<noteq> []" by (cases s) (auto simp: quote_def quote_char_def)
    with Cons show ?thesis by (cases rest) (auto simp: join_path_def)
  qed (simp add: join_path_def)
  let ?tail = "if segs = [] then [] else CHR ''/'' # join_path (map (quote []) segs)"
  have "href pfx vid (CHR ''/'' # join_path segs) is_dir \<in> {?base @ ?tail, ?base @ ?tail @ ''/''}"
    unfolding href_def Let_def sp using ne by auto
  then have "drop (length ?base) (href pfx vid (CHR ''/'' # join_path segs) is_dir) \<in> {?tail, ?tail @ ''/''}"
    by auto
  moreover have "norm_path True ?tail = CHR ''/'' # join_path segs"
    using norm_path_joined(1) [OF clean] unquote_joined [of segs "[]"]
    by (auto simp: norm_path_decoded) (simp add: norm_path_def join_path_def)
  moreover have "norm_path True (?tail @ ''/'') = CHR ''/'' # join_path segs"
    using norm_path_joined(2) [OF clean] unquote_joined [of segs "''/''"]
    by (auto simp: norm_path_decoded) (simp add: norm_path_def join_path_def)
  ultimately show "norm_path True (drop (length ?base) (href pfx vid (CHR ''/'' # join_path segs) is_dir))
      = CHR ''/'' # join_path segs" by auto
qed

theorem url_path_roundtrip_witness:
  "norm_path True (drop (length ''/dav/v%201'') (href ''/dav'' ''v 1'' ''/a b/c'' True)) = ''/a b/c''"
proof -
  have "quote [] ''v 1'' = ''v%201''"
    by (simp add: quote_def quote_char_def unreserved_def less_eq_char_def hex_upper_def)
  moreover have "list_all clean_segment [''a b'', ''c'']" by (simp add: clean_segment_def segment_ok_def)
  ultimately show ?thesis
    using url_path_roundtrip [where segs = "[''a b'', ''c'']" and pfx = "''/dav''" and vid = "''v 1''" and is_dir = True]
    by (simp add: join_path_def)
qed

text \<open>The key of a dead property names its namespace and local name, whatever they are.\<close>

lemma dead_key_roundtrip: "dead_split (dead_key ns local) = (ns, local)"
proof -
  have "CHR '':'' \<notin> set (quote [] ns)"
    using quote_chars [of "CHR '':''" "[]" ns] by (auto simp: unreserved_def less_eq_char_def)
  then have "takeWhile (\<lambda>x. x \<noteq> CHR '':'') (quote [] ns @ CHR '':'' # local) = quote [] ns"
    "dropWhile (\<lambda>x. x \<noteq> CHR '':'') (quote [] ns @ CHR '':'' # local) = CHR '':'' # local"
    by (simp_all add: until_char)
  then show ?thesis
    by (simp add: dead_split_def dead_key_def DEAD_PREFIX_def partition_at_def unquote_quote)
qed

section \<open>Entity tags compare versions\<close>

lemma last_dash:
  assumes "a @ CHR ''-'' # x = b @ CHR ''-'' # y" and "CHR ''-'' \<notin> set x" and "CHR ''-'' \<notin> set y"
  shows "a = b \<and> x = y"
proof -
  from assms(1) have "rev x @ CHR ''-'' # rev a = rev y @ CHR ''-'' # rev b"
    by (metis append.assoc append_Cons append_Nil rev.simps(2) rev_append)
  moreover have "takeWhile (\<lambda>c. c \<noteq> CHR ''-'') (rev z @ CHR ''-'' # w) = rev z"
    if "CHR ''-'' \<notin> set z" for z w
    using that by (simp add: until_char)
  ultimately have "rev x = rev y" using assms(2,3) by metis
  with assms(1) show ?thesis by auto
qed

lemma digits_no_dash: "CHR ''-'' \<notin> set (show_nat n)"
  using show_nat_digits [of n] by (auto simp: list_all_iff digit_def less_eq_char_def)

definition opaque_tag :: "node_info \<Rightarrow> string" where
  "opaque_tag i = ni_id i @ ''-'' @ show_nat (or_else (ni_version i) 0)"

lemma match_strong_etag:
  assumes "ni_version i \<noteq> None" and "CHR 0x22 \<notin> set (ni_id i)"
  shows "match_etag (etag i @ r) = Some ((False, opaque_tag i), r)"
proof -
  obtain v where v: "ni_version i = Some v" using assms(1) by auto
  have nd: "CHR 0x22 \<notin> set (opaque_tag i)"
    using assms(2) show_nat_digits [of v]
    by (auto simp: opaque_tag_def v or_else_def list_all_iff digit_def less_eq_char_def)
  have e: "etag i @ r = CHR 0x22 # opaque_tag i @ CHR 0x22 # r"
    by (simp add: etag_def v opaque_tag_def or_else_def)
  have "delimited CHR 0x22 CHR 0x22 (etag i @ r) = Some (opaque_tag i, r)"
    unfolding e delimited_def using nd by (simp add: until_char)
  moreover have "take 2 (etag i @ r) \<noteq> ''W/''" unfolding e by (simp add: numeral_2_eq_2)
  ultimately show ?thesis by (simp add: match_etag_def)
qed

lemma strong_etag_list:
  assumes "ni_version i \<noteq> None" and "CHR 0x22 \<notin> set (ni_id i)"
  shows "parse_etag_list (etag i) = Some [(False, opaque_tag i)]" and "strip py_space (etag i) = etag i"
proof -
  obtain v where v: "ni_version i = Some v" using assms(1) by auto
  have e: "etag i = CHR 0x22 # opaque_tag i @ [CHR 0x22]" by (simp add: etag_def v opaque_tag_def or_else_def)
  have q: "\<not> py_space CHR 0x22" by (simp add: py_space_def)
  show st: "strip py_space (etag i) = etag i" unfolding e strip_def using q by simp
  have "find_etags (etag i) = [(False, opaque_tag i)]"
    using match_strong_etag [OF assms, of "[]"] by (subst find_etags.simps) (simp add: e find_etags.simps [of "[]"])
  moreover have "etag i \<noteq> ''*''" unfolding e by simp
  ultimately show "parse_etag_list (etag i) = Some [(False, opaque_tag i)]"
    by (simp add: parse_etag_list_def st)
qed

lemma etag_compares:
  assumes "ni_version i \<noteq> None" and "ni_version j \<noteq> None"
    and "CHR 0x22 \<notin> set (ni_id i)" and "CHR 0x22 \<notin> set (ni_id j)"
  shows "etag_matches [(False, opaque_tag i)] (Some (etag j)) strong
     \<longleftrightarrow> ni_id i = ni_id j \<and> ni_version i = ni_version j"
proof -
  obtain v w where v: "ni_version i = Some v" "ni_version j = Some w" using assms(1,2) by auto
  have "ni_id i = ni_id j \<and> v = w" if "opaque_tag i = opaque_tag j"
  proof -
    from that have "ni_id i @ CHR ''-'' # show_nat v = ni_id j @ CHR ''-'' # show_nat w"
      by (simp add: opaque_tag_def v or_else_def)
    from last_dash [OF this digits_no_dash digits_no_dash] show_nat_inj show ?thesis by blast
  qed
  with v have "opaque_tag i = opaque_tag j \<longleftrightarrow> ni_id i = ni_id j \<and> ni_version i = ni_version j"
    by (metis opaque_tag_def option.inject)
  then show ?thesis
    using match_strong_etag [OF assms(2,4), of "[]"] strong_etag_list(2) [OF assms(2,4)]
    by (simp add: etag_matches_def)
qed

text \<open>
  Lost updates are refused exactly: with the entity tag a client read, If-Match lets a
  write through iff the entry still has that id and committed version, and If-None-Match
  answers a read with 304 iff it has.
\<close>

lemma preconditions_compare_versions:
  assumes "ni_version i \<noteq> None" and "ni_version j \<noteq> None"
    and "CHR 0x22 \<notin> set (ni_id i)" and "CHR 0x22 \<notin> set (ni_id j)"
  shows "check_preconditions [''If-Match'' \<mapsto> etag i] (Some (etag j)) True False =
       (if ni_id i = ni_id j \<and> ni_version i = ni_version j then Inr False else Inl 412)
     \<and> check_preconditions [''If-None-Match'' \<mapsto> etag i] (Some (etag j)) True True =
       Inr (ni_id i = ni_id j \<and> ni_version i = ni_version j)"
  unfolding check_preconditions_def by (simp add: strong_etag_list(1) [OF assms(1,3)] etag_compares [OF assms])

lemma preconditions_compare_versions_witness:
  "\<exists>i j. ni_id i = ''n'' \<and> ni_version i = Some 3 \<and> ni_version j = Some 4
     \<and> check_preconditions [''If-Match'' \<mapsto> etag i] (Some (etag j)) True False = Inl 412"
proof -
  obtain i :: node_info where i: "ni_id i = ''n''" "ni_version i = Some 3"
    using node_info.select_convs by (metis)
  obtain j :: node_info where j: "ni_id j = ''n''" "ni_version j = Some 4"
    using node_info.select_convs by (metis)
  show ?thesis using preconditions_compare_versions [of i j] i j by (intro exI [of _ i] exI [of _ j]) simp
qed

section \<open>Ranges stay inside the entity\<close>

lemma strip_ends: "xs = c # ys @ [d] \<Longrightarrow> \<not> P c \<Longrightarrow> \<not> P d \<Longrightarrow> strip P xs = xs"
  by (simp add: strip_def)

lemma match_range_shown:
  assumes "list_all digit a" and "list_all digit b"
  shows "match_range (''bytes='' @ a @ ''-'' @ b) = Some (a, b)"
proof -
  have "\<not> digit CHR ''-''" by (simp add: digit_def less_eq_char_def)
  with assms have "takeWhile digit (a @ CHR ''-'' # b) = a" "dropWhile digit (a @ CHR ''-'' # b) = CHR ''-'' # b"
    by (auto simp: list_all_iff takeWhile_append2 dropWhile_append2)
  with assms(2) show ?thesis by (simp add: match_range_def Let_def)
qed

lemma show_nat_ne [simp]: "show_nat n \<noteq> []"
  by (subst show_nat.simps) simp

lemma shown_not_space: "\<not> py_space (last (show_nat n))"
proof -
  have "digit (last (show_nat n))" using show_nat_digits [of n] by (simp add: list_all_iff)
  then have "48 \<le> (of_char (last (show_nat n)) :: nat)" "(of_char (last (show_nat n)) :: nat) \<le> 57"
    by (auto simp: digit_def less_eq_char_def)
  then show ?thesis by (auto simp: py_space_def)
qed

lemma strip_range: "strip py_space (''bytes='' @ x @ show_nat n) = ''bytes='' @ x @ show_nat n"
proof -
  have "\<not> py_space CHR ''b''" by (simp add: py_space_def)
  moreover have "''bytes='' @ x @ show_nat n = CHR ''b'' # (''ytes='' @ x @ butlast (show_nat n)) @ [last (show_nat n)]"
    by simp
  ultimately show ?thesis using strip_ends [of _ "CHR ''b''" _ "last (show_nat n)" py_space] shown_not_space by metis
qed

lemma parse_range_shown:
  assumes "a \<le> b" and "a < sz"
  shows "parse_range [''Range'' \<mapsto> ''bytes='' @ show_nat a @ ''-'' @ show_nat b] sz = Inr (Some (a, min b (sz - 1)))"
proof -
  have "match_range (strip py_space (''bytes='' @ show_nat a @ ''-'' @ show_nat b)) = Some (show_nat a, show_nat b)"
    using strip_range [of "show_nat a @ ''-''" b] match_range_shown [OF show_nat_digits show_nat_digits, of a b] by simp
  with assms show ?thesis by (simp add: parse_range_def header_or_def Let_def parse_show_nat)
qed

lemma parse_range_suffix:
  assumes "0 < n" and "0 < sz"
  shows "parse_range [''Range'' \<mapsto> ''bytes=-'' @ show_nat n] sz = Inr (Some (sz - n, sz - 1))"
proof -
  have "match_range (strip py_space (''bytes=-'' @ show_nat n)) = Some ([], show_nat n)"
    using strip_range [of "''-''" n] match_range_shown [of "[]" "show_nat n"] show_nat_digits [of n] by simp
  with assms show ?thesis by (auto simp: parse_range_def header_or_def Let_def parse_show_nat nat_diff_distrib)
qed

text \<open>
  A byte range that is served lies inside the entity; the range \<open>a-b\<close> is cut off at its end,
  and a suffix range is its last bytes.
\<close>

lemma parse_range_inside:
  "(parse_range headers sz = Inr (Some (a, b)) \<longrightarrow> a \<le> b \<and> b < sz)
   \<and> (a \<le> b \<and> a < sz \<longrightarrow> parse_range [''Range'' \<mapsto> ''bytes='' @ show_nat a @ ''-'' @ show_nat b] sz = Inr (Some (a, min b (sz - 1))))
   \<and> (0 < n \<and> 0 < sz \<longrightarrow> parse_range [''Range'' \<mapsto> ''bytes=-'' @ show_nat n] sz = Inr (Some (sz - n, sz - 1)))"
  using parse_range_shown parse_range_suffix by (auto simp: parse_range_def Let_def split: option.splits if_splits)

lemma parse_range_inside_witness:
  "parse_range [''Range'' \<mapsto> ''bytes='' @ show_nat 2 @ ''-'' @ show_nat 9] 5 = Inr (Some (2, 4))"
  using parse_range_inside [of "\<lambda>_. None" 5 2 9 1] by simp

end
