(* ===== verification/Store.thy ===== *)
theory Store
  imports Prelude "HOL-Library.AList"
begin

text \<open>
  The manager's metadata store (\<open>manager/engine/store.py\<close>) and its error classes
  (\<open>manager/errors.py\<close>). A dict is an association list in insertion order. Every mutation
  rewrites the JSON file by an atomic replace, so the file is always the state of the last
  finished mutation and the model keeps one state for both; \<open>migrate\<close> is the part of loading
  that computes.
\<close>

section \<open>Errors\<close>

datatype manager_error =
  ManagerError | AlreadyMounted | NotMounted | MountTimeout | MountFailed | BadPin
  | EncryptionMismatch | NotAuthorized | CsrfRejected | DanglingFs | FsInUse

section \<open>Records\<close>

record fs_record =
  fr_id :: string
  fr_display_name :: string
  fr_sqlite_path :: string
  fr_created_at :: int

record vol_record =
  vr_id :: string
  vr_name :: string
  vr_fs_id :: string
  vr_encrypted :: bool
  vr_created_at :: int
  vr_mounted :: bool
  vr_mountpoint :: "string option"
  vr_frontend :: "string option"
  vr_auto_mount :: bool
  vr_mount_name :: "string option"
  vr_pin_env :: "string option"
  vr_pin_file :: "string option"

record store =
  st_filesystems :: "(string \<times> fs_record) list"
  st_volumes :: "(string \<times> vol_record) list"
  st_pending :: "string list"

section \<open>Operations\<close>

definition get_vol :: "string \<Rightarrow> store \<Rightarrow> vol_record option" where
  "get_vol vid s = map_of (st_volumes s) vid"

definition put_vol :: "vol_record \<Rightarrow> store \<Rightarrow> store" where
  "put_vol r s = s\<lparr>st_volumes := AList.update (vr_id r) r (st_volumes s)\<rparr>"

definition delete_vol :: "string \<Rightarrow> store \<Rightarrow> store" where
  "delete_vol vid s = s\<lparr>st_volumes := AList.delete vid (st_volumes s)\<rparr>"

definition list_vols :: "store \<Rightarrow> vol_record list" where
  "list_vols s = map snd (st_volumes s)"

definition get_fs :: "string \<Rightarrow> store \<Rightarrow> fs_record option" where
  "get_fs fid s = map_of (st_filesystems s) fid"

definition put_fs :: "fs_record \<Rightarrow> store \<Rightarrow> store" where
  "put_fs r s = s\<lparr>st_filesystems := AList.update (fr_id r) r (st_filesystems s)\<rparr>"

definition volumes_of :: "string \<Rightarrow> store \<Rightarrow> vol_record list" where
  "volumes_of fid s = filter (\<lambda>v. vr_fs_id v = fid) (list_vols s)"

text \<open>\<open>FsInUse\<close> is the \<open>ValueError\<close>, \<open>DanglingFs\<close> the \<open>KeyError\<close> of the next two.\<close>

definition delete_fs :: "string \<Rightarrow> store \<Rightarrow> manager_error + store" where
  "delete_fs fid s =
     (if volumes_of fid s \<noteq> [] then Inl FsInUse
      else Inr (s\<lparr>st_filesystems := AList.delete fid (st_filesystems s)\<rparr>))"

definition list_fs :: "store \<Rightarrow> fs_record list" where
  "list_fs s = map snd (st_filesystems s)"

definition sqlite_path_of :: "vol_record \<Rightarrow> store \<Rightarrow> manager_error + string" where
  "sqlite_path_of r s =
     (case get_fs (vr_fs_id r) s of None \<Rightarrow> Inl DanglingFs | Some f \<Rightarrow> Inr (fr_sqlite_path f))"

definition add_pending_unmount :: "string \<Rightarrow> store \<Rightarrow> store" where
  "add_pending_unmount p s = (if p \<in> set (st_pending s) then s else s\<lparr>st_pending := st_pending s @ [p]\<rparr>)"

definition clear_pending_unmount :: "string \<Rightarrow> store \<Rightarrow> store" where
  "clear_pending_unmount p s = s\<lparr>st_pending := remove1 p (st_pending s)\<rparr>"

section \<open>Migration\<close>

text \<open>
  A volume of a version 1 file: its record, whose \<open>fs_id\<close> is not there yet, and its own path.
  The UUIDs of the new filesystems are the list \<open>ids\<close>, one drawn for each new path.
\<close>

fun migrate_from ::
  "(nat \<Rightarrow> string) \<Rightarrow> (string \<times> string) list \<Rightarrow> (string \<times> vol_record \<times> string) list \<Rightarrow> store \<Rightarrow> store" where
  "migrate_from ids by_path [] s = s"
| "migrate_from ids by_path ((vid, r, path) # rest) s =
     (case map_of by_path path of
        Some fid \<Rightarrow>
          migrate_from ids by_path rest (s\<lparr>st_volumes := AList.update vid (r\<lparr>vr_fs_id := fid\<rparr>) (st_volumes s)\<rparr>)
      | None \<Rightarrow>
          (let fid = ids (length by_path);
               fs = \<lparr>fr_id = fid, fr_display_name = (if vr_name r \<noteq> [] then vr_name r else fid),
                     fr_sqlite_path = path, fr_created_at = vr_created_at r\<rparr>
           in migrate_from ids ((path, fid) # by_path) rest
                (s\<lparr>st_filesystems := AList.update fid fs (st_filesystems s),
                   st_volumes := AList.update vid (r\<lparr>vr_fs_id := fid\<rparr>) (st_volumes s)\<rparr>)))"

definition migrate_v1 :: "(nat \<Rightarrow> string) \<Rightarrow> (string \<times> vol_record \<times> string) list \<Rightarrow> store \<Rightarrow> store" where
  "migrate_v1 ids raw s = migrate_from ids [] raw s"

section \<open>Migrated volumes keep their files\<close>

text \<open>What has been migrated so far: every path has its own filesystem with that path.\<close>

definition by_path_ok :: "(nat \<Rightarrow> string) \<Rightarrow> (string \<times> string) list \<Rightarrow> store \<Rightarrow> bool" where
  "by_path_ok ids bp s \<longleftrightarrow>
     (\<forall>path fid. map_of bp path = Some fid \<longrightarrow>
        fid \<in> ids ` {..<length bp} \<and> (\<exists>f. get_fs fid s = Some f \<and> fr_sqlite_path f = path))"

definition on_path :: "string \<Rightarrow> string \<Rightarrow> store \<Rightarrow> bool" where
  "on_path vid path s \<longleftrightarrow> (\<exists>r. get_vol vid s = Some r \<and> sqlite_path_of r s = Inr path)"

lemma migrate_step:
  assumes "inj ids" and "by_path_ok ids bp s" and "map_of bp path = None"
    and s': "s' = s\<lparr>st_filesystems := AList.update (ids (length bp)) fs (st_filesystems s), st_volumes := vs\<rparr>"
    and "fr_sqlite_path fs = path"
  shows "by_path_ok ids ((path, ids (length bp)) # bp) s'"
  unfolding by_path_ok_def
proof (intro allI impI)
  fix p fid
  assume a: "map_of ((path, ids (length bp)) # bp) p = Some fid"
  show "fid \<in> ids ` {..<length ((path, ids (length bp)) # bp)} \<and> (\<exists>f. get_fs fid s' = Some f \<and> fr_sqlite_path f = p)"
  proof (cases "p = path")
    case True
    with a assms(5) show ?thesis by (auto simp: s' get_fs_def update_conv')
  next
    case False
    with a assms(2) obtain f where f: "fid \<in> ids ` {..<length bp}" "get_fs fid s = Some f" "fr_sqlite_path f = p"
      by (auto simp: by_path_ok_def)
    then have "fid \<noteq> ids (length bp)" using assms(1) by (auto dest: injD)
    with f show ?thesis by (auto simp: s' get_fs_def update_conv')
  qed
qed

lemma migrate_keeps:
  assumes "inj ids" and "by_path_ok ids bp s" and "on_path vid path s" and "vid \<notin> fst ` set raw"
    and "\<forall>r. get_vol vid s = Some r \<longrightarrow> vr_fs_id r \<in> ids ` {..<length bp}"
  shows "on_path vid path (migrate_from ids bp raw s)"
  using assms(2-)
proof (induction raw arbitrary: bp s)
  case (Cons x raw)
  obtain w r p where x: "x = (w, r, p)" by (cases x) auto
  with Cons.prems(3) have w: "vid \<noteq> w" "vid \<notin> fst ` set raw" by auto
  show ?case
  proof (cases "map_of bp p")
    case (Some fid)
    let ?s = "s\<lparr>st_volumes := AList.update w (r\<lparr>vr_fs_id := fid\<rparr>) (st_volumes s)\<rparr>"
    have "by_path_ok ids bp ?s" using Cons.prems(1) by (simp add: by_path_ok_def get_fs_def)
    moreover have "on_path vid path ?s" "\<forall>r. get_vol vid ?s = Some r \<longrightarrow> vr_fs_id r \<in> ids ` {..<length bp}"
      using Cons.prems(2,4) w(1) by (auto simp: on_path_def get_vol_def update_conv' sqlite_path_of_def get_fs_def)
    ultimately show ?thesis using Cons.IH [of bp ?s] w(2) by (simp add: x Some)
  next
    case None
    let ?fid = "ids (length bp)"
    let ?fs = "\<lparr>fr_id = ?fid, fr_display_name = (if vr_name r \<noteq> [] then vr_name r else ?fid),
        fr_sqlite_path = p, fr_created_at = vr_created_at r\<rparr>"
    let ?s = "s\<lparr>st_filesystems := AList.update ?fid ?fs (st_filesystems s),
        st_volumes := AList.update w (r\<lparr>vr_fs_id := ?fid\<rparr>) (st_volumes s)\<rparr>"
    have "by_path_ok ids ((p, ?fid) # bp) ?s" by (rule migrate_step [OF assms(1) Cons.prems(1) None refl]) simp
    moreover have "on_path vid path ?s" "\<forall>r. get_vol vid ?s = Some r \<longrightarrow> vr_fs_id r \<in> ids ` {..<length ((p, ?fid) # bp)}"
    proof -
      from Cons.prems(2,4) obtain q f where q: "get_vol vid s = Some q" "get_fs (vr_fs_id q) s = Some f"
        "fr_sqlite_path f = path" "vr_fs_id q \<in> ids ` {..<length bp}"
        by (auto simp: on_path_def sqlite_path_of_def split: option.splits)
      then have "vr_fs_id q \<noteq> ?fid" using assms(1) by (auto dest: injD)
      with q w(1) show "on_path vid path ?s" "\<forall>r. get_vol vid ?s = Some r \<longrightarrow> vr_fs_id r \<in> ids ` {..<length ((p, ?fid) # bp)}"
        by (auto simp: on_path_def get_vol_def update_conv' sqlite_path_of_def get_fs_def)
    qed
    ultimately show ?thesis using Cons.IH [of "(p, ?fid) # bp" ?s] w(2) by (simp add: x None Let_def)
  qed
qed simp

lemma migrate_reaches:
  assumes "inj ids" and "by_path_ok ids bp s" and "distinct (map fst raw)" and "(vid, r, path) \<in> set raw"
  shows "on_path vid path (migrate_from ids bp raw s)"
  using assms(2-)
proof (induction raw arbitrary: bp s)
  case (Cons x raw)
  obtain w q p where x: "x = (w, q, p)" by (cases x) auto
  show ?case
  proof (cases "map_of bp p")
    case (Some fid)
    let ?s = "s\<lparr>st_volumes := AList.update w (q\<lparr>vr_fs_id := fid\<rparr>) (st_volumes s)\<rparr>"
    have bp: "by_path_ok ids bp ?s" using Cons.prems(1) by (simp add: by_path_ok_def get_fs_def)
    from Cons.prems(1) Some obtain f where f: "fid \<in> ids ` {..<length bp}" "get_fs fid s = Some f" "fr_sqlite_path f = p"
      by (auto simp: by_path_ok_def)
    have w: "on_path w p ?s" "\<forall>r. get_vol w ?s = Some r \<longrightarrow> vr_fs_id r \<in> ids ` {..<length bp}"
      using f by (auto simp: on_path_def get_vol_def sqlite_path_of_def get_fs_def update_conv')
    show ?thesis
    proof (cases "(vid, r, path) = x")
      case True
      with migrate_keeps [OF assms(1) bp w(1) _ w(2)] Cons.prems(2) Some show ?thesis by (auto simp: x)
    next
      case False
      with Cons.IH [OF bp] Cons.prems Some show ?thesis by (auto simp: x)
    qed
  next
    case None
    let ?fid = "ids (length bp)"
    let ?fs = "\<lparr>fr_id = ?fid, fr_display_name = (if vr_name q \<noteq> [] then vr_name q else ?fid),
        fr_sqlite_path = p, fr_created_at = vr_created_at q\<rparr>"
    let ?s = "s\<lparr>st_filesystems := AList.update ?fid ?fs (st_filesystems s),
        st_volumes := AList.update w (q\<lparr>vr_fs_id := ?fid\<rparr>) (st_volumes s)\<rparr>"
    have bp: "by_path_ok ids ((p, ?fid) # bp) ?s" by (rule migrate_step [OF assms(1) Cons.prems(1) None refl]) simp
    have w: "on_path w p ?s" "\<forall>r. get_vol w ?s = Some r \<longrightarrow> vr_fs_id r \<in> ids ` {..<length ((p, ?fid) # bp)}"
      by (auto simp: on_path_def get_vol_def sqlite_path_of_def get_fs_def update_conv')
    show ?thesis
    proof (cases "(vid, r, path) = x")
      case True
      with migrate_keeps [OF assms(1) bp w(1) _ w(2)] Cons.prems(2) None show ?thesis by (auto simp: x Let_def)
    next
      case False
      with Cons.IH [OF bp] Cons.prems None show ?thesis by (auto simp: x Let_def)
    qed
  qed
qed simp

text \<open>
  Loading a version 1 store loses no file: after the migration every volume still resolves,
  through the filesystem it was given, to the path that its old record carried.
\<close>

lemma migration_keeps_paths:
  assumes "inj ids" and "distinct (map fst raw)" and "(vid, r, path) \<in> set raw"
  shows "\<exists>q. get_vol vid (migrate_v1 ids raw s) = Some q \<and> sqlite_path_of q (migrate_v1 ids raw s) = Inr path"
  using migrate_reaches [OF assms(1) _ assms(2,3), of "[]" s]
  by (simp add: migrate_v1_def by_path_ok_def on_path_def)

definition old_record :: vol_record where
  "old_record = \<lparr>vr_id = ''v'', vr_name = ''v'', vr_fs_id = [], vr_encrypted = False, vr_created_at = 0, vr_mounted = False,
     vr_mountpoint = None, vr_frontend = None, vr_auto_mount = False, vr_mount_name = None, vr_pin_env = None, vr_pin_file = None\<rparr>"

lemma migration_keeps_paths_witness:
  "\<exists>q. get_vol ''w'' (migrate_v1 (\<lambda>k. replicate k CHR ''x'') [(''v'', old_record, ''/a''), (''w'', old_record, ''/b'')] \<lparr>st_filesystems = [],
       st_volumes = [], st_pending = []\<rparr>) = Some q \<and> vr_fs_id q = ''x''"
proof -
  have "inj (\<lambda>k. replicate k CHR ''x'')" by (rule injI) (metis length_replicate)
  from migration_keeps_paths [OF this, of "[(''v'', old_record, ''/a''), (''w'', old_record, ''/b'')]" "''w''" old_record "''/b''"
      "\<lparr>st_filesystems = [], st_volumes = [], st_pending = []\<rparr>"]
  show ?thesis by (auto simp: migrate_v1_def get_vol_def Let_def)
qed

end
