(* ===== verification/Dav.thy ===== *)
theory Dav
  imports Urls Facade Store
begin

text \<open>
  The verbs of the WebDAV frontend (\<open>manager/dav.py\<close>): what each handler does to the volume
  and to the lock registry, and the response it gives.

  \<open>dav_srv\<close> is what a handler works on: the connection of the unlocked volume (the session
  lock is held for the whole request, so a request is one step), the registry of WebDAV
  locks, the monotonic clock and the stream of UUIDs. \<open>site\<close> holds what is fixed for a
  request: the URL prefix, the volume's id, the engine mount of the client, and the code
  that is not in the repository (the cipher library, the XML parser and printer, the table
  of MIME types, the iteration order of a set, the whole seconds of a timestamp as the
  floating-point division and its rounding give them). A request has its headers under their
  canonical names, and its body in the pieces \<open>stream.read\<close> gives; \<open>rq_cut\<close> says that the
  client disconnects after them. A response is its status, headers and body; the messages
  of faults are left out, their precondition element is kept. The body of a streaming GET is
  what its generator yields.
\<close>

section \<open>State, requests and responses\<close>

datatype xml = Elem (xm_tag: string) (xm_text: string) (xm_kids: "(xml \<times> string) list")

record site =
  st_lib :: crypto_lib
  st_prefix :: string
  st_volume :: string
  st_mount :: mount_id
  st_guess_type :: "string \<Rightarrow> string option"
  st_parse :: "bytes \<Rightarrow> xml option"
  st_print :: "xml \<times> string \<Rightarrow> string"
  st_order :: "string set \<Rightarrow> string list"
  st_seconds :: "timestamp \<Rightarrow> int"

record dav_srv =
  dv_db :: db
  dv_locks :: registry
  dv_clock :: int
  dv_uuid :: "nat \<Rightarrow> string"
  dv_drawn :: nat

record request =
  rq_method :: string
  rq_headers :: "string \<rightharpoonup> string"
  rq_host :: string
  rq_body :: "bytes list"
  rq_cut :: bool

record response =
  rp_status :: nat
  rp_headers :: "(string \<times> string) list"
  rp_body :: bytes

text \<open>\<open>Fault\<close> is \<open>DavFault\<close>: status, precondition element and headers.\<close>

datatype dav_exn =
  Fault nat string "(string \<times> string) list"
  | Eng fs_error
  | Mgr manager_error
  | Disconnected

type_synonym 'a dav = "dav_srv \<Rightarrow> (dav_exn + 'a) \<times> dav_srv"

definition give :: "'a \<Rightarrow> 'a dav" where
  "give x s = (Inr x, s)"

definition toss :: "dav_exn \<Rightarrow> 'a dav" where
  "toss e s = (Inl e, s)"

abbreviation fault :: "nat \<Rightarrow> 'a dav" where
  "fault status \<equiv> toss (Fault status [] [])"

definition dav_bind :: "'a dav \<Rightarrow> ('a \<Rightarrow> 'b dav) \<Rightarrow> 'b dav" where
  "dav_bind m f s = (case m s of (Inl e, s') \<Rightarrow> (Inl e, s') | (Inr x, s') \<Rightarrow> f x s')"

definition require :: "bool \<Rightarrow> nat \<Rightarrow> unit dav" where
  "require b status = (if b then give () else fault status)"

text \<open>An engine operation, and a method of the registry.\<close>

definition eng :: "'a op \<Rightarrow> 'a dav" where
  "eng m s = (case m (dv_db s) of
     (Inl e, d) \<Rightarrow> (Inl (Eng e), s\<lparr>dv_db := d\<rparr>)
   | (Inr x, d) \<Rightarrow> (Inr x, s\<lparr>dv_db := d\<rparr>))"

definition reg_op :: "(int \<Rightarrow> registry \<Rightarrow> 'a \<times> registry) \<Rightarrow> 'a dav" where
  "reg_op f s = (case f (dv_clock s) (dv_locks s) of (x, reg) \<Rightarrow> (Inr x, s\<lparr>dv_locks := reg\<rparr>))"

text \<open>\<open>try: m except e: raise DavFault(status)\<close>\<close>

definition recast :: "fs_error \<Rightarrow> nat \<Rightarrow> 'a dav \<Rightarrow> 'a dav" where
  "recast e status m s = (case m s of
     (Inl x, s') \<Rightarrow> (if x = Eng e then (Inl (Fault status [] []), s') else (Inl x, s'))
   | (Inr y, s') \<Rightarrow> (Inr y, s'))"

definition not_there :: "fs_error set" where
  "not_there = {NotFound, NotAContainer, NotAnEntry}"

definition try_stat :: "site \<Rightarrow> string \<Rightarrow> node_info option dav" where
  "try_stat c path = eng (attempt not_there (stat (st_mount c) path))"

definition faulty :: "nat + 'a \<Rightarrow> 'a dav" where
  "faulty r = (case r of Inl status \<Rightarrow> fault status | Inr x \<Rightarrow> give x)"

definition is_dir :: "node_info \<Rightarrow> bool" where
  "is_dir info \<longleftrightarrow> ni_type info = CONTAINER"

lemma dav_bind_simps [op_simps]:
  "m s = (Inr x, s') \<Longrightarrow> dav_bind m f s = f x s'"
  "m s = (Inl e, s') \<Longrightarrow> dav_bind m f s = (Inl e, s')"
  by (simp_all add: dav_bind_def)

lemma dav_basic [op_simps]:
  "give x s = (Inr x, s)" "toss e s = (Inl e, s)"
  "require True k = give ()" "require False k = fault k"
  "faulty (Inl k) = fault k" "faulty (Inr x) = give x"
  by (simp_all add: give_def toss_def require_def faulty_def)

lemma eng_eq [op_simps]:
  "m (dv_db s) = (Inr x, d) \<Longrightarrow> eng m s = (Inr x, s\<lparr>dv_db := d\<rparr>)"
  "m (dv_db s) = (Inl e, d) \<Longrightarrow> eng m s = (Inl (Eng e), s\<lparr>dv_db := d\<rparr>)"
  by (simp_all add: eng_def)

lemma dav_bind_Inr:
  "dav_bind m f s = (Inr y, s'') \<longleftrightarrow> (\<exists>x s'. m s = (Inr x, s') \<and> f x s' = (Inr y, s''))"
  by (auto simp: dav_bind_def split: prod.splits sum.splits)

lemma dav_bind_Inl:
  "dav_bind m f s = (Inl e, s'') \<longleftrightarrow> m s = (Inl e, s'') \<or> (\<exists>x s'. m s = (Inr x, s') \<and> f x s' = (Inl e, s''))"
  by (auto simp: dav_bind_def split: prod.splits sum.splits)

section \<open>Requests\<close>

text \<open>A header that is sent and not empty; the whole body; a body of spaces only.\<close>

definition sent :: "request \<Rightarrow> string \<Rightarrow> string option" where
  "sent rq k = (case rq_headers rq k of None \<Rightarrow> None | Some v \<Rightarrow> if v = [] then None else Some v)"

definition get_data :: "request \<Rightarrow> bytes dav" where
  "get_data rq = (if rq_cut rq then toss Disconnected else give (concat (rq_body rq)))"

definition blank_body :: "bytes \<Rightarrow> bool" where
  "blank_body raw \<longleftrightarrow> list_all (\<lambda>b. unat b \<in> {9, 10, 11, 12, 13, 32}) raw"

definition chars_of :: "bytes \<Rightarrow> string" where
  "chars_of bs = map (\<lambda>b. char_of (unat b)) bs"

definition MAX_XML_BODY :: nat where
  "MAX_XML_BODY = 1048576"

fun has_doctype :: "bytes \<Rightarrow> bool" where
  "has_doctype [] \<longleftrightarrow> False"
| "has_doctype (b # bs) \<longleftrightarrow> map lower (chars_of (take 9 (b # bs))) = ''<!doctype'' \<or> has_doctype bs"

definition parse_xml :: "site \<Rightarrow> bytes \<Rightarrow> xml dav" where
  "parse_xml c raw =
     (if length raw > MAX_XML_BODY then fault 413
      else if has_doctype raw then fault 400
      else (case st_parse c raw of None \<Rightarrow> fault 400 | Some root \<Rightarrow> give root))"

definition local_of :: "xml \<Rightarrow> string" where
  "local_of x = snd (local_name (xm_tag x))"

definition kids :: "xml \<Rightarrow> xml list" where
  "kids x = map fst (xm_kids x)"

section \<open>Dates\<close>

definition clock_text :: "int \<Rightarrow> string" where
  "clock_text tod = padded 2 (tod div 3600) @ '':'' @ padded 2 (tod div 60 mod 60) @ '':'' @ padded 2 (tod mod 60)"

definition weekdays :: "string list" where
  "weekdays = [''Mon'', ''Tue'', ''Wed'', ''Thu'', ''Fri'', ''Sat'', ''Sun'']"

definition month_names :: "string list" where
  "month_names = [''Jan'', ''Feb'', ''Mar'', ''Apr'', ''May'', ''Jun'', ''Jul'', ''Aug'', ''Sep'', ''Oct'', ''Nov'', ''Dec'']"

definition rfc1123 :: "site \<Rightarrow> timestamp \<Rightarrow> string" where
  "rfc1123 c ns =
     (let sec = st_seconds c ns; days = sec div 86400; (y, m, d) = civil days
      in weekdays ! nat ((days + 3) mod 7) @ '', '' @ padded 2 d @ '' '' @ month_names ! nat (m - 1) @ '' ''
         @ padded 4 y @ '' '' @ clock_text (sec mod 86400) @ '' GMT'')"

definition iso8601 :: "site \<Rightarrow> timestamp \<Rightarrow> string" where
  "iso8601 c ns =
     (let sec = st_seconds c ns; (y, m, d) = civil (sec div 86400)
      in padded 4 y @ ''-'' @ padded 2 m @ ''-'' @ padded 2 d @ ''T'' @ clock_text (sec mod 86400) @ ''Z'')"

section \<open>XML text\<close>

text \<open>\<open>saxutils.escape\<close> and \<open>quoteattr\<close>.\<close>

definition escape_char :: "char \<Rightarrow> string" where
  "escape_char c = (if c = CHR ''&'' then ''&amp;'' else if c = CHR ''>'' then ''&gt;''
     else if c = CHR ''<'' then ''&lt;'' else [c])"

definition xml_escape :: "string \<Rightarrow> string" where
  "xml_escape s = concat (map escape_char s)"

definition attr_char :: "char \<Rightarrow> string" where
  "attr_char c = (if c = CHR 0x0A then ''&#10;'' else if c = CHR 0x0D then ''&#13;''
     else if c = CHR 0x09 then ''&#9;'' else escape_char c)"

definition quoteattr :: "string \<Rightarrow> string" where
  "quoteattr s =
     (let data = concat (map attr_char s); dq = CHR 0x22; sq = CHR 0x27 in
      if dq \<in> set data
      then (if sq \<in> set data
            then [dq] @ concat (map (\<lambda>c. if c = dq then ''&quot;'' else [c]) data) @ [dq]
            else [sq] @ data @ [sq])
      else [dq] @ data @ [dq])"

definition dead_tag :: "string \<Rightarrow> string \<Rightarrow> string" where
  "dead_tag ns local =
     (if ns = [] then ''<'' @ local @ ''/>'' else ''<X:'' @ local @ '' xmlns:X='' @ quoteattr ns @ ''/>'')"

definition XML_DECL :: string where
  "XML_DECL = ''<?xml version='' @ [CHR 0x22] @ ''1.0'' @ [CHR 0x22] @ '' encoding='' @ [CHR 0x22] @ ''utf-8''
     @ [CHR 0x22] @ ''?>'' @ [CHR 0x0A]"

definition ns_attr :: string where
  "ns_attr = '' xmlns:D='' @ [CHR 0x22] @ ''DAV:'' @ [CHR 0x22]"

definition multistatus :: "string list \<Rightarrow> response" where
  "multistatus parts =
     \<lparr>rp_status = 207, rp_headers = [(''Content-Type'', ''application/xml; charset='' @ [CHR 0x22] @ ''utf-8'' @ [CHR 0x22])],
      rp_body = text_bytes (XML_DECL @ ''<D:multistatus'' @ ns_attr @ ''>'' @ concat parts @ ''</D:multistatus>'')\<rparr>"

definition xml_doc :: "string \<Rightarrow> bytes" where
  "xml_doc body = text_bytes (XML_DECL @ body)"

definition plain :: "nat \<Rightarrow> response" where
  "plain status = \<lparr>rp_status = status, rp_headers = [], rp_body = []\<rparr>"

section \<open>Properties of a resource\<close>

definition DAV_NS :: string where
  "DAV_NS = ''DAV:''"

definition LIVE :: "string list" where
  "LIVE = [''resourcetype'', ''getcontentlength'', ''getlastmodified'', ''getetag'', ''creationdate'',
     ''displayname'', ''getcontenttype'', ''supportedlock'', ''lockdiscovery'']"

definition element :: "string \<Rightarrow> string \<Rightarrow> string" where
  "element nm body = ''<D:'' @ nm @ ''>'' @ body @ ''</D:'' @ nm @ ''>''"

definition lockdiscovery :: "dav_lock \<Rightarrow> string \<Rightarrow> string" where
  "lockdiscovery lk url =
     ''<D:lockdiscovery><D:activelock><D:locktype><D:write/></D:locktype>''
     @ ''<D:lockscope><D:exclusive/></D:lockscope>''
     @ element ''depth'' (dl_depth lk)
     @ (if dl_owner_xml lk \<noteq> [] then element ''owner'' (dl_owner_xml lk) else [])
     @ element ''timeout'' (''Second-'' @ show_int (dl_timeout lk))
     @ element ''locktoken'' (element ''href'' (xml_escape (dl_token lk)))
     @ element ''lockroot'' (element ''href'' (xml_escape url))
     @ ''</D:activelock></D:lockdiscovery>''"

definition content_type :: "site \<Rightarrow> string \<Rightarrow> string" where
  "content_type c nm = (case st_guess_type c nm of None \<Rightarrow> ''application/octet-stream'' | Some t \<Rightarrow> t)"

text \<open>The answer for one live property: \<open>Inl\<close> goes to \<open>missing\<close>, \<open>Inr\<close> to \<open>found\<close>.\<close>

definition live_prop ::
  "site \<Rightarrow> node_info \<Rightarrow> bool \<Rightarrow> dav_lock option \<Rightarrow> string \<Rightarrow> string \<Rightarrow> (string + string) option" where
  "live_prop c info dir lk url nm =
     (let text = (\<lambda>v. Some (Inr (if prefix ''<'' v then v else element nm v))) in
      if nm = ''resourcetype'' then text (if dir then ''<D:resourcetype><D:collection/></D:resourcetype>'' else ''<D:resourcetype/>'')
      else if nm = ''getcontentlength'' then
        (if dir then Some (Inl ''<D:getcontentlength/>'') else text (show_nat (or_else (ni_size info) 0)))
      else if nm = ''getlastmodified'' then text (rfc1123 c (ni_modified_at info))
      else if nm = ''creationdate'' then text (iso8601 c (ni_created_at info))
      else if nm = ''getetag'' then text (xml_escape (etag info))
      else if nm = ''displayname'' then text (xml_escape (ni_name info))
      else if nm = ''getcontenttype'' then text (if dir then ''httpd/unix-directory'' else content_type c (ni_name info))
      else if nm = ''supportedlock'' then
        Some (Inr (''<D:supportedlock><D:lockentry><D:lockscope><D:exclusive/></D:lockscope>''
          @ ''<D:locktype><D:write/></D:locktype></D:lockentry></D:supportedlock>''))
      else if nm = ''lockdiscovery'' then
        Some (Inr (case lk of Some l \<Rightarrow> lockdiscovery l url | None \<Rightarrow> ''<D:lockdiscovery/>''))
      else None)"

text \<open>The dict of the dead properties of a node.\<close>

definition dead_props :: "(string \<times> string) list \<Rightarrow> ((string \<times> string) \<times> string) list" where
  "dead_props meta = fold (\<lambda>(k, v). AList.update (dead_split k) v) (filter (\<lambda>(k, v). prefix DEAD_PREFIX k) meta) []"

definition dead_element :: "string \<times> string \<Rightarrow> string \<Rightarrow> string" where
  "dead_element key v =
     (let (ns, local) = key; tag = dead_tag ns local
      in butlast (butlast tag) @ ''>'' @ xml_escape v @ (if ns \<noteq> [] then ''</X:'' @ local @ ''>'' else ''</'' @ local @ ''>''))"

definition dead_prop ::
  "((string \<times> string) \<times> string) list \<Rightarrow> (string \<times> string) list option \<Rightarrow> bool \<Rightarrow> string \<times> string
     \<Rightarrow> (string + string) option" where
  "dead_prop dead wanted names_only key =
     (case map_of dead key of
        Some v \<Rightarrow> Some (Inr (if names_only then dead_tag (fst key) (snd key) else dead_element key v))
      | None \<Rightarrow> if wanted \<noteq> None then Some (Inl (dead_tag (fst key) (snd key))) else None)"

definition propstat_block :: "string list \<Rightarrow> string \<Rightarrow> string" where
  "propstat_block props status =
     ''<D:propstat><D:prop>'' @ concat props @ ''</D:prop><D:status>HTTP/1.1 '' @ status @ ''</D:status></D:propstat>''"

fun lefts :: "('a + 'b) option list \<Rightarrow> 'a list" where
  "lefts [] = []"
| "lefts (Some (Inl x) # r) = x # lefts r"
| "lefts (e # r) = lefts r"

fun rights :: "('a + 'b) option list \<Rightarrow> 'b list" where
  "rights [] = []"
| "rights (Some (Inr x) # r) = x # rights r"
| "rights (e # r) = rights r"

definition propstat ::
  "site \<Rightarrow> node_info \<Rightarrow> bool \<Rightarrow> (string \<times> string) list option \<Rightarrow> bool \<Rightarrow> dav_lock option \<Rightarrow> string \<Rightarrow> string" where
  "propstat c info dir wanted names_only lk url =
     (let dead = dead_props (ni_metadata info);
          live_wanted = sort (remdups (case wanted of None \<Rightarrow> LIVE
             | Some w \<Rightarrow> map snd (filter (\<lambda>(ns, nm). ns = DAV_NS) w)));
          dead_wanted = sort (remdups (case wanted of None \<Rightarrow> map fst dead | Some w \<Rightarrow> w));
          answers = map (\<lambda>nm. if names_only then Some (Inr (''<D:'' @ nm @ ''/>'')) else live_prop c info dir lk url nm) live_wanted
            @ map (dead_prop dead wanted names_only) (filter (\<lambda>(ns, nm). \<not> (ns = DAV_NS \<and> nm \<in> set LIVE)) dead_wanted);
          found = rights answers; missing = lefts answers
      in (if found \<noteq> [] \<or> missing = [] then propstat_block found ''200 OK'' else [])
         @ (if missing \<noteq> [] then propstat_block missing ''404 Not Found'' else []))"

definition response_element :: "site \<Rightarrow> string \<Rightarrow> bool \<Rightarrow> string \<Rightarrow> string" where
  "response_element c path dir body =
     ''<D:response><D:href>'' @ xml_escape (href (st_prefix c) (st_volume c) path dir) @ ''</D:href>'' @ body @ ''</D:response>''"

section \<open>PROPFIND\<close>

definition wanted_step :: "xml \<Rightarrow> (string \<times> string) list option \<times> bool \<Rightarrow> (string \<times> string) list option \<times> bool" where
  "wanted_step child acc =
     (let local = local_of child in
      if local = ''allprop'' then (None, snd acc)
      else if local = ''propname'' then (None, True)
      else if local = ''prop'' then (Some (map (local_name \<circ> xm_tag) (kids child)), snd acc)
      else acc)"

definition find_op :: "site \<Rightarrow> string \<Rightarrow> dav_lock option dav" where
  "find_op c path = reg_op (\<lambda>clock. find_lock clock (st_volume c) path)"

definition rstrip_slash :: "string \<Rightarrow> string" where
  "rstrip_slash p = rev (dropWhile (\<lambda>ch. ch = CHR ''/'') (rev p))"

fun member_parts ::
  "site \<Rightarrow> (string \<times> string) list option \<Rightarrow> bool \<Rightarrow> string \<Rightarrow> dir_entry list \<Rightarrow> string list dav" where
  "member_parts c wanted names_only path [] = give []"
| "member_parts c wanted names_only path (e # es) =
     (if \<not> ls_visible e then member_parts c wanted names_only path es
      else
        dav_bind (eng (stat_by_id (st_mount c) (ls_node e))) (\<lambda>child.
        let dir = (ls_type e = CONTAINER); child_path = rstrip_slash path @ ''/'' @ ls_name e in
        dav_bind (find_op c child_path) (\<lambda>lk.
        dav_bind (member_parts c wanted names_only path es) (\<lambda>parts.
        give (response_element c child_path dir
          (propstat c child dir wanted names_only lk (href (st_prefix c) (st_volume c) child_path dir)) # parts)))))"

definition do_propfind :: "site \<Rightarrow> request \<Rightarrow> string \<Rightarrow> response dav" where
  "do_propfind c rq path =
     (let depth = depth_of (rq_headers rq) in
      if depth = ''infinity'' then toss (Fault 403 ''propfind-finite-depth'' []) else
      dav_bind (get_data rq) (\<lambda>raw.
      dav_bind (if blank_body raw then give (None, False) else
         dav_bind (parse_xml c raw) (\<lambda>root.
         dav_bind (require (local_of root = ''propfind'') 400) (\<lambda>_.
         give (fold wanted_step (kids root) (None, False))))) (\<lambda>(wanted, names_only).
      dav_bind (eng (stat (st_mount c) path)) (\<lambda>info.
      dav_bind (find_op c path) (\<lambda>lk.
      let dir = is_dir info;
          self = response_element c path dir
            (propstat c info dir wanted names_only lk (href (st_prefix c) (st_volume c) path dir)) in
      dav_bind (if depth = ''1'' \<and> dir
         then dav_bind (eng (list_dir (st_mount c) path)) (member_parts c wanted names_only path)
         else give []) (\<lambda>members.
      give (multistatus (self # members))))))))"

section \<open>The locks of a request\<close>

definition submitted_tokens :: "request \<Rightarrow> string set" where
  "submitted_tokens rq = header_tokens (parse_if (case rq_headers rq ''If'' of None \<Rightarrow> [] | Some v \<Rightarrow> v))"

definition require_unlocked :: "site \<Rightarrow> request \<Rightarrow> string \<Rightarrow> bool \<Rightarrow> unit dav" where
  "require_unlocked c rq path depth_infinity =
     (let submitted = submitted_tokens rq in
      dav_bind (find_op c path) (\<lambda>held.
      dav_bind (require (case held of None \<Rightarrow> True | Some lk \<Rightarrow> dl_token lk \<in> submitted) 423) (\<lambda>_.
      if depth_infinity
      then dav_bind (reg_op (\<lambda>clock. covered_by_subtree clock (st_volume c) path)) (\<lambda>others.
           require (list_all (\<lambda>lk. dl_token lk \<in> submitted) others) 423)
      else give ())))"

definition preconditions :: "request \<Rightarrow> node_info option \<Rightarrow> bool \<Rightarrow> bool dav" where
  "preconditions rq info is_read =
     faulty (check_preconditions (rq_headers rq) (map_option etag info) (info \<noteq> None) is_read)"

section \<open>PROPPATCH\<close>

definition MAX_DEAD_PROPS :: nat where
  "MAX_DEAD_PROPS = 65536"

text \<open>The text of an element, and the length of a string in characters (its bytes less the continuation bytes).\<close>

fun itertext :: "xml \<Rightarrow> string" where
  "itertext (Elem tag txt ks) = txt @ concat (map (\<lambda>(k, tail). itertext k @ tail) ks)"

definition char_count :: "string \<Rightarrow> nat" where
  "char_count s = length (filter (\<lambda>ch. (of_char ch :: nat) div 64 \<noteq> 2) s)"

text \<open>The targets in document order, with whether they are set.\<close>

definition patch_targets :: "xml \<Rightarrow> (bool \<times> xml) list" where
  "patch_targets root =
     concat (map (\<lambda>action. let verb = local_of action in
         if verb \<notin> {''set'', ''remove''} then []
         else concat (map (\<lambda>prop. if local_of prop \<noteq> ''prop'' then []
           else map (\<lambda>target. (verb = ''set'', target)) (kids prop)) (kids action))) (kids root))"

type_synonym patch_state = "(string \<times> string) list \<times> string list \<times> string list"

definition patch_step :: "bool \<times> xml \<Rightarrow> patch_state \<Rightarrow> patch_state" where
  "patch_step target acc =
     (let (setting, el) = target; (meta, ok, forbidden) = acc; (ns, local) = local_name (xm_tag el) in
      if ns = DAV_NS \<and> local \<in> set LIVE then (meta, ok, forbidden @ [''<D:'' @ local @ ''/>''])
      else let key = dead_key ns local in
        (if setting then AList.update key (itertext el) meta else AList.delete key meta,
         ok @ [dead_tag ns local], forbidden))"

definition dead_size :: "(string \<times> string) list \<Rightarrow> nat" where
  "dead_size meta = sum_list (map (\<lambda>(k, v). char_count k + char_count v) (filter (\<lambda>(k, v). prefix DEAD_PREFIX k) meta))"

definition do_proppatch :: "site \<Rightarrow> request \<Rightarrow> string \<Rightarrow> response dav" where
  "do_proppatch c rq path =
     dav_bind (get_data rq) (\<lambda>raw.
     dav_bind (require (\<not> blank_body raw) 400) (\<lambda>_.
     dav_bind (parse_xml c raw) (\<lambda>root.
     dav_bind (require (local_of root = ''propertyupdate'') 400) (\<lambda>_.
     dav_bind (eng (stat (st_mount c) path)) (\<lambda>info.
     dav_bind (require_unlocked c rq path False) (\<lambda>_.
     dav_bind (preconditions rq (Some info) False) (\<lambda>_.
     let (meta, ok, forbidden) = fold patch_step (patch_targets root) (ni_metadata info, [], []) in
     dav_bind (require (dead_size meta \<le> MAX_DEAD_PROPS) 507) (\<lambda>_.
     dav_bind (if forbidden \<noteq> []
        then give (propstat_block forbidden ''403 Forbidden''
               @ (if ok \<noteq> [] then propstat_block ok ''424 Failed Dependency'' else []))
        else dav_bind (eng (set_metadata (st_mount c) path meta)) (\<lambda>_.
             give (propstat_block ok ''200 OK''))) (\<lambda>parts.
     give (multistatus [response_element c path (is_dir info) parts]))))))))))"

section \<open>GET and HEAD\<close>

definition STREAM_CHUNK :: nat where
  "STREAM_CHUNK = 1048576"

text \<open>The generator: what it yields, and where it leaves the descriptor and the connection.\<close>

function send :: "crypto_lib \<Rightarrow> nat \<Rightarrow> descriptor \<Rightarrow> db \<Rightarrow> bytes \<times> descriptor \<times> db" where
  "send L remaining d s =
     (if remaining = 0 then ([], d, s)
      else (case d_read L (Some (min STREAM_CHUNK remaining)) d s of
              (Inl e, d', s') \<Rightarrow> ([], d', s')
            | (Inr chunk, d', s') \<Rightarrow>
                if chunk = [] then ([], d', s')
                else let (rest, d'', s'') = send L (remaining - length chunk) d' s' in (chunk @ rest, d'', s'')))"
  by pat_completeness auto
termination
  by (relation "measure (\<lambda>(L, remaining, d, s). remaining)") auto

declare send.simps [simp del]

text \<open>A descriptor method inside a handler.\<close>

definition desc :: "'a dop \<Rightarrow> descriptor \<Rightarrow> ('a \<times> descriptor) dav" where
  "desc m d s = (case m d (dv_db s) of
     (Inl e, d', t) \<Rightarrow> (Inl (Eng e), s\<lparr>dv_db := t\<rparr>)
   | (Inr x, d', t) \<Rightarrow> (Inr (x, d'), s\<lparr>dv_db := t\<rparr>))"

definition stream_body :: "site \<Rightarrow> nat \<Rightarrow> descriptor \<Rightarrow> bytes dav" where
  "stream_body c len d s =
     (let (body, d', t) = send (st_lib c) len d (dv_db s); (_, _, t') = d_exit (st_lib c) False d' t
      in (Inr body, s\<lparr>dv_db := t'\<rparr>))"

definition range_of :: "request \<Rightarrow> node_info \<Rightarrow> (nat \<times> nat) option dav" where
  "range_of rq info =
     (let size = or_else (ni_size info) 0 in
      case parse_range (rq_headers rq) size of
        Inl status \<Rightarrow> toss (Fault status [] [(''Content-Range'', ''bytes */'' @ show_nat size)])
      | Inr rng \<Rightarrow> give (if rng = None then None
          else (case sent rq ''If-Range'' of None \<Rightarrow> rng
            | Some raw \<Rightarrow> (case parse_etag_list raw of None \<Rightarrow> None
                | Some tags \<Rightarrow> if etag_matches tags (Some (etag info)) True then rng else None))))"

definition do_get :: "site \<Rightarrow> request \<Rightarrow> string \<Rightarrow> bool \<Rightarrow> response dav" where
  "do_get c rq path body =
     dav_bind (eng (stat (st_mount c) path)) (\<lambda>info.
     dav_bind (require (\<not> is_dir info) 405) (\<lambda>_.
     let size = or_else (ni_size info) 0; tag = etag info; modified = rfc1123 c (ni_modified_at info) in
     dav_bind (preconditions rq (Some info) True) (\<lambda>fresh.
     if fresh then give \<lparr>rp_status = 304, rp_headers = [(''ETag'', tag), (''Last-Modified'', modified)], rp_body = []\<rparr>
     else
       dav_bind (range_of rq info) (\<lambda>rng.
       let (start, len, status) = (case rng of None \<Rightarrow> (0, size, 200) | Some (a, b) \<Rightarrow> (a, b - a + 1, 206));
           headers = [(''Content-Type'', content_type c (ni_name info)), (''ETag'', tag), (''Last-Modified'', modified),
             (''Accept-Ranges'', ''bytes''), (''Cache-Control'', ''no-store'')]
             @ (case rng of None \<Rightarrow> [] | Some (a, b) \<Rightarrow>
                 [(''Content-Range'', ''bytes '' @ show_nat a @ ''-'' @ show_nat b @ ''/'' @ show_nat size)])
             @ [(''Content-Length'', show_nat len)] in
       if \<not> body then give \<lparr>rp_status = status, rp_headers = headers, rp_body = []\<rparr>
       else
         dav_bind (eng (open_read (st_mount c) path)) (\<lambda>reader.
         dav_bind (if start \<noteq> 0 then dav_bind (desc (d_seek (int start) SET) reader) (\<lambda>(_, d). give d) else give reader) (\<lambda>d.
         dav_bind (stream_body c len d) (\<lambda>content.
         give \<lparr>rp_status = status, rp_headers = headers, rp_body = content\<rparr>)))))))"

section \<open>PUT, MKCOL and DELETE\<close>

text \<open>
  \<open>with handle as writer\<close>: each piece is written until one fails or the client goes, then
  the descriptor's \<open>__exit__\<close> commits or aborts.
\<close>

definition receive :: "site \<Rightarrow> request \<Rightarrow> descriptor \<Rightarrow> unit dav" where
  "receive c rq d s =
     (let (r, d', t) = d_write_list (st_lib c) (rq_body rq) d (dv_db s);
          outcome = (case r of Inl e \<Rightarrow> Inl (Eng e) | Inr _ \<Rightarrow> if rq_cut rq then Inl Disconnected else Inr ());
          (closing, _, t') = d_exit (st_lib c) (outcome \<noteq> Inr ()) d' t
      in (case closing of Inl e \<Rightarrow> Inl (Eng e) | Inr _ \<Rightarrow> outcome, s\<lparr>dv_db := t'\<rparr>))"

definition do_put :: "site \<Rightarrow> request \<Rightarrow> string \<Rightarrow> response dav" where
  "do_put c rq path =
     dav_bind (require (path \<noteq> ''/'') 405) (\<lambda>_.
     dav_bind (require (sent rq ''Content-Range'' = None) 400) (\<lambda>_.
     dav_bind (try_stat c path) (\<lambda>existing.
     dav_bind (require (case existing of None \<Rightarrow> True | Some info \<Rightarrow> \<not> is_dir info) 405) (\<lambda>_.
     dav_bind (require_unlocked c rq path False) (\<lambda>_.
     dav_bind (preconditions rq existing False) (\<lambda>_.
     dav_bind (recast NotFound 409 (eng (open_write (st_lib c) (st_mount c) path TRUNCATE None))) (\<lambda>d.
     dav_bind (receive c rq d) (\<lambda>_.
     dav_bind (eng (stat (st_mount c) path)) (\<lambda>info.
     give \<lparr>rp_status = (if existing \<noteq> None then 204 else 201), rp_headers = [(''ETag'', etag info)], rp_body = []\<rparr>)))))))))"

definition do_mkcol :: "site \<Rightarrow> request \<Rightarrow> string \<Rightarrow> response dav" where
  "do_mkcol c rq path =
     dav_bind (get_data rq) (\<lambda>raw.
     dav_bind (require (blank_body raw) 415) (\<lambda>_.
     dav_bind (require (path \<noteq> ''/'') 405) (\<lambda>_.
     dav_bind (try_stat c path) (\<lambda>existing.
     dav_bind (require (existing = None) 405) (\<lambda>_.
     dav_bind (require_unlocked c rq path False) (\<lambda>_.
     dav_bind (recast NotFound 409 (eng (create_container (st_mount c) path))) (\<lambda>_.
     give (plain 201))))))))"

text \<open>Taking a resource away, whatever it is.\<close>

definition clear_path :: "site \<Rightarrow> node_info \<Rightarrow> string \<Rightarrow> unit dav" where
  "clear_path c info path =
     (if is_dir info then eng (remove_recursive (st_mount c) path) else eng (remove (st_mount c) path))"

definition do_delete :: "site \<Rightarrow> request \<Rightarrow> string \<Rightarrow> response dav" where
  "do_delete c rq path =
     dav_bind (require (path \<noteq> ''/'') 403) (\<lambda>_.
     dav_bind (eng (stat (st_mount c) path)) (\<lambda>info.
     dav_bind (require_unlocked c rq path (is_dir info)) (\<lambda>_.
     dav_bind (preconditions rq (Some info) False) (\<lambda>_.
     dav_bind (clear_path c info path) (\<lambda>_.
     give (plain 204))))))"

section \<open>COPY and MOVE\<close>

text \<open>
  \<open>urlsplit\<close>: the network location and the path. \<open>None\<close> is its \<open>ValueError\<close> for unbalanced
  brackets; the address inside brackets is not checked.
\<close>

definition alpha :: "char \<Rightarrow> bool" where
  "alpha ch \<longleftrightarrow> CHR ''A'' \<le> ch \<and> ch \<le> CHR ''Z'' \<or> CHR ''a'' \<le> ch \<and> ch \<le> CHR ''z''"

definition drop_scheme :: "string \<Rightarrow> string" where
  "drop_scheme url =
     (let scheme = takeWhile (\<lambda>ch. ch \<noteq> CHR '':'') url in
      if scheme \<noteq> [] \<and> CHR '':'' \<in> set url \<and> alpha (hd scheme)
         \<and> list_all (\<lambda>ch. alpha ch \<or> digit ch \<or> ch \<in> set ''+-.'') scheme
      then drop (Suc (length scheme)) url else url)"

definition urlsplit :: "string \<Rightarrow> (string \<times> string) option" where
  "urlsplit raw =
     (let url = drop_scheme (filter (\<lambda>ch. (of_char ch :: nat) \<notin> {9, 10, 13})
                  (dropWhile (\<lambda>ch. (of_char ch :: nat) \<le> 32) raw));
          (netloc, rest) = (if take 2 url = ''//''
             then (takeWhile (\<lambda>ch. ch \<notin> set ''/?#'') (drop 2 url), dropWhile (\<lambda>ch. ch \<notin> set ''/?#'') (drop 2 url))
             else ([], url))
      in if (CHR ''['' \<in> set netloc) \<noteq> (CHR '']'' \<in> set netloc) then None
         else Some (netloc, takeWhile (\<lambda>ch. ch \<notin> set ''?#'') rest))"

definition destination :: "site \<Rightarrow> request \<Rightarrow> string dav" where
  "destination c rq =
     (case sent rq ''Destination'' of
        None \<Rightarrow> fault 400
      | Some raw \<Rightarrow> (case urlsplit raw of
            None \<Rightarrow> toss (Eng ValueError)
          | Some (netloc, target) \<Rightarrow>
              (let pfx = st_prefix c @ ''/'' @ quote [] (st_volume c) in
               if netloc \<noteq> [] \<and> netloc \<noteq> rq_host rq then fault 502
               else if \<not> prefix pfx target then fault 502
               else give (norm_path True (drop (length pfx) target)))))"

definition do_copy_move :: "site \<Rightarrow> request \<Rightarrow> string \<Rightarrow> bool \<Rightarrow> response dav" where
  "do_copy_move c rq path moving =
     dav_bind (require (path \<noteq> ''/'') 403) (\<lambda>_.
     dav_bind (destination c rq) (\<lambda>dst.
     dav_bind (require (dst \<noteq> ''/'') 403) (\<lambda>_.
     dav_bind (require (dst \<noteq> path) 403) (\<lambda>_.
     dav_bind (if \<not> moving \<and> depth_of (rq_headers rq) = ''0''
        then dav_bind (eng (stat (st_mount c) path)) (\<lambda>info. require (\<not> is_dir info) 400) else give ()) (\<lambda>_.
     dav_bind (if moving
        then dav_bind (eng (stat (st_mount c) path)) (\<lambda>info. require_unlocked c rq path (is_dir info)) else give ()) (\<lambda>_.
     dav_bind (require_unlocked c rq dst False) (\<lambda>_.
     dav_bind (eng (stat (st_mount c) path)) (\<lambda>info.
     dav_bind (preconditions rq (Some info) False) (\<lambda>_.
     dav_bind (try_stat c dst) (\<lambda>old.
     dav_bind (case old of None \<Rightarrow> give ()
        | Some dst_info \<Rightarrow>
            dav_bind (require (overwrite (rq_headers rq)) 412) (\<lambda>_. clear_path c dst_info dst)) (\<lambda>_.
     dav_bind (recast NotFound 409 (if moving then eng (move (st_mount c) path dst)
        else dav_bind (eng (copy (st_mount c) path dst)) (\<lambda>_. give ()))) (\<lambda>_.
     give (plain (if old \<noteq> None then 204 else 201))))))))))))))"

section \<open>LOCK and UNLOCK\<close>

definition lock_response :: "site \<Rightarrow> nat \<Rightarrow> dav_lock \<Rightarrow> string \<Rightarrow> response" where
  "lock_response c status lk url =
     \<lparr>rp_status = status,
      rp_headers = [(''Content-Type'', ''application/xml''), (''Lock-Token'', CHR ''<'' # dl_token lk @ ''>'')],
      rp_body = xml_doc (''<D:prop'' @ ns_attr @ ''>'' @ lockdiscovery lk url @ ''</D:prop>'')\<rparr>"

text \<open>The refresh of a lock: the first submitted token that names a lock of this volume.\<close>

fun refresh_first :: "site \<Rightarrow> int option \<Rightarrow> string list \<Rightarrow> response dav" where
  "refresh_first c timeout [] = fault 412"
| "refresh_first c timeout (token # rest) =
     dav_bind (reg_op (\<lambda>clock. get_by_token clock token)) (\<lambda>existing.
     case existing of
       Some lk \<Rightarrow>
         if dl_volume lk = st_volume c
         then dav_bind (reg_op (\<lambda>clock reg. (refresh_lock clock timeout lk, refresh_token clock timeout token reg))) (\<lambda>lk'.
              give (lock_response c 200 lk' (href (st_prefix c) (st_volume c) (dl_path lk) False)))
         else refresh_first c timeout rest
     | None \<Rightarrow> refresh_first c timeout rest)"

definition child_named :: "string \<Rightarrow> xml \<Rightarrow> xml option" where
  "child_named tag x = find (\<lambda>k. xm_tag k = tag) (kids x)"

definition dav_name :: "string \<Rightarrow> string" where
  "dav_name nm = CHR ''{'' # DAV_NS @ CHR ''}'' # nm"

definition owner_of :: "site \<Rightarrow> xml \<Rightarrow> string" where
  "owner_of c root =
     (case child_named (dav_name ''owner'') root of
        None \<Rightarrow> []
      | Some el \<Rightarrow> (let printed = concat (map (st_print c) (xm_kids el))
                     in if printed \<noteq> [] then printed else xml_escape (xm_text el)))"

text \<open>A LOCK on an unmapped URL makes an empty entry there: whether it did, and whether the target is a collection.\<close>

definition lock_target :: "site \<Rightarrow> string \<Rightarrow> (bool \<times> bool) dav" where
  "lock_target c path s =
     (case eng (stat (st_mount c) path) s of
        (Inr info, s') \<Rightarrow> (Inr (False, is_dir info), s')
      | (Inl (Eng e), s') \<Rightarrow>
          if e \<in> not_there \<and> path \<noteq> ''/''
          then dav_bind (recast NotFound 409 (eng (create_entry (st_lib c) (st_mount c) path [])))
                 (\<lambda>_. give (True, False)) s'
          else (Inl (Eng e), s')
      | (Inl x, s') \<Rightarrow> (Inl x, s'))"

definition acquire_op :: "site \<Rightarrow> string \<Rightarrow> string \<Rightarrow> string \<Rightarrow> int option \<Rightarrow> dav_lock dav" where
  "acquire_op c path depth owner_xml timeout s =
     (case acquire (dv_clock s) (dv_uuid s (dv_drawn s)) (st_volume c) path depth owner_xml timeout (dv_locks s) of
        (Inl holder, reg) \<Rightarrow> (Inl (Fault 423 [] []), s\<lparr>dv_locks := reg\<rparr>)
      | (Inr lk, reg) \<Rightarrow> (Inr lk, s\<lparr>dv_locks := reg, dv_drawn := Suc (dv_drawn s)\<rparr>))"

definition set_engine_lock :: "string \<Rightarrow> string \<Rightarrow> registry \<Rightarrow> registry" where
  "set_engine_lock token l reg = map (\<lambda>lk. if dl_token lk = token then lk\<lparr>dl_engine_lock := Some l\<rparr> else lk) reg"

definition engine_lock :: "site \<Rightarrow> string \<Rightarrow> dav_lock \<Rightarrow> unit dav" where
  "engine_lock c path lk s =
     (case eng (lock (st_mount c) path (Some (dl_timeout lk * 1000))) s of
        (Inr info, s') \<Rightarrow> (Inr (), s'\<lparr>dv_locks := set_engine_lock (dl_token lk) (li_id info) (dv_locks s')\<rparr>)
      | (Inl (Eng e), s') \<Rightarrow>
          if e = LockHeld
          then dav_bind (reg_op (\<lambda>clock. release clock (dl_token lk))) (\<lambda>_. fault 423) s'
          else (Inl (Eng e), s')
      | (Inl x, s') \<Rightarrow> (Inl x, s'))"

definition do_lock :: "site \<Rightarrow> request \<Rightarrow> string \<Rightarrow> response dav" where
  "do_lock c rq path =
     dav_bind (get_data rq) (\<lambda>raw.
     let depth = (if depth_of (rq_headers rq) \<noteq> ''0'' then ''infinity'' else ''0'');
         timeout = lock_timeout (rq_headers rq) in
     if blank_body raw then refresh_first c timeout (st_order c (submitted_tokens rq))
     else
       dav_bind (parse_xml c raw) (\<lambda>root.
       dav_bind (require (local_of root = ''lockinfo'') 400) (\<lambda>_.
       dav_bind (require (case child_named (dav_name ''lockscope'') root of None \<Rightarrow> True
          | Some scope \<Rightarrow> child_named (dav_name ''shared'') scope = None) 409) (\<lambda>_.
       dav_bind (lock_target c path) (\<lambda>(created, dir).
       dav_bind (acquire_op c path depth (owner_of c root) timeout) (\<lambda>lk.
       dav_bind (if dir then give () else engine_lock c path lk) (\<lambda>_.
       give (lock_response c (if created then 201 else 200) lk (href (st_prefix c) (st_volume c) path dir)))))))))"

definition do_unlock :: "site \<Rightarrow> request \<Rightarrow> string \<Rightarrow> response dav" where
  "do_unlock c rq path =
     (let raw = strip py_space (case rq_headers rq ''Lock-Token'' of None \<Rightarrow> [] | Some v \<Rightarrow> v);
          token = (if prefix ''<'' raw \<and> suffix ''>'' raw then butlast (tl raw) else raw) in
      dav_bind (require (token \<noteq> []) 400) (\<lambda>_.
      dav_bind (reg_op (\<lambda>clock. get_by_token clock token)) (\<lambda>existing.
      case existing of
        None \<Rightarrow> fault 409
      | Some lk \<Rightarrow>
          dav_bind (require (dl_volume lk = st_volume c) 409) (\<lambda>_.
          dav_bind (reg_op (\<lambda>clock. release clock token)) (\<lambda>_.
          dav_bind (case dl_engine_lock lk of None \<Rightarrow> give ()
             | Some l \<Rightarrow> if l = [] then give ()
                 else dav_bind (eng (attempt {LockInvalid, LockHeld} (unlock (st_mount c) l))) (\<lambda>_. give ())) (\<lambda>_.
          give (plain 204)))))))"

end
