(* ===== verification/DavFiles.thy ===== *)
theory DavFiles
  imports Dav Demo ByteFile
begin

text \<open>
  What the WebDAV verbs do to files: GET serves the bytes of the entry or of the range that
  was asked for, and PUT replaces them as a whole or not at all.
\<close>

section \<open>Steps of handlers\<close>

lemma eng_run:
  "eng m s = (fst (map_prod (map_sum Eng id) id (m (dv_db s))), s\<lparr>dv_db := snd (m (dv_db s))\<rparr>)"
  by (auto simp: eng_def split: prod.splits sum.splits)

lemma eng_same: "m (dv_db s) = (Inr x, dv_db s) \<Longrightarrow> eng m s = (Inr x, s)"
  by (simp add: eng_def)

lemma stat_keeps: "snd (stat mount path s) = s"
  using require_mount_reads [of mount False s]
  by (auto simp: stat_def stat_by_id_def bind_op_def resolve_op_def get_sum_def get_opt_def split: prod.splits sum.splits option.splits)

lemma find_op_run:
  "find_op c path s = (Inr (fst (find_lock (dv_clock s) (st_volume c) path (dv_locks s))),
     s\<lparr>dv_locks := reap (dv_clock s) (dv_locks s)\<rparr>)"
  by (simp add: find_op_def reg_op_def find_lock_def Let_def)

definition may_write :: "site \<Rightarrow> request \<Rightarrow> string \<Rightarrow> dav_srv \<Rightarrow> bool" where
  "may_write c rq path s \<longleftrightarrow>
     (case fst (find_lock (dv_clock s) (st_volume c) path (dv_locks s)) of
        None \<Rightarrow> True | Some lk \<Rightarrow> dl_token lk \<in> submitted_tokens rq)"

lemma require_unlocked_run:
  "require_unlocked c rq path False s =
     (if may_write c rq path s then Inr () else Inl (Fault 423 [] []),
      s\<lparr>dv_locks := reap (dv_clock s) (dv_locks s)\<rparr>)"
  by (simp add: require_unlocked_def Let_def dav_bind_simps(1) [OF find_op_run] may_write_def require_def
      dav_bind_def give_def toss_def)

section \<open>GET\<close>

lemma file_stat:
  assumes "file_at L U cs s mount path n B"
  shows "\<exists>info v. stat mount path s = (Inr info, s) \<and> \<not> is_dir info \<and> ni_id info = n
     \<and> ni_size info = Some (length B) \<and> ni_version info = Some v"
proof -
  from assms obtain m r where leaf: "leaf_for_write mount path s = (Inr (m, n), s)"
    and c: "content_at (tabs s) n = Some r" "ct_size r = length B"
    by (auto simp: file_at_def content_is_def)
  from resolve_leaf_ro [OF leaf_for_write_leaf [OF leaf]] obtain q where
    q: "require_mount mount False s = (Inr m, s)" "resolve (tabs s) (m_point m) path = Inr q"
    "rs_type q \<noteq> CONTAINER" "rs_node q = n"
    by (auto simp: resolve_leaf_iff)
  from resolved_node_exists [OF q(2)] obtain nr where nr: "node_at (tabs s) n = Some nr" "nd_type nr = rs_type q"
    unfolding q(4) by blast
  then have "nd_id nr = n" by (auto dest: row_at_SomeD)
  then have "stat mount path s = (Inr (node_info_of (tabs s) nr), s)"
    using q nr by (simp add: stat_def stat_by_id_def op_simps resolve_op_def get_opt_def)
  then show ?thesis using c q(3) nr \<open>nd_id nr = n\<close> by (simp add: node_info_of_def Let_def is_dir_def)
qed

lemma take_rest:
  "j \<le> k \<Longrightarrow> take j X @ take (k - length (take j X)) (drop (length (take j X)) X) = take k X"
proof (cases "length X \<le> j")
  case False
  assume "j \<le> k"
  with False have "length (take j X) = j" "k = j + (k - j)" by simp_all
  then show ?thesis by (metis take_add)
qed simp

lemma send_ok:
  assumes "reader_on L cs s d n B"
  shows "\<exists>d'. send L k d s = (take k (drop (d_pos d) B), d', s) \<and> reader_on L cs s d' n B"
  using assms
proof (induction k arbitrary: d rule: less_induct)
  case (less k)
  show ?case
  proof (cases "k = 0")
    case True
    then show ?thesis using less.prems by (subst send.simps) simp
  next
    case False
    let ?j = "min STREAM_CHUNK k" and ?chunk = "take (min STREAM_CHUNK k) (drop (d_pos d) B)"
    from d_read_ok [OF less.prems, of "Some ?j"] obtain d1 where
      d1: "d_read L (Some ?j) d s = (Inr ?chunk, d1, s)" "reader_on L cs s d1 n B" "d_pos d1 = d_pos d + length ?chunk"
      by (auto simp: served_def)
    show ?thesis
    proof (cases "?chunk = []")
      case True
      then have "drop (d_pos d) B = []" using False by (auto simp: STREAM_CHUNK_def)
      with d1 True False show ?thesis by (subst send.simps) simp
    next
      case ne: False
      then have "k - length ?chunk < k" using False by (simp add: STREAM_CHUNK_def)
      from less.IH [OF this d1(2)] obtain d2 where
        d2: "send L (k - length ?chunk) d1 s = (take (k - length ?chunk) (drop (d_pos d1) B), d2, s)" "reader_on L cs s d2 n B"
        by blast
      have "?chunk @ take (k - length ?chunk) (drop (d_pos d1) B) = take k (drop (d_pos d) B)"
        unfolding d1(3) using take_rest [of ?j k "drop (d_pos d) B"] by (simp add: add.commute)
      with d1 d2 ne False show ?thesis by (subst send.simps) (auto simp: Let_def)
    qed
  qed
qed

definition unconditional :: "request \<Rightarrow> bool" where
  "unconditional rq \<longleftrightarrow> rq_headers rq ''If-Match'' = None \<and> rq_headers rq ''If-None-Match'' = None"

lemma preconditions_pass [op_simps]:
  "unconditional rq \<Longrightarrow> preconditions rq info is_read s = (Inr False, s)"
  by (simp add: unconditional_def preconditions_def check_preconditions_def op_simps)

lemma after_preconditions [op_simps]:
  "unconditional rq \<Longrightarrow> dav_bind (preconditions rq info is_read) f s = f False s"
  by (simp add: dav_bind_def preconditions_pass)

text \<open>The bytes of a range, and the range a request with the tag of \<open>prev\<close> in If-Range gets.\<close>

definition slice :: "(nat \<times> nat) option \<Rightarrow> bytes \<Rightarrow> bytes" where
  "slice rng B = (case rng of None \<Rightarrow> B | Some (a, b) \<Rightarrow> take (b - a + 1) (drop a B))"

definition same_version :: "node_info option \<Rightarrow> node_info \<Rightarrow> bool" where
  "same_version prev info \<longleftrightarrow>
     (case prev of None \<Rightarrow> True | Some i \<Rightarrow> ni_id i = ni_id info \<and> ni_version i = ni_version info)"

lemma range_of_run:
  assumes "ni_size info = Some k" and "ni_version info \<noteq> None" and "CHR 0x22 \<notin> set (ni_id info)"
    and "sent rq ''If-Range'' = map_option etag prev"
    and prev: "\<forall>i. prev = Some i \<longrightarrow> ni_version i \<noteq> None \<and> CHR 0x22 \<notin> set (ni_id i)"
    and "parse_range (rq_headers rq) k = Inr rng"
  shows "range_of rq info s = (Inr (if same_version prev info then rng else None), s)"
proof (cases prev)
  case None
  with assms show ?thesis by (auto simp: range_of_def or_else_def same_version_def op_simps)
next
  case (Some i)
  with prev have i: "ni_version i \<noteq> None" "CHR 0x22 \<notin> set (ni_id i)" by auto
  have "etag_matches [(False, opaque_tag i)] (Some (etag info)) True \<longleftrightarrow> same_version prev info"
    using etag_compares [OF i(1) assms(2) i(2) assms(3)] Some by (simp add: same_version_def)
  with assms Some strong_etag_list(1) [OF i] show ?thesis
    by (auto simp: range_of_def or_else_def op_simps)
qed

lemma stream_body_ok:
  assumes "reader_on (st_lib c) cs (dv_db s) d n B"
  shows "stream_body c len d s = (Inr (take len (drop (d_pos d) B)), s)"
proof -
  from send_ok [OF assms] obtain d' where
    d': "send (st_lib c) len d (dv_db s) = (take len (drop (d_pos d) B), d', dv_db s)"
      "reader_on (st_lib c) cs (dv_db s) d' n B" by blast
  then have "\<exists>r d''. d_exit (st_lib c) False d' (dv_db s) = (r, d'', dv_db s)"
    by (auto simp: d_exit_def d_close_def reader_on_def)
  with d'(1) show ?thesis by (auto simp: stream_body_def)
qed

lemma seek_ok:
  assumes "reader_on L cs s d n B"
  shows "\<exists>d'. d_seek (int k) SET d s = (Inr k, d', s) \<and> reader_on L cs s d' n B \<and> d_pos d' = k"
  using assms by (auto simp: d_seek_def reader_on_def Let_def)

lemma opened_at:
  assumes "file_at (st_lib c) U cs (dv_db s) (st_mount c) path n B"
  shows "\<exists>d d'. eng (open_read (st_mount c) path) s = (Inr d, s\<lparr>dv_db := (dv_db s)\<lparr>draws := draws (dv_db s) + 4\<rparr>\<rparr>)
     \<and> (if k \<noteq> 0 then dav_bind (desc (d_seek (int k) SET) d) (\<lambda>(_, d). give d) else give d)
         (s\<lparr>dv_db := (dv_db s)\<lparr>draws := draws (dv_db s) + 4\<rparr>\<rparr>) = (Inr d', s\<lparr>dv_db := (dv_db s)\<lparr>draws := draws (dv_db s) + 4\<rparr>\<rparr>)
     \<and> stream_body c len d' (s\<lparr>dv_db := (dv_db s)\<lparr>draws := draws (dv_db s) + 4\<rparr>\<rparr>)
         = (Inr (take len (drop k B)), s\<lparr>dv_db := (dv_db s)\<lparr>draws := draws (dv_db s) + 4\<rparr>\<rparr>)"
proof -
  let ?s' = "s\<lparr>dv_db := (dv_db s)\<lparr>draws := draws (dv_db s) + 4\<rparr>\<rparr>"
  from open_read_ok [OF assms] obtain d where
    d: "open_read (st_mount c) path (dv_db s) = (Inr d, dv_db ?s')" "d_pos d = 0" "reader_on (st_lib c) cs (dv_db ?s') d n B" by auto
  have "\<exists>d'. (if k \<noteq> 0 then dav_bind (desc (d_seek (int k) SET) d) (\<lambda>(_, d). give d) else give d) ?s' = (Inr d', ?s')
      \<and> reader_on (st_lib c) cs (dv_db ?s') d' n B \<and> d_pos d' = k"
    using seek_ok [OF d(3), of k] d(2,3) by (auto simp: desc_def dav_bind_def op_simps)
  then obtain d' where
    d': "(if k \<noteq> 0 then dav_bind (desc (d_seek (int k) SET) d) (\<lambda>(_, d). give d) else give d) ?s' = (Inr d', ?s')"
      "reader_on (st_lib c) cs (dv_db ?s') d' n B" "d_pos d' = k" by blast
  moreover have "eng (open_read (st_mount c) path) s = (Inr d, ?s')" by (simp add: op_simps d(1))
  ultimately show ?thesis using stream_body_ok [OF d'(2), of len] by blast
qed

lemma do_get_ranged:
  assumes fl: "file_at (st_lib c) U cs (dv_db s) (st_mount c) path n B" and un: "unconditional rq"
    and st: "eng (stat (st_mount c) path) s = (Inr info, s)" and info: "\<not> is_dir info" "or_else (ni_size info) 0 = length B"
    and rng: "range_of rq info s = (Inr r, s)"
  shows "\<exists>resp. do_get c rq path True s = (Inr resp, s\<lparr>dv_db := (dv_db s)\<lparr>draws := draws (dv_db s) + 4\<rparr>\<rparr>)
     \<and> rp_body resp = slice r B \<and> rp_status resp = (if r \<noteq> None then 206 else 200)"
proof (cases r)
  case None
  from opened_at [OF fl, of 0 "length B"] None show ?thesis
    by (auto simp: do_get_def op_simps st info un rng slice_def Let_def)
next
  case (Some ab)
  obtain a b where ab: "ab = (a, b)" by fastforce
  from opened_at [OF fl, of a "b - a + 1"] obtain d d' where
    "eng (open_read (st_mount c) path) s = (Inr d, s\<lparr>dv_db := (dv_db s)\<lparr>draws := draws (dv_db s) + 4\<rparr>\<rparr>)"
    "(if a \<noteq> 0 then dav_bind (desc (d_seek (int a) SET) d) (\<lambda>(_, d). give d) else give d)
         (s\<lparr>dv_db := (dv_db s)\<lparr>draws := draws (dv_db s) + 4\<rparr>\<rparr>) = (Inr d', s\<lparr>dv_db := (dv_db s)\<lparr>draws := draws (dv_db s) + 4\<rparr>\<rparr>)"
    "stream_body c (b - a + 1) d' (s\<lparr>dv_db := (dv_db s)\<lparr>draws := draws (dv_db s) + 4\<rparr>\<rparr>)
         = (Inr (take (b - a + 1) (drop a B)), s\<lparr>dv_db := (dv_db s)\<lparr>draws := draws (dv_db s) + 4\<rparr>\<rparr>)" by blast
  then show ?thesis
    by (simp add: do_get_def op_simps st info un rng slice_def Some ab Let_def)
qed

text \<open>C37
  A plain GET of a file serves exactly its bytes, and a satisfiable range exactly the bytes of
  the range. A resumed download never splices two versions: with the entity tag of an earlier
  look at some entry in If-Range, the range is served iff that look was at this version of
  this entry, and else the whole file is.
\<close>

theorem dav_get_serves:
  assumes fl: "file_at (st_lib c) U cs (dv_db s) (st_mount c) path n B" and un: "unconditional rq"
    and quote: "CHR 0x22 \<notin> set n" and ir: "sent rq ''If-Range'' = map_option etag prev"
    and prev: "\<forall>i. prev = Some i \<longrightarrow> ni_version i \<noteq> None \<and> CHR 0x22 \<notin> set (ni_id i)"
    and rng: "parse_range (rq_headers rq) (length B) = Inr rng"
  shows "\<exists>info resp s'. stat (st_mount c) path (dv_db s) = (Inr info, dv_db s) \<and> do_get c rq path True s = (Inr resp, s')
     \<and> rp_body resp = slice (if same_version prev info then rng else None) B
     \<and> rp_status resp = (if same_version prev info \<and> rng \<noteq> None then 206 else 200)
     \<and> file_at (st_lib c) U cs (dv_db s') (st_mount c) path n B"
proof -
  from file_stat [OF fl] obtain info v where
    info: "stat (st_mount c) path (dv_db s) = (Inr info, dv_db s)" "\<not> is_dir info" "ni_id info = n"
      "ni_size info = Some (length B)" "ni_version info = Some v" by blast
  have "eng (stat (st_mount c) path) s = (Inr info, s)" using info(1) by (intro eng_same)
  moreover have "range_of rq info s = (Inr (if same_version prev info then rng else None), s)"
    by (rule range_of_run) (use info quote ir prev rng in auto)
  moreover have "or_else (ni_size info) 0 = length B" by (simp add: info(4) or_else_def)
  ultimately have "\<exists>resp. do_get c rq path True s = (Inr resp, s\<lparr>dv_db := (dv_db s)\<lparr>draws := draws (dv_db s) + 4\<rparr>\<rparr>)
      \<and> rp_body resp = slice (if same_version prev info then rng else None) B
      \<and> rp_status resp = (if (if same_version prev info then rng else None) \<noteq> None then 206 else 200)"
    using do_get_ranged [OF fl un _ info(2)] by blast
  then show ?thesis using info(1) file_at_draws [OF fl, of "draws (dv_db s) + 4"] by fastforce
qed

definition demo_site :: site where
  "demo_site = \<lparr>st_lib = toy_lib, st_prefix = ''/dav'', st_volume = ''v'', st_mount = ''m'', st_guess_type = (\<lambda>_. None),
     st_parse = (\<lambda>_. None), st_print = (\<lambda>_. []), st_order = (\<lambda>_. []), st_seconds = (\<lambda>ns. ns div 1000000000)\<rparr>"

definition demo_srv :: dav_srv where
  "demo_srv = \<lparr>dv_db = demo, dv_locks = [], dv_clock = 0, dv_uuid = show_nat, dv_drawn = 0\<rparr>"

definition demo_request :: "(string \<rightharpoonup> string) \<Rightarrow> bytes list \<Rightarrow> bool \<Rightarrow> request" where
  "demo_request headers body gone = \<lparr>rq_method = ''GET'', rq_headers = headers, rq_host = ''h'', rq_body = body, rq_cut = gone\<rparr>"

lemma demo_srv_file: "file_at (st_lib demo_site) UNIV 4 (dv_db demo_srv) (st_mount demo_site) ''/a'' ''f'' [1, 2, 3, 4, 5]"
  using demo_file(1) by (simp add: demo_site_def demo_srv_def)

theorem dav_get_serves_witness:
  "\<exists>resp s'. do_get demo_site (demo_request [''Range'' \<mapsto> ''bytes='' @ show_nat 1 @ ''-'' @ show_nat 2] [] False) ''/a'' True demo_srv
     = (Inr resp, s') \<and> rp_body resp = [2, 3] \<and> rp_status resp = 206"
proof -
  let ?rq = "demo_request [''Range'' \<mapsto> ''bytes='' @ show_nat 1 @ ''-'' @ show_nat 2] [] False"
  have "unconditional ?rq" "sent ?rq ''If-Range'' = map_option etag None" "CHR 0x22 \<notin> set ''f''"
    by (simp_all add: unconditional_def demo_request_def sent_def)
  moreover have "parse_range (rq_headers ?rq) (length [1, 2, 3, 4, 5 :: byte]) = Inr (Some (1, 2))"
    using parse_range_shown [of 1 2 "length [1, 2, 3, 4, 5 :: byte]"] by (simp add: demo_request_def)
  ultimately show ?thesis
    using dav_get_serves [OF demo_srv_file, of ?rq None "Some (1, 2)"]
    by (auto simp: slice_def same_version_def eval_nat_numeral)
qed

section \<open>PUT\<close>

lemma eng_attempt_some:
  "m (dv_db s) = (Inr x, dv_db s) \<Longrightarrow> eng (attempt es m) s = (Inr (Some x), s)"
  by (simp add: eng_def attempt_def)

lemma recast_ok: "m s = (Inr x, s') \<Longrightarrow> recast e k m s = (Inr x, s')"
  by (simp add: recast_def)

lemma receive_run:
  assumes "d_write_list (st_lib c) (rq_body rq) d (dv_db s) = (Inr (), d1, t1)"
    and "d_exit (st_lib c) (rq_cut rq) d1 t1 = (Inr (), d2, t2)"
  shows "receive c rq d s = (if rq_cut rq then Inl Disconnected else Inr (), s\<lparr>dv_db := t2\<rparr>)"
  using assms by (cases "rq_cut rq") (simp_all add: receive_def)

lemma do_put_existing:
  assumes st: "stat (st_mount c) path (dv_db s) = (Inr info, dv_db s)" and info: "\<not> is_dir info"
    and path: "path \<noteq> ''/''" and cr: "sent rq ''Content-Range'' = None" and un: "unconditional rq"
    and mw: "may_write c rq path s"
    and ow: "open_write (st_lib c) (st_mount c) path TRUNCATE None (dv_db s) = (Inr d, t0)"
    and wr: "d_write_list (st_lib c) (rq_body rq) d t0 = (Inr (), d1, t1)"
    and ex: "d_exit (st_lib c) (rq_cut rq) d1 t1 = (Inr (), d2, t2)"
    and st2: "stat (st_mount c) path t2 = (Inr info2, t2)"
  shows "do_put c rq path s =
     (if rq_cut rq then Inl Disconnected else Inr \<lparr>rp_status = 204, rp_headers = [(''ETag'', etag info2)], rp_body = []\<rparr>,
      s\<lparr>dv_locks := reap (dv_clock s) (dv_locks s), dv_db := t2\<rparr>)"
proof -
  let ?s1 = "s\<lparr>dv_locks := reap (dv_clock s) (dv_locks s)\<rparr>"
  have 1: "try_stat c path s = (Inr (Some info), s)" unfolding try_stat_def using st by (intro eng_attempt_some)
  have 2: "require_unlocked c rq path False s = (Inr (), ?s1)" using mw by (simp add: require_unlocked_run)
  have 3: "recast NotFound 409 (eng (open_write (st_lib c) (st_mount c) path TRUNCATE None)) ?s1 = (Inr d, ?s1\<lparr>dv_db := t0\<rparr>)"
    by (rule recast_ok) (simp add: op_simps ow)
  have 4: "receive c rq d (?s1\<lparr>dv_db := t0\<rparr>) = (if rq_cut rq then Inl Disconnected else Inr (), ?s1\<lparr>dv_db := t2\<rparr>)"
    using receive_run [of c rq d "?s1\<lparr>dv_db := t0\<rparr>"] wr ex by simp
  have 5: "eng (stat (st_mount c) path) (?s1\<lparr>dv_db := t2\<rparr>) = (Inr info2, ?s1\<lparr>dv_db := t2\<rparr>)"
    using st2 by (intro eng_same) simp
  show ?thesis using path cr info 4 5
    by (cases "rq_cut rq") (simp_all add: do_put_def op_simps 1 2 3 un)
qed

text \<open>C36
  A PUT over a file replaces its bytes as a whole or not at all: whatever pieces the body
  arrives in, a complete one leaves exactly its bytes in the file and answers 204, and one
  whose client disconnects leaves the old bytes; either way the file can be written again.
\<close>

theorem dav_put_replaces:
  assumes lib: "lib_ok (st_lib c)" and fl: "file_at (st_lib c) U cs (dv_db s) (st_mount c) path n B"
    and keys: "distinct (map mt_id (mounts (tabs (dv_db s))))" and fresh: "lock_at (tabs (dv_db s)) (next_id (dv_db s)) = None"
    and U: "fits U cs (concat (rq_body rq))" and path: "path \<noteq> ''/''" and cr: "sent rq ''Content-Range'' = None"
    and un: "unconditional rq" and mw: "may_write c rq path s"
  shows "\<exists>r s'. do_put c rq path s = (r, s')
     \<and> (if rq_cut rq then r = Inl Disconnected else (\<exists>resp. r = Inr resp \<and> rp_status resp = 204))
     \<and> file_at (st_lib c) U cs (dv_db s') (st_mount c) path n (if rq_cut rq then B else concat (rq_body rq))"
proof -
  have U': "fits U cs ((if TRUNCATE = APPEND then B else []) @ concat (rq_body rq))" using U by simp
  from stream_written [OF lib fl keys fresh U'] obtain d t0 d1 t1 where
    w: "open_write (st_lib c) (st_mount c) path TRUNCATE None (dv_db s) = (Inr d, t0)"
      "d_write_list (st_lib c) (rq_body rq) d t0 = (Inr (), d1, t1)"
    and c1: "\<exists>d2 t2. d_close (st_lib c) d1 t1 = (Inr (), d2, t2) \<and> file_at (st_lib c) U cs t2 (st_mount c) path n (concat (rq_body rq))"
    and c2: "\<exists>d2 t2. d_abort d1 t1 = (Inr (), d2, t2) \<and> file_at (st_lib c) U cs t2 (st_mount c) path n B"
    by auto
  have "\<exists>d2 t2. d_exit (st_lib c) (rq_cut rq) d1 t1 = (Inr (), d2, t2)
      \<and> file_at (st_lib c) U cs t2 (st_mount c) path n (if rq_cut rq then B else concat (rq_body rq))"
    using c1 c2 by (simp add: d_exit_def)
  then obtain d2 t2 where ex: "d_exit (st_lib c) (rq_cut rq) d1 t1 = (Inr (), d2, t2)"
    and fl2: "file_at (st_lib c) U cs t2 (st_mount c) path n (if rq_cut rq then B else concat (rq_body rq))" by blast
  from file_stat [OF fl] obtain info where info: "stat (st_mount c) path (dv_db s) = (Inr info, dv_db s)" "\<not> is_dir info" by blast
  from file_stat [OF fl2] obtain info2 where info2: "stat (st_mount c) path t2 = (Inr info2, t2)" by blast
  from do_put_existing [OF info path cr un mw w ex info2] fl2 show ?thesis by auto
qed

theorem dav_put_replaces_witness:
  "\<exists>resp s' s''. do_put demo_site (demo_request Map.empty [[7, 8], [9]] False) ''/a'' demo_srv = (Inr resp, s')
     \<and> rp_status resp = 204 \<and> read_all toy_lib ''m'' ''/a'' (dv_db s') = (Inr [7, 8, 9], dv_db s')
     \<and> do_put demo_site (demo_request Map.empty [[7, 8], [9]] True) ''/a'' demo_srv = (Inl Disconnected, s'')
     \<and> read_all toy_lib ''m'' ''/a'' (dv_db s'') = (Inr [1, 2, 3, 4, 5], dv_db s'')"
proof -
  have 1: "distinct (map mt_id (mounts (tabs (dv_db demo_srv))))" "lock_at (tabs (dv_db demo_srv)) (next_id (dv_db demo_srv)) = None"
    by (simp_all add: demo_srv_def demo_def demo_tables_def demo_mount_def)
  have 2: "lib_ok (st_lib demo_site)" using toy_lib_ok by (simp add: demo_site_def)
  let ?rq = "demo_request Map.empty [[7, 8], [9]]"
  have 3: "sent (?rq b) ''Content-Range'' = None" "unconditional (?rq b)" "may_write demo_site (?rq b) ''/a'' demo_srv" for b
    by (simp_all add: demo_request_def sent_def unconditional_def may_write_def demo_srv_def find_lock_def live_def reap_def)
  have 4: "fits UNIV 4 (concat (rq_body (?rq b)))" for b by (simp add: fits_UNIV)
  show ?thesis
    using dav_put_replaces [OF 2 demo_srv_file 1 4 _ 3, of False] dav_put_replaces [OF 2 demo_srv_file 1 4 _ 3, of True]
      file_at_read [of toy_lib UNIV 4 _ "''m''" "''/a''"]
    by (simp add: demo_request_def demo_site_def) blast
qed

end
