(* ===== verification/DavGuards.thy ===== *)
theory DavGuards
  imports DavFiles
begin

text \<open>
  The lock of another WebDAV client keeps every writing verb away from the volume: what runs
  before the check only reads, and the check refuses.
\<close>

section \<open>Locks of other clients\<close>

text \<open>Steps that leave the volume alone, and the locks but for expired ones.\<close>

definition kept :: "dav_srv \<Rightarrow> dav_srv \<Rightarrow> bool" where
  "kept s s' \<longleftrightarrow> dv_db s' = dv_db s \<and> dv_clock s' = dv_clock s \<and> reap (dv_clock s) (dv_locks s') = reap (dv_clock s) (dv_locks s)"

definition calm :: "'a dav \<Rightarrow> bool" where
  "calm m \<longleftrightarrow> (\<forall>s. kept s (snd (m s)))"

definition blocked :: "'a dav \<Rightarrow> dav_srv \<Rightarrow> bool" where
  "blocked m s \<longleftrightarrow> (\<exists>e. fst (m s) = Inl e) \<and> kept s (snd (m s))"

named_theorems calms \<open>steps that leave the volume alone\<close>

lemma kept_refl [simp]: "kept s s"
  by (simp add: kept_def)

lemma kept_trans: "kept s s' \<Longrightarrow> kept s' s'' \<Longrightarrow> kept s s''"
  by (simp add: kept_def)

lemma reap_reap [simp]: "reap c (reap c reg) = reap c reg"
  by (simp add: reap_def)

lemma calm_basic [calms]: "calm (give x)" "calm (toss e)" "calm (require b k)" "calm (faulty r)"
  by (auto simp: calm_def give_def toss_def require_def faulty_def split: sum.splits)

lemma calm_bind [calms]: "calm m \<Longrightarrow> (\<And>x. calm (f x)) \<Longrightarrow> calm (dav_bind m f)"
  by (auto simp: calm_def dav_bind_def split: prod.splits sum.splits
      intro: kept_trans)

lemma calm_if [calms]: "calm m \<Longrightarrow> calm m' \<Longrightarrow> calm (if b then m else m')"
  by simp

lemma calm_eng: "(\<And>s. snd (m s) = s) \<Longrightarrow> calm (eng m)"
  by (auto simp: calm_def eng_run)

lemma calm_stat [calms]: "calm (eng (stat mount path))" "calm (try_stat c path)"
proof -
  show "calm (eng (stat mount path))" by (rule calm_eng) (rule stat_keeps)
  have "snd (attempt not_there (stat (st_mount c) path) s) = s" for s
    using stat_keeps [of "st_mount c" path s] by (auto simp: attempt_def split: prod.splits sum.splits)
  then show "calm (try_stat c path)" unfolding try_stat_def by (rule calm_eng)
qed

lemma calm_find [calms]: "calm (find_op c path)"
  by (simp add: calm_def find_op_run kept_def)

lemma calm_covered [calms]: "calm (reg_op (\<lambda>clock. covered_by_subtree clock v path))"
  by (simp add: calm_def reg_op_def covered_by_subtree_def Let_def kept_def)

lemma calm_request [calms]: "calm (get_data rq)" "calm (parse_xml c raw)" "calm (preconditions rq info rd)" "calm (destination c rq)"
  by (auto simp: get_data_def parse_xml_def preconditions_def destination_def Let_def split: option.splits intro!: calms)

lemma calm_unlocked [calms]: "calm (require_unlocked c rq path deep)"
  unfolding require_unlocked_def Let_def by (intro calms)

lemma blocked_first: "blocked m s \<Longrightarrow> blocked (dav_bind m f) s"
  by (auto simp: blocked_def dav_bind_def split: prod.splits sum.splits)

lemma blocked_after:
  assumes "calm m" and "\<And>x s'. m s = (Inr x, s') \<Longrightarrow> kept s s' \<Longrightarrow> blocked (f x) s'"
  shows "blocked (dav_bind m f) s"
proof (cases "m s")
  case (Pair r s')
  have k: "kept s s'" using assms(1) Pair by (metis calm_def snd_conv)
  show ?thesis
  proof (cases r)
    case (Inl e)
    with Pair k show ?thesis by (simp add: blocked_def dav_bind_def)
  next
    case (Inr x)
    with assms(2) [of x s'] Pair k show ?thesis by (auto simp: blocked_def dav_bind_def intro: kept_trans)
  qed
qed

lemma may_write_kept: "kept s s' \<Longrightarrow> may_write c rq path s' = may_write c rq path s"
  by (simp add: may_write_def kept_def find_lock_def Let_def)

lemma blocked_unlocked: "\<not> may_write c rq path s \<Longrightarrow> blocked (require_unlocked c rq path deep) s"
  by (cases deep) (auto simp: blocked_def require_unlocked_def Let_def may_write_def dav_bind_def find_op_run require_def give_def toss_def
      kept_def reg_op_def split: option.splits prod.splits)

lemmas blocked_rules = blocked_first [OF blocked_unlocked] blocked_after

lemma put_blocked: "\<not> may_write c rq path s \<Longrightarrow> blocked (do_put c rq path) s"
  unfolding do_put_def by (intro blocked_rules calms) (simp_all add: may_write_kept)

lemma mkcol_blocked: "\<not> may_write c rq path s \<Longrightarrow> blocked (do_mkcol c rq path) s"
  unfolding do_mkcol_def by (intro blocked_rules calms) (simp_all add: may_write_kept)

lemma proppatch_blocked: "\<not> may_write c rq path s \<Longrightarrow> blocked (do_proppatch c rq path) s"
  unfolding do_proppatch_def by (intro blocked_rules calms) (simp_all add: may_write_kept)

lemma delete_blocked: "\<not> may_write c rq path s \<Longrightarrow> blocked (do_delete c rq path) s"
  unfolding do_delete_def by (intro blocked_rules calms) (simp_all add: may_write_kept)

text \<open>A collection is moved or deleted with everything below it.\<close>

definition may_clear :: "site \<Rightarrow> request \<Rightarrow> string \<Rightarrow> dav_srv \<Rightarrow> bool" where
  "may_clear c rq path s \<longleftrightarrow> may_write c rq path s
     \<and> (\<forall>lk \<in> set (fst (covered_by_subtree (dv_clock s) (st_volume c) path (dv_locks s))). dl_token lk \<in> submitted_tokens rq)"

lemma may_clear_kept: "kept s s' \<Longrightarrow> may_clear c rq path s' = may_clear c rq path s"
  by (simp add: may_clear_def may_write_kept) (simp add: kept_def covered_by_subtree_def Let_def)

lemma blocked_subtree: "\<not> may_clear c rq path s \<Longrightarrow> blocked (require_unlocked c rq path True) s"
proof (cases "may_write c rq path s")
  case True
  assume "\<not> may_clear c rq path s"
  with True have "\<not> list_all (\<lambda>lk. dl_token lk \<in> submitted_tokens rq)
      (filter (\<lambda>lk. dl_path lk = path \<or> is_descendant (dl_path lk) path) (live (st_volume c) (reap (dv_clock s) (dv_locks s))))"
    by (simp add: may_clear_def covered_by_subtree_def Let_def list_all_iff)
  with True show ?thesis
    by (auto simp: blocked_def require_unlocked_def Let_def may_write_def dav_bind_def find_op_run require_def give_def toss_def
        kept_def reg_op_def covered_by_subtree_def split: option.splits)
qed (rule blocked_unlocked)

lemma stat_run: "fst (stat mount path (dv_db s)) = Inr info \<Longrightarrow> eng (stat mount path) s = (Inr info, s)"
  using stat_keeps [of mount path "dv_db s"] by (cases "stat mount path (dv_db s)") (auto simp: eng_def)

lemma blocked_step: "m s = (Inr x, s) \<Longrightarrow> blocked (f x) s \<Longrightarrow> blocked (dav_bind m f) s"
  by (simp add: blocked_def dav_bind_def)

lemma delete_subtree_blocked:
  assumes "fst (stat (st_mount c) path (dv_db s)) = Inr info" and "is_dir info" and "\<not> may_clear c rq path s"
  shows "blocked (do_delete c rq path) s"
proof -
  have "blocked (dav_bind (eng (stat (st_mount c) path)) (\<lambda>info. dav_bind (require_unlocked c rq path (is_dir info)) (k info))) s'"
    if "kept s s'" for s' k
  proof (rule blocked_step [OF stat_run])
    show "fst (stat (st_mount c) path (dv_db s')) = Inr info" using assms(1) that by (simp add: kept_def)
    show "blocked (dav_bind (require_unlocked c rq path (is_dir info)) (k info)) s'"
      using assms(2,3) that by (auto intro!: blocked_first blocked_subtree simp: may_clear_kept)
  qed
  then show ?thesis unfolding do_delete_def by (rule blocked_after [OF calm_basic(3)])
qed

lemma move_source_blocked:
  assumes "\<not> may_write c rq path s \<or> fst (stat (st_mount c) path (dv_db s)) = Inr info \<and> is_dir info \<and> \<not> may_clear c rq path s"
  shows "blocked (do_copy_move c rq path True) s"
proof -
  have "blocked (dav_bind (eng (stat (st_mount c) path)) (\<lambda>info. require_unlocked c rq path (is_dir info))) s'"
    if "kept s s'" for s'
    using assms
  proof
    assume "\<not> may_write c rq path s"
    with that show ?thesis by (intro blocked_after calms blocked_unlocked) (simp add: may_write_kept)
  next
    assume a: "fst (stat (st_mount c) path (dv_db s)) = Inr info \<and> is_dir info \<and> \<not> may_clear c rq path s"
    show ?thesis
    proof (rule blocked_step [OF stat_run])
      show "fst (stat (st_mount c) path (dv_db s')) = Inr info" using a that by (simp add: kept_def)
      show "blocked (require_unlocked c rq path (is_dir info)) s'"
        using a that by (auto intro!: blocked_subtree simp: may_clear_kept)
    qed
  qed
  then have b: "blocked (dav_bind (if True then dav_bind (eng (stat (st_mount c) path)) (\<lambda>info. require_unlocked c rq path (is_dir info))
      else give ()) f) s'" if "kept s s'" for s' and f :: "unit \<Rightarrow> response dav"
    using that by (intro blocked_first) simp
  show ?thesis unfolding do_copy_move_def
    by (rule blocked_after [OF calm_basic(3)], rule blocked_after [OF calm_request(4)], rule blocked_after [OF calm_basic(3)],
        rule blocked_after [OF calm_basic(3)], rule blocked_after, intro calms, rule b) (blast intro: kept_trans)
qed

lemma destination_blocked:
  assumes "destination c rq s = (Inr dst, s)" and "\<not> may_write c rq dst s"
  shows "blocked (do_copy_move c rq path moving) s"
proof -
  have "destination c rq s' = (Inr dst, s')" for s'
    using assms(1) by (auto simp: destination_def toss_def give_def Let_def split: option.splits if_splits)
  then have "destination c rq s' = (Inr x, s'') \<longleftrightarrow> x = dst \<and> s'' = s'" for x s' s'' by auto
  then show ?thesis using assms(2) unfolding do_copy_move_def
    by (intro blocked_rules calms) (simp_all add: may_write_kept)
qed



section \<open>A move that is not atomic\<close>

text \<open>
  The destination is cleared before the move is tried. Moving \<open>/dir/b\<close> onto \<open>/dir\<close> removes
  \<open>/dir\<close> with everything in it, the source too, and then answers 409.
\<close>

definition move_onto_parent :: "(dav_exn + response) \<times> dav_srv" where
  "move_onto_parent =
     do_copy_move demo_site (demo_request [''Destination'' \<mapsto> ''/dav/v/dir''] [] False) ''/dir/b'' True demo_srv"

lemma move_onto_parent_loses:
  "fst move_onto_parent = Inl (Fault 409 [] [])"
  "fst (stat ''m'' ''/dir/b'' (dv_db demo_srv)) \<noteq> Inl NotFound"
  "fst (stat ''m'' ''/dir'' (dv_db (snd move_onto_parent))) = Inl NotFound"
  "fst (stat ''m'' ''/dir/b'' (dv_db (snd move_onto_parent))) = Inl NotFound"
  by code_simp+

section \<open>Locks and resources out of step\<close>

text \<open>
  LOCK on an unmapped URL makes the entry before it asks the registry: refused with 423 under
  another client's lock, it leaves the entry behind. DELETE does not take the lock of what it
  deletes from the registry: the URL stays locked.
\<close>

definition lock_site :: site where
  "lock_site = demo_site\<lparr>st_parse := (\<lambda>_. Some (Elem ''{DAV:}lockinfo'' [] []))\<rparr>"

definition locked_srv :: "string \<Rightarrow> dav_srv" where
  "locked_srv path = demo_srv\<lparr>dv_locks := snd (acquire 0 ''0'' ''v'' path ''infinity'' [] None [])\<rparr>"

lemma refused_lock_leaves_entry:
  assumes rq: "\<not> rq_cut rq" "\<not> blank_body (concat (rq_body rq))" "parse_xml c (concat (rq_body rq)) s = (Inr root, s)"
      "local_of root = ''lockinfo''" "child_named (dav_name ''lockscope'') root = None"
    and new: "stat (st_mount c) path (dv_db s) = (Inl NotFound, dv_db s)" "path \<noteq> ''/''"
      "create_entry (st_lib c) (st_mount c) path [] (dv_db s) = (Inr n, d)"
    and held: "acquire (dv_clock s) (dv_uuid s (dv_drawn s)) (st_volume c) path
        (if depth_of (rq_headers rq) \<noteq> ''0'' then ''infinity'' else ''0'') (owner_of c root) (lock_timeout (rq_headers rq)) (dv_locks s)
        = (Inl holder, reg)"
  shows "do_lock c rq path s = (Inl (Fault 423 [] []), s\<lparr>dv_db := d, dv_locks := reg\<rparr>)"
proof -
  have "lock_target c path s = (Inr (True, False), s\<lparr>dv_db := d\<rparr>)"
    using new by (simp add: lock_target_def eng_def not_there_def dav_bind_def recast_def give_def)
  with rq held show ?thesis by (simp add: do_lock_def get_data_def op_simps acquire_op_def Let_def)
qed

definition deleted_locked :: "(dav_exn + response) \<times> dav_srv" where
  "deleted_locked = do_delete lock_site (demo_request [''If'' \<mapsto> ''(<opaquelocktoken:0>)''] [] False) ''/a'' (locked_srv ''/a'')"

lemma delete_leaves_lock:
  "map_sum id rp_status (fst deleted_locked) = Inr 204"
  "fst (stat ''m'' ''/a'' (dv_db (snd deleted_locked))) = Inl NotFound"
  "fst (do_put lock_site (demo_request Map.empty [[1]] False) ''/a'' (snd deleted_locked)) = Inl (Fault 423 [] [])"
  by code_simp+

end
