(* ===== verification/DavXml.thy ===== *)
theory DavXml
  imports Dav
begin

text \<open>
  What a client stores comes back as data: \<open>xml_unescape\<close> is an XML reader's view of character
  data, and neither escaped text nor a quoted attribute value can end before its end.
\<close>

definition entities :: "(string \<times> char) list" where
  "entities = [(''amp;'', CHR ''&''), (''lt;'', CHR ''<''), (''gt;'', CHR ''>''), (''quot;'', CHR 0x22),
     (''#10;'', CHR 0x0A), (''#13;'', CHR 0x0D), (''#9;'', CHR 0x09)]"

function xml_unescape :: "string \<Rightarrow> string" where
  "xml_unescape [] = []"
| "xml_unescape (c # s) =
     (if c = CHR ''&''
      then (case find (\<lambda>(e, x). prefix e s) entities of
              Some (e, x) \<Rightarrow> x # xml_unescape (drop (length e) s)
            | None \<Rightarrow> c # xml_unescape s)
      else c # xml_unescape s)"
  by pat_completeness auto
termination
  by (relation "measure length") auto

lemma unescape_concat:
  assumes "\<And>c r. xml_unescape (h c @ r) = c # xml_unescape r"
  shows "xml_unescape (concat (map h s)) = s"
  by (induction s) (simp_all add: assms)

lemma unescape_char: "xml_unescape (escape_char c @ r) = c # xml_unescape r"
  by (simp add: escape_char_def entities_def)

lemma unescape_attr: "xml_unescape (attr_char c @ r) = c # xml_unescape r"
  by (simp add: attr_char_def unescape_char) (simp add: entities_def)

abbreviation dq :: char where
  "dq \<equiv> CHR 0x22"

definition quot_char :: "char \<Rightarrow> string" where
  "quot_char c = (if c = dq then ''&quot;'' else [c])"

lemma unescape_quot: "xml_unescape (concat (map quot_char (attr_char c)) @ r) = c # xml_unescape r"
  by (simp add: quot_char_def attr_char_def escape_char_def entities_def)

lemma escaped_chars:
  "CHR ''<'' \<notin> set (escape_char c)" "CHR ''<'' \<notin> set (attr_char c)" "CHR ''<'' \<notin> set (concat (map quot_char (attr_char c)))"
  "dq \<notin> set (concat (map quot_char (attr_char c)))"
  by (simp_all add: quot_char_def attr_char_def escape_char_def)

lemma concat_map_concat: "concat (map f (concat (map g s))) = concat (map (\<lambda>c. concat (map f (g c))) s)"
  by (induction s) simp_all

text \<open>
  A namespace or a value that a client stores cannot break the XML it is sent back in: a quoted
  attribute value holds neither its own quote nor \<open><\<close> inside and reads back as the string, and
  so does escaped text.
\<close>

lemma markup_inert:
  "(\<exists>q v. quoteattr s = q # v @ [q] \<and> q \<in> {CHR 0x22, CHR 0x27} \<and> q \<notin> set v \<and> CHR ''<'' \<notin> set v \<and> xml_unescape v = s)
   \<and> CHR ''<'' \<notin> set (xml_escape s) \<and> xml_unescape (xml_escape s) = s"
proof -
  let ?data = "concat (map attr_char s)" and ?quoted = "concat (map quot_char (concat (map attr_char s)))"
  have q: "quoteattr s = (if dq \<in> set ?data then if CHR 0x27 \<in> set ?data then dq # ?quoted @ [dq]
      else CHR 0x27 # ?data @ [CHR 0x27] else dq # ?data @ [dq])"
    by (simp add: quoteattr_def Let_def quot_char_def [abs_def])
  have d: "CHR ''<'' \<notin> set ?data" "xml_unescape ?data = s"
    using escaped_chars(2) by (auto intro: unescape_concat unescape_attr)
  have "?quoted = concat (map (\<lambda>c. concat (map quot_char (attr_char c))) s)" by (rule concat_map_concat)
  then have e: "dq \<notin> set ?quoted" "CHR ''<'' \<notin> set ?quoted" "xml_unescape ?quoted = s"
    using escaped_chars(3,4) unescape_concat [OF unescape_quot] by (auto simp del: set_concat) (auto simp: set_concat)
  have "\<exists>q v. quoteattr s = q # v @ [q] \<and> q \<in> {CHR 0x22, CHR 0x27} \<and> q \<notin> set v \<and> CHR ''<'' \<notin> set v \<and> xml_unescape v = s"
    unfolding q using d e by auto
  moreover have "CHR ''<'' \<notin> set (xml_escape s)" using escaped_chars(1) by (auto simp: xml_escape_def)
  moreover have "xml_unescape (xml_escape s) = s" unfolding xml_escape_def by (rule unescape_concat) (rule unescape_char)
  ultimately show ?thesis by blast
qed

end
