(* ===== verification/Direct.thy ===== *)
theory Direct
  imports Facade Store Demo
begin

text \<open>
  Held sessions (\<open>manager/engine/direct.py\<close>): one connection per unlocked volume and one engine
  mount per client on it.

  \<open>manager\<close> is the registry with what it works on: the files by path, the open sessions, the
  clocks, and how a connection that is opened next looks before it reads its file. A file may
  be open in several sessions; a connection sees the file's tables as they are when it is
  used. Every method runs under its locks, so it is one step and the races that the code
  re-checks for do not arise.
\<close>

section \<open>State\<close>

record direct_session =
  ds_path :: string
  ds_conn :: db
  ds_mount :: mount_id
  ds_session :: "session option"
  ds_clients :: "(string \<times> mount_id) list"
  ds_primary_token :: string

record manager =
  mg_lib :: crypto_lib
  mg_disk :: "string \<Rightarrow> tables"
  mg_sessions :: "(string \<times> direct_session) list"
  mg_now :: timestamp
  mg_sql_now :: timestamp
  mg_conn :: "nat \<Rightarrow> db"
  mg_opened :: nat

type_synonym 'a mgr = "manager \<Rightarrow> (manager_error + 'a) \<times> manager"

text \<open>A connection at the present time, on the file as it is.\<close>

definition on_disk :: "manager \<Rightarrow> string \<Rightarrow> db \<Rightarrow> db" where
  "on_disk g path conn = conn\<lparr>tabs := mg_disk g path, now := mg_now g, sql_now := mg_sql_now g\<rparr>"

definition open_conn :: "manager \<Rightarrow> string \<Rightarrow> db" where
  "open_conn g path = on_disk g path ((mg_conn g (mg_opened g))
     \<lparr>mints := Map.empty, pending_wm := [], in_txn := False, cipher_of := IdentityCipher, session_of := None\<rparr>)"

definition flush_conn :: "string \<Rightarrow> db \<Rightarrow> manager \<Rightarrow> manager" where
  "flush_conn path conn g = g\<lparr>mg_disk := (mg_disk g)(path := tabs conn)\<rparr>"

definition put_session :: "string \<Rightarrow> direct_session \<Rightarrow> manager \<Rightarrow> manager" where
  "put_session vid e g = (flush_conn (ds_path e) (ds_conn e) g)\<lparr>mg_sessions := AList.update vid e (mg_sessions g)\<rparr>"

definition session_at :: "manager \<Rightarrow> string \<Rightarrow> direct_session option" where
  "session_at g vid = map_of (mg_sessions g) vid"

section \<open>Tokens\<close>

definition token_hex :: "bytes option \<Rightarrow> string op" where
  "token_hex t =
     (case t of Some b \<Rightarrow> if b \<noteq> [] then ret (hexdigest b)
                  else bind_op (random_bytes 16) (\<lambda>r. ret (hexdigest r))
      | None \<Rightarrow> bind_op (random_bytes 16) (\<lambda>r. ret (hexdigest r)))"

text \<open>The first client whose token compares equal; an absent or empty one matches none.\<close>

definition client_key :: "direct_session \<Rightarrow> string option \<Rightarrow> string option" where
  "client_key e token =
     (case token of None \<Rightarrow> None
      | Some t \<Rightarrow> if t = [] then None else find (\<lambda>k. k = t) (map fst (ds_clients e)))"

definition mount_error :: "fs_error \<Rightarrow> manager_error" where
  "mount_error e = (if e = BadKey then BadPin else if e = EncryptionRequired then EncryptionMismatch else MountFailed)"

text \<open>\<open>fs.mount(record.name, pin=pin, create=..., allow_overlap=True)\<close> and the token of the new mount.\<close>

definition client_mount :: "crypto_lib \<Rightarrow> string \<Rightarrow> bytes option \<Rightarrow> bool \<Rightarrow> (mount_id \<times> bytes option) op" where
  "client_mount L nm pin create = mount_named L nm ''/'' None pin create ''rw'' None True"

section \<open>Lifecycle\<close>

definition unlock_session_of :: "vol_record \<Rightarrow> bytes option \<Rightarrow> string \<Rightarrow> string mgr" where
  "unlock_session_of r pin path g =
     (if session_at g (vr_id r) \<noteq> None then (Inl AlreadyMounted, g)
      else let g1 = g\<lparr>mg_opened := Suc (mg_opened g)\<rparr> in
        case client_mount (mg_lib g) (vr_name r) pin True (open_conn g path) of
          (Inl e, conn) \<Rightarrow> (Inl (mount_error e), flush_conn path conn g1)
        | (Inr (mid, t), conn) \<Rightarrow>
            (case token_hex t conn of
               (Inl e, conn') \<Rightarrow> (Inl MountFailed, flush_conn path conn' g1)
             | (Inr token, conn') \<Rightarrow>
                 (Inr token, put_session (vr_id r) \<lparr>ds_path = path, ds_conn = conn', ds_mount = mid,
                    ds_session = session_of conn, ds_clients = [(token, mid)], ds_primary_token = token\<rparr> g1)))"

definition attach :: "vol_record \<Rightarrow> bytes option \<Rightarrow> string mgr" where
  "attach r pin g =
     (case session_at g (vr_id r) of
        None \<Rightarrow> (Inl NotMounted, g)
      | Some e \<Rightarrow>
          (case client_mount (mg_lib g) (vr_name r) pin False (on_disk g (ds_path e) (ds_conn e)) of
             (Inl x, conn) \<Rightarrow> (Inl (mount_error x), put_session (vr_id r) (e\<lparr>ds_conn := conn\<rparr>) g)
           | (Inr (mid, t), conn) \<Rightarrow>
               (case token_hex t conn of
                  (Inl x, conn') \<Rightarrow> (Inl MountFailed, put_session (vr_id r) (e\<lparr>ds_conn := conn'\<rparr>) g)
                | (Inr token, conn') \<Rightarrow>
                    (Inr token, put_session (vr_id r)
                       (e\<lparr>ds_conn := conn', ds_clients := AList.update token mid (ds_clients e)\<rparr>) g))))"

text \<open>\<open>try: mount.unmount() except Exception: pass\<close>\<close>

definition try_unmount :: "mount_id \<Rightarrow> db \<Rightarrow> db" where
  "try_unmount m conn = snd (unmount m conn)"

definition drop_session :: "string \<Rightarrow> direct_session \<Rightarrow> manager \<Rightarrow> manager" where
  "drop_session vid e g = (flush_conn (ds_path e) (ds_conn e) g)\<lparr>mg_sessions := AList.delete vid (mg_sessions g)\<rparr>"

definition detach :: "vol_record \<Rightarrow> string \<Rightarrow> bool mgr" where
  "detach r token g =
     (case session_at g (vr_id r) of
        None \<Rightarrow> (Inl NotMounted, g)
      | Some e \<Rightarrow>
          (case client_key e (Some token) of
             None \<Rightarrow> (Inl NotAuthorized, g)
           | Some k \<Rightarrow>
               let m = the (map_of (ds_clients e) k); clients = AList.delete k (ds_clients e);
                   conn = on_disk g (ds_path e) (ds_conn e); conn' = try_unmount m conn in
               if clients \<noteq> []
               then (Inr False, put_session (vr_id r) (e\<lparr>ds_clients := clients,
                      ds_conn := conn'\<lparr>cipher_of := cipher_of conn, session_of := session_of conn\<rparr>\<rparr>) g)
               else (Inr True, drop_session (vr_id r) (e\<lparr>ds_conn := conn'\<rparr>) g)))"

definition lock_session :: "vol_record \<Rightarrow> unit mgr" where
  "lock_session r g =
     (case session_at g (vr_id r) of
        None \<Rightarrow> (Inl NotMounted, g)
      | Some e \<Rightarrow> (Inr (), drop_session (vr_id r)
          (e\<lparr>ds_conn := fold try_unmount (map snd (ds_clients e)) (on_disk g (ds_path e) (ds_conn e))\<rparr>) g))"

fun shutdown_all :: "(string \<times> direct_session) list \<Rightarrow> manager \<Rightarrow> manager" where
  "shutdown_all [] g = g"
| "shutdown_all ((vid, e) # rest) g =
     shutdown_all rest (flush_conn (ds_path e)
       (fold try_unmount (map snd (ds_clients e)) (on_disk g (ds_path e) (ds_conn e))) g)"

definition shutdown :: "manager \<Rightarrow> manager" where
  "shutdown g = shutdown_all (mg_sessions g) (g\<lparr>mg_sessions := []\<rparr>)"

section \<open>Access\<close>

definition is_unlocked :: "manager \<Rightarrow> string \<Rightarrow> bool" where
  "is_unlocked g vid \<longleftrightarrow> session_at g vid \<noteq> None"

text \<open>The token that \<open>session\<close> is given: none at all, or what the client sent.\<close>

datatype presented = NoAuth | Token "string option"

definition session_mount :: "manager \<Rightarrow> string \<Rightarrow> presented \<Rightarrow> manager_error + mount_id" where
  "session_mount g vid token =
     (case session_at g vid of
        None \<Rightarrow> Inl NotMounted
      | Some e \<Rightarrow>
          (case token of
             NoAuth \<Rightarrow> Inr (ds_mount e)
           | Token t \<Rightarrow> (case client_key e t of None \<Rightarrow> Inl NotAuthorized
               | Some k \<Rightarrow> Inr (the (map_of (ds_clients e) k)))))"

text \<open>\<open>with registry.session(...) as m:\<close> around an operation with the mount.\<close>

definition with_session :: "string \<Rightarrow> presented \<Rightarrow> (mount_id \<Rightarrow> 'a op) \<Rightarrow> manager \<Rightarrow> (manager_error + fs_error + 'a) \<times> manager" where
  "with_session vid token f g =
     (case session_mount g vid token of
        Inl e \<Rightarrow> (Inl e, g)
      | Inr m \<Rightarrow>
          (let e = the (session_at g vid); (r, conn) = f m (on_disk g (ds_path e) (ds_conn e))
           in (Inr r, put_session vid (e\<lparr>ds_conn := conn\<rparr>) g)))"

section \<open>Clients do not disturb each other\<close>

text \<open>The connection a client's operations run on.\<close>

definition conn_of :: "manager \<Rightarrow> string \<Rightarrow> db option" where
  "conn_of g vid = map_option (\<lambda>e. on_disk g (ds_path e) (ds_conn e)) (session_at g vid)"

lemma session_at_put [simp]: "session_at (put_session vid e g) v = (if v = vid then Some e else session_at g v)"
  by (simp add: session_at_def put_session_def flush_conn_def update_conv')

lemma disk_put [simp]: "mg_disk (put_session vid e g) = (mg_disk g)(ds_path e := tabs (ds_conn e))"
  by (simp add: put_session_def flush_conn_def)

lemma clock_put [simp]: "mg_now (put_session vid e g) = mg_now g" "mg_sql_now (put_session vid e g) = mg_sql_now g"
  by (simp_all add: put_session_def flush_conn_def)

lemma unmount_run:
  "\<not> in_txn s \<Longrightarrow> pending_wm s = [] \<Longrightarrow> snd (unmount m s) =
     (let s1 = s\<lparr>tabs := set_mount_state m UNMOUNTED (tabs s)\<rparr> in
      if \<exists>x. session_of s = Some x \<and> ss_mount x = m then s1\<lparr>cipher_of := IdentityCipher, session_of := None\<rparr> else s1)"
  by (cases "session_of s") (auto simp: unmount_def txn_def bind_op_def sql_update_def gets_def install_def ret_def
      flush_watermarks_def Let_def)

lemma unmounted_list:
  "row_at mt_id m (filter (mount_live ts) (map (\<lambda>r. if mt_id r = k then r\<lparr>mt_state := UNMOUNTED\<rparr> else r) ms)) =
     (if m = k then None else row_at mt_id m (filter (mount_live ts) ms))"
proof -
  have "\<not> mount_live ts (r\<lparr>mt_state := UNMOUNTED\<rparr>)" for r by (simp add: mount_live_def)
  then show ?thesis by (induction ms) (auto simp: row_at_def)
qed

lemma unmounted_row:
  "row_at mt_id m (valid_mount ts (set_mount_state k UNMOUNTED t)) =
     (if m = k then None else row_at mt_id m (valid_mount ts t))"
  using unmounted_list [of m ts k "mounts t"] by (simp add: valid_mount_def set_mount_state_def)

lemma detach_run:
  assumes "session_at g (vr_id r) = Some e" and "client_key e (Some token) = Some k"
    and "AList.delete k (ds_clients e) \<noteq> []" and "\<not> in_txn (ds_conn e)" and "pending_wm (ds_conn e) = []"
  shows "\<exists>e'. detach r token g = (Inr False, put_session (vr_id r) e' g) \<and> ds_path e' = ds_path e \<and> ds_mount e' = ds_mount e
     \<and> ds_clients e' = AList.delete k (ds_clients e)
     \<and> ds_conn e' = (on_disk g (ds_path e) (ds_conn e))
          \<lparr>tabs := set_mount_state (the (map_of (ds_clients e) k)) UNMOUNTED (mg_disk g (ds_path e))\<rparr>"
  using assms unmount_run [of "on_disk g (ds_path e) (ds_conn e)"]
  by (auto simp: detach_def Let_def try_unmount_def on_disk_def)

lemma find_same: "find (\<lambda>k. k = t) ks = (if t \<in> set ks then Some t else None)"
  by (induction ks) auto

lemma client_key_eq:
  "client_key e (Some t) = (if t \<noteq> [] \<and> map_of (ds_clients e) t \<noteq> None then Some t else None)"
  by (simp add: client_key_def find_same map_of_eq_None_iff)

text \<open>C40
  Detaching one client leaves the others as they were: while another client remains, its token
  still leads to its own mount, and every check of that mount, the key of the volume
  included, comes out as before. The detached token leads nowhere, and the detached mount is
  refused from then on, also when it is the primary one that requests without a token use.
\<close>

theorem detach_leaves_others:
  assumes "session_at g (vr_id r) = Some e" and "map_of (ds_clients e) token = Some m" and "token \<noteq> []"
    and "map_of (ds_clients e) other = Some m'" and "other \<noteq> token" and "other \<noteq> []" and "m' \<noteq> m"
    and "\<not> in_txn (ds_conn e)" and "pending_wm (ds_conn e) = []"
  shows "\<exists>g' conn conn'. detach r token g = (Inr False, g') \<and> conn_of g (vr_id r) = Some conn \<and> conn_of g' (vr_id r) = Some conn'
     \<and> session_mount g' (vr_id r) (Token (Some other)) = Inr m' \<and> fst (require_mount m' w conn') = fst (require_mount m' w conn)
     \<and> session_mount g' (vr_id r) (Token (Some token)) = Inl NotAuthorized \<and> fst (require_mount m w conn') = Inl MountInvalid
     \<and> session_mount g' (vr_id r) NoAuth = session_mount g (vr_id r) NoAuth"
proof -
  let ?t = "mg_disk g (ds_path e)" and ?d = "AList.delete token (ds_clients e)"
  have k: "client_key e (Some token) = Some token"
    using assms(2,3) by (simp add: client_key_eq)
  have d: "map_of ?d other = Some m'" "map_of ?d token = None" using assms(4,5) by (simp_all add: delete_conv')
  then have ne: "?d \<noteq> []" by auto
  from detach_run [OF assms(1) k ne assms(8,9)] assms(2) obtain e' where
    g': "detach r token g = (Inr False, put_session (vr_id r) e' g)" and e': "ds_path e' = ds_path e" "ds_mount e' = ds_mount e"
      "ds_clients e' = ?d" "ds_conn e' = (on_disk g (ds_path e) (ds_conn e))\<lparr>tabs := set_mount_state m UNMOUNTED ?t\<rparr>"
    by auto
  let ?c = "on_disk g (ds_path e) (ds_conn e)" and ?c' = "(on_disk g (ds_path e) (ds_conn e))\<lparr>tabs := set_mount_state m UNMOUNTED ?t\<rparr>"
  have "conn_of (put_session (vr_id r) e' g) (vr_id r) = Some ?c'" by (simp add: conn_of_def e' on_disk_def)
  moreover have "conn_of g (vr_id r) = Some ?c" using assms(1) by (simp add: conn_of_def)
  moreover have v: "get_valid_mount x ?c' = (if x = m then None else get_valid_mount x ?c)" for x
    by (simp add: get_valid_mount_def unmounted_row on_disk_def) (simp add: set_mount_state_def cong: option.case_cong)
  have "fst (require_mount m' w ?c') = fst (require_mount m' w ?c)" "fst (require_mount m w ?c') = Inl MountInvalid"
    using assms(7) v by (auto simp: require_mount_def bind_op_def get_opt_def gets_def guard_op_def fail_def ret_def
        on_disk_def split: option.splits prod.splits)
  moreover have "session_mount (put_session (vr_id r) e' g) (vr_id r) (Token (Some other)) = Inr m'"
    using d(1) assms(6) by (simp add: session_mount_def e' client_key_eq)
  moreover have "session_mount (put_session (vr_id r) e' g) (vr_id r) (Token (Some token)) = Inl NotAuthorized"
    using d(2) by (simp add: session_mount_def e' client_key_eq)
  moreover have "session_mount (put_session (vr_id r) e' g) (vr_id r) NoAuth = session_mount g (vr_id r) NoAuth"
    using assms(1) by (simp add: session_mount_def e')
  ultimately show ?thesis using g' by blast
qed

definition demo_manager :: manager where
  "demo_manager = \<lparr>mg_lib = toy_lib, mg_disk = (\<lambda>_. demo_tables),
     mg_sessions = [(''v'', \<lparr>ds_path = ''/f'', ds_conn = demo, ds_mount = ''m'', ds_session = None,
       ds_clients = [(''t1'', ''m''), (''t2'', ''m2'')], ds_primary_token = ''t1''\<rparr>)],
     mg_now = now demo, mg_sql_now = sql_now demo, mg_conn = (\<lambda>_. demo), mg_opened = 0\<rparr>"

definition demo_record :: vol_record where
  "demo_record = old_record\<lparr>vr_id := ''v'', vr_name := ''v''\<rparr>"

theorem detach_leaves_others_witness:
  "\<exists>g'. detach demo_record ''t1'' demo_manager = (Inr False, g')
     \<and> session_mount g' ''v'' (Token (Some ''t2'')) = Inr ''m2'' \<and> session_mount g' ''v'' NoAuth = Inr ''m''"
  using detach_leaves_others [of demo_manager demo_record _ "''t1''" "''m''" "''t2''" "''m2''"]
  by (fastforce simp: demo_manager_def demo_record_def session_at_def session_mount_def demo_def)

section \<open>A refused client\<close>

text \<open>Operations whose failure keeps the connection's key and session.\<close>

definition keyed :: "cipher \<Rightarrow> session option \<Rightarrow> db \<Rightarrow> bool" where
  "keyed c ss s \<longleftrightarrow> cipher_of s = c \<and> session_of s = ss"

definition fails_keyed :: "'a op \<Rightarrow> bool" where
  "fails_keyed m \<longleftrightarrow> (\<forall>s e s'. m s = (Inl e, s') \<longrightarrow> cipher_of s' = cipher_of s \<and> session_of s' = session_of s)"

lemma fails_keyed_keeps: "(\<And>c ss. preserves (keyed c ss) m) \<Longrightarrow> fails_keyed m"
  by (auto simp: fails_keyed_def preserves_def keyed_def) (metis snd_conv)+

lemma fails_keyed_bind:
  assumes "\<And>c ss. preserves (keyed c ss) m" and "\<And>x. fails_keyed (f x)"
  shows "fails_keyed (bind_op m f)"
  unfolding fails_keyed_def
proof (intro allI impI)
  fix s e s'
  assume "bind_op m f s = (Inl e, s')"
  moreover have "cipher_of (snd (m s)) = cipher_of s \<and> session_of (snd (m s)) = session_of s"
    using assms(1) [of "cipher_of s" "session_of s"] by (simp add: preserves_def keyed_def)
  ultimately show "cipher_of s' = cipher_of s \<and> session_of s' = session_of s"
    using assms(2) by (auto simp: bind_op_eq_Inl fails_keyed_def)
qed

lemma fails_keyed_total:
  assumes "fails_keyed m" and "\<And>x s. fst (f x s) \<noteq> Inl (e :: fs_error) \<and> (\<exists>y. fst (f x s) = Inr y)"
  shows "fails_keyed (bind_op m f)"
  using assms by (auto simp: fails_keyed_def bind_op_eq_Inl) (metis fst_conv sum.distinct(1))+

lemma keyed_ops [preserving]:
  "preserves (keyed c ss) (sql f)" "preserves (keyed c ss) (sql_update h)" "preserves (keyed c ss) gen_id"
  "preserves (keyed c ss) (random_bytes k)" "preserves (keyed c ss) (draw k)" "preserves (keyed c ss) (resolve_op n p)"
  by (auto simp: preserves_def keyed_def sql_def sql_update_def gen_id_def random_bytes_def draw_def resolve_op_def get_sum_def
      split: sum.splits)

lemma unlock_session_fails: "fails_keyed (unlock_session L volume root crow mid n_m pin)"
proof -
  have "fails_keyed (install c ss)" for c ss by (simp add: fails_keyed_def install_def)
  then show ?thesis
    by (auto simp: unlock_session_def unlock_volume_def split: option.splits prod.splits
        intro!: fails_keyed_bind preserving intro: fails_keyed_keeps)
qed

lemma txn_fails: "fails_keyed m \<Longrightarrow> fails_keyed (txn m)"
  by (fastforce simp: fails_keyed_def txn_def split: if_splits prod.splits sum.splits)

lemma txn_failed_tabs: "txn m s = (Inl e, s') \<Longrightarrow> tabs s' = tabs s"
  by (auto simp: txn_def split: if_splits prod.splits sum.splits)

lemma mount_volume_fails: "fails_keyed (mount_volume L volume at_path ttl pin access who ov)"
proof -
  have "fails_keyed (bind_op (unlock_session L volume root crow mid n_m pin)
      (\<lambda>_. bind_op (sql_update (set_mount_state mid ACTIVE)) (\<lambda>_. ret mid)))" for root crow mid n_m
    by (rule fails_keyed_total [OF unlock_session_fails]) (simp add: bind_op_def sql_update_def ret_def)
  note tail = this
  have prod: "fails_keyed (case p of (a, b) \<Rightarrow> f a b)" if "\<And>a b. fails_keyed (f a b)"
    for p :: "volume_row \<times> node_id" and f :: "volume_row \<Rightarrow> node_id \<Rightarrow> mount_id op" using that by (cases p) simp
  show ?thesis unfolding mount_volume_def Let_def volume_with_root_def
    by (intro txn_fails prod tail fails_keyed_bind preserving)
qed

lemma client_mount_fails:
  assumes "client_mount L nm pin False s = (Inl e, s')"
  shows "tabs s' = tabs s \<and> cipher_of s' = cipher_of s \<and> session_of s' = session_of s"
proof -
  obtain v where "s' = s \<or> mount_volume L v ''/'' None pin ''rw'' None True s = (Inl e, s')"
    using assms by (auto simp: client_mount_def mount_named_def resolve_volume_name_def list_volumes_def bind_op_def gets_def ret_def fail_def
        split: option.splits if_splits prod.splits sum.splits)
  then show ?thesis
    using mount_volume_fails [of L v] txn_failed_tabs unfolding fails_keyed_def mount_volume_def by blast
qed

lemma token_hex_total: "\<exists>t s'. token_hex b s = (Inr t, s')"
  by (auto simp: token_hex_def random_bytes_def bind_op_def ret_def split: option.splits)

lemma attach_refused:
  assumes "attach r pin g = (Inl x, g')" and "session_at g (vr_id r) = Some e"
  shows "mg_disk g' = mg_disk g \<and> (\<exists>e'. session_at g' (vr_id r) = Some e' \<and> ds_clients e' = ds_clients e \<and> ds_mount e' = ds_mount e
       \<and> cipher_of (ds_conn e') = cipher_of (ds_conn e) \<and> session_of (ds_conn e') = session_of (ds_conn e))
     \<and> (\<forall>token. session_mount g' (vr_id r) token = session_mount g (vr_id r) token)
     \<and> (\<forall>m w. map_option (\<lambda>s. fst (require_mount m w s)) (conn_of g' (vr_id r)) =
          map_option (\<lambda>s. fst (require_mount m w s)) (conn_of g (vr_id r)))"
proof -
  let ?s = "on_disk g (ds_path e) (ds_conn e)"
  from assms obtain y conn where c: "client_mount (mg_lib g) (vr_name r) pin False ?s = (Inl y, conn)"
    and g': "g' = put_session (vr_id r) (e\<lparr>ds_conn := conn\<rparr>) g"
    using token_hex_total
    by (auto simp: attach_def split: prod.splits sum.splits) (metis Inr_Inl_False Pair_inject)+
  from client_mount_fails [OF c] have k: "tabs conn = mg_disk g (ds_path e)" "cipher_of conn = cipher_of (ds_conn e)"
    "session_of conn = session_of (ds_conn e)" by (simp_all add: on_disk_def)
  have "fst (require_mount m w (on_disk g (ds_path e) conn)) = fst (require_mount m w ?s)" for m w
    by (rule require_mount_same) (simp add: same_view_def on_disk_def k)
  moreover have "client_key (e\<lparr>ds_conn := conn\<rparr>) t = client_key e t" for t by (cases t) (simp_all add: client_key_def)
  then have "session_mount g' (vr_id r) token = session_mount g (vr_id r) token" for token
    using assms(2) by (cases token) (auto simp: g' session_mount_def split: option.split)
  ultimately show ?thesis using assms(2) k by (simp add: g' conn_of_def on_disk_def fun_upd_idem)
qed

text \<open>
  A client that is turned away, with a wrong PIN or for any other reason, leaves the held
  session as it was: the file, the clients with their tokens and mounts, the key of the
  connection, and every check of any mount.
\<close>

lemma attach_refused_harmless:
  assumes "attach r pin g = (Inl x, g')" and "session_at g (vr_id r) = Some e"
  shows "mg_disk g' = mg_disk g \<and> (\<exists>e'. session_at g' (vr_id r) = Some e' \<and> ds_clients e' = ds_clients e \<and> ds_mount e' = ds_mount e
       \<and> cipher_of (ds_conn e') = cipher_of (ds_conn e) \<and> session_of (ds_conn e') = session_of (ds_conn e))
     \<and> (\<forall>token. session_mount g' (vr_id r) token = session_mount g (vr_id r) token)
     \<and> (\<forall>m w. map_option (\<lambda>s. fst (require_mount m w s)) (conn_of g' (vr_id r)) =
          map_option (\<lambda>s. fst (require_mount m w s)) (conn_of g (vr_id r)))"
  using assms by (rule attach_refused)

lemma attach_refused_harmless_witness:
  "\<exists>g'. attach demo_record (Some [1]) demo_manager = (Inl EncryptionMismatch, g') \<and> mg_disk g' = mg_disk demo_manager"
proof -
  have "fst (client_mount toy_lib ''v'' (Some [1]) False (on_disk demo_manager ''/f'' demo)) = Inl EncryptionRequired"
    by code_simp
  then obtain conn where "client_mount toy_lib ''v'' (Some [1]) False (on_disk demo_manager ''/f'' demo) = (Inl EncryptionRequired, conn)"
    by (metis prod.collapse)
  then have "\<exists>g'. attach demo_record (Some [1]) demo_manager = (Inl EncryptionMismatch, g')"
    by (simp add: attach_def demo_manager_def demo_record_def session_at_def mount_error_def)
  moreover obtain e where "session_at demo_manager (vr_id demo_record) = Some e"
    by (simp add: demo_manager_def demo_record_def session_at_def)
  ultimately show ?thesis using attach_refused_harmless by blast
qed

end
