(* ===== verification/DavServer.thy ===== *)
theory DavServer
  imports DavFiles Direct
begin

text \<open>
  Authentication and dispatch of the WebDAV frontend (the rest of \<open>manager/dav.py\<close>): the PIN
  cache, finding the volume of a URL, unlocking or joining its session, and the handler of the
  verb with the translation of what it raises. \<open>dav_app\<close> is the state of the blueprint: the
  held sessions, the metadata store, the lock registry and the PIN cache. \<open>site\<close> is as for the
  verbs, its volume and mount being set for each request.
\<close>

section \<open>State\<close>

type_synonym pin_cache = "(string \<times> (bytes \<times> string) list) list"

record dav_app =
  ap_site :: site
  ap_realm :: string
  ap_hash :: "bytes \<Rightarrow> bytes"
  ap_manager :: manager
  ap_store :: store
  ap_pins :: pin_cache
  ap_locks :: registry
  ap_clock :: int
  ap_uuid :: "nat \<Rightarrow> string"
  ap_drawn :: nat

type_synonym 'a app = "dav_app \<Rightarrow> (dav_exn + 'a) \<times> dav_app"

section \<open>The PIN cache\<close>

definition pins_get :: "bytes \<Rightarrow> string \<Rightarrow> pin_cache \<Rightarrow> string option" where
  "pins_get digest vid pins =
     (case map_of pins vid of None \<Rightarrow> None
      | Some entries \<Rightarrow> map_option snd (find (\<lambda>(d, t). d = digest) entries))"

fun put_entry :: "bytes \<Rightarrow> string \<Rightarrow> (bytes \<times> string) list \<Rightarrow> (bytes \<times> string) list" where
  "put_entry digest token [] = [(digest, token)]"
| "put_entry digest token ((d, t) # rest) =
     (if d = digest then (digest, token) # rest else (d, t) # put_entry digest token rest)"

definition pins_put :: "bytes \<Rightarrow> string \<Rightarrow> string \<Rightarrow> pin_cache \<Rightarrow> pin_cache" where
  "pins_put digest vid token pins =
     AList.update vid (put_entry digest token (case map_of pins vid of None \<Rightarrow> [] | Some es \<Rightarrow> es)) pins"

definition pins_forget :: "string \<Rightarrow> pin_cache \<Rightarrow> pin_cache" where
  "pins_forget vid pins = AList.delete vid pins"

section \<open>The volume of a URL\<close>

text \<open>By id, or by name if one volume has it; \<open>Inl\<close> is the fault's status.\<close>

definition require_volume :: "string \<Rightarrow> store \<Rightarrow> nat + vol_record" where
  "require_volume vid st =
     (case get_vol vid st of
        Some r \<Rightarrow> Inr r
      | None \<Rightarrow> (case filter (\<lambda>r. vr_name r = vid) (list_vols st) of
            [r] \<Rightarrow> Inr r
          | [] \<Rightarrow> Inl 404
          | _ \<Rightarrow> Inl 409))"

definition mark_mounted :: "vol_record \<Rightarrow> store \<Rightarrow> store" where
  "mark_mounted r st =
     (if \<not> vr_mounted r \<or> vr_frontend r \<noteq> Some ''direct''
      then put_vol (r\<lparr>vr_mounted := True, vr_mountpoint := None, vr_frontend := Some ''direct''\<rparr>) st else st)"

section \<open>Authentication\<close>

text \<open>The faults of \<open>except\<close> clauses around \<open>attach\<close> and \<open>unlock\<close>.\<close>

definition auth_fault :: "manager_error \<Rightarrow> dav_exn" where
  "auth_fault e = (if e = BadPin \<or> e = EncryptionMismatch then Fault 401 [] []
     else if e = MountFailed then Fault 500 [] [] else Mgr e)"

text \<open>\<open>registry.unlock(rec, pin, store.sqlite_path_of(rec))\<close>\<close>

definition unlock_at :: "vol_record \<Rightarrow> bytes option \<Rightarrow> store \<Rightarrow> string mgr" where
  "unlock_at r pin st g =
     (case sqlite_path_of r st of Inl e \<Rightarrow> (Inl e, g) | Inr path \<Rightarrow> unlock_session_of r pin path g)"

text \<open>
  A client of an encrypted volume that is not in the cache joins its session or opens it. What
  the \<open>attach\<close> of the first handler raises, the other handlers do not see.
\<close>

definition join_volume :: "vol_record \<Rightarrow> bytes \<Rightarrow> dav_app \<Rightarrow> (dav_exn + string) \<times> manager" where
  "join_volume r pin a =
     (if is_unlocked (ap_manager a) (vr_id r)
      then (case attach r (Some pin) (ap_manager a) of (res, g) \<Rightarrow> (map_sum auth_fault id res, g))
      else (case unlock_at r (Some pin) (ap_store a) (ap_manager a) of
              (Inl e, g) \<Rightarrow>
                if e = AlreadyMounted then (case attach r (Some pin) g of (res, g') \<Rightarrow> (map_sum Mgr id res, g'))
                else (Inl (auth_fault e), g)
            | (Inr t, g) \<Rightarrow> (Inr t, g)))"

definition session_token :: "vol_record \<Rightarrow> string option \<Rightarrow> string option app" where
  "session_token r password a =
     (if \<not> vr_encrypted r
      then (if is_unlocked (ap_manager a) (vr_id r) then (Inr None, a)
            else (case unlock_at r None (ap_store a) (ap_manager a) of
                    (Inl e, g) \<Rightarrow>
                      if e = AlreadyMounted
                      then (Inr None, a\<lparr>ap_manager := g, ap_store := mark_mounted r (ap_store a)\<rparr>)
                      else (Inl (Mgr e), a\<lparr>ap_manager := g\<rparr>)
                  | (Inr t, g) \<Rightarrow> (Inr None, a\<lparr>ap_manager := g, ap_store := mark_mounted r (ap_store a)\<rparr>)))
      else (case password of
          None \<Rightarrow> (Inl (Fault 401 [] []), a)
        | Some pw \<Rightarrow>
            (let pin = text_bytes pw; digest = ap_hash a pin; cached = pins_get digest (vr_id r) (ap_pins a) in
             if cached \<noteq> None \<and> is_unlocked (ap_manager a) (vr_id r) then (Inr cached, a)
             else
               (let a1 = (if cached \<noteq> None then a\<lparr>ap_pins := pins_forget (vr_id r) (ap_pins a)\<rparr> else a) in
                case join_volume r pin a1 of
                  (Inl e, g) \<Rightarrow> (Inl e, a1\<lparr>ap_manager := g\<rparr>)
                | (Inr token, g) \<Rightarrow>
                    (Inr (Some token), a1\<lparr>ap_manager := g, ap_pins := pins_put digest (vr_id r) token (ap_pins a1),
                       ap_store := mark_mounted r (ap_store a1)\<rparr>)))))"

section \<open>Dispatch\<close>

definition METHODS :: "string list" where
  "METHODS = [''OPTIONS'', ''LOCK'', ''UNLOCK'', ''HEAD'', ''GET'', ''PUT'', ''DELETE'', ''MKCOL'', ''COPY'', ''MOVE'',
     ''PROPFIND'', ''PROPPATCH'']"

definition allow_text :: string where
  "allow_text = tl (tl (concat (map (\<lambda>m. '', '' @ m) METHODS)))"

definition do_options :: response where
  "do_options = \<lparr>rp_status = 200, rp_headers = [(''DAV'', ''1, 2''), (''MS-Author-Via'', ''DAV''), (''Allow'', allow_text),
     (''Accept-Ranges'', ''bytes''), (''Content-Length'', ''0'')], rp_body = []\<rparr>"

definition handler_of :: "string \<Rightarrow> (site \<Rightarrow> request \<Rightarrow> string \<Rightarrow> response dav) option" where
  "handler_of meth = map_of
     [(''LOCK'', do_lock), (''UNLOCK'', do_unlock), (''PROPFIND'', do_propfind), (''PROPPATCH'', do_proppatch),
      (''GET'', \<lambda>c rq p. do_get c rq p True), (''HEAD'', \<lambda>c rq p. do_get c rq p False), (''PUT'', do_put),
      (''MKCOL'', do_mkcol), (''DELETE'', do_delete), (''COPY'', \<lambda>c rq p. do_copy_move c rq p False),
      (''MOVE'', \<lambda>c rq p. do_copy_move c rq p True)] meth"

text \<open>\<open>_translate\<close>: the fault for an exception, or the exception itself when it is raised again.\<close>

fun translate :: "dav_exn \<Rightarrow> dav_exn + nat \<times> string \<times> (string \<times> string) list" where
  "translate (Fault status pre hs) = Inr (status, pre, hs)"
| "translate (Mgr e) = (if e = NotAuthorized then Inr (401, [], []) else if e = NotMounted then Inr (503, [], []) else Inl (Mgr e))"
| "translate Disconnected = Inl Disconnected"
| "translate (Eng e) =
     (if e = MountInvalid then Inr (401, [], [])
      else if e \<in> {NotFound, NotAContainer, NotAnEntry} then Inr (404, [], [])
      else if e = ContainerExists then Inr (405, [], [])
      else if e \<in> {NotEmpty, LockInvalid, WouldCycle} then Inr (409, [], [])
      else if e = LockHeld then Inr (423, [], [])
      else if e = Nameless then Inr (400, [], [])
      else if e = VolumeMismatch then Inr (502, [], [])
      else if e = Unsupported then Inr (501, [], [])
      else if error_code e \<noteq> None then Inr (500, [], [])
      else Inl (Eng e))"

definition unauthorized :: "string \<Rightarrow> response" where
  "unauthorized realm = \<lparr>rp_status = 401, rp_headers = [(''WWW-Authenticate'', ''Basic realm='' @ [CHR 0x22] @ realm @ [CHR 0x22])],
     rp_body = text_bytes ''authentication required''\<rparr>"

definition fault_response :: "nat \<Rightarrow> string \<Rightarrow> (string \<times> string) list \<Rightarrow> response" where
  "fault_response status pre hs =
     (if pre \<noteq> [] then \<lparr>rp_status = status, rp_headers = [(''Content-Type'', ''application/xml'')],
        rp_body = text_bytes (XML_DECL @ ''<D:error'' @ ns_attr @ ''><D:'' @ pre @ ''/></D:error>'')\<rparr>
      else \<lparr>rp_status = status, rp_headers = hs, rp_body = []\<rparr>)"

definition answer :: "dav_app \<Rightarrow> dav_exn + response \<Rightarrow> dav_exn + response" where
  "answer a r =
     (case r of
        Inr resp \<Rightarrow> Inr resp
      | Inl e \<Rightarrow> (case translate e of
            Inl x \<Rightarrow> Inl x
          | Inr (status, pre, hs) \<Rightarrow>
              if status = 401 then Inr (unauthorized (ap_realm a)) else Inr (fault_response status pre hs)))"

text \<open>The handler inside the session: on its connection, with the client's mount.\<close>

definition in_session :: "vol_record \<Rightarrow> mount_id \<Rightarrow> (site \<Rightarrow> response dav) \<Rightarrow> response app" where
  "in_session r m h a =
     (let g = ap_manager a; e = the (session_at g (vr_id r));
          (res, s) = h ((ap_site a)\<lparr>st_volume := vr_id r, st_mount := m\<rparr>)
            \<lparr>dv_db = on_disk g (ds_path e) (ds_conn e), dv_locks = ap_locks a, dv_clock = ap_clock a,
             dv_uuid = ap_uuid a, dv_drawn = ap_drawn a\<rparr>
      in (res, a\<lparr>ap_manager := put_session (vr_id r) (e\<lparr>ds_conn := dv_db s\<rparr>) g,
                 ap_locks := dv_locks s, ap_drawn := dv_drawn s\<rparr>))"

definition serve :: "string \<Rightarrow> string \<Rightarrow> string option \<Rightarrow> request \<Rightarrow> response app" where
  "serve vid rest password rq a =
     (case require_volume vid (ap_store a) of
        Inl status \<Rightarrow> (Inl (Fault status [] []), a)
      | Inr r \<Rightarrow>
          if rq_method rq = ''OPTIONS'' then (Inr do_options, a)
          else (case handler_of (rq_method rq) of
              None \<Rightarrow> (Inr \<lparr>rp_status = 405, rp_headers = [(''Allow'', allow_text), (''DAV'', ''1, 2'')], rp_body = []\<rparr>, a)
            | Some h \<Rightarrow>
                (case session_token r password a of
                   (Inl e, a1) \<Rightarrow> (Inl e, a1)
                 | (Inr token, a1) \<Rightarrow>
                     (case session_mount (ap_manager a1) (vr_id r) (if token = None then NoAuth else Token token) of
                        Inl e \<Rightarrow> (Inl (Mgr e), a1)
                      | Inr m \<Rightarrow> in_session r m (\<lambda>c. h c rq (norm_path False rest)) a1))))"

definition dispatch :: "string \<Rightarrow> string \<Rightarrow> string option \<Rightarrow> request \<Rightarrow> response app" where
  "dispatch vid rest password rq a = (case serve vid rest password rq a of (r, a') \<Rightarrow> (answer a r, a'))"

section \<open>Who gets in\<close>

lemma handler_method: "meth \<in> set METHODS \<Longrightarrow> meth \<noteq> ''OPTIONS'' \<Longrightarrow> \<exists>h. handler_of meth = Some h"
  by (auto simp: METHODS_def handler_of_def)

lemma serve_refused:
  assumes "require_volume vid (ap_store a) = Inr r" and "rq_method rq \<in> set METHODS" and "rq_method rq \<noteq> ''OPTIONS''"
    and "session_token r password a = (Inl e, a1) \<or>
      (\<exists>token. session_token r password a = (Inr token, a1)
         \<and> (\<exists>x. session_mount (ap_manager a1) (vr_id r) (if token = None then NoAuth else Token token) = Inl x \<and> e = Mgr x))"
  shows "serve vid rest password rq a = (Inl e, a1)"
  using assms handler_method [of "rq_method rq"] by (auto simp: serve_def)

text \<open>An application with the demo session, its volume marked as encrypted.\<close>

definition demo_app :: dav_app where
  "demo_app = \<lparr>ap_site = demo_site, ap_realm = ''aloelite'', ap_hash = (\<lambda>b. b), ap_manager = demo_manager,
     ap_store = \<lparr>st_filesystems = [], st_volumes = [(''v'', demo_record\<lparr>vr_encrypted := True\<rparr>)], st_pending = []\<rparr>,
     ap_pins = [(''v'', [([80], ''gone'')])], ap_locks = [], ap_clock = 0, ap_uuid = show_nat, ap_drawn = 0\<rparr>"

lemma demo_app_volume:
  "require_volume ''v'' (ap_store demo_app) = Inr (demo_record\<lparr>vr_encrypted := True\<rparr>)"
  "vr_encrypted (demo_record\<lparr>vr_encrypted := True\<rparr>)" "vr_id (demo_record\<lparr>vr_encrypted := True\<rparr>) = ''v''"
  "rq_method (demo_request h b gone) \<in> set METHODS" "rq_method (demo_request h b gone) \<noteq> ''OPTIONS''"
  by (simp_all add: demo_app_def demo_record_def require_volume_def get_vol_def demo_request_def METHODS_def)



text \<open>
  A PIN that is cached with the token of a session that is gone locks its owner out: while the
  volume is held by a session without that token (it was locked, and unlocked by another
  client), every request with the right PIN is answered 401 and leaves everything, the cache
  included, as it is.
\<close>

lemma stale_token_locks_out:
  assumes "require_volume vid (ap_store a) = Inr r" and "vr_encrypted r"
    and "rq_method rq \<in> set METHODS" and "rq_method rq \<noteq> ''OPTIONS''"
    and "pins_get (ap_hash a (text_bytes pw)) (vr_id r) (ap_pins a) = Some token"
    and "session_at (ap_manager a) (vr_id r) = Some e" and "map_of (ds_clients e) token = None"
  shows "dispatch vid rest (Some pw) rq a = (Inr (unauthorized (ap_realm a)), a)"
proof -
  have "session_token r (Some pw) a = (Inr (Some token), a)"
    using assms(2,5,6) by (simp add: session_token_def is_unlocked_def)
  moreover have "session_mount (ap_manager a) (vr_id r) (Token (Some token)) = Inl NotAuthorized"
    using assms(6,7) by (simp add: session_mount_def client_key_eq)
  ultimately have "serve vid rest (Some pw) rq a = (Inl (Mgr NotAuthorized), a)"
    using serve_refused [OF assms(1,3,4), of "Some pw"] by simp
  then show ?thesis by (simp add: dispatch_def answer_def)
qed

lemma stale_token_locks_out_witness:
  "dispatch ''v'' [] (Some ''P'') (demo_request Map.empty [] False) demo_app = (Inr (unauthorized ''aloelite''), demo_app)"
proof -
  have "pins_get (ap_hash demo_app (text_bytes ''P'')) ''v'' (ap_pins demo_app) = Some ''gone''"
    by (simp add: demo_app_def pins_get_def text_bytes_def)
  moreover obtain e where "session_at (ap_manager demo_app) ''v'' = Some e" "map_of (ds_clients e) ''gone'' = None"
    by (simp add: demo_app_def session_at_def demo_manager_def)
  moreover have "ap_realm demo_app = ''aloelite''" by (simp add: demo_app_def)
  ultimately show ?thesis
    using stale_token_locks_out [OF demo_app_volume(1,2,4,5), of "''P''" "''gone''" e "[]"] demo_app_volume(3) by simp
qed

text \<open>
  No error of the filesystem escapes the WebDAV frontend: what \<open>dispatch\<close> raises is the
  client's disconnect, a manager error other than the two it maps, or a Python exception that
  is not an \<open>FsError\<close>; every \<open>FsError\<close> becomes a response of a status from 400 on.
\<close>

lemma dav_errors_are_answered:
  "(\<forall>x a'. dispatch vid rest password rq a = (Inl x, a') \<longrightarrow>
      x = Disconnected \<or> (\<exists>e. x = Mgr e \<and> e \<notin> {NotAuthorized, NotMounted}) \<or> (\<exists>e. x = Eng e \<and> error_code e = None))
   \<and> (error_code e \<noteq> None \<longrightarrow> (\<exists>resp. answer a (Inl (Eng e)) = Inr resp \<and> 400 \<le> rp_status resp))"
proof (intro conjI allI impI)
  fix x a'
  assume "dispatch vid rest password rq a = (Inl x, a')"
  then obtain r where "answer a r = Inl x" by (auto simp: dispatch_def split: prod.splits)
  then obtain y where "translate y = Inl x" by (auto simp: answer_def split: sum.splits if_splits)
  then show "x = Disconnected \<or> (\<exists>e. x = Mgr e \<and> e \<notin> {NotAuthorized, NotMounted}) \<or> (\<exists>e. x = Eng e \<and> error_code e = None)"
    by (cases y rule: translate.cases) (auto split: if_splits)
next
  assume "error_code e \<noteq> None"
  then show "\<exists>resp. answer a (Inl (Eng e)) = Inr resp \<and> 400 \<le> rp_status resp"
    by (auto simp: answer_def unauthorized_def fault_response_def)
qed

lemma dav_errors_are_answered_witness:
  "\<exists>resp. answer demo_app (Inl (Eng LockHeld)) = Inr resp \<and> 400 \<le> rp_status resp"
  using dav_errors_are_answered [of "[]" "[]" None "demo_request Map.empty [] False" demo_app LockHeld] by simp

end
