(* ===== verification/SigV4.thy ===== *)
theory SigV4
  imports Urls "HOL-Library.Multiset"
begin

text \<open>
  AWS Signature Version 4, the verifying side (\<open>manager/sigv4.py\<close>): the canonical request, the
  Authorization header, the clock check and \<open>verify\<close>. The hash functions of \<open>hashlib\<close> and
  \<open>hmac\<close> are the fields of \<open>signer\<close>. Headers are a map from lower-case names, since the
  server looks them up without regard to case. The clock is in microseconds.

  An accepted signature binds the request: under one Authorization header, two requests that
  are both accepted agree on the method, the path, the query parameters, every signed header,
  the date and the declared payload hash.
\<close>

section \<open>Results and credentials\<close>

record signer =
  sg_sha256 :: "bytes \<Rightarrow> bytes"
  sg_hmac :: "bytes \<Rightarrow> bytes \<Rightarrow> bytes"

text \<open>\<open>SigV4Error\<close>: its S3 code and status.\<close>

datatype sig_error = SigV4Error (sig_code: string) (sig_status: nat)

record credentials =
  cr_secret :: string
  cr_buckets :: "string list option"

definition may_access :: "credentials \<Rightarrow> string \<Rightarrow> bool" where
  "may_access cr bucket \<longleftrightarrow> (case cr_buckets cr of None \<Rightarrow> True | Some bs \<Rightarrow> bucket \<in> set bs)"

definition ALGORITHM :: string where
  "ALGORITHM = ''AWS4-HMAC-SHA256''"

definition STREAMING_PAYLOAD :: string where
  "STREAMING_PAYLOAD = ''STREAMING-AWS4-HMAC-SHA256-PAYLOAD''"

definition UNSIGNED_PAYLOAD :: string where
  "UNSIGNED_PAYLOAD = ''UNSIGNED-PAYLOAD''"

definition MAX_SKEW_SECONDS :: int where
  "MAX_SKEW_SECONDS = 900"

section \<open>The canonical request\<close>

abbreviation newline :: char where
  "newline \<equiv> CHR 0x0A"

definition canonical_uri :: "string \<Rightarrow> string" where
  "canonical_uri path = (if path = [] then ''/'' else quote ''/'' path)"

definition query_pairs :: "string \<Rightarrow> (string \<times> string) list" where
  "query_pairs query =
     map (\<lambda>part. let (nm, val) = partition_at CHR ''='' part in (unquote nm, unquote val))
       (filter (\<lambda>part. part \<noteq> []) (split_on CHR ''&'' query))"

definition pair_text :: "string \<times> string \<Rightarrow> string" where
  "pair_text p = fst p @ ''='' @ snd p"

definition canonical_query :: "string \<Rightarrow> string" where
  "canonical_query query =
     join_with CHR ''&'' (map pair_text (sort (map (map_prod (quote []) (quote [])) (query_pairs query))))"

text \<open>\<open>s.split()\<close>\<close>

definition words :: "string \<Rightarrow> string list" where
  "words s = filter (\<lambda>w. w \<noteq> []) (split_on CHR '' '' (map (\<lambda>c. if py_space c then CHR '' '' else c) s))"

definition collapse :: "string \<Rightarrow> string" where
  "collapse s = join_with CHR '' '' (words s)"

fun header_lines :: "(string \<rightharpoonup> string) \<Rightarrow> string list \<Rightarrow> sig_error + string list" where
  "header_lines headers [] = Inr []"
| "header_lines headers (nm # rest) =
     (case headers (map lower nm) of
        None \<Rightarrow> Inl (SigV4Error ''SignatureDoesNotMatch'' 403)
      | Some val \<Rightarrow> (case header_lines headers rest of
            Inl e \<Rightarrow> Inl e
          | Inr ls \<Rightarrow> Inr ((nm @ '':'' @ collapse val) # ls)))"

definition canonical_headers :: "(string \<rightharpoonup> string) \<Rightarrow> string list \<Rightarrow> sig_error + string" where
  "canonical_headers headers snames = map_sum id (\<lambda>ls. join_with newline ls @ [newline]) (header_lines headers snames)"

definition build_canonical_request ::
  "string \<Rightarrow> string \<Rightarrow> string \<Rightarrow> (string \<rightharpoonup> string) \<Rightarrow> string list \<Rightarrow> string \<Rightarrow> sig_error + string" where
  "build_canonical_request meth path query headers snames payload =
     map_sum id (\<lambda>hs. join_with newline
         [meth, canonical_uri path, canonical_query query, hs, join_with CHR '';'' snames, payload])
       (canonical_headers headers snames)"

section \<open>Keys and signatures\<close>

definition sha256_hex :: "signer \<Rightarrow> bytes \<Rightarrow> string" where
  "sha256_hex sg data = hexdigest (sg_sha256 sg data)"

definition hmac_text :: "signer \<Rightarrow> bytes \<Rightarrow> string \<Rightarrow> bytes" where
  "hmac_text sg key msg = sg_hmac sg key (text_bytes msg)"

definition signing_key :: "signer \<Rightarrow> string \<Rightarrow> string \<Rightarrow> string \<Rightarrow> string \<Rightarrow> bytes" where
  "signing_key sg secret date region service =
     hmac_text sg (hmac_text sg (hmac_text sg (hmac_text sg (text_bytes (''AWS4'' @ secret)) date) region) service) ''aws4_request''"

definition string_to_sign :: "signer \<Rightarrow> string \<Rightarrow> string \<Rightarrow> string \<Rightarrow> string" where
  "string_to_sign sg amz_date scope canonical =
     join_with newline [ALGORITHM, amz_date, scope, sha256_hex sg (text_bytes canonical)]"

section \<open>The Authorization header\<close>

definition expect :: "string \<Rightarrow> string \<Rightarrow> string option" where
  "expect lit s = (if prefix lit s then Some (drop (length lit) s) else None)"

text \<open>\<open>[^,]+,\<close> and the spaces after it.\<close>

definition until_comma :: "string \<Rightarrow> (string \<times> string) option" where
  "until_comma s =
     (let x = takeWhile (\<lambda>c. c \<noteq> CHR '','') s in
      case dropWhile (\<lambda>c. c \<noteq> CHR '','') s of
        [] \<Rightarrow> None
      | _ # r \<Rightarrow> if x = [] then None else Some (x, dropWhile py_space r))"

definition is_hex :: "char \<Rightarrow> bool" where
  "is_hex c \<longleftrightarrow> hex_value c \<noteq> None"

text \<open>A match of \<open>_AUTH_RE\<close>: credential, signed headers, signature.\<close>

definition match_auth :: "string \<Rightarrow> (string \<times> string \<times> string) option" where
  "match_auth s =
     Option.bind (expect ALGORITHM s) (\<lambda>s1.
     if s1 = [] \<or> \<not> py_space (hd s1) then None else
     Option.bind (expect ''Credential='' (dropWhile py_space s1)) (\<lambda>s2.
     Option.bind (until_comma s2) (\<lambda>(cred, s3).
     Option.bind (expect ''SignedHeaders='' s3) (\<lambda>s4.
     Option.bind (until_comma s4) (\<lambda>(snames, s5).
     Option.bind (expect ''Signature='' s5) (\<lambda>s6.
     let sg = takeWhile is_hex s6 in
     if sg = [] \<or> \<not> list_all py_space (dropWhile is_hex s6) then None else Some (cred, snames, sg)))))))"

record authorization =
  au_access_key :: string
  au_date :: string
  au_region :: string
  au_service :: string
  au_signed :: "string list"
  au_signature :: string

definition parse_authorization :: "string \<Rightarrow> sig_error + authorization" where
  "parse_authorization header =
     (case match_auth (strip py_space header) of
        None \<Rightarrow> Inl (SigV4Error ''AuthorizationHeaderMalformed'' 403)
      | Some (cred, names, sg) \<Rightarrow>
          (let snames = filter (\<lambda>h. h \<noteq> []) (split_on CHR '';'' names) in
           case split_on CHR ''/'' cred of
             [access_key, date, region, service, ending] \<Rightarrow>
               if ending \<noteq> ''aws4_request'' \<or> snames = [] then Inl (SigV4Error ''AuthorizationHeaderMalformed'' 403)
               else Inr \<lparr>au_access_key = access_key, au_date = date, au_region = region, au_service = service,
                      au_signed = snames, au_signature = map lower sg\<rparr>
           | _ \<Rightarrow> Inl (SigV4Error ''AuthorizationHeaderMalformed'' 403)))"

section \<open>The clock\<close>

text \<open>
  \<open>strptime\<close> with \<open>%Y%m%dT%H%M%SZ\<close>: a field has all its matches in the order the regular
  expression tries them, the first match of the whole counts and must reach the end.
\<close>

definition read_num :: "(nat \<Rightarrow> bool) \<Rightarrow> (nat \<Rightarrow> bool) \<Rightarrow> string \<Rightarrow> (nat \<times> string) list" where
  "read_num ok2 ok1 s =
     (case s of
        a # b # r \<Rightarrow> if digit a \<and> digit b \<and> ok2 (parse_nat [a, b]) then [(parse_nat [a, b], r)] else []
      | _ \<Rightarrow> [])
     @ (case s of a # r \<Rightarrow> if digit a \<and> ok1 (parse_nat [a]) then [(parse_nat [a], r)] else [] | [] \<Rightarrow> [])"

definition read_year :: "string \<Rightarrow> (nat \<times> string) list" where
  "read_year s = (if 4 \<le> length s \<and> list_all digit (take 4 s) then [(parse_nat (take 4 s), drop 4 s)] else [])"

definition read_letter :: "char \<Rightarrow> string \<Rightarrow> (unit \<times> string) list" where
  "read_letter c s = (case s of x # r \<Rightarrow> if lower x = c then [((), r)] else [] | [] \<Rightarrow> [])"

definition read_day :: "string \<Rightarrow> (nat \<times> string) list" where
  "read_day s = read_num (\<lambda>v. 1 \<le> v \<and> v \<le> 31) (\<lambda>v. 1 \<le> v) s
     @ (case s of x # r \<Rightarrow> if x = CHR '' '' then read_num (\<lambda>_. False) (\<lambda>v. 1 \<le> v) r else [] | [] \<Rightarrow> [])"

definition all_from :: "('a \<Rightarrow> 'b list) \<Rightarrow> 'a list \<Rightarrow> 'b list" where
  "all_from f xs = concat (map f xs)"

definition stamp_matches :: "string \<Rightarrow> ((nat \<times> nat \<times> nat \<times> nat \<times> nat \<times> nat) \<times> string) list" where
  "stamp_matches s =
     all_from (\<lambda>(y, s).
     all_from (\<lambda>(mo, s).
     all_from (\<lambda>(d, s).
     all_from (\<lambda>(_, s).
     all_from (\<lambda>(h, s).
     all_from (\<lambda>(mi, s).
     all_from (\<lambda>(sec, s).
     map (\<lambda>(_, s). ((y, mo, d, h, mi, sec), s)) (read_letter CHR ''z'' s))
       (read_num (\<lambda>v. v \<le> 61) (\<lambda>v. True) s))
       (read_num (\<lambda>v. v \<le> 59) (\<lambda>v. True) s))
       (read_num (\<lambda>v. v \<le> 23) (\<lambda>v. True) s))
       (read_letter CHR ''t'' s))
       (read_day s))
       (read_num (\<lambda>v. 1 \<le> v \<and> v \<le> 12) (\<lambda>v. 1 \<le> v) s))
       (read_year s)"

definition leap :: "nat \<Rightarrow> bool" where
  "leap y \<longleftrightarrow> y mod 4 = 0 \<and> (y mod 100 \<noteq> 0 \<or> y mod 400 = 0)"

definition month_days :: "nat \<Rightarrow> nat \<Rightarrow> nat" where
  "month_days y m = (if m = 2 then (if leap y then 29 else 28) else if m \<in> {4, 6, 9, 11} then 30 else 31)"

text \<open>The stamp in seconds and its date; \<open>None\<close> is a \<open>ValueError\<close>.\<close>

definition parse_stamp :: "string \<Rightarrow> (int \<times> string) option" where
  "parse_stamp s =
     (case stamp_matches s of
        ((y, mo, d, h, mi, sec), r) # _ \<Rightarrow>
          if r \<noteq> [] \<or> y = 0 \<or> d > month_days y mo \<or> sec > 59 then None
          else Some (days_from_civil (int y) (int mo) (int d) * 86400 + int (h * 3600 + mi * 60 + sec),
                 padded 4 (int y) @ padded 2 (int mo) @ padded 2 (int d))
      | [] \<Rightarrow> None)"

definition check_skew :: "string \<Rightarrow> string \<Rightarrow> int \<Rightarrow> sig_error + unit" where
  "check_skew amz_date scope_date clock =
     (case parse_stamp amz_date of
        None \<Rightarrow> Inl (SigV4Error ''AuthorizationHeaderMalformed'' 403)
      | Some (stamp, day) \<Rightarrow>
          if day \<noteq> scope_date then Inl (SigV4Error ''AuthorizationHeaderMalformed'' 403)
          else if abs (clock - stamp * 1000000) > MAX_SKEW_SECONDS * 1000000 then Inl (SigV4Error ''RequestTimeTooSkewed'' 403)
          else Inr ())"

section \<open>verify\<close>

definition full_header :: "(string \<rightharpoonup> string) \<Rightarrow> string \<Rightarrow> string option" where
  "full_header headers nm = (case headers nm of None \<Rightarrow> None | Some v \<Rightarrow> if v = [] then None else Some v)"

definition declared_hash :: "(string \<rightharpoonup> string) \<Rightarrow> string" where
  "declared_hash headers = or_else (full_header headers ''x-amz-content-sha256'') UNSIGNED_PAYLOAD"

definition signature_of :: "signer \<Rightarrow> string \<Rightarrow> authorization \<Rightarrow> string \<Rightarrow> string \<Rightarrow> string" where
  "signature_of sg secret au amz_date canonical =
     hexdigest (sg_hmac sg (signing_key sg secret (au_date au) (au_region au) (au_service au))
       (text_bytes (string_to_sign sg amz_date
         (au_date au @ ''/'' @ au_region au @ ''/'' @ au_service au @ ''/aws4_request'') canonical)))"

definition verify_signature ::
  "signer \<Rightarrow> string \<Rightarrow> string \<Rightarrow> string \<Rightarrow> (string \<rightharpoonup> string) \<Rightarrow> string option \<Rightarrow> (string \<rightharpoonup> credentials) \<Rightarrow> int
     \<Rightarrow> sig_error + (string \<times> credentials)" where
  "verify_signature sg meth path query headers body_hash lookup clock =
     (case full_header headers ''authorization'' of
        None \<Rightarrow> Inl (SigV4Error ''AccessDenied'' 401)
      | Some auth \<Rightarrow> (case parse_authorization auth of
            Inl e \<Rightarrow> Inl e
          | Inr au \<Rightarrow> (case full_header headers ''x-amz-date'' of
                None \<Rightarrow> Inl (SigV4Error ''AccessDenied'' 403)
              | Some amz_date \<Rightarrow> (case check_skew amz_date (au_date au) clock of
                    Inl e \<Rightarrow> Inl e
                  | Inr _ \<Rightarrow>
                      let declared = declared_hash headers in
                      if declared = STREAMING_PAYLOAD then Inl (SigV4Error ''NotImplemented'' 501)
                      else if declared \<noteq> UNSIGNED_PAYLOAD \<and> body_hash \<noteq> None \<and> Some declared \<noteq> body_hash
                      then Inl (SigV4Error ''XAmzContentSHA256Mismatch'' 400)
                      else (case lookup (au_access_key au) of
                          None \<Rightarrow> Inl (SigV4Error ''InvalidAccessKeyId'' 403)
                        | Some cr \<Rightarrow> (case build_canonical_request meth path query headers (au_signed au) declared of
                              Inl e \<Rightarrow> Inl e
                            | Inr canonical \<Rightarrow>
                                if signature_of sg (cr_secret cr) au amz_date canonical \<noteq> au_signature au
                                then Inl (SigV4Error ''SignatureDoesNotMatch'' 403)
                                else Inr (au_access_key au, cr)))))))"

section \<open>The canonical request is unambiguous\<close>

lemma text_bytes_inj: "text_bytes s = text_bytes t \<Longrightarrow> s = t"
proof -
  have "inj (\<lambda>c :: char. word_of_nat (of_char c) :: byte)"
  proof (rule injI)
    fix c d :: char
    assume "(word_of_nat (of_char c) :: byte) = word_of_nat (of_char d)"
    then have "(of_char c :: nat) mod 256 = of_char d mod 256" by (simp add: word_of_nat_eq_iff take_bit_eq_mod)
    then show "c = d" by simp
  qed
  then show "text_bytes s = text_bytes t \<Longrightarrow> s = t" by (simp add: text_bytes_def inj_map_eq_map)
qed

lemma quote_no:
  assumes "\<not> unreserved c" and "c \<notin> set safe" and "c \<noteq> CHR ''%''"
  shows "c \<notin> set (quote safe s)"
  using quote_chars assms by blast

lemma separators: "\<not> unreserved newline" "\<not> unreserved CHR ''&''" "\<not> unreserved CHR ''=''" "unreserved CHR ''/'' = False"
  by (simp_all add: unreserved_def less_eq_char_def)

lemma canonical_uri_inj:
  assumes "canonical_uri p = canonical_uri q"
  shows "(if p = [] then ''/'' else p) = (if q = [] then ''/'' else q)"
proof -
  have "canonical_uri x = quote ''/'' (if x = [] then ''/'' else x)" for x
    by (simp add: canonical_uri_def quote_def quote_char_def)
  with assms have "quote ''/'' (if p = [] then ''/'' else p) = quote ''/'' (if q = [] then ''/'' else q)" by simp
  then have "unquote (quote ''/'' (if p = [] then ''/'' else p)) = unquote (quote ''/'' (if q = [] then ''/'' else q))" by (rule arg_cong)
  then show ?thesis by (simp add: unquote_quote del: if_split)
qed

lemma pair_text_inj:
  assumes "CHR ''='' \<notin> set (fst p)" and "CHR ''='' \<notin> set (fst q)" and "pair_text p = pair_text q"
  shows "p = q"
proof -
  have "partition_at CHR ''='' (pair_text r) = r" if "CHR ''='' \<notin> set (fst r)" for r
    using that by (simp add: partition_at_def pair_text_def until_char)
  with assms show ?thesis by metis
qed

definition quoted_pairs :: "string \<Rightarrow> (string \<times> string) list" where
  "quoted_pairs query = sort (map (map_prod (quote []) (quote [])) (query_pairs query))"

lemma quoted_pairs_clean:
  assumes "p \<in> set (quoted_pairs query)"
  shows "CHR ''='' \<notin> set (fst p)" "CHR ''&'' \<notin> set (pair_text p)" "newline \<notin> set (pair_text p)"
  using assms quote_no [of "CHR ''=''" "[]"] quote_no [of "CHR ''&''" "[]"] quote_no [of newline "[]"]
  by (auto simp: quoted_pairs_def pair_text_def separators)

lemma canonical_query_inj:
  assumes "canonical_query q1 = canonical_query q2"
  shows "mset (query_pairs q1) = mset (query_pairs q2)"
proof -
  have e: "canonical_query q = join_with CHR ''&'' (map pair_text (quoted_pairs q))" for q
    by (simp add: canonical_query_def quoted_pairs_def)
  have nil: "canonical_query q = [] \<longleftrightarrow> quoted_pairs q = []" for q
    unfolding e by (cases "quoted_pairs q" rule: list.exhaust; cases "tl (quoted_pairs q)") (auto simp: pair_text_def)
  have sp: "split_on CHR ''&'' (canonical_query q) = map pair_text (quoted_pairs q)" if "quoted_pairs q \<noteq> []" for q
    unfolding e by (rule split_on_join) (use that quoted_pairs_clean(2) in auto)
  have "map pair_text (quoted_pairs q1) = map pair_text (quoted_pairs q2)"
    using sp nil assms by (cases "quoted_pairs q1 = []"; cases "quoted_pairs q2 = []") metis+
  then have "quoted_pairs q1 = quoted_pairs q2"
    by (rule map_inj_on) (auto intro!: inj_onI dest: pair_text_inj [rotated 2] quoted_pairs_clean(1))
  then have "mset (map (map_prod (quote []) (quote [])) (query_pairs q1)) = mset (map (map_prod (quote []) (quote [])) (query_pairs q2))"
    unfolding quoted_pairs_def by (metis mset_sort)
  then have "image_mset (map_prod unquote unquote) (mset (map (map_prod (quote []) (quote [])) (query_pairs q1))) =
      image_mset (map_prod unquote unquote) (mset (map (map_prod (quote []) (quote [])) (query_pairs q2)))" by simp
  then show ?thesis
    by (simp add: multiset.map_comp comp_def map_prod_def unquote_quote case_prod_unfold flip: mset_map)
qed

lemma split_on_subset: "w \<in> set (split_on c xs) \<Longrightarrow> set w \<subseteq> set xs"
  by (induction xs arbitrary: w) (auto split: list.splits if_splits, blast+)

lemma collapse_no_newline: "newline \<notin> set (collapse s)"
proof -
  have "set (join_with CHR '' '' ws) \<subseteq> \<Union> (set ` set ws) \<union> {CHR '' ''}" for ws :: "string list"
    by (induction "CHR '' ''" ws rule: join_with.induct) auto
  moreover have "newline \<notin> set w" if "w \<in> set (words s)" for w
  proof -
    have "set w \<subseteq> set (map (\<lambda>c. if py_space c then CHR '' '' else c) s)"
      using that join_split_on [of "CHR '' ''" "map (\<lambda>c. if py_space c then CHR '' '' else c) s"]
      by (auto simp: words_def dest!: split_on_subset)
    moreover have "py_space newline" by (simp add: py_space_def)
    ultimately show ?thesis by auto
  qed
  ultimately show ?thesis unfolding collapse_def by fastforce
qed

lemma header_lines_ok:
  assumes "header_lines headers names = Inr ls" and nn: "\<forall>nm. newline \<in> set nm \<longrightarrow> headers (map lower nm) = None"
  shows "ls = map (\<lambda>nm. nm @ '':'' @ collapse (the (headers (map lower nm)))) names
     \<and> (\<forall>nm \<in> set names. headers (map lower nm) \<noteq> None) \<and> (\<forall>l \<in> set ls. newline \<notin> set l)"
  using assms(1)
proof (induction names arbitrary: ls)
  case (Cons nm names)
  then obtain val ls' where v: "headers (map lower nm) = Some val" "header_lines headers names = Inr ls'"
    "ls = (nm @ '':'' @ collapse val) # ls'" by (auto split: option.splits sum.splits)
  moreover have "newline \<notin> set nm" using nn v(1) by force
  ultimately show ?case using Cons.IH [OF v(2)] collapse_no_newline by simp
qed simp

text \<open>Line by line, as \<open>split_on\<close> sees it.\<close>

lemma request_lines:
  assumes "build_canonical_request m p q h snames d = Inr c" and "newline \<notin> set m" and "snames \<noteq> []"
    and names: "\<forall>nm. newline \<in> set nm \<longrightarrow> h (map lower nm) = None"
  shows "split_on newline c = [m, canonical_uri p, canonical_query q]
     @ map (\<lambda>nm. nm @ '':'' @ collapse (the (h (map lower nm)))) snames
     @ [] # split_on newline (join_with CHR '';'' snames) @ split_on newline d"
    and "\<forall>nm \<in> set snames. h (map lower nm) \<noteq> None"
proof -
  from assms(1) obtain ls where ls: "header_lines h snames = Inr ls"
    and c: "c = join_with newline [m, canonical_uri p, canonical_query q, join_with newline ls @ [newline], join_with CHR '';'' snames, d]"
    by (cases "header_lines h snames") (auto simp: build_canonical_request_def canonical_headers_def)
  note l = header_lines_ok [OF ls names]
  have "ls \<noteq> []" using l assms(3) by simp
  then have "split_on newline (join_with newline ls) = ls" using l by (intro split_on_join) blast+
  moreover have "newline \<notin> set (canonical_uri p)"
    using quote_no [of newline "''/''"] by (auto simp: canonical_uri_def separators)
  moreover have "newline \<notin> set (canonical_query q)"
  proof -
    have "set (join_with CHR ''&'' ws) \<subseteq> \<Union> (set ` set ws) \<union> {CHR ''&''}" for ws :: "string list"
      by (induction "CHR ''&''" ws rule: join_with.induct) auto
    then show ?thesis using quoted_pairs_clean(3) [of _ q]
      by (fastforce simp: canonical_query_def quoted_pairs_def)
  qed
  ultimately show "split_on newline c = [m, canonical_uri p, canonical_query q]
     @ map (\<lambda>nm. nm @ '':'' @ collapse (the (h (map lower nm)))) snames
     @ [] # split_on newline (join_with CHR '';'' snames) @ split_on newline d"
    using assms(2) by (simp add: c split_on_append split_on_id l)
  show "\<forall>nm \<in> set snames. h (map lower nm) \<noteq> None" using l by blast
qed

lemma canonical_request_inj:
  assumes "build_canonical_request m p q h snames d = Inr c" and "build_canonical_request m' p' q' h' snames d' = Inr c"
    and "newline \<notin> set m" and "newline \<notin> set m'" and "snames \<noteq> []"
    and "\<forall>nm. newline \<in> set nm \<longrightarrow> h (map lower nm) = None" and "\<forall>nm. newline \<in> set nm \<longrightarrow> h' (map lower nm) = None"
  shows "m = m' \<and> (if p = [] then ''/'' else p) = (if p' = [] then ''/'' else p') \<and> mset (query_pairs q) = mset (query_pairs q')
     \<and> (\<forall>nm \<in> set snames. map_option collapse (h (map lower nm)) = map_option collapse (h' (map lower nm))) \<and> d = d'"
proof -
  note a = request_lines [OF assms(1,3,5,6)] and b = request_lines [OF assms(2,4,5,7)]
  from a(1) b(1) have e: "m = m'" "canonical_uri p = canonical_uri p'" "canonical_query q = canonical_query q'"
    "map (\<lambda>nm. nm @ '':'' @ collapse (the (h (map lower nm)))) snames = map (\<lambda>nm. nm @ '':'' @ collapse (the (h' (map lower nm)))) snames"
    "split_on newline d = split_on newline d'" by simp_all
  from e(4) have "\<forall>nm \<in> set snames. collapse (the (h (map lower nm))) = collapse (the (h' (map lower nm)))" by auto
  with a(2) b(2) have "\<forall>nm \<in> set snames. map_option collapse (h (map lower nm)) = map_option collapse (h' (map lower nm))"
    by fastforce
  moreover from e(5) have "d = d'" by (metis join_split_on)
  ultimately show ?thesis using e(1) canonical_uri_inj [OF e(2)] canonical_query_inj [OF e(3)] by blast
qed

lemma hex_fixed_chars: "set (hex_fixed n x) \<subseteq> set ''0123456789abcdef''"
proof (induction n arbitrary: x)
  case (Suc n)
  have "hex_digit (x mod 16) \<in> set ''0123456789abcdef''"
    unfolding hex_digit_def by (rule nth_mem) (simp add: nat_less_iff)
  with Suc show ?case by simp
qed simp

lemma hex_fixed_no_newline: "newline \<notin> set (hex_fixed n x)"
  using hex_fixed_chars [of n x] by auto

lemma hexdigest_no_newline: "newline \<notin> set (hexdigest bs)"
  using hex_fixed_no_newline by (auto simp: hexdigest_def)

lemma string_to_sign_inj:
  assumes "string_to_sign sg d scope c = string_to_sign sg d' scope c'"
  shows "d = d'" and "sg_sha256 sg (text_bytes c) = sg_sha256 sg (text_bytes c')"
proof -
  have l: "split_on newline (string_to_sign sg x scope y) =
      split_on newline ALGORITHM @ split_on newline x @ split_on newline scope @ [sha256_hex sg (text_bytes y)]" for x y
    using hexdigest_no_newline by (simp add: string_to_sign_def split_on_append split_on_id sha256_hex_def)
  from assms l [of d c] l [of d' c'] have "split_on newline d = split_on newline d'"
    "sha256_hex sg (text_bytes c) = sha256_hex sg (text_bytes c')" by auto
  then show "d = d'" "sg_sha256 sg (text_bytes c) = sg_sha256 sg (text_bytes c')"
    by (metis join_split_on, metis sha256_hex_def hexdigest_inj)
qed

section \<open>What an accepted signature says\<close>

definition scope_of :: "authorization \<Rightarrow> string" where
  "scope_of au = au_date au @ ''/'' @ au_region au @ ''/'' @ au_service au @ ''/aws4_request''"

lemma full_header_Some: "full_header h nm = Some v \<Longrightarrow> h nm = Some v"
  by (auto simp: full_header_def split: option.splits if_splits)

lemma verified:
  assumes "verify_signature sg m p q h body lookup clock = Inr (who, cr)"
    and "h ''authorization'' = Some auth" and "parse_authorization auth = Inr au"
  shows "\<exists>amz_date c. h ''x-amz-date'' = Some amz_date \<and> check_skew amz_date (au_date au) clock = Inr ()
     \<and> (declared_hash h = UNSIGNED_PAYLOAD \<or> body = None \<or> body = Some (declared_hash h))
     \<and> who = au_access_key au \<and> lookup who = Some cr
     \<and> build_canonical_request m p q h (au_signed au) (declared_hash h) = Inr c
     \<and> hexdigest (sg_hmac sg (signing_key sg (cr_secret cr) (au_date au) (au_region au) (au_service au))
          (text_bytes (string_to_sign sg amz_date (scope_of au) c))) = au_signature au"
proof -
  have a: "full_header h ''authorization'' = Some auth"
    using assms(1,2) full_header_Some [of h "''authorization''"]
    by (cases "full_header h ''authorization''") (auto simp: verify_signature_def)
  with assms(1,3) obtain amz_date where d: "full_header h ''x-amz-date'' = Some amz_date"
    by (cases "full_header h ''x-amz-date''") (auto simp: verify_signature_def)
  show ?thesis using assms(1,3) a d full_header_Some [OF d]
    by (auto simp: verify_signature_def Let_def signature_of_def scope_of_def split: option.splits sum.splits if_splits)
qed

text \<open>The texts a request has hashed, and hash functions without a collision on them.\<close>

definition signed_texts :: "signer \<Rightarrow> string \<Rightarrow> string \<Rightarrow> string \<Rightarrow> (string \<rightharpoonup> string) \<Rightarrow> authorization \<Rightarrow> bytes set" where
  "signed_texts sg m p q h au =
     (case build_canonical_request m p q h (au_signed au) (declared_hash h) of
        Inl _ \<Rightarrow> {}
      | Inr c \<Rightarrow> {text_bytes c, text_bytes (string_to_sign sg (or_else (h ''x-amz-date'') []) (scope_of au) c)})"

definition hash_separates :: "signer \<Rightarrow> bytes set \<Rightarrow> bool" where
  "hash_separates sg M \<longleftrightarrow> inj_on (sg_sha256 sg) M \<and> (\<forall>k. inj_on (sg_hmac sg k) M)"

text \<open>C31
  An accepted signature binds the request. If two requests under one Authorization header are
  both accepted, and the hashes do not collide on the texts the two have signed, then they
  agree on the method, the path, the query parameters up to order, every signed header up to
  runs of spaces, the date, the declared hash of the body and so on the body's hash: whoever
  sees a signed request can replay it, and nothing else.
\<close>

theorem sigv4_binds:
  assumes 1: "verify_signature sg m p q h body lookup clock = Inr who"
    and 2: "verify_signature sg m' p' q' h' body' lookup clock' = Inr who'"
    and same: "h ''authorization'' = Some auth" "h' ''authorization'' = Some auth" "parse_authorization auth = Inr au"
    and lines: "newline \<notin> set m" "newline \<notin> set m'"
      "\<forall>nm. newline \<in> set nm \<longrightarrow> h (map lower nm) = None" "\<forall>nm. newline \<in> set nm \<longrightarrow> h' (map lower nm) = None"
    and hash: "hash_separates sg M" "signed_texts sg m p q h au \<union> signed_texts sg m' p' q' h' au \<subseteq> M"
  shows "m = m' \<and> (if p = [] then ''/'' else p) = (if p' = [] then ''/'' else p') \<and> mset (query_pairs q) = mset (query_pairs q')
     \<and> (\<forall>nm \<in> set (au_signed au). map_option collapse (h (map lower nm)) = map_option collapse (h' (map lower nm)))
     \<and> h ''x-amz-date'' = h' ''x-amz-date'' \<and> declared_hash h = declared_hash h' \<and> who = who'
     \<and> (declared_hash h \<noteq> UNSIGNED_PAYLOAD \<longrightarrow> body = None \<or> body' = None \<or> body = body')"
proof -
  obtain k cr k' cr' where w: "who = (k, cr)" "who' = (k', cr')" by fastforce
  from verified [OF 1 [unfolded w] same(1,3)] obtain date c where
    a: "h ''x-amz-date'' = Some date" "k = au_access_key au" "lookup k = Some cr"
      "declared_hash h = UNSIGNED_PAYLOAD \<or> body = None \<or> body = Some (declared_hash h)"
      "build_canonical_request m p q h (au_signed au) (declared_hash h) = Inr c"
      "hexdigest (sg_hmac sg (signing_key sg (cr_secret cr) (au_date au) (au_region au) (au_service au))
          (text_bytes (string_to_sign sg date (scope_of au) c))) = au_signature au"
    by blast
  from verified [OF 2 [unfolded w] same(2,3)] obtain date' c' where
    b: "h' ''x-amz-date'' = Some date'" "k' = au_access_key au" "lookup k' = Some cr'"
      "declared_hash h' = UNSIGNED_PAYLOAD \<or> body' = None \<or> body' = Some (declared_hash h')"
      "build_canonical_request m' p' q' h' (au_signed au) (declared_hash h') = Inr c'"
      "hexdigest (sg_hmac sg (signing_key sg (cr_secret cr') (au_date au) (au_region au) (au_service au))
          (text_bytes (string_to_sign sg date' (scope_of au) c'))) = au_signature au"
    by blast
  have cr: "cr = cr'" "k = k'" using a(2,3) b(2,3) by auto
  have M: "text_bytes c \<in> M" "text_bytes (string_to_sign sg date (scope_of au) c) \<in> M"
    "text_bytes c' \<in> M" "text_bytes (string_to_sign sg date' (scope_of au) c') \<in> M"
    using hash(2) by (auto simp: signed_texts_def a(1,5) b(1,5) or_else_def)
  from a(6) b(6) cr have "string_to_sign sg date (scope_of au) c = string_to_sign sg date' (scope_of au) c'"
    using hash(1) M(2,4) unfolding hash_separates_def by (metis hexdigest_inj inj_onD text_bytes_inj)
  from string_to_sign_inj [OF this] hash(1) M(1,3) have dc: "date = date'" "c = c'"
    unfolding hash_separates_def by (auto dest: inj_onD text_bytes_inj)
  have "au_signed au \<noteq> []" using same(3)
    by (auto simp: parse_authorization_def Let_def split: option.splits list.splits if_splits)
  from canonical_request_inj [OF a(5) b(5) [folded dc(2)] lines(1,2) this lines(3,4)] a(1,4) b(1,4) dc cr w
  show ?thesis by auto
qed

definition toy_signer :: signer where
  "toy_signer = \<lparr>sg_sha256 = (\<lambda>x. [word_of_nat (length x)]), sg_hmac = (\<lambda>k x. [word_of_nat (length x)])\<rparr>"

definition toy_headers :: "string \<rightharpoonup> string" where
  "toy_headers = [''authorization'' \<mapsto> ''AWS4-HMAC-SHA256 Credential=k/20260101/r/s3/aws4_request, SignedHeaders=host, Signature=3F'',
     ''x-amz-date'' \<mapsto> ''20260101T000000Z'', ''host'' \<mapsto> ''h'']"

definition toy_credentials :: "string \<rightharpoonup> credentials" where
  "toy_credentials = [''k'' \<mapsto> \<lparr>cr_secret = ''s'', cr_buckets = None\<rparr>]"

theorem sigv4_binds_witness:
  "\<exists>who. verify_signature toy_signer ''GET'' ''/b/o'' ''a=1&b=2'' toy_headers None toy_credentials 1767225600000000 = Inr who
     \<and> verify_signature toy_signer ''GET'' ''/b/o'' ''b=2&a=1'' toy_headers None toy_credentials 1767225900000000 = Inr who
     \<and> mset (query_pairs ''a=1&b=2'') = mset (query_pairs ''b=2&a=1'')"
proof -
  let ?who = "(''k'', \<lparr>cr_secret = ''s'', cr_buckets = None\<rparr>)"
  have v: "verify_signature toy_signer ''GET'' ''/b/o'' ''a=1&b=2'' toy_headers None toy_credentials 1767225600000000 = Inr ?who"
    "verify_signature toy_signer ''GET'' ''/b/o'' ''b=2&a=1'' toy_headers None toy_credentials 1767225900000000 = Inr ?who"
    by code_simp+
  define auth where "auth = the (toy_headers ''authorization'')"
  define au where "au = projr (parse_authorization auth)"
  have h: "toy_headers ''authorization'' = Some auth" by (simp add: auth_def toy_headers_def)
  have p: "parse_authorization auth = Inr au" unfolding au_def auth_def by code_simp
  have n: "newline \<notin> set ''GET''" "\<forall>nm. newline \<in> set nm \<longrightarrow> toy_headers (map lower nm) = None"
  proof -
    have "newline \<in> set (map lower nm)" if "newline \<in> set nm" for nm
      using imageI [OF that, of lower] by (simp add: lower_def less_eq_char_def)
    then show "\<forall>nm. newline \<in> set nm \<longrightarrow> toy_headers (map lower nm) = None"
      unfolding toy_headers_def by fastforce
  qed simp
  let ?M = "signed_texts toy_signer ''GET'' ''/b/o'' ''a=1&b=2'' toy_headers au"
  have M: "signed_texts toy_signer ''GET'' ''/b/o'' ''b=2&a=1'' toy_headers au = ?M"
    "\<forall>x \<in> ?M. \<forall>y \<in> ?M. (word_of_nat (length x) :: byte) = word_of_nat (length y) \<longrightarrow> x = y"
    unfolding au_def auth_def by code_simp+
  then have sep: "hash_separates toy_signer ?M" by (simp add: hash_separates_def inj_on_def toy_signer_def)
  show ?thesis
    using sigv4_binds [OF v h h p n(1,1,2,2) sep] M(1) v by auto
qed

end
