(* ===== verification/S3.thy ===== *)
theory S3
  imports DavServer SigV4
begin

text \<open>
  The S3 frontend (\<open>manager/s3.py\<close>): keys and paths, listing in pages, objects, the batch
  delete, multipart uploads, and the dispatch with its authentication.

  \<open>s3_app\<close> is the state of the blueprint: the held sessions, the metadata store, the staged
  uploads and the draws from \<open>uuid4\<close>; \<open>s3_srv\<close> is what a handler works on inside a session.
  \<open>s3_conf\<close> is what is fixed: the ciphers, hashes, credentials and limits, and the code that
  is not in the repository (XML parser, \<open>repr\<close>, the microseconds that the floating-point
  division of a timestamp gives, the text of a signature error by the request's path, the Content-Type of a MIME type). A request is what the web
  framework hands over, with its headers in order, the decoded path and the parsed query
  arguments. Exceptions that the frontend does not map escape from \<open>s3_dispatch\<close>. The lock of
  the upload table makes each of its methods one step, as the session's makes the handler.
\<close>

section \<open>State\<close>

record upload =
  up_vid :: string
  up_key :: string
  up_metadata :: "(string \<times> string) list"
  up_parts :: "(int \<times> bytes) list"
  up_bytes :: int

record s3_conf =
  cf_lib :: crypto_lib
  cf_signer :: signer
  cf_credentials :: "string \<rightharpoonup> credentials"
  cf_suffix :: "string option"
  cf_max_body :: nat
  cf_uuid :: "nat \<Rightarrow> string"
  cf_parse :: "bytes \<Rightarrow> xml option"
  cf_repr :: "string \<Rightarrow> string"
  cf_micros :: "timestamp \<Rightarrow> int"
  cf_sig_message :: "string \<Rightarrow> sig_error \<Rightarrow> string"
  cf_mime :: "string \<Rightarrow> string"
  cf_frames :: nat

record s3_srv =
  sv_db :: db
  sv_uploads :: "(string \<times> upload) list"
  sv_drawn :: nat

record s3_app =
  sa_manager :: manager
  sa_store :: store
  sa_uploads :: "(string \<times> upload) list"
  sa_drawn :: nat
  sa_clock :: int

record s3_request =
  sr_method :: string
  sr_path :: string
  sr_query :: string
  sr_args :: "(string \<times> string) list"
  sr_headers :: "(string \<times> string) list"
  sr_host :: string
  sr_body :: bytes
  sr_bucket :: "string option"
  sr_rest :: string

text \<open>\<open>S3_Error\<close> has its code, message and status.\<close>

datatype s3_exn =
    S3_Error string string nat
  | S3_Eng fs_error
  | S3_Mgr manager_error

type_synonym 'a s3 = "s3_srv \<Rightarrow> (s3_exn + 'a) \<times> s3_srv"

definition s3_ret :: "'a \<Rightarrow> 'a s3" where
  "s3_ret x s = (Inr x, s)"

definition s3_raise :: "s3_exn \<Rightarrow> 'a s3" where
  "s3_raise e s = (Inl e, s)"

definition s3_bind :: "'a s3 \<Rightarrow> ('a \<Rightarrow> 'b s3) \<Rightarrow> 'b s3" where
  "s3_bind m f s = (case m s of (Inl e, s') \<Rightarrow> (Inl e, s') | (Inr x, s') \<Rightarrow> f x s')"

definition s3_eng :: "'a op \<Rightarrow> 'a s3" where
  "s3_eng m s = (case m (sv_db s) of (Inl e, d) \<Rightarrow> (Inl (S3_Eng e), s\<lparr>sv_db := d\<rparr>) | (Inr x, d) \<Rightarrow> (Inr x, s\<lparr>sv_db := d\<rparr>))"

definition s3_uuid :: "s3_conf \<Rightarrow> string s3" where
  "s3_uuid c s = (Inr (cf_uuid c (sv_drawn s)), s\<lparr>sv_drawn := Suc (sv_drawn s)\<rparr>)"

section \<open>Errors\<close>

definition xml_el :: "string \<Rightarrow> string \<Rightarrow> string" where
  "xml_el nm body = ''<'' @ nm @ ''>'' @ body @ ''</'' @ nm @ ''>''"

definition S3_DECL :: string where
  "S3_DECL = ''<?xml version='' @ [CHR 0x22] @ ''1.0'' @ [CHR 0x22] @ '' encoding='' @ [CHR 0x22] @ ''UTF-8''
     @ [CHR 0x22] @ ''?>'' @ [CHR 0x0A]"

definition s3_xml :: "nat \<Rightarrow> string \<Rightarrow> response" where
  "s3_xml status body = \<lparr>rp_status = status, rp_headers = [(''Content-Type'', ''application/xml'')], rp_body = text_bytes (S3_DECL @ body)\<rparr>"

definition error_response :: "string \<times> string \<times> nat \<Rightarrow> string \<Rightarrow> string \<Rightarrow> response" where
  "error_response = (\<lambda>(code, message, status) resource rid.
     s3_xml status (xml_el ''Error'' (xml_el ''Code'' (xml_escape code) @ xml_el ''Message'' (xml_escape message)
       @ xml_el ''Resource'' (xml_escape resource) @ xml_el ''RequestId'' rid)))"

text \<open>\<open>_translate\<close>, which raises what it has no code for again.\<close>

fun s3_translate :: "s3_exn \<Rightarrow> s3_exn + string \<times> string \<times> nat" where
  "s3_translate (S3_Error code message status) = Inr (code, message, status)"
| "s3_translate (S3_Eng e) =
     (if e = NotFound then Inr (''NoSuchKey'', ''the specified key does not exist'', 404)
      else if e \<in> {NotAnEntry, NotAContainer}
      then Inr (''InvalidRequest'', ''a key on this path already exists as the other kind of node; the aloelite backing store is a tree, so a key cannot be both an object and a prefix of other objects'', 409)
      else if e = LockHeld then Inr (''OperationAborted'', ''another write to this key is in progress'', 409)
      else Inl (S3_Eng e))"
| "s3_translate (S3_Mgr e) =
     (if e \<in> {BadPin, EncryptionMismatch} then Inr (''AccessDenied'', ''the volume credentials were refused'', 403)
      else if e = MountFailed then Inr (''InternalError'', ''the volume could not be opened'', 500)
      else Inl (S3_Mgr e))"

definition no_such_key :: s3_exn where
  "no_such_key = S3_Error ''NoSuchKey'' ''the specified key does not exist'' 404"

section \<open>Keys\<close>

definition key_segments :: "string \<Rightarrow> string list" where
  "key_segments raw = filter (\<lambda>p. p \<noteq> [] \<and> p \<noteq> ''.'' \<and> p \<noteq> ''..'') (split_on CHR ''/'' raw)"

definition norm_key :: "string \<Rightarrow> string" where
  "norm_key raw = CHR ''/'' # join_path (key_segments raw)"

definition key_of :: "string \<Rightarrow> string" where
  "key_of path = dropWhile (\<lambda>c. c = CHR ''/'') path"

text \<open>\<open>s.rsplit(c, 1)[0]\<close>\<close>

definition before_last :: "char \<Rightarrow> string \<Rightarrow> string" where
  "before_last c s = (if c \<in> set s then rev (tl (dropWhile (\<lambda>x. x \<noteq> c) (rev s))) else s)"

definition parent_path :: "string \<Rightarrow> string" where
  "parent_path path = (let p = before_last CHR ''/'' path in if p = [] then ''/'' else p)"

definition s3_etag :: "node_info \<Rightarrow> string" where
  "s3_etag info = [CHR 0x22] @ ni_id info @ (case ni_version info of None \<Rightarrow> [] | Some v \<Rightarrow> ''-'' @ show_nat v) @ [CHR 0x22]"

text \<open>Milliseconds are the microseconds cut, as the slice \<open>[:-3]\<close> of the text cuts them.\<close>

definition s3_iso8601 :: "s3_conf \<Rightarrow> timestamp \<Rightarrow> string" where
  "s3_iso8601 c ns =
     (let us = cf_micros c ns; sec = us div 1000000; (y, m, d) = civil (sec div 86400)
      in padded 4 y @ ''-'' @ padded 2 m @ ''-'' @ padded 2 d @ ''T'' @ clock_text (sec mod 86400)
         @ ''.'' @ padded 3 (us mod 1000000 div 1000) @ ''Z'')"

text \<open>\<open>info.modified_at or info.created_at\<close>\<close>

definition last_modified :: "s3_conf \<Rightarrow> node_info \<Rightarrow> string" where
  "last_modified c info = s3_iso8601 c (if ni_modified_at info \<noteq> 0 then ni_modified_at info else ni_created_at info)"

section \<open>Staged uploads\<close>

definition no_such_upload :: s3_exn where
  "no_such_upload = S3_Error ''NoSuchUpload'' ''the specified upload does not exist, or does not belong to this key'' 404"

definition upload_at :: "string \<Rightarrow> string \<Rightarrow> string \<Rightarrow> (string \<times> upload) list \<Rightarrow> s3_exn + upload" where
  "upload_at uid vid key ups =
     (case map_of ups uid of
        None \<Rightarrow> Inl no_such_upload
      | Some r \<Rightarrow> if up_vid r \<noteq> vid \<or> up_key r \<noteq> key then Inl no_such_upload else Inr r)"

definition part_digest :: "signer \<Rightarrow> bytes \<Rightarrow> string" where
  "part_digest sg data = take 32 (sha256_hex sg data)"

definition uploads_create :: "string \<Rightarrow> string \<Rightarrow> string \<Rightarrow> (string \<times> string) list \<Rightarrow> (string \<times> upload) list \<Rightarrow> (string \<times> upload) list" where
  "uploads_create uid vid key meta ups =
     AList.update uid \<lparr>up_vid = vid, up_key = key, up_metadata = meta, up_parts = [], up_bytes = 0\<rparr> ups"

definition put_part ::
  "signer \<Rightarrow> nat \<Rightarrow> string \<Rightarrow> string \<Rightarrow> string \<Rightarrow> int \<Rightarrow> bytes \<Rightarrow> (string \<times> upload) list \<Rightarrow> s3_exn + string \<times> (string \<times> upload) list" where
  "put_part sg limit uid vid key number data ups =
     (case upload_at uid vid key ups of
        Inl e \<Rightarrow> Inl e
      | Inr r \<Rightarrow>
          (let previous = (case map_of (up_parts r) number of None \<Rightarrow> 0 | Some b \<Rightarrow> length b);
               grown = up_bytes r - int previous + int (length data)
           in if grown > int limit
              then Inl (S3_Error ''EntityTooLarge''
                (''the multipart upload exceeds this endpoint'' @ [CHR 0x27] @ ''s staging limit of '' @ show_nat limit @ '' bytes'') 400)
              else Inr ([CHR 0x22] @ part_digest sg data @ [CHR 0x22],
                AList.update uid (r\<lparr>up_parts := AList.update number data (up_parts r), up_bytes := grown\<rparr>) ups)))"

text \<open>The loop of \<open>complete\<close> over the listed parts.\<close>

fun assemble :: "signer \<Rightarrow> (int \<times> bytes) list \<Rightarrow> (int \<times> string) list \<Rightarrow> s3_exn + bytes" where
  "assemble sg parts [] = Inr []"
| "assemble sg parts ((number, tag) # wanted) =
     (case map_of parts number of
        None \<Rightarrow> Inl (S3_Error ''InvalidPart'' (''part '' @ show_int number @ '' was never uploaded'') 400)
      | Some data \<Rightarrow>
          if tag \<noteq> [] \<and> strip (\<lambda>c. c = CHR 0x22) tag \<noteq> part_digest sg data
          then Inl (S3_Error ''InvalidPart'' (''the etag for part '' @ show_int number @ '' does not match the staged bytes'') 400)
          else map_sum id (\<lambda>rest. data @ rest) (assemble sg parts wanted))"

definition complete_upload ::
  "signer \<Rightarrow> string \<Rightarrow> string \<Rightarrow> string \<Rightarrow> (int \<times> string) list \<Rightarrow> (string \<times> upload) list
     \<Rightarrow> s3_exn + (bytes \<times> (string \<times> string) list) \<times> (string \<times> upload) list" where
  "complete_upload sg uid vid key wanted ups =
     (case upload_at uid vid key ups of
        Inl e \<Rightarrow> Inl e
      | Inr r \<Rightarrow>
          if wanted = [] then Inl (S3_Error ''InvalidRequest'' ''no parts were listed'' 400)
          else if map fst wanted \<noteq> sort (map fst wanted)
          then Inl (S3_Error ''InvalidPartOrder'' ''parts must be listed in ascending order'' 400)
          else (case assemble sg (up_parts r) wanted of
              Inl e \<Rightarrow> Inl e
            | Inr body \<Rightarrow> Inr ((body, up_metadata r), AList.delete uid ups)))"

definition abort_upload :: "string \<Rightarrow> string \<Rightarrow> string \<Rightarrow> (string \<times> upload) list \<Rightarrow> s3_exn + (string \<times> upload) list" where
  "abort_upload uid vid key ups = map_sum id (\<lambda>_. AList.delete uid ups) (upload_at uid vid key ups)"

definition forget_volume :: "string \<Rightarrow> (string \<times> upload) list \<Rightarrow> (string \<times> upload) list" where
  "forget_volume vid ups = filter (\<lambda>(_, r). up_vid r \<noteq> vid) ups"

definition on_uploads :: "((string \<times> upload) list \<Rightarrow> s3_exn + 'a \<times> (string \<times> upload) list) \<Rightarrow> 'a s3" where
  "on_uploads f s = (case f (sv_uploads s) of Inl e \<Rightarrow> (Inl e, s) | Inr (x, ups) \<Rightarrow> (Inr x, s\<lparr>sv_uploads := ups\<rparr>))"


section \<open>Requests\<close>

definition arg :: "s3_request \<Rightarrow> string \<Rightarrow> string option" where
  "arg rq k = map_of (sr_args rq) k"

text \<open>A header without regard to case, and its value when it is there and not empty.\<close>

definition s3_headers :: "s3_request \<Rightarrow> string \<rightharpoonup> string" where
  "s3_headers rq = map_of (map (\<lambda>(k, v). (map lower k, v)) (sr_headers rq))"

definition AMZ_META :: string where
  "AMZ_META = ''x-amz-meta-''"

definition META_KEY :: string where
  "META_KEY = ''s3:meta:''"

definition request_metadata :: "s3_request \<Rightarrow> (string \<times> string) list" where
  "request_metadata rq =
     foldl (\<lambda>meta (k, v). let low = map lower k in
          if prefix AMZ_META low then AList.update (META_KEY @ drop (length AMZ_META) low) v meta else meta)
       (case full_header (s3_headers rq) ''content-type'' of None \<Rightarrow> [] | Some t \<Rightarrow> [(''s3:content-type'', t)])
       (sr_headers rq)"

section \<open>Listing\<close>

definition s3_try :: "'a s3 \<Rightarrow> (s3_exn + 'a) s3" where
  "s3_try m s = (case m s of (r, s') \<Rightarrow> (Inr r, s'))"

primrec s3_all :: "'a list s3 list \<Rightarrow> 'a list s3" where
  "s3_all [] = s3_ret []"
| "s3_all (m # ms) = s3_bind m (\<lambda>x. s3_bind (s3_all ms) (\<lambda>rest. s3_ret (x @ rest)))"

definition child_path :: "string \<Rightarrow> string \<Rightarrow> string" where
  "child_path path nm =
     (if path \<noteq> ''/'' then rev (dropWhile (\<lambda>c. c = CHR ''/'') (rev path)) @ CHR ''/'' # nm else CHR ''/'' # nm)"

text \<open>
  The walk swallows what \<open>list\<close> raises, the RecursionError of a stack that is used up
  included: then the containers below are left out.
\<close>

primrec s3_walk :: "nat \<Rightarrow> mount_id \<Rightarrow> string \<Rightarrow> (string \<times> string) list s3" where
  "s3_walk 0 m path = s3_ret []"
| "s3_walk (Suc frames) m path =
     s3_bind (s3_try (s3_eng (list_dir m path))) (\<lambda>r.
     case r of
       Inl _ \<Rightarrow> s3_ret []
     | Inr entries \<Rightarrow> s3_all (map (\<lambda>e.
         let child = child_path path (ls_name e) in
         if ls_type e = CONTAINER then s3_walk frames m child else s3_ret [(key_of child, child)]) entries))"

record page =
  pg_contents :: "(string \<times> node_info) list"
  pg_common :: "string list"
  pg_truncated :: bool
  pg_next :: string

definition pg_emitted :: "page \<Rightarrow> nat" where
  "pg_emitted pg = length (pg_contents pg) + length (pg_common pg)"

definition new_page :: page where
  "new_page = \<lparr>pg_contents = [], pg_common = [], pg_truncated = False, pg_next = []\<rparr>"

text \<open>\<open>s.find(d)\<close>, and the common prefix of a key, when it has one.\<close>

fun find_sub :: "string \<Rightarrow> string \<Rightarrow> nat option" where
  "find_sub d [] = (if d = [] then Some 0 else None)"
| "find_sub d (c # s) = (if prefix d (c # s) then Some 0 else map_option Suc (find_sub d s))"

definition group_of :: "string \<Rightarrow> string \<Rightarrow> string \<Rightarrow> string option" where
  "group_of pre delimiter key =
     (if delimiter = [] then None
      else (let rest = drop (length pre) key in
            map_option (\<lambda>i. pre @ take (i + length delimiter) rest) (find_sub delimiter rest)))"

text \<open>The loop over the sorted keys. The set of prefixes it has seen is \<open>pg_common\<close>.\<close>

fun list_loop :: "mount_id \<Rightarrow> string \<Rightarrow> string \<Rightarrow> string \<Rightarrow> nat \<Rightarrow> string list \<Rightarrow> page \<Rightarrow> page s3" where
  "list_loop m pre delimiter marker max_keys [] pg = s3_ret pg"
| "list_loop m pre delimiter marker max_keys (key # keys) pg =
     (if marker \<noteq> [] \<and> key \<le> marker then list_loop m pre delimiter marker max_keys keys pg
      else (case group_of pre delimiter key of
          Some g \<Rightarrow>
            if g \<in> set (pg_common pg) then list_loop m pre delimiter marker max_keys keys pg
            else if max_keys \<le> pg_emitted pg then s3_ret (pg\<lparr>pg_truncated := True, pg_next := key\<rparr>)
            else list_loop m pre delimiter marker max_keys keys (pg\<lparr>pg_common := pg_common pg @ [g], pg_next := key\<rparr>)
        | None \<Rightarrow>
            if max_keys \<le> pg_emitted pg then s3_ret (pg\<lparr>pg_truncated := True\<rparr>)
            else s3_bind (s3_eng (stat m (norm_key key))) (\<lambda>info.
              list_loop m pre delimiter marker max_keys keys
                (pg\<lparr>pg_contents := pg_contents pg @ [(key, info)], pg_next := key\<rparr>))))"

definition s3_max_keys :: "s3_request \<Rightarrow> s3_exn + nat" where
  "s3_max_keys rq =
     (case (case arg rq ''max-keys'' of None \<Rightarrow> Some 1000 | Some t \<Rightarrow> parse_int t) of
        None \<Rightarrow> Inl (S3_Error ''InvalidArgument'' ''max-keys must be an integer'' 400)
      | Some k \<Rightarrow> if min k 1000 < 0 then Inl (S3_Error ''InvalidArgument'' ''max-keys must not be negative'' 400)
                 else Inr (nat (min k 1000)))"

definition s3_sum :: "s3_exn + 'a \<Rightarrow> 'a s3" where
  "s3_sum r s = (r, s)"

text \<open>The walk starts at the deepest container the prefix names.\<close>

definition list_root :: "string \<Rightarrow> string" where
  "list_root pre = (if CHR ''/'' \<in> set pre then norm_key (before_last CHR ''/'' pre) else ''/'')"

definition list_page :: "s3_conf \<Rightarrow> mount_id \<Rightarrow> string \<Rightarrow> string \<Rightarrow> string \<Rightarrow> nat \<Rightarrow> page s3" where
  "list_page c m pre delimiter marker max_keys =
     s3_bind (s3_walk (cf_frames c) m (list_root pre)) (\<lambda>found.
     let keys = sort (filter (prefix pre) (map fst found))
     in list_loop m pre delimiter marker max_keys keys new_page)"

definition content_xml :: "s3_conf \<Rightarrow> string \<times> node_info \<Rightarrow> string" where
  "content_xml c = (\<lambda>(key, info).
     xml_el ''Contents'' (xml_el ''Key'' (xml_escape key) @ xml_el ''LastModified'' (last_modified c info)
       @ xml_el ''ETag'' (xml_escape (s3_etag info)) @ xml_el ''Size'' (show_nat (or_else (ni_size info) 0))
       @ xml_el ''StorageClass'' ''STANDARD''))"

definition S3_NS :: string where
  "S3_NS = '' xmlns='' @ [CHR 0x22] @ ''http://s3.amazonaws.com/doc/2006-03-01/'' @ [CHR 0x22]"

definition s3_doc :: "string \<Rightarrow> string \<Rightarrow> string" where
  "s3_doc nm body = ''<'' @ nm @ S3_NS @ ''>'' @ body @ ''</'' @ nm @ ''>''"

definition list_xml :: "s3_conf \<Rightarrow> vol_record \<Rightarrow> string \<Rightarrow> string \<Rightarrow> string \<Rightarrow> nat \<Rightarrow> page \<Rightarrow> string" where
  "list_xml c r pre marker delimiter max_keys pg =
     s3_doc ''ListBucketResult''
       (xml_el ''Name'' (xml_escape (vr_name r)) @ xml_el ''Prefix'' (xml_escape pre) @ xml_el ''Marker'' (xml_escape marker)
        @ xml_el ''MaxKeys'' (show_nat max_keys) @ xml_el ''Delimiter'' (xml_escape delimiter)
        @ xml_el ''IsTruncated'' (if pg_truncated pg then ''true'' else ''false'')
        @ (if pg_truncated pg \<and> delimiter \<noteq> [] then xml_el ''NextMarker'' (xml_escape (pg_next pg)) else [])
        @ concat (map (content_xml c) (pg_contents pg))
        @ concat (map (\<lambda>g. xml_el ''CommonPrefixes'' (xml_el ''Prefix'' (xml_escape g))) (pg_common pg)))"

definition s3_do_list :: "s3_conf \<Rightarrow> vol_record \<Rightarrow> mount_id \<Rightarrow> s3_request \<Rightarrow> response s3" where
  "s3_do_list c r m rq =
     (let pre = or_else (arg rq ''prefix'') []; delimiter = or_else (arg rq ''delimiter'') [];
          marker = or_else (arg rq ''marker'') [] in
      s3_bind (s3_sum (s3_max_keys rq)) (\<lambda>max_keys.
      s3_bind (list_page c m pre delimiter marker max_keys) (\<lambda>pg.
      s3_ret (s3_xml 200 (list_xml c r pre marker delimiter max_keys pg)))))"

section \<open>Objects\<close>

text \<open>The metadata keys below \<open>s3:meta:\<close> come back as headers.\<close>

definition meta_headers :: "(string \<times> string) list \<Rightarrow> (string \<times> string) list" where
  "meta_headers meta =
     map (\<lambda>(k, v). (AMZ_META @ drop (length META_KEY) k, v)) (filter (\<lambda>(k, v). prefix META_KEY k) meta)"

definition s3_do_get :: "s3_conf \<Rightarrow> mount_id \<Rightarrow> string \<Rightarrow> bool \<Rightarrow> response s3" where
  "s3_do_get c m key body =
     (let path = norm_key key in
      s3_bind (s3_eng (stat m path)) (\<lambda>info.
      if is_dir info then s3_raise no_such_key
      else
        s3_bind (s3_uuid c) (\<lambda>rid.
        let headers = [(''Content-Type'', cf_mime c (or_else (map_of (ni_metadata info) ''s3:content-type'') ''application/octet-stream'')),
              (''ETag'', s3_etag info), (''Last-Modified'', last_modified c info),
              (''Content-Length'', case ni_size info of None \<Rightarrow> ''None'' | Some k \<Rightarrow> show_nat k),
              (''Accept-Ranges'', ''bytes''), (''x-amz-request-id'', rid)] @ meta_headers (ni_metadata info) in
        if \<not> body then s3_ret \<lparr>rp_status = 200, rp_headers = headers, rp_body = []\<rparr>
        else
          s3_bind (s3_eng (read_all (cf_lib c) m path)) (\<lambda>data.
          s3_ret \<lparr>rp_status = 200, rp_headers = headers, rp_body = data\<rparr>))))"

definition S3_STREAM_CHUNK :: nat where
  "S3_STREAM_CHUNK = 1048576"

text \<open>\<open>with m.open_write(...) as writer\<close>: the slices are written, then \<open>__exit__\<close> commits or aborts.\<close>

definition send_body :: "s3_conf \<Rightarrow> bytes \<Rightarrow> descriptor \<Rightarrow> unit op" where
  "send_body c data d s =
     (let (r, d', t) = d_write_list (cf_lib c) (split_chunks S3_STREAM_CHUNK data) d s;
          (closing, _, t') = d_exit (cf_lib c) (r \<noteq> Inr ()) d' t
      in (case closing of Inl e \<Rightarrow> Inl e | Inr _ \<Rightarrow> r, t'))"

definition write_object :: "s3_conf \<Rightarrow> mount_id \<Rightarrow> string \<Rightarrow> bytes \<Rightarrow> (string \<times> string) list \<Rightarrow> unit op" where
  "write_object c m path data meta =
     bind_op (open_write (cf_lib c) m path TRUNCATE None) (\<lambda>d.
     bind_op (send_body c data d) (\<lambda>_.
     if meta \<noteq> [] then set_metadata m path meta else ret ()))"

text \<open>Containers that a key implies are made on demand.\<close>

definition make_parents :: "mount_id \<Rightarrow> string \<Rightarrow> unit op" where
  "make_parents m path =
     (let parent = parent_path path in
      if parent \<noteq> ''/'' then bind_op (mkdir m parent True True) (\<lambda>_. ret ()) else ret ())"

definition s3_do_put :: "s3_conf \<Rightarrow> mount_id \<Rightarrow> string \<Rightarrow> bytes \<Rightarrow> s3_request \<Rightarrow> response s3" where
  "s3_do_put c m key data rq =
     (let path = norm_key key in
      s3_bind (s3_eng (make_parents m path)) (\<lambda>_.
      s3_bind (s3_eng (write_object c m path data (request_metadata rq))) (\<lambda>_.
      s3_bind (s3_eng (stat m path)) (\<lambda>info.
      s3_ret \<lparr>rp_status = 200, rp_headers = [(''ETag'', s3_etag info)], rp_body = []\<rparr>))))"

text \<open>DELETE of a key that is not there succeeds.\<close>

definition s3_do_delete :: "mount_id \<Rightarrow> string \<Rightarrow> response s3" where
  "s3_do_delete m key =
     s3_bind (s3_try (s3_eng (remove m (norm_key key)))) (\<lambda>r.
     case r of
       Inr _ \<Rightarrow> s3_ret (plain 204)
     | Inl e \<Rightarrow> (case s3_translate e of
           Inl x \<Rightarrow> s3_raise x
         | Inr (code, _, _) \<Rightarrow> if code \<noteq> ''NoSuchKey'' then s3_raise e else s3_ret (plain 204)))"


section \<open>Batch delete\<close>

text \<open>\<open>findtext\<close> of a child, by a local name in any namespace or by the plain tag; the first that is not empty.\<close>

definition find_text :: "string \<Rightarrow> xml \<Rightarrow> string" where
  "find_text nm x =
     (let first_of = (\<lambda>P. case find P (kids x) of None \<Rightarrow> [] | Some k \<Rightarrow> xm_text k);
          any = first_of (\<lambda>k. xm_tag k = nm \<or> suffix (CHR ''}'' # nm) (xm_tag k))
      in if any \<noteq> [] then any else first_of (\<lambda>k. xm_tag k = nm))"

fun elements :: "xml \<Rightarrow> xml list" where
  "elements (Elem tag txt ks) = Elem tag txt ks # concat (map (\<lambda>(k, tail). elements k) ks)"

definition elements_ending :: "string \<Rightarrow> xml \<Rightarrow> xml list" where
  "elements_ending nm root = filter (\<lambda>x. suffix nm (xm_tag x)) (elements root)"

definition s3_parse :: "s3_conf \<Rightarrow> string \<Rightarrow> bytes \<Rightarrow> xml s3" where
  "s3_parse c what data =
     (case cf_parse c data of
        None \<Rightarrow> s3_raise (S3_Error ''MalformedXML'' (''the '' @ what @ '' request is not valid XML'') 400)
      | Some root \<Rightarrow> s3_ret root)"

type_synonym delete_result = "string list \<times> (string \<times> string \<times> string) list"

fun delete_keys :: "mount_id \<Rightarrow> string list \<Rightarrow> delete_result \<Rightarrow> delete_result s3" where
  "delete_keys m [] acc = s3_ret acc"
| "delete_keys m (key # keys) (deleted, errors) =
     s3_bind (s3_try (s3_eng (remove m (norm_key key)))) (\<lambda>r.
     case r of
       Inr _ \<Rightarrow> delete_keys m keys (deleted @ [key], errors)
     | Inl e \<Rightarrow> (case s3_translate e of
           Inl x \<Rightarrow> s3_raise x
         | Inr (code, message, _) \<Rightarrow>
             if code = ''NoSuchKey'' then delete_keys m keys (deleted @ [key], errors)
             else delete_keys m keys (deleted, errors @ [(key, code, message)])))"

definition s3_do_delete_batch :: "s3_conf \<Rightarrow> mount_id \<Rightarrow> bytes \<Rightarrow> response s3" where
  "s3_do_delete_batch c m data =
     s3_bind (s3_parse c ''delete'' data) (\<lambda>root.
     let quiet = (map lower (find_text ''Quiet'' root) = ''true'');
         keys = filter (\<lambda>k. k \<noteq> []) (map (find_text ''Key'') (elements_ending ''Object'' root)) in
     s3_bind (delete_keys m keys ([], [])) (\<lambda>(deleted, errors).
     s3_ret (s3_xml 200 (s3_doc ''DeleteResult''
       ((if quiet then [] else concat (map (\<lambda>k. xml_el ''Deleted'' (xml_el ''Key'' (xml_escape k))) deleted))
        @ concat (map (\<lambda>(k, code, msg). xml_el ''Error'' (xml_el ''Key'' (xml_escape k)
            @ xml_el ''Code'' (xml_escape code) @ xml_el ''Message'' (xml_escape msg))) errors))))))"

section \<open>Multipart uploads\<close>

definition s3_create_multipart :: "s3_conf \<Rightarrow> vol_record \<Rightarrow> string \<Rightarrow> s3_request \<Rightarrow> response s3" where
  "s3_create_multipart c r key rq =
     s3_bind (s3_uuid c) (\<lambda>uid.
     s3_bind (on_uploads (\<lambda>ups. Inr ((), uploads_create uid (vr_id r) key (request_metadata rq) ups))) (\<lambda>_.
     s3_ret (s3_xml 200 (s3_doc ''InitiateMultipartUploadResult''
       (xml_el ''Bucket'' (xml_escape (vr_name r)) @ xml_el ''Key'' (xml_escape key)
        @ xml_el ''UploadId'' (xml_escape uid))))))"

definition s3_upload_part :: "s3_conf \<Rightarrow> vol_record \<Rightarrow> string \<Rightarrow> bytes \<Rightarrow> s3_request \<Rightarrow> response s3" where
  "s3_upload_part c r key data rq =
     (case Option.bind (arg rq ''partNumber'') parse_int of
        None \<Rightarrow> s3_raise (S3_Error ''InvalidArgument'' ''partNumber must be an integer'' 400)
      | Some number \<Rightarrow>
          if \<not> (1 \<le> number \<and> number \<le> 10000)
          then s3_raise (S3_Error ''InvalidArgument'' ''partNumber must be 1..10000'' 400)
          else
            s3_bind (on_uploads (put_part (cf_signer c) (cf_max_body c * 16) (or_else (arg rq ''uploadId'') []) (vr_id r) key number data))
              (\<lambda>tag. s3_ret \<lparr>rp_status = 200, rp_headers = [(''ETag'', tag)], rp_body = []\<rparr>))"

text \<open>The parts a client lists; a number that is no integer raises ValueError.\<close>

fun wanted_parts :: "xml list \<Rightarrow> fs_error + (int \<times> string) list" where
  "wanted_parts [] = Inr []"
| "wanted_parts (part # parts) =
     (let num = find_text ''PartNumber'' part; tag = find_text ''ETag'' part in
      if num = [] then wanted_parts parts
      else (case parse_int num of
          None \<Rightarrow> Inl ValueError
        | Some k \<Rightarrow> map_sum id (\<lambda>rest. (k, tag) # rest) (wanted_parts parts)))"

definition s3_complete_multipart :: "s3_conf \<Rightarrow> vol_record \<Rightarrow> mount_id \<Rightarrow> string \<Rightarrow> bytes \<Rightarrow> s3_request \<Rightarrow> response s3" where
  "s3_complete_multipart c r m key data rq =
     s3_bind (if data = [] then s3_ret [] else s3_bind (s3_parse c ''complete'' data) (\<lambda>root. s3_ret (elements_ending ''Part'' root))) (\<lambda>parts.
     s3_bind (s3_sum (map_sum S3_Eng id (wanted_parts parts))) (\<lambda>wanted.
     s3_bind (on_uploads (complete_upload (cf_signer c) (or_else (arg rq ''uploadId'') []) (vr_id r) key wanted)) (\<lambda>(body, meta).
     let path = norm_key key in
     s3_bind (s3_eng (make_parents m path)) (\<lambda>_.
     s3_bind (s3_eng (write_object c m path body meta)) (\<lambda>_.
     s3_bind (s3_eng (stat m path)) (\<lambda>info.
     s3_ret (s3_xml 200 (s3_doc ''CompleteMultipartUploadResult''
       (xml_el ''Location'' (xml_escape (quote ''/'' (CHR ''/'' # vr_name r @ CHR ''/'' # key)))
        @ xml_el ''Bucket'' (xml_escape (vr_name r)) @ xml_el ''Key'' (xml_escape key)
        @ xml_el ''ETag'' (xml_escape (s3_etag info)))))))))))"

definition s3_abort_multipart :: "vol_record \<Rightarrow> string \<Rightarrow> s3_request \<Rightarrow> response s3" where
  "s3_abort_multipart r key rq =
     s3_bind (on_uploads (\<lambda>ups. map_sum id (Pair ()) (abort_upload (or_else (arg rq ''uploadId'') []) (vr_id r) key ups))) (\<lambda>_.
     s3_ret (plain 204))"

section \<open>Dispatch\<close>

definition RESERVED_BUCKETS :: "string list" where
  "RESERVED_BUCKETS = [''admin'', ''filesystems'', ''health'', ''volumes'', ''dav'', ''static'', ''s3'']"

definition s3_body :: "s3_conf \<Rightarrow> s3_request \<Rightarrow> s3_exn + bytes" where
  "s3_body c rq =
     (if sr_method rq \<notin> {''PUT'', ''POST''} then Inr []
      else if length (sr_body rq) > cf_max_body c
      then Inl (S3_Error ''EntityTooLarge''
        (''request body exceeds this endpoint'' @ [CHR 0x27] @ ''s limit of '' @ show_nat (cf_max_body c) @ '' bytes'') 400)
      else Inr (sr_body rq))"

definition s3_authenticate :: "s3_conf \<Rightarrow> int \<Rightarrow> s3_request \<Rightarrow> bytes \<Rightarrow> s3_exn + credentials" where
  "s3_authenticate c clock rq body =
     (case verify_signature (cf_signer c) (sr_method rq) (sr_path rq) (sr_query rq) (s3_headers rq)
             (Some (sha256_hex (cf_signer c) body)) (cf_credentials c) clock of
        Inl e \<Rightarrow> Inl (S3_Error (sig_code e) (cf_sig_message c (sr_path rq) e) (sig_status e))
      | Inr (_, cr) \<Rightarrow> Inr cr)"

text \<open>The key is decoded here, although the framework has decoded the path already.\<close>

definition split_target :: "s3_conf \<Rightarrow> s3_request \<Rightarrow> s3_exn + string \<times> string" where
  "split_target c rq =
     (let host = takeWhile (\<lambda>ch. ch \<noteq> CHR '':'') (sr_host rq);
          strip_slash = (\<lambda>k. strip (\<lambda>ch. ch = CHR ''/'') (unquote k));
          virtual = (case cf_suffix c of None \<Rightarrow> None | Some sfx \<Rightarrow> if sfx = [] then None else Some (dropWhile (\<lambda>ch. ch = CHR ''.'') sfx));
          in_path = or_else (sr_bucket rq) [];
          with_path = Inr (in_path, strip_slash (sr_rest rq));
          plain_target = (if in_path = [] then Inl (S3_Error ''InvalidBucketName'' ''no bucket in the request'' 400) else with_path)
      in case virtual of
           None \<Rightarrow> plain_target
         | Some sfx \<Rightarrow>
             if suffix (CHR ''.'' # sfx) host
             then Inr (take (length host - (length sfx + 1)) host,
                    strip_slash ((if in_path \<noteq> [] then in_path @ ''/'' else []) @ sr_rest rq))
             else plain_target)"

definition resolve_bucket :: "s3_conf \<Rightarrow> store \<Rightarrow> string \<Rightarrow> s3_exn + vol_record" where
  "resolve_bucket c st bucket =
     (if bucket \<in> set RESERVED_BUCKETS
      then Inl (S3_Error ''InvalidBucketName''
        (cf_repr c bucket @ '' is reserved by the manager'' @ [CHR 0x27] @ ''s own API and cannot be served as a bucket'') 400)
      else (case find (\<lambda>r. vr_name r = bucket) (list_vols st) of
          Some r \<Rightarrow> Inr r
        | None \<Rightarrow> Inl (S3_Error ''NoSuchBucket'' (''no volume is named '' @ cf_repr c bucket) 404)))"

type_synonym 'a s3_step = "s3_app \<Rightarrow> (s3_exn + 'a) \<times> s3_app"

definition open_session :: "s3_conf \<Rightarrow> vol_record \<Rightarrow> credentials \<Rightarrow> mount_id s3_step" where
  "open_session c r cr a =
     (let enter = (\<lambda>g. (map_sum S3_Mgr id (session_mount g (vr_id r) NoAuth),
                        a\<lparr>sa_manager := g, sa_store := mark_mounted r (sa_store a)\<rparr>)) in
      if \<not> may_access cr (vr_name r)
      then (Inl (S3_Error ''AccessDenied'' (''this access key may not address '' @ cf_repr c (vr_name r)) 403), a)
      else if is_unlocked (sa_manager a) (vr_id r) then enter (sa_manager a)
      else if vr_encrypted r
      then (Inl (S3_Error ''AccessDenied'' (''volume '' @ cf_repr c (vr_name r)
              @ '' is encrypted and locked; unlock it through the manager API before replicating to it'') 403), a)
      else (case unlock_at r None (sa_store a) (sa_manager a) of
          (Inl e, g) \<Rightarrow> if e = AlreadyMounted then enter g else (Inl (S3_Mgr e), a\<lparr>sa_manager := g\<rparr>)
        | (Inr _, g) \<Rightarrow> enter g))"

definition s3_handler :: "s3_conf \<Rightarrow> vol_record \<Rightarrow> mount_id \<Rightarrow> string \<Rightarrow> bytes \<Rightarrow> s3_request \<Rightarrow> response s3" where
  "s3_handler c r m key data rq =
     (let has = (\<lambda>k. arg rq k \<noteq> None) in
      if sr_method rq = ''GET'' then (if key = [] then s3_do_list c r m rq else s3_do_get c m key True)
      else if sr_method rq = ''HEAD'' then (if key = [] then s3_ret (plain 200) else s3_do_get c m key False)
      else if sr_method rq = ''PUT'' then
        (if has ''uploadId'' \<and> has ''partNumber'' then s3_upload_part c r key data rq else s3_do_put c m key data rq)
      else if sr_method rq = ''POST'' then
        (if has ''delete'' \<and> key = [] then s3_do_delete_batch c m data
         else if has ''uploads'' then s3_create_multipart c r key rq
         else if has ''uploadId'' then s3_complete_multipart c r m key data rq
         else s3_raise (S3_Error ''InvalidRequest'' ''unsupported POST'' 400))
      else if sr_method rq = ''DELETE'' then
        (if has ''uploadId'' then s3_abort_multipart r key rq else s3_do_delete m key)
      else s3_raise (S3_Error ''MethodNotAllowed'' ''unsupported method'' 405))"

text \<open>The handler on the connection of the session.\<close>

definition s3_in_session :: "vol_record \<Rightarrow> 'a s3 \<Rightarrow> 'a s3_step" where
  "s3_in_session r h a =
     (let g = sa_manager a; e = the (session_at g (vr_id r));
          (res, s) = h \<lparr>sv_db = on_disk g (ds_path e) (ds_conn e), sv_uploads = sa_uploads a, sv_drawn = sa_drawn a\<rparr>
      in (res, a\<lparr>sa_manager := put_session (vr_id r) (e\<lparr>ds_conn := sv_db s\<rparr>) g,
                 sa_uploads := sv_uploads s, sa_drawn := sv_drawn s\<rparr>))"

definition s3_admit :: "s3_conf \<Rightarrow> s3_request \<Rightarrow> s3_app \<Rightarrow> s3_exn + bytes \<times> credentials \<times> string \<times> vol_record" where
  "s3_admit c rq a =
     (case s3_body c rq of
        Inl e \<Rightarrow> Inl e
      | Inr data \<Rightarrow> (case s3_authenticate c (sa_clock a) rq data of
            Inl e \<Rightarrow> Inl e
          | Inr cr \<Rightarrow> (case split_target c rq of
                Inl e \<Rightarrow> Inl e
              | Inr (bucket, key) \<Rightarrow> map_sum id (\<lambda>r. (data, cr, key, r)) (resolve_bucket c (sa_store a) bucket))))"

definition s3_serve :: "s3_conf \<Rightarrow> s3_request \<Rightarrow> response s3_step" where
  "s3_serve c rq a =
     (case s3_admit c rq a of
        Inl e \<Rightarrow> (Inl e, a)
      | Inr (data, cr, key, r) \<Rightarrow>
          (case open_session c r cr a of
             (Inl e, a1) \<Rightarrow> (Inl e, a1)
           | (Inr m, a1) \<Rightarrow> s3_in_session r (s3_handler c r m key data rq) a1))"

definition s3_dispatch :: "s3_conf \<Rightarrow> s3_request \<Rightarrow> response s3_step" where
  "s3_dispatch c rq a =
     (case s3_serve c rq a of
        (Inr resp, a1) \<Rightarrow> (Inr resp, a1)
      | (Inl e, a1) \<Rightarrow> (case s3_translate e of
            Inl x \<Rightarrow> (Inl x, a1)
          | Inr err \<Rightarrow> (Inr (error_response err (sr_path rq) (cf_uuid c (sa_drawn a1))), a1\<lparr>sa_drawn := Suc (sa_drawn a1)\<rparr>)))"

end
