(* ===== verification/S3Objects.thy ===== *)
theory S3Objects
  imports S3
begin

text \<open>
  What the S3 frontend does: a request that is not admitted changes nothing, an object reads
  back as it was put, a multipart upload is the concatenation of its parts, and listing in
  pages reaches every key when there is no delimiter.
\<close>

section \<open>Steps\<close>

lemma s3_bind_simps [op_simps]:
  "m s = (Inr x, s') \<Longrightarrow> s3_bind m f s = f x s'"
  "m s = (Inl e, s') \<Longrightarrow> s3_bind m f s = (Inl e, s')"
  by (simp_all add: s3_bind_def)

lemma s3_basic [op_simps]: "s3_ret x s = (Inr x, s)" "s3_raise e s = (Inl e, s)"
  by (simp_all add: s3_ret_def s3_raise_def)

lemma s3_eng_eq [op_simps]:
  "m (sv_db s) = (Inr x, d) \<Longrightarrow> s3_eng m s = (Inr x, s\<lparr>sv_db := d\<rparr>)"
  "m (sv_db s) = (Inl e, d) \<Longrightarrow> s3_eng m s = (Inl (S3_Eng e), s\<lparr>sv_db := d\<rparr>)"
  by (simp_all add: s3_eng_def)

section \<open>Who gets in\<close>

text \<open>C35
  Nothing is done for a request without a valid signature, and nothing for one whose key is
  not scoped to the bucket it names: it is answered with the error's status, and the sessions,
  the metadata store and the staged uploads are as they were (an error draws a request id).
\<close>

theorem s3_needs_credentials:
  assumes "s3_body c rq = Inr data"
    and "case verify_signature (cf_signer c) (sr_method rq) (sr_path rq) (sr_query rq) (s3_headers rq)
           (Some (sha256_hex (cf_signer c) data)) (cf_credentials c) (sa_clock a) of
         Inl e \<Rightarrow> status = sig_status e
       | Inr (k, cr) \<Rightarrow> (\<exists>bucket key r. split_target c rq = Inr (bucket, key) \<and> resolve_bucket c (sa_store a) bucket = Inr r
           \<and> \<not> may_access cr bucket \<and> status = 403)"
  shows "\<exists>resp. s3_dispatch c rq a = (Inr resp, a\<lparr>sa_drawn := Suc (sa_drawn a)\<rparr>) \<and> rp_status resp = status"
proof -
  have "\<exists>e code msg. s3_serve c rq a = (Inl e, a) \<and> s3_translate e = Inr (code, msg, status)"
  proof (cases "verify_signature (cf_signer c) (sr_method rq) (sr_path rq) (sr_query rq) (s3_headers rq)
           (Some (sha256_hex (cf_signer c) data)) (cf_credentials c) (sa_clock a)")
    case (Inl e)
    with assms show ?thesis by (auto simp: s3_serve_def s3_admit_def s3_authenticate_def)
  next
    case (Inr p)
    then obtain k cr where p: "p = (k, cr)" by force
    with Inr assms(2) obtain bucket key r where t: "split_target c rq = Inr (bucket, key)"
      "resolve_bucket c (sa_store a) bucket = Inr r" "\<not> may_access cr bucket" "status = 403" by auto
    then have "vr_name r = bucket"
      by (auto simp: resolve_bucket_def find_Some_iff split: if_splits option.splits)
    with t Inr p assms(1) show ?thesis
      by (auto simp: s3_serve_def s3_admit_def s3_authenticate_def open_session_def Let_def)
  qed
  then show ?thesis by (auto simp: s3_dispatch_def error_response_def s3_xml_def)
qed

section \<open>Multipart uploads\<close>

fun put_parts ::
  "signer \<Rightarrow> nat \<Rightarrow> string \<Rightarrow> string \<Rightarrow> string \<Rightarrow> (int \<times> bytes) list \<Rightarrow> (string \<times> upload) list \<Rightarrow> s3_exn + (string \<times> upload) list" where
  "put_parts sg limit uid vid key [] ups = Inr ups"
| "put_parts sg limit uid vid key ((number, data) # rest) ups =
     (case put_part sg limit uid vid key number data ups of
        Inl e \<Rightarrow> Inl e
      | Inr (_, ups') \<Rightarrow> put_parts sg limit uid vid key rest ups')"

definition staged_size :: "(int \<times> bytes) list \<Rightarrow> int" where
  "staged_size parts = (\<Sum>p\<leftarrow>parts. int (length (snd p)))"

text \<open>What \<open>put_part\<close> counts is what it holds.\<close>

definition counted :: "upload \<Rightarrow> bool" where
  "counted r \<longleftrightarrow> distinct (map fst (up_parts r)) \<and> up_bytes r = staged_size (up_parts r)"

lemma staged_size_update:
  "distinct (map fst ps) \<Longrightarrow>
     staged_size (AList.update k d ps) = staged_size ps - int (case map_of ps k of None \<Rightarrow> 0 | Some b \<Rightarrow> length b) + int (length d)"
  by (induction ps) (auto simp: staged_size_def split: option.splits dest: map_of_SomeD)

lemma map_of_AList_update: "map_of (AList.update k v xs) j = (if j = k then Some v else map_of xs j)"
  by (simp add: update_conv')

lemma put_part_ok:
  assumes "upload_at uid vid key ups = Inr r" and "counted r"
    and "staged_size (up_parts r) + int (length data) \<le> int limit"
  shows "\<exists>ups' r'. put_part sg limit uid vid key number data ups = Inr ([CHR 0x22] @ part_digest sg data @ [CHR 0x22], ups')
     \<and> upload_at uid vid key ups' = Inr r' \<and> counted r' \<and> up_metadata r' = up_metadata r
     \<and> map_of (up_parts r') = (map_of (up_parts r))(number \<mapsto> data)
     \<and> staged_size (up_parts r') \<le> staged_size (up_parts r) + int (length data)
     \<and> (\<forall>u. u \<noteq> uid \<longrightarrow> map_of ups' u = map_of ups u)"
proof -
  let ?prev = "case map_of (up_parts r) number of None \<Rightarrow> 0 | Some b \<Rightarrow> length b"
  let ?r = "r\<lparr>up_parts := AList.update number data (up_parts r), up_bytes := up_bytes r - int ?prev + int (length data)\<rparr>"
  have size: "staged_size (AList.update number data (up_parts r)) = up_bytes r - int ?prev + int (length data)"
    using assms(2) by (simp add: counted_def staged_size_update)
  have "counted ?r" using assms(2) size by (simp add: counted_def distinct_update)
  moreover have "upload_at uid vid key (AList.update uid ?r ups) = Inr ?r"
    using assms(1) by (auto simp: upload_at_def map_of_AList_update split: option.splits if_splits)
  moreover have "\<not> up_bytes r - int ?prev + int (length data) > int limit"
    using assms(2,3) by (simp add: counted_def)
  ultimately show ?thesis using assms size
    by (auto simp: put_part_def Let_def map_of_AList_update fun_eq_iff counted_def)
qed

lemma put_parts_ok:
  assumes "upload_at uid vid key ups = Inr r" and "counted r"
    and "staged_size (up_parts r) + staged_size ps \<le> int limit"
  shows "\<exists>ups' r'. put_parts sg limit uid vid key ps ups = Inr ups' \<and> upload_at uid vid key ups' = Inr r'
     \<and> up_metadata r' = up_metadata r \<and> map_of (up_parts r') = map_of (rev ps @ up_parts r)
     \<and> (\<forall>u. u \<noteq> uid \<longrightarrow> map_of ups' u = map_of ups u)"
  using assms
proof (induction ps arbitrary: ups r)
  case (Cons p ps)
  obtain number data where p: "p = (number, data)" by force
  have nonneg: "0 \<le> staged_size qs" for qs by (induction qs) (auto simp: staged_size_def)
  have sz: "staged_size ((number, data) # ps) = int (length data) + staged_size ps" by (simp add: staged_size_def)
  from Cons.prems(3) nonneg [of ps] have "staged_size (up_parts r) + int (length data) \<le> int limit"
    unfolding p sz by simp
  from put_part_ok [OF Cons.prems(1,2) this] obtain ups1 r1 where 1:
    "put_part sg limit uid vid key number data ups = Inr ([CHR 0x22] @ part_digest sg data @ [CHR 0x22], ups1)"
    "upload_at uid vid key ups1 = Inr r1" "counted r1" "up_metadata r1 = up_metadata r"
    "map_of (up_parts r1) = (map_of (up_parts r))(number \<mapsto> data)"
    "staged_size (up_parts r1) \<le> staged_size (up_parts r) + int (length data)"
    "\<forall>u. u \<noteq> uid \<longrightarrow> map_of ups1 u = map_of ups u" by blast
  from Cons.prems(3) 1(6) have "staged_size (up_parts r1) + staged_size ps \<le> int limit" unfolding p sz by simp
  from Cons.IH [OF 1(2,3) this] obtain ups2 r2 where 2:
    "put_parts sg limit uid vid key ps ups1 = Inr ups2" "upload_at uid vid key ups2 = Inr r2"
    "up_metadata r2 = up_metadata r1" "map_of (up_parts r2) = map_of (rev ps @ up_parts r1)"
    "\<forall>u. u \<noteq> uid \<longrightarrow> map_of ups2 u = map_of ups1 u" by blast
  have "map_of (up_parts r2) = map_of (rev (p # ps) @ up_parts r)"
    unfolding 2(4) p by (simp add: 1(5) map_of_append)
  with 1 2 p show ?case by auto
qed simp

lemma digest_clean: "strip (\<lambda>ch. ch = CHR 0x22) ([CHR 0x22] @ part_digest sg data @ [CHR 0x22]) = part_digest sg data"
proof -
  have "CHR 0x22 \<notin> set (hex_fixed k x)" for k x using hex_fixed_chars [of k x] by auto
  then have "CHR 0x22 \<notin> set (sha256_hex sg data)" by (auto simp: sha256_hex_def hexdigest_def)
  then have n: "CHR 0x22 \<notin> set (part_digest sg data)" by (auto simp: part_digest_def dest: in_set_takeD)
  have d: "dropWhile (\<lambda>ch. ch = CHR 0x22) (xs @ [CHR 0x22]) = xs @ [CHR 0x22]" if "CHR 0x22 \<notin> set xs" "xs \<noteq> []" for xs :: string
    using that by (cases xs) auto
  show ?thesis
  proof (cases "part_digest sg data = []")
    case True
    then show ?thesis by (simp add: strip_def)
  next
    case False
    moreover have "dropWhile (\<lambda>ch. ch = CHR 0x22) (rev (part_digest sg data)) = rev (part_digest sg data)"
      using n by (intro dropWhile_eq_self_iff [THEN iffD2]) (metis hd_in_set set_rev)
    ultimately show ?thesis using n d [of "part_digest sg data"] by (simp add: strip_def)
  qed
qed

lemma assemble_ok:
  assumes "\<forall>(k, tag) \<in> set wanted. \<exists>d. parts k = Some d \<and> (tag = [] \<or> tag = [CHR 0x22] @ part_digest sg d @ [CHR 0x22])"
    and "parts = map_of ps"
  shows "assemble sg ps wanted = Inr (concat (map (\<lambda>w. the (parts (fst w))) wanted))"
  using assms(1) unfolding assms(2)
proof (induction wanted)
  case (Cons w wanted)
  obtain k tag where w: "w = (k, tag)" by force
  from Cons.prems obtain d where d: "map_of ps k = Some d" "tag = [] \<or> tag = [CHR 0x22] @ part_digest sg d @ [CHR 0x22]"
    unfolding w by force
  have "tag = [] \<or> strip (\<lambda>ch. ch = CHR 0x22) tag = part_digest sg d" using d(2) digest_clean by blast
  moreover have "assemble sg ps wanted = Inr (concat (map (\<lambda>w. the (map_of ps (fst w))) wanted))"
    by (rule Cons.IH) (use Cons.prems in simp)
  ultimately show ?case using d(1) unfolding w by auto
qed simp

text \<open>C33
  A multipart upload completes to the concatenation of its parts: whatever the order in which
  the parts arrive and however often a part is sent again, the body is made of the latest
  bytes of the parts the client lists, in ascending order, each under the tag its upload was
  answered with or none. The upload is then gone, and other uploads are as they were.
\<close>

theorem s3_multipart_joins:
  assumes "upload_at uid vid key ups = Inr r" and "up_parts r = []" and "up_bytes r = 0"
    and "(\<Sum>p\<leftarrow>ps. length (snd p)) \<le> limit"
    and "wanted \<noteq> []" and "sorted (map fst wanted)"
    and "\<forall>(k, tag) \<in> set wanted. \<exists>d. map_of (rev ps) k = Some d \<and> (tag = [] \<or> tag = [CHR 0x22] @ part_digest sg d @ [CHR 0x22])"
  shows "\<exists>ups1 ups2. put_parts sg limit uid vid key ps ups = Inr ups1
     \<and> complete_upload sg uid vid key wanted ups1 =
         Inr ((concat (map (\<lambda>w. the (map_of (rev ps) (fst w))) wanted), up_metadata r), ups2)
     \<and> upload_at uid vid key ups2 = Inl no_such_upload \<and> (\<forall>u. u \<noteq> uid \<longrightarrow> map_of ups2 u = map_of ups u)"
proof -
  have "staged_size ps = int (\<Sum>p\<leftarrow>ps. length (snd p))" by (induction ps) (simp_all add: staged_size_def)
  then have "staged_size (up_parts r) + staged_size ps \<le> int limit" using assms(2,4) by (simp add: staged_size_def)
  moreover have "counted r" using assms(2,3) by (simp add: counted_def staged_size_def)
  ultimately obtain ups1 r1 where p: "put_parts sg limit uid vid key ps ups = Inr ups1" "upload_at uid vid key ups1 = Inr r1"
    "up_metadata r1 = up_metadata r" "map_of (up_parts r1) = map_of (rev ps)" "\<forall>u. u \<noteq> uid \<longrightarrow> map_of ups1 u = map_of ups u"
    using put_parts_ok [OF assms(1), of ps limit sg] assms(2) by auto
  have "assemble sg (up_parts r1) wanted = Inr (concat (map (\<lambda>w. the (map_of (rev ps) (fst w))) wanted))"
    using assms(7) by (rule assemble_ok) (simp add: p(4))
  moreover have "sort (map fst wanted) = map fst wanted" using assms(6) by (simp add: sorted_sort_id)
  ultimately have "complete_upload sg uid vid key wanted ups1 =
      Inr ((concat (map (\<lambda>w. the (map_of (rev ps) (fst w))) wanted), up_metadata r), AList.delete uid ups1)"
    using p(2,3) assms(5) by (simp add: complete_upload_def)
  moreover have "upload_at uid vid key (AList.delete uid ups1) = Inl no_such_upload"
    by (simp add: upload_at_def delete_conv')
  ultimately show ?thesis using p(1,5) by (auto simp: delete_conv')
qed

theorem s3_multipart_joins_witness:
  "\<exists>ups1 ups2. put_parts toy_signer 10 ''u'' ''v'' ''k'' [(2, [8]), (1, [6]), (1, [7])] (uploads_create ''u'' ''v'' ''k'' [] []) = Inr ups1
     \<and> complete_upload toy_signer ''u'' ''v'' ''k'' [(1, []), (2, [])] ups1 = Inr (([7, 8], []), ups2)"
  using s3_multipart_joins [of "''u''" "''v''" "''k''" "uploads_create ''u'' ''v'' ''k'' [] []" _
      "[(2, [8]), (1, [6]), (1, [7])]" 10 "[(1, []), (2, [])]" toy_signer]
  by (simp add: uploads_create_def upload_at_def) blast


section \<open>Objects\<close>

lemma set_metadata_ok:
  assumes fl: "file_at L U cs s mount path n B"
  shows "\<exists>s'. set_metadata mount path meta s = (Inr (), s') \<and> file_at L U cs s' mount path n B"
proof -
  let ?s0 = "s\<lparr>in_txn := True\<rparr>"
  let ?t = "update_node n (\<lambda>r. r\<lparr>nd_metadata := meta_to_json (Some meta)\<rparr>) (tabs s)"
  from fl obtain m vr where leaf: "leaf_for_write mount path s = (Inr (m, n), s)"
    and vol: "volume_at (tabs s) (m_volume m) = Some vr" "vl_chunk_size vr = cs" by (auto simp: file_at_def)
  have "leaf_for_write mount path ?s0 = (Inr (m, n), ?s0)" by (rule leaf_for_write_in_txn [OF leaf]) simp_all
  from leaf_for_write_leaf [OF this] this obtain r where
    r: "require_mount mount True ?s0 = (Inr m, ?s0)" "resolve (tabs s) (m_point m) path = Inr r" "rs_node r = n"
      "\<not> check_lock_held (sql_now s) (tabs s) n mount"
    by (auto simp: resolve_leaf_iff leaf_for_write_iff)
  then have run: "set_metadata mount path meta s = (Inr (), s\<lparr>tabs := ?t\<rparr>)"
    using fl by (simp add: set_metadata_def txn_def file_at_def op_simps resolve_op_def refuse_if_held_def sql_update_def flush_nothing)
  have same: "locks ?t = locks (tabs s)" "contents ?t = contents (tabs s)" "versions ?t = versions (tabs s)" "chunks ?t = chunks (tabs s)"
    "volumes ?t = volumes (tabs s)" by (simp_all add: update_node_def)
  have "same_view s (s\<lparr>tabs := ?t\<rparr>)"
    by (auto simp: same_view_def same_tree_def update_node_def type_at_def fun_eq_iff row_at_update option.map_comp comp_def
        intro!: option.map_cong)
  then have "leaf_for_write mount path (s\<lparr>tabs := ?t\<rparr>) = (Inr (m, n), s\<lparr>tabs := ?t\<rparr>)"
    by (intro leaf_for_write_in_txn [OF leaf]) (simp_all add: same)
  moreover have "stored L c ?t n v ps = stored L c (tabs s) n v ps" for c v ps by (rule stored_cong) (simp_all add: same)
  ultimately have "file_at L U cs (s\<lparr>tabs := ?t\<rparr>) mount path n B"
    using fl vol collision_free_chunks [of ?t "tabs s"] by (auto simp: file_at_def content_is_def keys_ok_def same)
  with run show ?thesis by blast
qed

lemma send_body_ok:
  assumes "d_write_list (cf_lib c) (split_chunks S3_STREAM_CHUNK data) d s = (Inr (), d1, s1)"
    and "d_close (cf_lib c) d1 s1 = (Inr (), d2, s2)"
  shows "send_body c data d s = (Inr (), s2)"
  using assms by (simp add: send_body_def d_exit_def)

lemma write_object_ok:
  assumes lib: "lib_ok (cf_lib c)" and fl: "file_at (cf_lib c) U cs s m path n B"
    and keys: "distinct (map mt_id (mounts (tabs s)))" and fresh: "lock_at (tabs s) (next_id s) = None"
    and U: "fits U cs data"
  shows "\<exists>s'. write_object c m path data meta s = (Inr (), s') \<and> file_at (cf_lib c) U cs s' m path n data"
proof -
  have data: "concat (split_chunks S3_STREAM_CHUNK data) = data" by (rule concat_split_chunks) (simp add: S3_STREAM_CHUNK_def)
  have "fits U cs ((if TRUNCATE = APPEND then B else []) @ concat (split_chunks S3_STREAM_CHUNK data))" using U data by simp
  from stream_written [OF lib fl keys fresh this] data obtain d t0 d1 t1 d2 t2 where
    w: "open_write (cf_lib c) m path TRUNCATE None s = (Inr d, t0)"
      "d_write_list (cf_lib c) (split_chunks S3_STREAM_CHUNK data) d t0 = (Inr (), d1, t1)"
      "d_close (cf_lib c) d1 t1 = (Inr (), d2, t2)" "file_at (cf_lib c) U cs t2 m path n data" by auto
  from set_metadata_ok [OF w(4), of meta] obtain t3 where
    "set_metadata m path meta t2 = (Inr (), t3)" "file_at (cf_lib c) U cs t3 m path n data" by blast
  with w send_body_ok [OF w(2,3)] show ?thesis by (simp add: write_object_def op_simps)
qed

text \<open>The containers above an object that is there are there.\<close>

lemma norm_key_split: "split_path (norm_key key) = key_segments key"
proof -
  have "\<forall>p \<in> set (key_segments key). segment_ok p"
    by (auto simp: key_segments_def segment_ok_def dest: split_on_no_sep)
  then show ?thesis by (simp add: norm_key_def split_join_path)
qed

lemma join_path_snoc: "xs \<noteq> [] \<Longrightarrow> join_path (xs @ [x]) = join_path xs @ CHR ''/'' # x"
proof (induction xs)
  case (Cons y ys)
  then show ?case by (cases ys) (simp_all add: join_path_def)
qed simp

lemma before_last_slash: "CHR ''/'' \<notin> set x \<Longrightarrow> before_last CHR ''/'' (xs @ CHR ''/'' # x) = xs"
proof -
  assume x: "CHR ''/'' \<notin> set x"
  then have "dropWhile (\<lambda>c. c \<noteq> CHR ''/'') (rev x @ CHR ''/'' # rev xs) = CHR ''/'' # rev xs"
    by (subst dropWhile_append2) auto
  then show ?thesis by (simp add: before_last_def)
qed

lemma parent_of_key:
  assumes "key_segments key = segs @ [nm]"
  shows "parent_path (norm_key key) = CHR ''/'' # join_path segs" and "split_path (parent_path (norm_key key)) = segs"
proof -
  have ok: "\<forall>p \<in> set (segs @ [nm]). segment_ok p"
    unfolding assms [symmetric] by (auto simp: key_segments_def segment_ok_def dest: split_on_no_sep)
  then have nm: "CHR ''/'' \<notin> set nm" by (simp add: segment_ok_def)
  have "before_last CHR ''/'' (norm_key key) = (if segs = [] then [] else CHR ''/'' # join_path segs)"
    using before_last_slash [OF nm, of "[]"] before_last_slash [OF nm, of "CHR ''/'' # join_path segs"]
    by (simp add: norm_key_def assms join_path_snoc) (simp add: join_path_def)
  then show "parent_path (norm_key key) = CHR ''/'' # join_path segs" by (simp add: parent_path_def join_path_def)
  then show "split_path (parent_path (norm_key key)) = segs" using ok by (simp add: split_join_path)
qed

lemma make_parents_ok:
  assumes "file_at L U cs s m (norm_key key) n B"
  shows "make_parents m (norm_key key) s = (Inr (), s)"
proof (cases "parent_path (norm_key key) = ''/''")
  case True
  then show ?thesis by (simp add: make_parents_def ret_def)
next
  case False
  from assms obtain k where leaf: "leaf_for_write m (norm_key key) s = (Inr (k, n), s)" by (auto simp: file_at_def)
  from resolve_leaf_ro [OF leaf_for_write_leaf [OF leaf]] obtain r where
    r: "require_mount m False s = (Inr k, s)" "resolve (tabs s) (m_point k) (norm_key key) = Inr r"
    by (auto simp: resolve_leaf_iff)
  have "key_segments key \<noteq> []" using False by (auto simp: norm_key_def join_path_def parent_path_def before_last_def)
  then obtain segs nm where sg: "key_segments key = segs @ [nm]" by (metis rev_exhaust)
  have ne: "segs \<noteq> []" using False parent_of_key(1) [OF sg] by (auto simp: join_path_def)
  have "fold_segments (tabs s) (m_point k) CONTAINER (segs @ [nm]) = Inr r"
    using r(2) by (simp add: resolve_eq_fold norm_key_split sg)
  then obtain p where p: "fold_segments (tabs s) (m_point k) CONTAINER segs = Inr p" "rs_type p = CONTAINER"
    by (auto simp: fold_segments_snoc)
  then have "resolve (tabs s) (m_point k) (parent_path (norm_key key)) = Inr p"
    using ne by (simp add: resolve_eq_fold parent_of_key(2) [OF sg])
  then have "mkdir m (parent_path (norm_key key)) True True s = (Inr (rs_node p), s)"
    using p(2) r(1) by (simp add: mkdir_def attempt_def op_simps resolve_op_def)
  with False show ?thesis by (simp add: make_parents_def op_simps)
qed

text \<open>C32
  An object reads back as it was put: PUT over an existing object answers 200 with an ETag,
  and the GET that follows answers 200 with the same ETag, the length and exactly the bytes.
\<close>

theorem s3_put_get:
  assumes lib: "lib_ok (cf_lib c)" and fl: "file_at (cf_lib c) U cs (sv_db s) m (norm_key key) n B"
    and keys: "distinct (map mt_id (mounts (tabs (sv_db s))))" and fresh: "lock_at (tabs (sv_db s)) (next_id (sv_db s)) = None"
    and U: "fits U cs data"
  shows "\<exists>tag s1 resp s2. s3_do_put c m key data rq s = (Inr \<lparr>rp_status = 200, rp_headers = [(''ETag'', tag)], rp_body = []\<rparr>, s1)
     \<and> file_at (cf_lib c) U cs (sv_db s1) m (norm_key key) n data
     \<and> s3_do_get c m key True s1 = (Inr resp, s2) \<and> sv_db s2 = sv_db s1
     \<and> rp_status resp = 200 \<and> rp_body resp = data
     \<and> (''ETag'', tag) \<in> set (rp_headers resp) \<and> (''Content-Length'', show_nat (length data)) \<in> set (rp_headers resp)"
proof -
  from write_object_ok [OF lib fl keys fresh U, of "request_metadata rq"] obtain t where
    t: "write_object c m (norm_key key) data (request_metadata rq) (sv_db s) = (Inr (), t)"
      "file_at (cf_lib c) U cs t m (norm_key key) n data" by blast
  from file_stat [OF t(2)] obtain info where
    i: "stat m (norm_key key) t = (Inr info, t)" "\<not> is_dir info" "ni_size info = Some (length data)" by blast
  have put: "s3_do_put c m key data rq s =
      (Inr \<lparr>rp_status = 200, rp_headers = [(''ETag'', s3_etag info)], rp_body = []\<rparr>, s\<lparr>sv_db := t\<rparr>)"
    by (simp add: s3_do_put_def Let_def op_simps make_parents_ok [OF fl] t(1) i(1))
  have "read_all (cf_lib c) m (norm_key key) t = (Inr data, t)" using t(2) by (rule file_at_read)
  then have "\<exists>resp s2. s3_do_get c m key True (s\<lparr>sv_db := t\<rparr>) = (Inr resp, s2) \<and> sv_db s2 = t
     \<and> rp_status resp = 200 \<and> rp_body resp = data
     \<and> (''ETag'', s3_etag info) \<in> set (rp_headers resp) \<and> (''Content-Length'', show_nat (length data)) \<in> set (rp_headers resp)"
    using i by (simp add: s3_do_get_def Let_def op_simps s3_uuid_def)
  with put t(2) show ?thesis by auto
qed

section \<open>Listing\<close>

lemma list_loop_flat:
  assumes "\<forall>k \<in> set keys. \<exists>info. stat m (norm_key k) (sv_db s) = (Inr info, sv_db s)" and "\<not> pg_truncated pg"
  shows "\<exists>pg'. list_loop m pre [] marker mx keys pg s = (Inr pg', s)
     \<and> map fst (pg_contents pg') = map fst (pg_contents pg) @ take (mx - pg_emitted pg) (filter (\<lambda>k. marker = [] \<or> marker < k) keys)
     \<and> (pg_truncated pg' \<longleftrightarrow> mx - pg_emitted pg < length (filter (\<lambda>k. marker = [] \<or> marker < k) keys))"
  using assms
proof (induction keys arbitrary: pg)
  case Nil
  then show ?case by (simp add: op_simps)
next
  case (Cons key keys)
  from Cons.prems(1) have keys: "\<forall>k \<in> set keys. \<exists>info. stat m (norm_key k) (sv_db s) = (Inr info, sv_db s)" by simp
  show ?case
  proof (cases "marker \<noteq> [] \<and> key \<le> marker")
    case True
    then show ?thesis using Cons.IH [OF keys Cons.prems(2)] by (auto simp: not_less)
  next
    case later: False
    then have l: "marker = [] \<or> marker < key" by auto
    show ?thesis
    proof (cases "mx \<le> pg_emitted pg")
      case True
      with l have "list_loop m pre [] marker mx (key # keys) pg s = (Inr (pg\<lparr>pg_truncated := True\<rparr>), s)"
        by (auto simp: group_of_def op_simps)
      then show ?thesis using True l by simp
    next
      case room: False
      from Cons.prems(1) obtain info where i: "stat m (norm_key key) (sv_db s) = (Inr info, sv_db s)" by auto
      let ?pg = "pg\<lparr>pg_contents := pg_contents pg @ [(key, info)], pg_next := key\<rparr>"
      have e: "mx - pg_emitted pg = Suc (mx - pg_emitted ?pg)" using room by (simp add: pg_emitted_def)
      from Cons.IH [OF keys, of ?pg] Cons.prems(2) show ?thesis
        using l later room i unfolding e by (auto simp: group_of_def op_simps)
    qed
  qed
qed

lemma after_last:
  assumes "sorted_wrt (<) ks" and "0 < mx" and "mx < length (ks :: string list)"
  shows "filter (\<lambda>k. last (take mx ks) < k) ks = drop mx ks"
proof -
  have "take mx ks \<noteq> []" using assms by auto
  then have lt: "last (take mx ks) = ks ! (mx - 1)" using assms by (subst last_conv_nth) simp_all
  have "\<not> ks ! (mx - 1) < ks ! j" if "j < mx" for j
  proof (cases "j = mx - 1")
    case False
    with that have "j < mx - 1" by simp
    then have "ks ! j < ks ! (mx - 1)" using assms by (simp add: sorted_wrt_iff_nth_less)
    then show ?thesis by simp
  qed simp
  then have "\<forall>x \<in> set (take mx ks). \<not> ks ! (mx - 1) < x" by (auto simp: in_set_conv_nth)
  then have "filter (\<lambda>k. ks ! (mx - 1) < k) (take mx ks) = []" by (simp add: filter_empty_conv)
  moreover have "filter (\<lambda>k. ks ! (mx - 1) < k) (drop mx ks) = drop mx ks"
    using assms by (auto simp: filter_id_conv in_set_conv_nth sorted_wrt_iff_nth_less)
  ultimately show ?thesis unfolding lt by (metis append_Nil append_take_drop_id filter_append)
qed

text \<open>A client that asks for the next page after the last key of a page, while pages are truncated.\<close>

fun client_list :: "s3_conf \<Rightarrow> mount_id \<Rightarrow> string \<Rightarrow> nat \<Rightarrow> nat \<Rightarrow> string \<Rightarrow> string list option s3" where
  "client_list c m pre mx 0 marker = s3_ret None"
| "client_list c m pre mx (Suc k) marker =
     s3_bind (list_page c m pre [] marker mx) (\<lambda>pg.
     let keys = map fst (pg_contents pg) in
     if pg_truncated pg \<and> keys \<noteq> []
     then s3_bind (client_list c m pre mx k (last keys)) (\<lambda>rest. s3_ret (map_option ((@) keys) rest))
     else s3_ret (Some keys))"


lemma s3_all_pure:
  assumes "\<forall>h \<in> set hs. \<exists>xs. h s = (Inr xs, s)"
  shows "\<exists>xs. s3_all hs s = (Inr xs, s)"
  using assms by (induction hs) (auto simp: op_simps)

lemma list_dir_keeps: "snd (list_dir mount path s) = s"
  using require_mount_reads [of mount False s]
  by (auto simp: list_dir_def bind_op_def resolve_op_def get_sum_def gets_def guard_op_def ret_def fail_def
      split: prod.splits sum.splits)

lemma walk_pure: "\<exists>found. s3_walk frames m path s = (Inr found, s)"
proof (induction frames arbitrary: path)
  case 0
  show ?case by (simp add: op_simps)
next
  case (Suc frames)
  obtain r where d: "list_dir m path (sv_db s) = (r, sv_db s)"
    using list_dir_keeps [of m path "sv_db s"] by (cases "list_dir m path (sv_db s)") simp
  show ?case
  proof (cases r)
    case (Inl e)
    with d have "s3_try (s3_eng (list_dir m path)) s = (Inr (Inl (S3_Eng e)), s)" by (simp add: s3_try_def op_simps)
    then show ?thesis by (simp add: op_simps)
  next
    case (Inr es)
    with d have "s3_try (s3_eng (list_dir m path)) s = (Inr (Inr es), s)" by (simp add: s3_try_def op_simps)
    moreover have "\<exists>xs. s3_all (map (\<lambda>e. let child = child_path path (ls_name e) in
         if ls_type e = CONTAINER then s3_walk frames m child else s3_ret [(key_of child, child)]) es) s = (Inr xs, s)"
      by (rule s3_all_pure) (use Suc in \<open>auto simp: Let_def op_simps\<close>)
    ultimately show ?thesis by (simp add: op_simps)
  qed
qed

text \<open>The keys with a prefix, as the walk finds them.\<close>

definition keys_under :: "s3_conf \<Rightarrow> mount_id \<Rightarrow> string \<Rightarrow> s3_srv \<Rightarrow> string list" where
  "keys_under c m pre s = sort (filter (prefix pre) (map fst (projr (fst (s3_walk (cf_frames c) m (list_root pre) s)))))"

lemma list_page_flat:
  assumes "\<forall>k \<in> set (keys_under c m pre s). \<exists>info. stat m (norm_key k) (sv_db s) = (Inr info, sv_db s)"
    and rem: "rem = filter (\<lambda>k. marker = [] \<or> marker < k) (keys_under c m pre s)"
  shows "\<exists>pg. list_page c m pre [] marker mx s = (Inr pg, s) \<and> map fst (pg_contents pg) = take mx rem
     \<and> (pg_truncated pg \<longleftrightarrow> mx < length rem)"
proof -
  from walk_pure [of "cf_frames c" m "list_root pre" s] obtain found where
    w: "s3_walk (cf_frames c) m (list_root pre) s = (Inr found, s)" by blast
  then have k: "keys_under c m pre s = sort (filter (prefix pre) (map fst found))" by (simp add: keys_under_def)
  from list_loop_flat [OF assms(1), of new_page pre marker mx] show ?thesis
    by (simp add: list_page_def w op_simps k [symmetric] Let_def new_page_def pg_emitted_def rem)
qed

lemma client_list_from:
  assumes "sorted_wrt (<) (keys_under c m pre s)" and "[] \<notin> set (keys_under c m pre s)" and "0 < mx"
    and st: "\<forall>k \<in> set (keys_under c m pre s). \<exists>info. stat m (norm_key k) (sv_db s) = (Inr info, sv_db s)"
    and "length (filter (\<lambda>k. marker = [] \<or> marker < k) (keys_under c m pre s)) < fuel"
  shows "client_list c m pre mx fuel marker s = (Inr (Some (filter (\<lambda>k. marker = [] \<or> marker < k) (keys_under c m pre s))), s)"
  using assms(5)
proof (induction fuel arbitrary: marker)
  case (Suc fuel)
  let ?ks = "keys_under c m pre s"
  let ?rem = "filter (\<lambda>k. marker = [] \<or> marker < k) ?ks"
  from list_page_flat [OF st refl, of marker mx] obtain pg where
    pg: "list_page c m pre [] marker mx s = (Inr pg, s)" "map fst (pg_contents pg) = take mx ?rem"
      "pg_truncated pg \<longleftrightarrow> mx < length ?rem" by blast
  show ?case
  proof (cases "mx < length ?rem")
    case False
    with pg show ?thesis by (simp add: op_simps)
  next
    case True
    let ?l = "last (take mx ?rem)"
    have ne: "take mx ?rem \<noteq> []" using True assms(3) by auto
    then have "?l \<in> set (take mx ?rem)" by (rule last_in_set)
    then have l: "?l \<in> set ?rem" by (rule in_set_takeD)
    then have l': "?l \<noteq> []" "marker = [] \<or> marker < ?l" using assms(2) by auto
    have "filter (\<lambda>k. ?l < k) ?rem = drop mx ?rem"
      by (rule after_last [OF sorted_wrt_filter [OF assms(1)] assms(3) True])
    moreover have "filter (\<lambda>k. ?l < k) ?rem = filter (\<lambda>k. ?l = [] \<or> ?l < k) ?ks"
      using l' by (auto simp: filter_filter intro!: filter_cong)
    ultimately have next_rem: "filter (\<lambda>k. ?l = [] \<or> ?l < k) ?ks = drop mx ?rem" by simp
    have "length (drop mx ?rem) < fuel" using Suc.prems True assms(3) by simp
    with Suc.IH [of ?l] have "client_list c m pre mx fuel ?l s = (Inr (Some (drop mx ?rem)), s)"
      unfolding next_rem by simp
    moreover have "pg_contents pg \<noteq> []" using ne pg(2) by auto
    ultimately show ?thesis using pg True by (simp add: op_simps Let_def)
  qed
qed simp


text \<open>
  With a delimiter, paging is wrong. A page that is cut before a new common prefix answers the
  first key of that prefix as the next marker, which the next page skips: a prefix with one key
  is never listed. A page that is cut after a common prefix answers the prefix's first key,
  so the next page lists the prefix again.
\<close>

lemma delimiter_paging_loses:
  "\<exists>pg pg'. list_loop m [] ''/'' [] 1 [''a/x'', ''b/x''] new_page s = (Inr pg, s) \<and> pg_common pg = [''a/''] \<and> pg_truncated pg
     \<and> list_loop m [] ''/'' (pg_next pg) 1 [''a/x'', ''b/x''] new_page s = (Inr pg', s) \<and> pg_common pg' = [] \<and> \<not> pg_truncated pg'"
  by (simp add: group_of_def Let_def new_page_def pg_emitted_def s3_ret_def)

lemma delimiter_paging_repeats:
  "\<exists>pg pg'. list_loop m [] ''/'' [] 1 [''a/x'', ''a/y'', ''c''] new_page s = (Inr pg, s) \<and> pg_common pg = [''a/''] \<and> pg_truncated pg
     \<and> list_loop m [] ''/'' (pg_next pg) 1 [''a/x'', ''a/y'', ''c''] new_page s = (Inr pg', s) \<and> pg_common pg' = [''a/'']"
  by (simp add: group_of_def Let_def new_page_def pg_emitted_def s3_ret_def)

section \<open>On the demo volume\<close>

definition demo_s3 :: s3_conf where
  "demo_s3 = \<lparr>cf_lib = toy_lib, cf_signer = toy_signer,
     cf_credentials = [''k'' \<mapsto> \<lparr>cr_secret = ''s'', cr_buckets = Some [''w'']\<rparr>], cf_suffix = None, cf_max_body = 64,
     cf_uuid = show_nat, cf_parse = (\<lambda>_. None), cf_repr = (\<lambda>s. s), cf_micros = (\<lambda>ns. ns div 1000),
     cf_sig_message = (\<lambda>_ _. []), cf_mime = (\<lambda>t. t), cf_frames = 8\<rparr>"

definition demo_s3_app :: "int \<Rightarrow> s3_app" where
  "demo_s3_app clock = \<lparr>sa_manager = demo_manager,
     sa_store = \<lparr>st_filesystems = [], st_volumes = [(''v'', demo_record)], st_pending = []\<rparr>,
     sa_uploads = [], sa_drawn = 0, sa_clock = clock\<rparr>"

definition demo_s3_get :: s3_request where
  "demo_s3_get = \<lparr>sr_method = ''GET'', sr_path = ''/v/a'', sr_query = ''a=1&b=2'', sr_args = [], sr_headers =
     [(''Authorization'', ''AWS4-HMAC-SHA256 Credential=k/20260101/r/s3/aws4_request, SignedHeaders=host, Signature=3F''),
      (''X-Amz-Date'', ''20260101T000000Z''), (''Host'', ''h'')],
     sr_host = ''h'', sr_body = [], sr_bucket = Some ''v'', sr_rest = ''a''\<rparr>"

definition demo_s3_srv :: s3_srv where
  "demo_s3_srv = \<lparr>sv_db = demo, sv_uploads = [], sv_drawn = 0\<rparr>"

theorem s3_needs_credentials_witness:
  "\<exists>r1 r2. s3_dispatch demo_s3 demo_s3_get (demo_s3_app 0) = (Inr r1, (demo_s3_app 0)\<lparr>sa_drawn := 1\<rparr>) \<and> rp_status r1 = 403
     \<and> s3_dispatch demo_s3 demo_s3_get (demo_s3_app 1767225600000000) = (Inr r2, (demo_s3_app 1767225600000000)\<lparr>sa_drawn := 1\<rparr>)
     \<and> rp_status r2 = 403"
proof -
  let ?verify = "\<lambda>clock. verify_signature (cf_signer demo_s3) (sr_method demo_s3_get) (sr_path demo_s3_get) (sr_query demo_s3_get)
    (s3_headers demo_s3_get) (Some (sha256_hex (cf_signer demo_s3) [])) (cf_credentials demo_s3) clock"
  have b: "s3_body demo_s3 demo_s3_get = Inr []" by (simp add: s3_body_def demo_s3_get_def)
  have 1: "?verify 0 = Inl (SigV4Error ''RequestTimeTooSkewed'' 403)" by code_simp
  have 2: "?verify 1767225600000000 = Inr (''k'', \<lparr>cr_secret = ''s'', cr_buckets = Some [''w'']\<rparr>)" by code_simp
  have t: "split_target demo_s3 demo_s3_get = Inr (''v'', ''a'')" by code_simp
  have r: "resolve_bucket demo_s3 (sa_store (demo_s3_app clock)) ''v'' = Inr demo_record" for clock
    by (simp add: resolve_bucket_def RESERVED_BUCKETS_def demo_s3_app_def list_vols_def demo_record_def)
  have c: "sa_clock (demo_s3_app k) = k" "sa_drawn (demo_s3_app k) = 0" for k by (simp_all add: demo_s3_app_def)
  show ?thesis
    using s3_needs_credentials [OF b, where a = "demo_s3_app 0" and status = 403]
      s3_needs_credentials [OF b, where a = "demo_s3_app 1767225600000000" and status = 403]
      1 2 t r by (simp add: c may_access_def)
qed

theorem s3_put_get_witness:
  "\<exists>r1 s1 r2 s2. s3_do_put demo_s3 ''m'' ''a'' [7, 8] demo_s3_get demo_s3_srv = (Inr r1, s1)
     \<and> s3_do_get demo_s3 ''m'' ''a'' True s1 = (Inr r2, s2) \<and> rp_body r2 = [7, 8]"
proof -
  have n: "norm_key ''a'' = ''/a''" by code_simp
  have "file_at (cf_lib demo_s3) UNIV 4 (sv_db demo_s3_srv) ''m'' (norm_key ''a'') ''f'' [1, 2, 3, 4, 5]"
    using demo_file(1) by (simp add: demo_s3_def demo_s3_srv_def n)
  moreover have "distinct (map mt_id (mounts (tabs (sv_db demo_s3_srv))))"
    "lock_at (tabs (sv_db demo_s3_srv)) (next_id (sv_db demo_s3_srv)) = None"
    by (simp_all add: demo_s3_srv_def demo_def demo_tables_def demo_mount_def)
  moreover have "lib_ok (cf_lib demo_s3)" using toy_lib_ok by (simp add: demo_s3_def)
  ultimately show ?thesis using s3_put_get [of demo_s3 UNIV 4 demo_s3_srv "''m''" "''a''"] fits_UNIV by blast
qed



section \<open>Where the frontend falls short\<close>

text \<open>An upload is dropped before its object is written: when that fails, the parts are gone.\<close>

lemma failed_complete_loses_upload:
  assumes "data \<noteq> []" and "cf_parse c data = Some root" and "wanted_parts (elements_ending ''Part'' root) = Inr wanted"
    and "complete_upload (cf_signer c) (or_else (arg rq ''uploadId'') []) (vr_id r) key wanted (sv_uploads s) = Inr ((body, meta), ups)"
    and "make_parents m (norm_key key) (sv_db s) = (Inl e, t)"
  shows "s3_complete_multipart c r m key data rq s = (Inl (S3_Eng e), s\<lparr>sv_uploads := ups, sv_db := t\<rparr>)"
    and "upload_at (or_else (arg rq ''uploadId'') []) (vr_id r) key ups = Inl no_such_upload"
proof -
  have "on_uploads (complete_upload (cf_signer c) (or_else (arg rq ''uploadId'') []) (vr_id r) key wanted) s
      = (Inr (body, meta), s\<lparr>sv_uploads := ups\<rparr>)"
    using assms(4) by (simp add: on_uploads_def)
  moreover have "s3_eng (make_parents m (norm_key key)) (s\<lparr>sv_uploads := ups\<rparr>) = (Inl (S3_Eng e), s\<lparr>sv_uploads := ups, sv_db := t\<rparr>)"
    using assms(5) by (simp add: s3_eng_def)
  ultimately show "s3_complete_multipart c r m key data rq s = (Inl (S3_Eng e), s\<lparr>sv_uploads := ups, sv_db := t\<rparr>)"
    using assms(1-3) by (simp add: s3_complete_multipart_def s3_parse_def s3_sum_def op_simps Let_def)
  show "upload_at (or_else (arg rq ''uploadId'') []) (vr_id r) key ups = Inl no_such_upload"
    using assms(4) by (auto simp: complete_upload_def upload_at_def delete_conv' split: sum.splits if_splits option.splits)
qed

text \<open>
  A key is decoded once more after the framework has decoded the path, so \<open>a%41\<close> and
  \<open>aA\<close> are one object; and the error of removing a container that is not empty has no
  S3 code, so it escapes.
\<close>

lemma keys_decoded_twice:
  "split_target demo_s3 (demo_s3_get\<lparr>sr_rest := ''a%41''\<rparr>) = split_target demo_s3 (demo_s3_get\<lparr>sr_rest := ''aA''\<rparr>)"
  by code_simp

lemma delete_container_escapes:
  "fst (s3_do_delete ''m'' ''dir'' demo_s3_srv) = Inl (S3_Eng NotEmpty) \<and> s3_translate (S3_Eng NotEmpty) = Inl (S3_Eng NotEmpty)"
proof -
  have "map_sum (\<lambda>e. e) (\<lambda>_. ()) (fst (s3_do_delete ''m'' ''dir'' demo_s3_srv)) = Inl (S3_Eng NotEmpty)" by code_simp
  then show ?thesis by (cases "fst (s3_do_delete ''m'' ''dir'' demo_s3_srv)") simp_all
qed

end
