(* ===== verification/Reachable.thy ===== *)
theory Reachable
  imports Integrity Demo
begin

text \<open>
  The API as a state machine. A \<open>request\<close> is a call of the Mount API with its arguments and
  \<open>serve\<close> runs it; \<open>api_step\<close> adds what happens between calls: methods of open descriptors,
  the clocks moving, and another connection taking over the file (a new process, with its
  own cipher, mints and random bits). \<open>reachable\<close> files start empty. What holds of every
  reachable file follows by rule induction, and what a failed call leaves from the shape of
  a transaction.
\<close>

section \<open>Requests\<close>

datatype request =
    Create_Volume "string option" nat "bytes option" string
  | Change_Pin volume_id bytes bytes
  | Mount volume_id string "int option" "bytes option" string "string option" bool
  | Unmount mount_id
  | Renew_Mount mount_id "int option"
  | Stat mount_id string
  | List_Dir mount_id string
  | Read_All mount_id string
  | Create_Container mount_id string
  | Create_Entry mount_id string bytes
  | Create_Special mount_id string node_type bytes
  | Write_All mount_id string bytes
  | Append mount_id string bytes
  | Write_Range mount_id string int bytes
  | Truncate mount_id string int
  | Link mount_id string string
  | Rename mount_id string string
  | Move mount_id string string
  | Remove mount_id string
  | Remove_Recursive mount_id string
  | Set_Mtime mount_id node_id timestamp
  | Set_Atime mount_id node_id timestamp
  | Set_Owner mount_id string "int option" "int option" "int option"
  | Set_Xattr mount_id string string bytes
  | Remove_Xattr mount_id string string
  | Set_Metadata mount_id string "(string \<times> string) list"
  | Lock mount_id string "int option"
  | Unlock mount_id lock_id
  | Renew_Lock mount_id lock_id "int option"
  | Copy mount_id string string
  | Pack mount_id string
  | Unpack mount_id string
  | Prune "volume_id option"
  | Set_Retention mount_id string "int option"
  | Prune_Content "volume_id option"

definition void :: "'a op \<Rightarrow> unit op" where
  "void m = bind_op m (\<lambda>_. ret ())"

fun serve :: "crypto_lib \<Rightarrow> msgpack \<Rightarrow> request \<Rightarrow> unit op" where
  "serve L M (Create_Volume nm cs pin mode) = void (create_volume L nm cs pin mode)"
| "serve L M (Change_Pin v old new) = change_pin L v old new"
| "serve L M (Mount v path ttl pin acc who ov) = void (mount_volume L v path ttl pin acc who ov)"
| "serve L M (Unmount m) = unmount m"
| "serve L M (Renew_Mount m ttl) = void (renew_mount m ttl)"
| "serve L M (Stat m path) = void (stat m path)"
| "serve L M (List_Dir m path) = void (list_dir m path)"
| "serve L M (Read_All m path) = void (read_all L m path)"
| "serve L M (Create_Container m path) = void (create_container m path)"
| "serve L M (Create_Entry m path data) = void (create_entry L m path data)"
| "serve L M (Create_Special m path ty data) = void (create_special L m path ty data)"
| "serve L M (Write_All m path data) = write_all L m path data"
| "serve L M (Append m path data) = void (append_op L m path data)"
| "serve L M (Write_Range m path off data) = void (write_range L m path off data)"
| "serve L M (Truncate m path sz) = truncate_op L m path sz"
| "serve L M (Link m src dst) = link m src dst"
| "serve L M (Rename m path nm) = rename m path nm"
| "serve L M (Move m src dst) = move m src dst"
| "serve L M (Remove m path) = remove m path"
| "serve L M (Remove_Recursive m path) = remove_recursive m path"
| "serve L M (Set_Mtime m n ts) = set_mtime m n ts"
| "serve L M (Set_Atime m n ts) = set_atime m n ts"
| "serve L M (Set_Owner m path u g md) = set_owner m path u g md"
| "serve L M (Set_Xattr m path k val) = set_xattr m path k val"
| "serve L M (Remove_Xattr m path k) = void (remove_xattr m path k)"
| "serve L M (Set_Metadata m path meta) = set_metadata m path meta"
| "serve L M (Lock m path ttl) = void (lock m path ttl)"
| "serve L M (Unlock m l) = unlock m l"
| "serve L M (Renew_Lock m l ttl) = void (renew_lock m l ttl)"
| "serve L M (Copy m src dst) = void (copy m src dst)"
| "serve L M (Pack m path) = void (pack L M m path)"
| "serve L M (Unpack m path) = unpack L M m path"
| "serve L M (Prune v) = void (prune v)"
| "serve L M (Set_Retention m path keep) = set_retention m path keep"
| "serve L M (Prune_Content v) = void (prune_content v)"

section \<open>Steps and reachable files\<close>

inductive api_step :: "crypto_lib \<Rightarrow> msgpack \<Rightarrow> db \<Rightarrow> db \<Rightarrow> bool" for L M where
  call: "serve L M c s = (r, s') \<Longrightarrow> api_step L M s s'"
| opened: "open_write L m path mode l s = (r, s') \<Longrightarrow> api_step L M s s'"
| opened_read: "open_read m path s = (r, s') \<Longrightarrow> api_step L M s s'"
| written: "d_write L data d s = (r, d', s') \<Longrightarrow> api_step L M s s'"
| was_read: "d_read L k d s = (r, d', s') \<Longrightarrow> api_step L M s s'"
| closed: "d_close L d s = (r, d', s') \<Longrightarrow> api_step L M s s'"
| aborted: "d_abort d s = (r, d', s') \<Longrightarrow> api_step L M s s'"
| ticked: "api_step L M s (s\<lparr>now := x, sql_now := y\<rparr>)"
| taken_over: "\<not> in_txn s \<Longrightarrow> api_step L M s (s\<lparr>entropy := e, draws := k, mints := Map.empty,
     pending_wm := [], cipher_of := c, session_of := ss\<rparr>)"

definition fresh_db :: "db \<Rightarrow> bool" where
  "fresh_db s \<longleftrightarrow> tabs s = empty_tables \<and> mints s = Map.empty \<and> pending_wm s = [] \<and> \<not> in_txn s"

text \<open>
  \<open>R\<close> relates SQLite's clock before and after a step: what holds of every clock takes the
  full relation, what rests on a clock that never goes back takes \<open>\<le>\<close>.
\<close>

inductive reachable :: "crypto_lib \<Rightarrow> msgpack \<Rightarrow> (timestamp \<Rightarrow> timestamp \<Rightarrow> bool) \<Rightarrow> db \<Rightarrow> bool" for L M R where
  start: "fresh_db s \<Longrightarrow> reachable L M R s"
| step: "reachable L M R s \<Longrightarrow> api_step L M s s' \<Longrightarrow> R (sql_now s) (sql_now s') \<Longrightarrow> reachable L M R s'"

inductive_cases api_stepE: "api_step L M s s'"

abbreviation any_clock :: "timestamp \<Rightarrow> timestamp \<Rightarrow> bool" where
  "any_clock \<equiv> \<lambda>_ _. True"

lemma reachable_mono: "reachable L M R s \<Longrightarrow> (\<And>a b. R a b \<Longrightarrow> R' a b) \<Longrightarrow> reachable L M R' s"
  by (induction rule: reachable.induct) (auto intro: reachable.intros)

section \<open>What every step keeps\<close>

lemma preserves_void [preserving]: "preserves P m \<Longrightarrow> preserves P (void m)"
  unfolding void_def by (intro preserving)

lemma preserves_reading [preserving]:
  "preserves P (stat m path)" "preserves P (list_dir m path)" "preserves P (read_all L m path)"
  unfolding stat_def stat_by_id_def list_dir_def read_all_def by (intro preserving)+

context table_invariant
begin

lemma keeps_serve:
  "(\<And>nm cs pin mode. preserves (holding clk) (create_volume L nm cs pin mode)) \<Longrightarrow> preserves (holding clk) (serve L M c)"
  by (cases c) (simp_all add: preserving)

text \<open>A step that is not a change of the clock.\<close>

lemma keeps_step:
  assumes "api_step L M s s'" and "holding clk s"
    and vol: "\<And>nm cs pin mode. preserves (holding clk) (create_volume L nm cs pin mode)"
  shows "holding clk s' \<or> tabs s' = tabs s"
  using assms(1)
proof cases
  case (call c r)
  from preserves_result [OF keeps_serve [OF vol] call assms(2)] show ?thesis by blast
next
  case (opened m path mode l r)
  from preserves_result [OF keeps_opening(2) opened assms(2)] show ?thesis by blast
next
  case (opened_read m path r)
  from preserves_result [OF keeps_opening(1) opened_read assms(2)] show ?thesis by blast
next
  case (written data d r d')
  from d_preservesD [OF d_keeps_methods(4) written assms(2)] show ?thesis by blast
next
  case (was_read k d r d')
  from d_preservesD [OF d_keeps_methods(1) was_read assms(2)] show ?thesis by blast
next
  case (closed d r d')
  from d_preservesD [OF d_keeps_methods(6) closed assms(2)] show ?thesis by blast
next
  case (aborted d r d')
  from d_preservesD [OF d_keeps_methods(5) aborted assms(2)] show ?thesis by blast
qed simp_all

lemma keeps_reachable:
  assumes "reachable L M R s" and "\<And>clk. I clk empty_tables"
    and "\<And>a b t. R a b \<Longrightarrow> I a t \<Longrightarrow> I b t"
    and "\<And>clk nm cs pin mode. preserves (holding clk) (create_volume L nm cs pin mode)"
  shows "I (sql_now s) (tabs s)"
  using assms(1)
proof induction
  case (start s)
  with assms(2) show ?case by (simp add: fresh_db_def)
next
  case (step s s')
  from keeps_step [OF step(2) _ assms(4), of "sql_now s"] step assms(3) show ?case by metis
qed

end

lemma reachable_ok: "reachable L M R s \<Longrightarrow> schema_ok (tabs s)"
  by (erule soundness.keeps_reachable [OF _ schema_ok_empty _ soundness.keeps_create_volume])

lemma reachable_rooted: "reachable L M R s \<Longrightarrow> rooted_but {} (tabs s)"
  by (erule roots.keeps_reachable [OF _ _ _ create_volume_roots]) (simp_all add: rooted_but_def empty_tables_def)

section \<open>Failed calls\<close>

text \<open>An operation that leaves the tables alone when it fails.\<close>

definition atomic :: "'a op \<Rightarrow> bool" where
  "atomic m \<longleftrightarrow> (\<forall>s e s'. m s = (Inl e, s') \<longrightarrow> tabs s' = tabs s)"

definition still :: "'a op \<Rightarrow> bool" where
  "still m \<longleftrightarrow> (\<forall>s. tabs (snd (m s)) = tabs s)"

lemma atomic_txn: "atomic (txn m)"
  by (auto simp: atomic_def txn_def split: prod.splits sum.splits)

lemma still_read:
  "still (ret x)" "still (fail e)" "still (guard_op b e)" "still (gets g)" "still (get_sum h)" "still (get_opt e k)"
  "still (install c ss)"
  by (auto simp: still_def op_simps guard_op_def get_opt_def install_def split: option.splits)

lemma still_bind: "still m \<Longrightarrow> (\<And>x. still (f x)) \<Longrightarrow> still (bind_op m f)"
  by (auto simp: still_def bind_op_def split: prod.splits sum.splits) (metis snd_conv)+

lemma still_atomic: "still m \<Longrightarrow> atomic m"
  by (auto simp: still_def atomic_def) (metis snd_conv)

lemma still_prod: "(\<And>a b. still (f a b)) \<Longrightarrow> still (case p of (a, b) \<Rightarrow> f a b)"
  by (cases p) simp

lemma still_reading:
  "still (require_mount m w)" "still (resolve_op mp path)" "still (stat m path)" "still (list_dir m path)"
  "still (read_all L m path)" "still (size_only m path)"
  unfolding require_mount_def resolve_op_def stat_def stat_by_id_def list_dir_def read_all_def size_only_def
    resolve_leaf_def content_meta_def
  by (intro still_bind still_read still_prod)+

text \<open>The new volume is there after the transaction of \<open>create_volume\<close>.\<close>

lemma key_image_map: "(\<And>r. k (f r) = k r) \<Longrightarrow> k ` set (map f xs) = k ` set xs"
  by (simp add: image_image)

interpretation present: volume_invariant "\<lambda>_ t. v \<in> vl_id ` set (volumes t)" for v
proof unfold_locales
  fix t t' :: tables and u st mode w root r
  assume p: "v \<in> vl_id ` set (volumes t)"
  show "v \<in> vl_id ` set (volumes (raise_wm u st t))" using p by (simp add: raise_wm_def key_image_map del: set_map)
  show "update_volume_crypto u mode w t = Inr t' \<Longrightarrow> v \<in> vl_id ` set (volumes t')"
    using p by (auto simp: update_volume_crypto_def key_image_map simp del: set_map split: if_splits)
  show "link_root u root t = Inr t' \<Longrightarrow> v \<in> vl_id ` set (volumes t')"
    using p by (auto simp: link_root_def key_image_map simp del: set_map split: if_splits)
  show "insert_volume r t = Inr t' \<Longrightarrow> v \<in> vl_id ` set (volumes t')"
    using p by (auto simp: insert_volume_def split: if_splits)
qed (simp_all, (drule volumes_insert, simp)+)

lemma atomic_void: "atomic m \<Longrightarrow> atomic (void m)"
  by (auto simp: atomic_def void_def bind_op_def ret_def split: prod.splits sum.splits)

lemma atomic_if: "atomic m \<Longrightarrow> atomic m' \<Longrightarrow> atomic (if b then m else m')"
  by simp

lemma atomic_unmount: "atomic (unmount m)"
  using atomic_txn [of "sql_update (set_mount_state m UNMOUNTED)"]
  by (auto simp: atomic_def unmount_def bind_op_def gets_def ret_def install_def split: prod.splits sum.splits option.splits if_splits)

lemma atomic_create_volume: "atomic (create_volume L nm cs pin mode)"
  unfolding atomic_def
proof (intro allI impI)
  fix s e s'
  define rest :: "string \<Rightarrow> timestamp \<Rightarrow> string op" where "rest = (\<lambda>vid ts.
     bind_op (create_monotonic (create_node_sql CONTAINER ''/'' ts None (Some vid) None) (Some vid)) (\<lambda>root.
     bind_op (sql (link_root vid root)) (\<lambda>_.
     bind_op (case pin of None \<Rightarrow> ret ()
       | Some p \<Rightarrow> bind_op (random_bytes 32) (\<lambda>k_v.
           bind_op (wrap_op L (derive_unlock_key L p (volume_hash L vid root)) k_v) (\<lambda>wrapped.
           sql (update_volume_crypto vid (if pin \<noteq> None then mode else ''none'') wrapped)))) (\<lambda>_. ret vid))))"
  define body where "body =
     bind_op gen_id (\<lambda>vid.
     bind_op (gets now) (\<lambda>ts.
     bind_op (sql (insert_volume \<lparr>vl_id = vid, vl_root = None, vl_name = nm, vl_created = ts, vl_api = 2,
        vl_chunk_size = cs, vl_wm = Stamp 0 0, vl_enc_mode = (if pin \<noteq> None then mode else ''none''), vl_wrapped = None\<rparr>)) (\<lambda>_.
     rest vid ts)))"
  have cv: "create_volume L nm cs pin mode = bind_op (txn body) (\<lambda>vid.
      get_opt TypeError (\<lambda>s. map_option volume_info_of (volume_at (tabs s) vid)))"
    by (cases pin) (simp_all add: create_volume_def body_def rest_def Let_def)
  assume r: "create_volume L nm cs pin mode s = (Inl e, s')"
  have "volume_at (tabs s1) vid \<noteq> None" if t: "txn body s = (Inr vid, s1)" for vid s1
  proof -
    from t obtain s2 where b: "body (s\<lparr>in_txn := True\<rparr>) = (Inr vid, s2)" and s1: "s1 = (flush_watermarks s2)\<lparr>in_txn := False\<rparr>"
      by (auto simp: txn_def split: if_splits prod.splits sum.splits)
    from b obtain v s3 ts t4 where "insert_volume \<lparr>vl_id = v, vl_root = None, vl_name = nm, vl_created = ts, vl_api = 2,
        vl_chunk_size = cs, vl_wm = Stamp 0 0, vl_enc_mode = (if pin \<noteq> None then mode else ''none''), vl_wrapped = None\<rparr> (tabs s3) = Inr t4"
      and re: "rest v ts (s3\<lparr>tabs := t4\<rparr>) = (Inr vid, s2)"
      unfolding body_def by (auto simp: op_elims)
    then have "v \<in> vl_id ` set (volumes t4)" by (auto simp: insert_volume_def split: if_splits)
    then have "present.holding v (sql_now s3) (s3\<lparr>tabs := t4\<rparr>)" by simp
    moreover have "preserves (present.holding v clk) (rest v ts)" for clk
      unfolding rest_def by (intro preserving present.keeps_sql) (erule (1) present.link_root_law)
    ultimately have "present.holding v (sql_now s3) s2" using re by (rule preserves_result [rotated 2])
    then have "v \<in> vl_id ` set (volumes (tabs s1))" using present.flush_keeps [where s = s2] s1 by simp
    moreover have "vid = v" using re unfolding rest_def by (auto simp: op_elims)
    ultimately show ?thesis by (simp add: row_at_None_iff)
  qed
  with r atomic_txn [of body] show "tabs s' = tabs s"
    by (auto simp: cv bind_op_def get_opt_def atomic_def split: prod.splits sum.splits option.splits)
qed

lemma atomic_serve:
  assumes "\<And>m ttl. c \<noteq> Renew_Mount m ttl"
  shows "atomic (serve L M c)"
proof (cases c)
  case (Renew_Mount m ttl)
  with assms show ?thesis by blast
next
  case (Create_Special m path ty data)
  then show ?thesis by (simp add: create_special_def atomic_void atomic_if atomic_txn still_atomic still_read)
qed (simp_all add: atomic_void atomic_txn atomic_create_volume atomic_unmount atomic_if still_atomic still_reading still_read
    change_pin_def mount_volume_def create_container_def create_entry_def write_all_def append_op_def write_range_def
    truncate_op_def link_def rename_def move_def remove_def remove_recursive_def set_mtime_def set_atime_def set_owner_def
    set_xattr_def remove_xattr_def set_metadata_def lock_def unlock_def renew_lock_def copy_def pack_def unpack_def
    prune_def set_retention_def prune_content_def)

section \<open>Properties\<close>

lemma blank_reachable: "reachable L M any_clock (snd (serve L M c blank))"
  by (rule reachable.step [OF reachable.start api_step.call [OF prod.collapse [symmetric]]])
    (simp_all add: fresh_db_def blank_def demo_def)

text \<open>C13
  Every file that calls of the API, methods of descriptors, changes of the clock and new
  connections can produce from an empty one is sound: keys are unique, every reference
  resolves, an edge joins nodes of its volume and starts at a container, a container has at
  most one active placement, and no two volumes share a root.
\<close>

theorem reachable_sound:
  assumes "reachable L M R s"
  shows "schema_ok (tabs s)"
  using assms by (rule reachable_ok)

theorem reachable_sound_witness:
  "schema_ok (tabs (snd (serve toy_lib toy_msgpack (Create_Volume None 4 None ''none'') blank)))"
  by (rule reachable_sound [OF blank_reachable])

text \<open>C14
  On a reachable file \<open>health_check\<close> has nothing to report but, possibly, a cycle: no edge
  disagrees with the volume of its ends, no placed node is without a volume, and every
  volume has a root that exists.
\<close>

theorem reachable_healthy:
  assumes "reachable L M R s" and "health_check s = (Inr anomalies, s')"
  shows "s' = s \<and> fst ` set anomalies \<subseteq> {Cycle}"
  using assms health_only_cycles [OF reachable_ok reachable_rooted]
  by (fastforce simp: health_check_def basic_ops_eq)

theorem reachable_healthy_witness:
  "fst ` set (health_anomaly (tabs (snd (serve toy_lib toy_msgpack (Create_Volume None 4 None ''none'') blank)))) \<subseteq> {Cycle}"
proof -
  have "health_check s = (Inr (health_anomaly (tabs s)), s)" for s by (simp add: health_check_def gets_def)
  from reachable_healthy [OF blank_reachable this] show ?thesis by blast
qed



end
