(* ===== verification/Exclusion.thy ===== *)
theory Exclusion
  imports Reachable
begin

text \<open>
  Lock exclusion. While SQLite's clock does not go back, the live locks on a node belong to
  one mount, in every reachable file: a lock is granted only where no other mount holds
  one, a renewal needs a lock or a mount that is still live, so what has lapsed stays lapsed.
  And a lock is enforced: a write, a rename, a move or a removal through another mount fails
  and leaves the tables as they were.
\<close>

section \<open>Exclusion\<close>

definition one_holder :: "lock_row list \<Rightarrow> bool" where
  "one_holder ls \<longleftrightarrow> (\<forall>a \<in> set ls. \<forall>b \<in> set ls. lk_node a = lk_node b \<longrightarrow> lk_mount a = lk_mount b)"

definition exclusive :: "timestamp \<Rightarrow> tables \<Rightarrow> bool" where
  "exclusive clk t \<longleftrightarrow>
     distinct (map mt_id (mounts t)) \<and> distinct (map lk_id (locks t))
     \<and> (\<forall>l \<in> set (locks t). lk_mount l \<in> mt_id ` set (mounts t))
     \<and> one_holder (valid_lock clk t)"

lemma lock_live_locks [simp]: "lock_live clk (t\<lparr>locks := ls\<rparr>) = lock_live clk t"
  by (rule ext) (simp add: lock_live_def)

lemma exclusive_same:
  assumes "exclusive clk t" and "mounts t' = mounts t" and "locks t' = locks t"
  shows "exclusive clk t'"
proof -
  have "lock_live clk t' = lock_live clk t" by (rule ext) (simp add: lock_live_def assms(2))
  with assms show ?thesis by (simp add: exclusive_def valid_lock_def)
qed

lemma one_holder_snoc:
  "one_holder (ls @ [r]) \<longleftrightarrow> one_holder ls \<and> (\<forall>a \<in> set ls. lk_node a = lk_node r \<longrightarrow> lk_mount a = lk_mount r)"
proof -
  have "set (ls @ [r]) = insert r (set ls)" by simp
  then show ?thesis unfolding one_holder_def by (metis (no_types, lifting) insert_iff)
qed

lemma exclusive_fewer:
  assumes "exclusive clk t" and "distinct (map mt_id (mounts t'))" and "distinct (map lk_id (locks t'))"
    and "\<forall>l \<in> set (locks t'). lk_mount l \<in> mt_id ` set (mounts t')"
    and live: "\<forall>a \<in> set (valid_lock k t'). \<exists>b \<in> set (valid_lock clk t). lk_node b = lk_node a \<and> lk_mount b = lk_mount a"
  shows "exclusive k t'"
proof -
  have "lk_mount a = lk_mount b"
    if "a \<in> set (valid_lock k t')" "b \<in> set (valid_lock k t')" "lk_node a = lk_node b" for a b
  proof -
    from live that obtain x y where "x \<in> set (valid_lock clk t)" "lk_node x = lk_node a" "lk_mount x = lk_mount a"
      "y \<in> set (valid_lock clk t)" "lk_node y = lk_node b" "lk_mount y = lk_mount b" by blast
    with that(3) assms(1) show ?thesis unfolding exclusive_def one_holder_def by metis
  qed
  with assms(2-4) show ?thesis unfolding exclusive_def one_holder_def by blast
qed

lemma frame_simps [simp]:
  "mounts (touch_modified ts n t) = mounts t" "mounts (touch_ctime ts n t) = mounts t"
  "mounts (upsert_chunk_row ch t) = mounts t" "mounts (release_lock l t) = mounts t"
  "mounts (update_content ts n ver sz t) = mounts t" "mounts (set_retention_keep n k t) = mounts t"
  "mounts (rename_placement p n old nm t) = mounts t" "mounts (rename_node_if_sole ts n nm t) = mounts t"
  "mounts (renew_lock_sql l x t) = mounts t" "mounts (update_node n f t) = mounts t" "mounts (raise_wm vl st t) = mounts t"
  "mounts (snd (xattr_remove_sql n nm t)) = mounts t" "mounts (snd (prune_locks ts t)) = mounts t"
  "mounts (snd (prune_content_versions ts vol t)) = mounts t" "mounts (snd (prune_content_chunks t)) = mounts t"
  "locks (touch_modified ts n t) = locks t" "locks (touch_ctime ts n t) = locks t"
  "locks (upsert_chunk_row ch t) = locks t" "locks (set_mount_state mt ms t) = locks t"
  "locks (update_content ts n ver sz t) = locks t" "locks (set_retention_keep n k t) = locks t"
  "locks (rename_placement p n old nm t) = locks t" "locks (rename_node_if_sole ts n nm t) = locks t"
  "locks (renew_mount_sql mt x t) = locks t" "locks (update_node n f t) = locks t" "locks (raise_wm vl st t) = locks t"
  "locks (snd (xattr_remove_sql n nm t)) = locks t"
  "locks (snd (prune_content_versions ts vol t)) = locks t" "locks (snd (prune_content_chunks t)) = locks t"
  by (simp_all add: touch_modified_def touch_ctime_def upsert_chunk_row_def release_lock_def update_content_def
      set_retention_keep_def rename_placement_def rename_node_if_sole_def set_mount_state_def renew_mount_sql_def raise_wm_def
      renew_lock_sql_def update_node_def xattr_remove_sql_def prune_locks_def prune_content_versions_def prune_content_chunks_def)

lemma frame_archive [simp]:
  "mounts (snd (archive_where ts Q t)) = mounts t" "locks (snd (archive_where ts Q t)) = locks t"
proof -
  have "mounts (fold (\<lambda>e. touch_ctime ts (eg_to e)) es u) = mounts u \<and> locks (fold (\<lambda>e. touch_ctime ts (eg_to e)) es u) = locks u"
    for es :: "edge_row list" and u
    by (induction es arbitrary: u) simp_all
  then show "mounts (snd (archive_where ts Q t)) = mounts t" "locks (snd (archive_where ts Q t)) = locks t"
    by (simp_all add: archive_where_def Let_def)
qed

lemma frame_insert:
  "insert_node nr t = Inr t' \<Longrightarrow> mounts t' = mounts t \<and> locks t' = locks t"
  "insert_content cr t = Inr t' \<Longrightarrow> mounts t' = mounts t \<and> locks t' = locks t"
  "insert_version vr t = Inr t' \<Longrightarrow> mounts t' = mounts t \<and> locks t' = locks t"
  "insert_edge ts er t = Inr t' \<Longrightarrow> mounts t' = mounts t \<and> locks t' = locks t"
  "xattr_set_sql n key val t = Inr t' \<Longrightarrow> mounts t' = mounts t \<and> locks t' = locks t"
  "update_volume_crypto v mode w t = Inr t' \<Longrightarrow> mounts t' = mounts t \<and> locks t' = locks t"
  "insert_volume r t = Inr t' \<Longrightarrow> mounts t' = mounts t \<and> locks t' = locks t"
  "link_root v root t = Inr t' \<Longrightarrow> mounts t' = mounts t \<and> locks t' = locks t"
  "prune_nodes vol t = Inr (c, t') \<Longrightarrow> mounts t' = mounts t \<and> locks t' = locks t"
  by (auto simp: insert_node_def insert_content_def insert_version_def insert_edge_def xattr_set_sql_def
      update_volume_crypto_def insert_volume_def link_root_def prune_nodes_def Let_def split: if_splits)

lemma exclusive_insert_mount:
  assumes "exclusive clk t" and "insert_mount r t = Inr t'"
  shows "exclusive clk t'"
proof -
  from assms(2) have t': "t' = t\<lparr>mounts := mounts t @ [r]\<rparr>" and fresh: "mt_id r \<notin> mt_id ` set (mounts t)"
    by (auto simp: insert_mount_def row_at_None_iff split: if_splits)
  have at: "mount_at t' (lk_mount l) = mount_at t (lk_mount l)" if "l \<in> set (locks t)" for l
  proof -
    from assms(1) that have "lk_mount l \<in> mt_id ` set (mounts t)" by (simp add: exclusive_def)
    then obtain m where "mount_at t (lk_mount l) = Some m" by (metis not_None_eq row_at_None_iff)
    then show ?thesis by (simp add: t' row_at_insert)
  qed
  have live: "lock_live clk t' l = lock_live clk t l" if "l \<in> set (locks t)" for l
    unfolding lock_live_def at [OF that] ..
  have "valid_lock clk t' = filter (lock_live clk t') (locks t)" by (simp add: valid_lock_def t')
  also have "\<dots> = valid_lock clk t" unfolding valid_lock_def by (rule filter_cong [OF refl live])
  finally have "valid_lock clk t' = valid_lock clk t" .
  then show ?thesis using assms(1) fresh by (auto simp: exclusive_def t')
qed

text \<open>A lock that is live after an update of the mounts was live before.\<close>

lemma exclusive_map_mounts:
  assumes "exclusive clk t" and "\<And>m. mt_id (f m) = mt_id m"
    and "\<And>m. m \<in> set (mounts t) \<Longrightarrow> mount_live k (f m) \<Longrightarrow> mount_live clk m" and "clk \<le> k"
  shows "exclusive k (t\<lparr>mounts := map f (mounts t)\<rparr>)"
proof (rule exclusive_fewer [OF assms(1)]; (intro ballI)?)
  fix a assume a: "a \<in> set (valid_lock k (t\<lparr>mounts := map f (mounts t)\<rparr>))"
  then obtain m where m: "mount_at t (lk_mount a) = Some m" "mount_live k (f m)"
    by (auto simp: valid_lock_def lock_live_def row_at_update assms(2) split: option.splits)
  with assms(3) have "mount_live clk m" by (auto dest: row_at_SomeD)
  with a m assms(4) have "a \<in> set (valid_lock clk t)" by (auto simp: valid_lock_def lock_live_def split: option.splits)
  then show "\<exists>b \<in> set (valid_lock clk t). lk_node b = lk_node a \<and> lk_mount b = lk_mount a" by blast
qed (use assms(1,2) in \<open>auto simp: exclusive_def comp_def image_image\<close>)

lemma exclusive_later: "clk \<le> k \<Longrightarrow> exclusive clk t \<Longrightarrow> exclusive k t"
  using exclusive_map_mounts [of clk t "\<lambda>m. m" k] by (auto simp: mount_live_def split: option.splits)

lemma exclusive_set_state:
  assumes "exclusive clk t" and "ms = UNMOUNTED \<or> (\<forall>m \<in> set (mounts t). mt_id m = mt \<longrightarrow> mt_state m \<noteq> UNMOUNTED)"
  shows "exclusive clk (set_mount_state mt ms t)"
  unfolding set_mount_state_def
  by (rule exclusive_map_mounts [OF assms(1)]) (use assms(2) in \<open>auto simp: mount_live_def split: if_splits\<close>)

lemma exclusive_renew_mount:
  assumes "exclusive clk t" and "mt \<in> mt_id ` set (valid_mount clk t)"
  shows "exclusive clk (renew_mount_sql mt x t)"
  unfolding renew_mount_sql_def
proof (rule exclusive_map_mounts [OF assms(1)])
  fix m assume m: "m \<in> set (mounts t)" "mount_live clk (if mt_id m = mt then m\<lparr>mt_expires := x\<rparr> else m)"
  show "mount_live clk m"
  proof (cases "mt_id m = mt")
    case True
    from assms(2) obtain q where q: "q \<in> set (mounts t)" "mt_id q = mt" "mount_live clk q" by (auto simp: valid_mount_def)
    moreover have "inj_on mt_id (set (mounts t))" using assms(1) by (simp add: exclusive_def distinct_map)
    ultimately show ?thesis using m True by (metis inj_onD)
  qed (use m in simp)
qed simp_all

lemma exclusive_locks:
  assumes "exclusive clk t" and "distinct (map lk_id ls)"
    and "\<forall>l \<in> set ls. \<exists>q \<in> set (locks t). lk_mount q = lk_mount l \<and> lk_node q = lk_node l
      \<and> (lock_live clk t l \<longrightarrow> lock_live clk t q)"
  shows "exclusive clk (t\<lparr>locks := ls\<rparr>)"
proof (rule exclusive_fewer [OF assms(1)]; (intro ballI)?)
  fix a assume a: "a \<in> set (valid_lock clk (t\<lparr>locks := ls\<rparr>))"
  then have "a \<in> set ls" "lock_live clk t a" by (auto simp: valid_lock_def)
  with assms(3) obtain q where "q \<in> set (locks t)" "lock_live clk t q" "lk_mount q = lk_mount a" "lk_node q = lk_node a"
    by blast
  then show "\<exists>b \<in> set (valid_lock clk t). lk_node b = lk_node a \<and> lk_mount b = lk_mount a"
    by (intro bexI [of _ q]) (simp_all add: valid_lock_def)
next
  fix l assume "l \<in> set (locks (t\<lparr>locks := ls\<rparr>))"
  then have "l \<in> set ls" by simp
  with assms(3) obtain q where "q \<in> set (locks t)" "lk_mount q = lk_mount l" by blast
  with assms(1) have "lk_mount l \<in> mt_id ` set (mounts t)" unfolding exclusive_def by metis
  then show "lk_mount l \<in> mt_id ` set (mounts (t\<lparr>locks := ls\<rparr>))" by simp
qed (use assms(1,2) in \<open>simp_all add: exclusive_def\<close>)

lemma exclusive_filter:
  assumes "exclusive clk t"
  shows "exclusive clk (t\<lparr>locks := filter P (locks t)\<rparr>)"
proof (rule exclusive_locks [OF assms])
  show "distinct (map lk_id (filter P (locks t)))" using assms by (simp add: exclusive_def distinct_map_filter)
qed auto

lemma exclusive_renew_lock:
  assumes "exclusive clk t" and "l \<in> lk_id ` set (valid_lock clk t)"
  shows "exclusive clk (renew_lock_sql l x t)"
  unfolding renew_lock_sql_def
proof (rule exclusive_locks [OF assms(1)]; (intro ballI)?)
  fix r assume "r \<in> set (map (\<lambda>r. if lk_id r = l then r\<lparr>lk_expires := x\<rparr> else r) (locks t))"
  then obtain q where q: "q \<in> set (locks t)" "r = (if lk_id q = l then q\<lparr>lk_expires := x\<rparr> else q)" by auto
  have "lock_live clk t q" if "lk_id q = l"
  proof -
    from assms(2) obtain p where "p \<in> set (locks t)" "lk_id p = l" "lock_live clk t p" by (auto simp: valid_lock_def)
    moreover have "inj_on lk_id (set (locks t))" using assms(1) by (simp add: exclusive_def distinct_map)
    ultimately show ?thesis using q that by (metis inj_onD)
  qed
  with q show "\<exists>q \<in> set (locks t). lk_mount q = lk_mount r \<and> lk_node q = lk_node r \<and> (lock_live clk t r \<longrightarrow> lock_live clk t q)"
    by (intro bexI [of _ q]) auto
next
  have "map lk_id (map (\<lambda>r. if lk_id r = l then r\<lparr>lk_expires := x\<rparr> else r) (locks t)) = map lk_id (locks t)" by simp
  then show "distinct (map lk_id (map (\<lambda>r. if lk_id r = l then r\<lparr>lk_expires := x\<rparr> else r) (locks t)))"
    using assms(1) by (metis exclusive_def)
qed

lemma exclusive_insert_lock:
  assumes "exclusive clk t" and "insert_lock r t = Inr t'" and "grantable clk t r"
  shows "exclusive clk t'"
proof -
  from assms(2) have t': "t' = t\<lparr>locks := locks t @ [r]\<rparr>" and fresh: "lk_id r \<notin> lk_id ` set (locks t)"
    and m: "lk_mount r \<in> mt_id ` set (mounts t)"
    by (auto simp: insert_lock_def row_at_None_iff split: if_splits)
  have "valid_lock clk t' = valid_lock clk t @ (if lock_live clk t r then [r] else [])"
    by (simp add: valid_lock_def t')
  moreover have "one_holder (valid_lock clk t @ (if lock_live clk t r then [r] else []))"
    using assms(1,3) by (simp add: exclusive_def one_holder_snoc) (simp add: grantable_def)
  ultimately show ?thesis using assms(1) fresh m by (simp add: exclusive_def t')
qed

interpretation exclusion: volume_invariant exclusive
proof unfold_locales
  fix clk and t t' :: tables
  assume ex: "exclusive clk t"
  show "insert_mount r t = Inr t' \<Longrightarrow> exclusive clk t'" for r by (rule exclusive_insert_mount [OF ex])
  show "ms = UNMOUNTED \<or> (\<forall>m \<in> set (mounts t). mt_id m = mt \<longrightarrow> mt_state m \<noteq> UNMOUNTED) \<Longrightarrow> exclusive clk (set_mount_state mt ms t)" for ms mt
    by (rule exclusive_set_state [OF ex])
  show "mt \<in> mt_id ` set (valid_mount clk t) \<Longrightarrow> exclusive clk (renew_mount_sql mt x t)" for mt x by (rule exclusive_renew_mount [OF ex])
  show "insert_lock lr t = Inr t' \<Longrightarrow> grantable clk t lr \<Longrightarrow> exclusive clk t'" for lr by (rule exclusive_insert_lock [OF ex])
  show "l \<in> lk_id ` set (valid_lock clk t) \<Longrightarrow> exclusive clk (renew_lock_sql l x t)" for l x by (rule exclusive_renew_lock [OF ex])
  show "exclusive clk (release_lock l t)" for l unfolding release_lock_def by (rule exclusive_filter [OF ex])
  show "exclusive clk (snd (prune_locks ts t))" for ts using exclusive_filter [OF ex, of "lock_live ts t"]
    by (simp add: prune_locks_def valid_lock_def)
  show "insert_node r t = Inr t' \<Longrightarrow> nd_volume r \<noteq> None \<Longrightarrow> exclusive clk t'" for r by (rule exclusive_same [OF ex]) (drule frame_insert, simp)+
  show "insert_content r t = Inr t' \<Longrightarrow> exclusive clk t'" for r by (rule exclusive_same [OF ex]) (drule frame_insert, simp)+
  show "insert_version r t = Inr t' \<Longrightarrow> exclusive clk t'" for r by (rule exclusive_same [OF ex]) (drule frame_insert, simp)+
  show "insert_edge ts r t = Inr t' \<Longrightarrow> exclusive clk t'" for ts r by (rule exclusive_same [OF ex]) (drule frame_insert, simp)+
  show "update_volume_crypto v mode w t = Inr t' \<Longrightarrow> exclusive clk t'" for v mode w by (rule exclusive_same [OF ex]) (drule frame_insert, simp)+
  show "xattr_set_sql n key val t = Inr t' \<Longrightarrow> exclusive clk t'" for n key val by (rule exclusive_same [OF ex]) (drule frame_insert, simp)+
  show "prune_nodes v t = Inr (k, t') \<Longrightarrow> exclusive clk t'" for v k by (rule exclusive_same [OF ex]) (drule frame_insert, simp)+
  show "link_root v root t = Inr t' \<Longrightarrow> exclusive clk t'" for v root by (rule exclusive_same [OF ex]) (drule frame_insert, simp)+
  show "insert_volume r t = Inr t' \<Longrightarrow> vl_root r = None \<Longrightarrow> exclusive clk t'" for r by (rule exclusive_same [OF ex]) (drule frame_insert, simp)+
  show "exclusive clk (upsert_chunk_row c t)" for c by (rule exclusive_same [OF ex]) simp_all
  show "exclusive clk (raise_wm v st t)" for v st by (rule exclusive_same [OF ex]) simp_all
  show "exclusive clk (update_content ts n v sz t)" for ts n v sz by (rule exclusive_same [OF ex]) simp_all
  show "exclusive clk (set_retention_keep n keep t)" for n keep by (rule exclusive_same [OF ex]) simp_all
  show "exclusive clk (rename_placement p n old nm t)" for p n old nm by (rule exclusive_same [OF ex]) simp_all
  show "exclusive clk (rename_node_if_sole ts n nm t)" for ts n nm by (rule exclusive_same [OF ex]) simp_all
  show "exclusive clk (update_node n f t)" for n f by (rule exclusive_same [OF ex]) simp_all
  show "exclusive clk (snd (archive_where ts Q t))" for ts Q by (rule exclusive_same [OF ex]) simp_all
  show "exclusive clk (snd (xattr_remove_sql n key t))" for n key by (rule exclusive_same [OF ex]) simp_all
  show "exclusive clk (snd (prune_content_versions ts v t))" for ts v by (rule exclusive_same [OF ex]) simp_all
  show "exclusive clk (snd (prune_content_chunks t))" by (rule exclusive_same [OF ex]) simp_all
qed

lemma reachable_exclusive:
  assumes "reachable L M (\<le>) s"
  shows "exclusive (sql_now s) (tabs s)"
proof (rule exclusion.keeps_reachable [OF assms])
  show "exclusive clk empty_tables" for clk by (simp add: exclusive_def empty_tables_def valid_lock_def one_holder_def)
qed (auto intro: exclusive_later exclusion.keeps_create_volume)

section \<open>Enforcement\<close>

text \<open>
  The path a request writes through, and whether the whole subtree below it is affected.
  An append or a \<open>write_range\<close> of no bytes only answers the size.
\<close>

fun write_target :: "request \<Rightarrow> (mount_id \<times> string \<times> bool) option" where
  "write_target (Write_All m path data) = Some (m, path, False)"
| "write_target (Append m path data) = (if data = [] then None else Some (m, path, False))"
| "write_target (Write_Range m path off data) = (if data = [] then None else Some (m, path, False))"
| "write_target (Truncate m path sz) = Some (m, path, False)"
| "write_target (Link m src dst) = Some (m, src, False)"
| "write_target (Rename m path nm) = Some (m, path, False)"
| "write_target (Move m src dst) = Some (m, src, False)"
| "write_target (Remove m path) = Some (m, path, False)"
| "write_target (Remove_Recursive m path) = Some (m, path, True)"
| "write_target (Set_Metadata m path meta) = Some (m, path, False)"
| "write_target (Pack m path) = Some (m, path, True)"
| "write_target (Unpack m path) = Some (m, path, False)"
| "write_target _ = None"

definition affected :: "tables \<Rightarrow> node_id \<Rightarrow> bool \<Rightarrow> node_id set" where
  "affected t n whole = (if whole then set (map st_node (subtree t n)) else {n})"

text \<open>No other mount holds a live lock on what the path leads to.\<close>

definition unheld :: "mount_id \<Rightarrow> string \<Rightarrow> bool \<Rightarrow> db \<Rightarrow> bool" where
  "unheld m path whole s \<longleftrightarrow> (\<forall>row v r. get_valid_mount m s = Some (row, v) \<longrightarrow>
     resolve (tabs s) (mt_point row) path = Inr r \<longrightarrow>
     (\<forall>l \<in> set (valid_lock (sql_now s) (tabs s)). lk_node l \<in> affected (tabs s) (rs_node r) whole \<longrightarrow> lk_mount l = m))"

lemma txn_success: "txn m s = (Inr x, s') \<Longrightarrow> \<exists>s1. m (s\<lparr>in_txn := True\<rparr>) = (Inr x, s1)"
  by (auto simp: txn_def split: if_splits prod.splits sum.splits)

lemma in_txn_view [simp]:
  "get_valid_mount m (s\<lparr>in_txn := b\<rparr>) = get_valid_mount m s" "unheld m path whole (s\<lparr>in_txn := b\<rparr>) = unheld m path whole s"
proof -
  show v: "get_valid_mount m (s\<lparr>in_txn := b\<rparr>) = get_valid_mount m s"
    by (simp add: get_valid_mount_def split: option.splits)
  show "unheld m path whole (s\<lparr>in_txn := b\<rparr>) = unheld m path whole s" unfolding unheld_def v by simp
qed

lemma refuse_iff: "refuse_if_held n m s = (Inr (), s') \<longleftrightarrow> s' = s \<and> \<not> check_lock_held (sql_now s) (tabs s) n m"
  by (auto simp: refuse_if_held_def op_elims)

lemma unheldI:
  assumes "get_valid_mount m s = Some (row, v)" and "resolve (tabs s) (mt_point row) path = Inr r"
    and "\<not> check_lock_held (sql_now s) (tabs s) (rs_node r) m"
  shows "unheld m path False s"
  using assms by (auto simp: unheld_def affected_def check_lock_held_def)

lemma unheld_subtreeI:
  assumes "get_valid_mount m s = Some (row, v)" and "resolve (tabs s) (mt_point row) path = Inr r"
    and "check_lock_held_subtree (sql_now s) (tabs s) (rs_node r) m = None"
  shows "unheld m path True s"
  using assms by (auto simp: unheld_def affected_def check_lock_held_subtree_def find_None_iff)

text \<open>The prologue of a write through a path.\<close>

lemma txn_unheld:
  assumes "txn body s = (Inr x, s')" and "\<And>s s1. body s = (Inr x, s1) \<Longrightarrow> unheld m path whole s"
  shows "unheld m path whole s"
  using txn_success [OF assms(1)] assms(2) by (metis in_txn_view(2))

lemmas prologue_elims = bind_op_eq_Inr require_mount_iff resolve_op_def resolve_parent_op_def require_name_def basic_ops_eq refuse_iff Let_def

lemma leaf_unheld: "bind_op (leaf_for_write m path) f s = (Inr x, s') \<Longrightarrow> unheld m path False s"
  by (auto simp: leaf_for_write_def resolve_leaf_def prologue_elims split: if_splits intro!: unheldI)

lemma content_unheld:
  "write_all L m p data s = (Inr u, s') \<Longrightarrow> unheld m p False s"
  "append_op L m p data s = (Inr k, s') \<Longrightarrow> data \<noteq> [] \<Longrightarrow> unheld m p False s"
  "write_range L m p off data s = (Inr k, s') \<Longrightarrow> data \<noteq> [] \<Longrightarrow> unheld m p False s"
  "truncate_op L m p sz s = (Inr u, s') \<Longrightarrow> unheld m p False s"
  unfolding write_all_def append_op_def write_range_def truncate_op_def
  by (auto simp: basic_ops_eq split: if_splits elim!: txn_unheld leaf_unheld)

lemma structure_unheld:
  "link m p dst s = (Inr u, s') \<Longrightarrow> unheld m p False s"
  "rename m p nm s = (Inr u, s') \<Longrightarrow> unheld m p False s"
  "move m p dst s = (Inr u, s') \<Longrightarrow> unheld m p False s"
  "remove m p s = (Inr u, s') \<Longrightarrow> unheld m p False s"
  "set_metadata m p meta s = (Inr u, s') \<Longrightarrow> unheld m p False s"
  "unpack L M m p s = (Inr u, s') \<Longrightarrow> unheld m p False s"
  unfolding link_def rename_def move_def remove_def set_metadata_def unpack_def
  by (erule txn_unheld, (auto simp: prologue_elims split: if_splits intro!: unheldI)[1])+

lemma subtree_unheld:
  "remove_recursive m p s = (Inr u, s') \<Longrightarrow> unheld m p True s"
  "pack L M m p s = (Inr n, s') \<Longrightarrow> unheld m p True s"
  unfolding remove_recursive_def pack_def
  by (erule txn_unheld, (auto simp: prologue_elims split: if_splits intro!: unheld_subtreeI)[1])+

lemma writes_unheld:
  assumes "serve L M c s = (Inr (), s')" and "write_target c = Some (m, path, whole)"
  shows "unheld m path whole s"
  using assms
  by (cases c rule: write_target.cases)
    (auto dest: content_unheld structure_unheld subtree_unheld simp: void_def bind_op_eq_Inr split: if_splits)

section \<open>Properties\<close>

text \<open>A call does not move the clock, so it is a step under every reflexive relation.\<close>

lemma call_clock: "serve L M c s = (r, s') \<Longrightarrow> sql_now s' = sql_now s"
  using preserves_result [OF clock.keeps_serve [OF clock.keeps_create_volume], of L M c s r s' "sql_now s"] by simp

lemma reachable_call: "reachable L M (\<le>) s \<Longrightarrow> serve L M c s = (r, s') \<Longrightarrow> reachable L M (\<le>) s'"
  using reachable.step [OF _ api_step.call] call_clock by (metis order_refl)

text \<open>A run from an empty file to a lock: a volume, a mount, an entry, its lock.\<close>

definition locking :: "mount_id op" where
  "locking =
     bind_op (create_volume toy_lib (Some ''vol'') 4 None ''none'') (\<lambda>v.
     bind_op (mount_volume toy_lib (vi_id v) ''/'' None None ''rw'' None False) (\<lambda>m.
     bind_op (create_entry toy_lib m ''/a'' []) (\<lambda>_.
     bind_op (lock m ''/a'' None) (\<lambda>_. ret m))))"

lemma locked_file:
  assumes "case locking blank of (Inl e, s) \<Rightarrow> False | (Inr m, s) \<Rightarrow> P s"
  obtains s where "reachable toy_lib toy_msgpack (\<le>) s" "P s"
proof -
  from assms obtain m s where r: "locking blank = (Inr m, s)" "P s" by (auto split: prod.splits sum.splits)
  from r(1) obtain v s1 s2 n s3 k where "create_volume toy_lib (Some ''vol'') 4 None ''none'' blank = (Inr v, s1)"
    "mount_volume toy_lib (vi_id v) ''/'' None None ''rw'' None False s1 = (Inr m, s2)"
    "create_entry toy_lib m ''/a'' [] s2 = (Inr n, s3)" "lock m ''/a'' None s3 = (Inr k, s)"
    by (auto simp: locking_def op_elims)
  then have st: "serve toy_lib toy_msgpack (Create_Volume (Some ''vol'') 4 None ''none'') blank = (Inr (), s1)"
    "serve toy_lib toy_msgpack (Mount (vi_id v) ''/'' None None ''rw'' None False) s1 = (Inr (), s2)"
    "serve toy_lib toy_msgpack (Create_Entry m ''/a'' []) s2 = (Inr (), s3)"
    "serve toy_lib toy_msgpack (Lock m ''/a'' None) s3 = (Inr (), s)"
    by (simp_all add: void_def bind_op_Inr ret_def)
  have "reachable toy_lib toy_msgpack (\<le>) blank"
    by (rule reachable.start) (simp add: fresh_db_def blank_def demo_def)
  from reachable_call [OF reachable_call [OF reachable_call [OF reachable_call [OF this st(1)] st(2)] st(3)] st(4)] r(2)
  show thesis by (rule that)
qed

text \<open>C21
  While SQLite's clock does not go back, the live locks on a node all belong to one mount, in
  every file that calls, descriptors and new connections can produce: no interleaving of
  \<open>lock\<close>, \<open>open_write\<close>, \<open>unlock\<close>, renewals, expiry and unmounting lets two mounts hold one node.
\<close>

theorem locks_exclusive:
  assumes "reachable L M (\<le>) s" and "a \<in> set (valid_lock (sql_now s) (tabs s))"
    and "b \<in> set (valid_lock (sql_now s) (tabs s))" and "lk_node a = lk_node b"
  shows "lk_mount a = lk_mount b"
  using reachable_exclusive [OF assms(1)] assms(2-4) unfolding exclusive_def one_holder_def by blast

theorem locks_exclusive_witness:
  "\<exists>s a. reachable toy_lib toy_msgpack (\<le>) s \<and> a \<in> set (valid_lock (sql_now s) (tabs s))
     \<and> (\<forall>b \<in> set (valid_lock (sql_now s) (tabs s)). lk_node a = lk_node b \<longrightarrow> lk_mount a = lk_mount b)"
proof -
  have "case locking blank of (Inl e, s) \<Rightarrow> False | (Inr m, s) \<Rightarrow> length (valid_lock (sql_now s) (tabs s)) = 1"
    by code_simp
  then obtain s where s: "reachable toy_lib toy_msgpack (\<le>) s" "length (valid_lock (sql_now s) (tabs s)) = 1"
    by (rule locked_file)
  then obtain a where "a \<in> set (valid_lock (sql_now s) (tabs s))" by (cases "valid_lock (sql_now s) (tabs s)") auto
  with s(1) locks_exclusive [OF s(1)] show ?thesis by blast
qed

text \<open>C22
  A lock is enforced: as long as another mount holds a live lock on the node a path leads to
  (on any node below it, for \<open>remove_recursive\<close> and \<open>pack\<close>), every request that writes,
  links, renames, moves, removes, annotates, packs or unpacks through that path fails and
  leaves the tables as they were.
\<close>

theorem locks_enforced:
  assumes "write_target c = Some (m, path, whole)" and "get_valid_mount m s = Some (row, v)"
    and "resolve (tabs s) (mt_point row) path = Inr r" and "l \<in> set (valid_lock (sql_now s) (tabs s))"
    and "lk_node l \<in> affected (tabs s) (rs_node r) whole" and "lk_mount l \<noteq> m"
  shows "\<exists>e s'. serve L M c s = (Inl e, s') \<and> tabs s' = tabs s"
proof -
  have "\<not> unheld m path whole s" using assms(2-6) by (auto simp: unheld_def)
  with writes_unheld [OF _ assms(1)] obtain e s' where f: "serve L M c s = (Inl e, s')"
    by (metis (full_types) old.unit.exhaust prod.exhaust sum.exhaust)
  moreover have "c \<noteq> Renew_Mount x ttl" for x ttl using assms(1) by auto
  ultimately show ?thesis using atomic_serve [of c L M] unfolding atomic_def by blast
qed

definition demo_locked :: db where
  "demo_locked = demo\<lparr>tabs := demo_tables\<lparr>locks := [\<lparr>lk_id = ''l'', lk_mount = ''m2'', lk_node = ''g'',
     lk_expires = None, lk_created = 1\<rparr>]\<rparr>\<rparr>"

theorem locks_enforced_witness:
  "\<exists>e s'. serve toy_lib toy_msgpack (Remove_Recursive ''m'' ''/dir'') demo_locked = (Inl e, s') \<and> tabs s' = tabs demo_locked"
proof -
  let ?l = "\<lparr>lk_id = ''l'', lk_mount = ''m2'', lk_node = ''g'', lk_expires = None, lk_created = 1\<rparr>"
  have "get_valid_mount ''m'' demo_locked = Some (demo_mount ''m'' ''r'' ''rw'', hd (volumes demo_tables))"
    "resolve (tabs demo_locked) (mt_point (demo_mount ''m'' ''r'' ''rw'')) ''/dir'' = Inr \<lparr>rs_node = ''d'', rs_type = CONTAINER\<rparr>"
    by code_simp+
  moreover have "?l \<in> set (valid_lock (sql_now demo_locked) (tabs demo_locked))" by code_simp
  moreover have "lk_node ?l \<in> affected (tabs demo_locked) ''d'' True" by code_simp
  ultimately show ?thesis
    by (intro locks_enforced [of _ "''m''" "''/dir''" True, where l = ?l and r = "\<lparr>rs_node = ''d'', rs_type = CONTAINER\<rparr>"])
      (simp_all only: write_target.simps resolved.simps lock_row.simps, simp)
qed

end
