(* ===== verification/Typing.thy ===== *)
theory Typing
  imports Exclusion
begin

text \<open>
  What holds of the answers on a reachable file: resolution gives a node that exists, with its
  type and in the volume of the mount point, and only containers have children (from the
  structural invariant of \<open>Integrity\<close>); and a lock that has a lease is not an obstacle for
  ever.
\<close>

section \<open>Types and volumes\<close>

definition volume_of :: "tables \<Rightarrow> node_id \<Rightarrow> volume_id option" where
  "volume_of t n = Option.bind (node_at t n) nd_volume"

lemma row_volume: "schema_ok t \<Longrightarrow> r \<in> set (nodes t) \<Longrightarrow> \<exists>v. nd_volume r = Some v"
  using rows_okD [of t] by (fastforce simp: rows_resolved_def split: option.splits)

lemma active_edge_ends:
  assumes "schema_ok t" and "e \<in> set (active_edge t)"
  shows "\<exists>f c v. node_at t (eg_from e) = Some f \<and> node_at t (eg_to e) = Some c \<and> nd_type f = CONTAINER
     \<and> nd_volume f = Some v \<and> nd_volume c = Some v"
proof -
  have "e \<in> set (edges t)" using assms(2) by (simp add: active_edge_def)
  then obtain f c where "f \<in> set (nodes t)" "nd_id f = eg_from e" "nd_type f = CONTAINER" "volume_agrees f (eg_volume e)"
    "c \<in> set (nodes t)" "nd_id c = eg_to e" "volume_agrees c (eg_volume e)"
    using rows_okD [OF assms(1)] by (auto simp: rows_resolved_def)
  then show ?thesis
    using node_at_row [OF assms(1)] row_volume [OF assms(1)] by (fastforce simp: volume_agrees_def)
qed

lemma placement_volume: "schema_ok t \<Longrightarrow> (a, b) \<in> (placement t)\<^sup>* \<Longrightarrow> a = b \<or> volume_of t b = volume_of t a"
  by (erule rtrancl_induct) (auto simp: placement_def volume_of_def dest!: active_edge_ends)

text \<open>C16
  Resolution is type sound on a reachable file: a path leads to a node that exists, has the
  type the answer says and lies in the volume of the mount point; the parent that a write to the path
  goes through is a container of that volume, with a name without a slash; and only a container
  has children, so the listing of anything else is empty.
\<close>

theorem resolution_typed:
  assumes "reachable L M R s" and "resolve (tabs s) mp path = Inr r"
  shows "(\<exists>a. node_at (tabs s) (rs_node r) = Some a \<and> nd_type a = rs_type r)
     \<and> volume_of (tabs s) (rs_node r) = volume_of (tabs s) mp
     \<and> (rs_type r \<noteq> CONTAINER \<longrightarrow> directory_listing (tabs s) (rs_node r) = [])
     \<and> (\<forall>p nm. resolve_parent (tabs s) mp path = Inr (p, nm) \<longrightarrow>
          segment_ok nm \<and> volume_of (tabs s) p = volume_of (tabs s) mp
          \<and> (\<exists>f. node_at (tabs s) p = Some f \<and> nd_type f = CONTAINER))"
proof (intro conjI allI impI)
  let ?t = "tabs s"
  note ok = reachable_ok [OF assms(1)] and ends = active_edge_ends [OF reachable_ok [OF assms(1)]]
  from resolved_node_exists [OF assms(2)] obtain a where a: "node_at ?t (rs_node r) = Some a" "nd_type a = rs_type r" by blast
  then show "\<exists>a. node_at ?t (rs_node r) = Some a \<and> nd_type a = rs_type r" by blast
  show "volume_of ?t (rs_node r) = volume_of ?t mp"
    using placement_volume [OF ok resolve_contained [OF assms(2)]] by auto
  assume "rs_type r \<noteq> CONTAINER"
  with a have "filter (\<lambda>e. eg_from e = rs_node r) (active_edge ?t) = []" by (fastforce simp: filter_empty_conv dest: ends)
  then show "directory_listing ?t (rs_node r) = []" by (simp add: directory_listing_def joined_children_def)
next
  let ?t = "tabs s"
  note ok = reachable_ok [OF assms(1)] and ends = active_edge_ends [OF reachable_ok [OF assms(1)]]
  fix p nm
  assume p: "resolve_parent ?t mp path = Inr (p, nm)"
  then have ne: "split_path path \<noteq> []" by (auto simp: resolve_parent_def Let_def)
  from resolve_via_parent [OF assms(2) ne] p
  have nm: "nm = last (split_path path)" and "resolve_segment ?t p nm = Some (rs_node r, rs_type r)" by auto
  then obtain e where "e \<in> set (active_edge ?t)" "eg_from e = p"
    by (auto simp: placement_def dest!: resolve_segment_placed)
  with ends show "\<exists>f. node_at ?t p = Some f \<and> nd_type f = CONTAINER" by blast
  show "segment_ok nm" using nm ne by (metis last_in_set split_path_ok)
  show "volume_of ?t p = volume_of ?t mp" using placement_volume [OF ok resolve_parent_contained [OF p]] by auto
qed

theorem resolution_typed_witness:
  "\<exists>s mp r. reachable toy_lib toy_msgpack (\<le>) s \<and> resolve (tabs s) mp ''/a'' = Inr r \<and> rs_type r \<noteq> CONTAINER
     \<and> volume_of (tabs s) (rs_node r) = volume_of (tabs s) mp \<and> directory_listing (tabs s) (rs_node r) = []"
proof -
  have "case locking blank of (Inl e, s) \<Rightarrow> False
     | (Inr m, s) \<Rightarrow> (case resolve (tabs s) (mt_point (hd (mounts (tabs s)))) ''/a'' of Inl e \<Rightarrow> False | Inr r \<Rightarrow> rs_type r \<noteq> CONTAINER)"
    by code_simp
  then obtain s where s: "reachable toy_lib toy_msgpack (\<le>) s"
    "case resolve (tabs s) (mt_point (hd (mounts (tabs s)))) ''/a'' of Inl e \<Rightarrow> False | Inr r \<Rightarrow> rs_type r \<noteq> CONTAINER"
    by (rule locked_file)
  then obtain r where "resolve (tabs s) (mt_point (hd (mounts (tabs s)))) ''/a'' = Inr r" "rs_type r \<noteq> CONTAINER"
    by (auto split: sum.splits)
  with s(1) resolution_typed [OF s(1)] show ?thesis by blast
qed

section \<open>Leases\<close>

text \<open>A lock that time ends: it has an expiry, or its mount has one or is closed.\<close>

definition leased :: "tables \<Rightarrow> lock_row \<Rightarrow> bool" where
  "leased t l \<longleftrightarrow> lk_expires l \<noteq> None
     \<or> (case mount_at t (lk_mount l) of None \<Rightarrow> True | Some m \<Rightarrow> mt_expires m \<noteq> None \<or> mt_state m = UNMOUNTED)"

lemma leased_ends: "leased t l \<Longrightarrow> \<exists>T. \<forall>clk \<ge> T. \<not> lock_live clk t l"
proof -
  assume "leased t l"
  then consider x where "lk_expires l = Some x" | "mount_at t (lk_mount l) = None"
    | m x where "mount_at t (lk_mount l) = Some m" "mt_expires m = Some x"
    | m where "mount_at t (lk_mount l) = Some m" "mt_state m = UNMOUNTED"
    by (auto simp: leased_def split: option.splits)
  then show ?thesis
    by cases (auto simp: lock_live_def mount_live_def not_less split: option.splits)
qed

lemma leases_end: "\<forall>l \<in> set ls. leased t l \<Longrightarrow> \<exists>T. \<forall>clk \<ge> T. \<forall>l \<in> set ls. \<not> lock_live clk t l"
proof (induction ls)
  case (Cons l ls)
  then obtain T where "\<forall>clk \<ge> T. \<forall>l \<in> set ls. \<not> lock_live clk t l" by auto
  moreover obtain U where "\<forall>clk \<ge> U. \<not> lock_live clk t l" using Cons.prems leased_ends by fastforce
  ultimately have "\<forall>clk \<ge> max T U. \<forall>l \<in> set (l # ls). \<not> lock_live clk t l" by simp
  then show ?case by blast
qed simp

lemma unleased_mount_stays:
  "row_at mt_id m (filter (mount_live a) ms) = Some row \<Longrightarrow> mt_expires row = None \<Longrightarrow> a \<le> clk \<Longrightarrow>
     row_at mt_id m (filter (mount_live clk) ms) = Some row"
  by (induction ms) (auto simp: row_at_def mount_live_def split: if_splits option.splits)

lemma valid_mount_stays:
  assumes "get_valid_mount m s = Some (row, v)" and "mt_expires row = None" and "sql_now s \<le> clk"
  shows "get_valid_mount m (s\<lparr>now := w, sql_now := clk, in_txn := b\<rparr>) = Some (row, v)"
  using assms unleased_mount_stays [OF _ assms(2,3)]
  by (fastforce simp: get_valid_mount_def valid_mount_def split: option.splits)

lemma locks_flush [simp]: "locks (tabs (flush_watermarks s)) = locks (tabs s)"
proof -
  have "locks (fold (\<lambda>(v, st). raise_wm v st) ws t) = locks t" for ws t
    by (induction ws arbitrary: t) (auto simp: raise_wm_def)
  then show ?thesis by (simp add: flush_watermarks_def)
qed

text \<open>C23
  A lock with a lease cannot keep a node for ever, whatever became of its holder: if every
  lock on a node has an expiry, or a mount that has one or is closed, there is a time from
  which any mount without a lease that still leads to the node gets the lock when it asks, and
  nothing but the clock needs to have moved.
\<close>

theorem leases_lapse:
  assumes "\<not> in_txn s" and "get_valid_mount m s = Some (row, v)" and "mt_expires row = None"
    and "(vl_enc_mode v \<noteq> ''none'') = encrypts (cipher_of s)" and "resolve (tabs s) (mt_point row) path = Inr r"
    and "\<forall>l \<in> set (locks (tabs s)). lk_node l = rs_node r \<longrightarrow> leased (tabs s) l"
  shows "\<exists>T. \<forall>clk \<ge> T. \<forall>w lid. fst (gen_id (s\<lparr>now := w, sql_now := clk\<rparr>)) = Inr lid \<longrightarrow> lock_at (tabs s) lid = None \<longrightarrow>
     (\<exists>s'. lock m path ttl (s\<lparr>now := w, sql_now := clk\<rparr>) =
          (Inr \<lparr>li_id = lid, li_mount = m, li_node = rs_node r, li_expires_at = expiry w ttl\<rparr>, s')
        \<and> lock_at (tabs s') lid =
          Some \<lparr>lk_id = lid, lk_mount = m, lk_node = rs_node r, lk_expires = expiry w ttl, lk_created = w\<rparr>)"
proof -
  let ?t = "tabs s" and ?ls = "filter (\<lambda>l. lk_node l = rs_node r) (locks (tabs s))"
  obtain U where U: "\<And>clk l. U \<le> clk \<Longrightarrow> l \<in> set ?ls \<Longrightarrow> \<not> lock_live clk ?t l"
    using leases_end [of ?ls ?t] assms(6) by auto
  show ?thesis
  proof (intro exI [of _ "max U (sql_now s)"] allI impI)
    fix clk w lid
    let ?s = "s\<lparr>now := w, sql_now := clk\<rparr>" and ?row = "\<lparr>lk_id = lid, lk_mount = m, lk_node = rs_node r, lk_expires = expiry w ttl, lk_created = w\<rparr>"
    assume T: "max U (sql_now s) \<le> clk" and lid: "fst (gen_id ?s) = Inr lid" "lock_at ?t lid = None"
    have v: "get_valid_mount m (?s\<lparr>in_txn := True\<rparr>) = Some (row, v)"
      using valid_mount_stays [OF assms(2,3)] T by simp
    have "\<not> check_any_lock clk ?t (rs_node r)" using U [of clk] T by (auto simp: check_any_lock_def valid_lock_def)
    moreover have "node_at ?t (rs_node r) \<noteq> None" using resolved_node_exists [OF assms(5)] by auto
    moreover have "mount_at ?t m \<noteq> None"
      using assms(2) by (auto simp: get_valid_mount_def valid_mount_def row_at_None_iff split: option.splits dest!: row_at_SomeD)
    moreover have "require_mount m False (?s\<lparr>in_txn := True\<rparr>) =
        (Inr \<lparr>m_id = m, m_point = mt_point row, m_volume = mt_volume row, m_enc_mode = vl_enc_mode v\<rparr>, ?s\<lparr>in_txn := True\<rparr>)"
      using v assms(4) by (simp add: require_mount_iff)
    moreover have "gen_id (?s\<lparr>in_txn := True\<rparr>) = (Inr lid, ?s\<lparr>in_txn := True, draws := draws s + 4\<rparr>)"
      using lid(1) by (simp add: gen_id_def now_ms_def)
    ultimately have "lock m path ttl ?s = (Inr \<lparr>li_id = lid, li_mount = m, li_node = rs_node r, li_expires_at = expiry w ttl\<rparr>,
        (flush_watermarks (?s\<lparr>in_txn := True, draws := draws s + 4, tabs := ?t\<lparr>locks := locks ?t @ [?row]\<rparr>\<rparr>))\<lparr>in_txn := False\<rparr>)"
      using assms(1,5) lid(2)
      by (simp add: lock_def txn_def op_simps resolve_op_def sql_def create_lock_def insert_lock_def)
    moreover have "row_at lk_id lid (locks ?t @ [?row]) = Some ?row" using lid(2) by (simp add: row_simps)
    ultimately show "\<exists>s'. lock m path ttl ?s =
          (Inr \<lparr>li_id = lid, li_mount = m, li_node = rs_node r, li_expires_at = expiry w ttl\<rparr>, s') \<and> lock_at (tabs s') lid = Some ?row"
      by simp
  qed
qed

text \<open>The demo file with a lock of \<open>m2\<close> on \<open>/dir/g\<close> that lasts one more second.\<close>

definition demo_leased :: db where
  "demo_leased = demo_locked\<lparr>tabs := (tabs demo_locked)\<lparr>locks := map (\<lambda>l. l\<lparr>lk_expires := Some 2000000000\<rparr>) (locks (tabs demo_locked))\<rparr>\<rparr>"

theorem leases_lapse_witness:
  "fst (lock ''m'' ''/dir/b'' None demo_leased) = Inl LockHeld
   \<and> (\<exists>T. \<forall>clk \<ge> T. \<forall>w lid. fst (gen_id (demo_leased\<lparr>now := w, sql_now := clk\<rparr>)) = Inr lid \<longrightarrow>
        lock_at (tabs demo_leased) lid = None \<longrightarrow>
        (\<exists>s'. lock ''m'' ''/dir/b'' None (demo_leased\<lparr>now := w, sql_now := clk\<rparr>) =
           (Inr \<lparr>li_id = lid, li_mount = ''m'', li_node = ''g'', li_expires_at = None\<rparr>, s')))"
proof (intro conjI)
  show "fst (lock ''m'' ''/dir/b'' None demo_leased) = Inl LockHeld" by code_simp
  have h: "\<not> in_txn demo_leased" "(vl_enc_mode (hd (volumes demo_tables)) \<noteq> ''none'') = encrypts (cipher_of demo_leased)"
    "get_valid_mount ''m'' demo_leased = Some (demo_mount ''m'' ''r'' ''rw'', hd (volumes demo_tables))"
    "mt_expires (demo_mount ''m'' ''r'' ''rw'') = None"
    "\<forall>l \<in> set (locks (tabs demo_leased)). lk_node l = rs_node \<lparr>rs_node = ''g'', rs_type = ENTRY\<rparr> \<longrightarrow> leased (tabs demo_leased) l"
    "resolve (tabs demo_leased) (mt_point (demo_mount ''m'' ''r'' ''rw'')) ''/dir/b'' = Inr \<lparr>rs_node = ''g'', rs_type = ENTRY\<rparr>"
    by code_simp+
  from leases_lapse [OF h(1,3,4,2,6,5), of None]
  show "\<exists>T. \<forall>clk \<ge> T. \<forall>w lid. fst (gen_id (demo_leased\<lparr>now := w, sql_now := clk\<rparr>)) = Inr lid \<longrightarrow>
      lock_at (tabs demo_leased) lid = None \<longrightarrow>
      (\<exists>s'. lock ''m'' ''/dir/b'' None (demo_leased\<lparr>now := w, sql_now := clk\<rparr>) =
         (Inr \<lparr>li_id = lid, li_mount = ''m'', li_node = ''g'', li_expires_at = None\<rparr>, s'))"
    unfolding expiry_def by simp blast
qed

end
