(* ===== verification/Buffering.thy ===== *)
theory Buffering
  imports Demo
begin

text \<open>
  The loop with which \<open>Descriptor.write\<close> empties its buffer (\<open>_flush_full\<close> of
  \<open>aloelite/descriptor.py\<close>) ends: the measure is the length of the pending bytes, which a
  stored chunk takes its size from. So the fuel of \<open>flush_full\<close> is a device of the model that
  no write notices.
\<close>

section \<open>One round\<close>

text \<open>What storing a chunk leaves of the buffer.\<close>

definition same_buffer :: "descriptor \<Rightarrow> descriptor \<Rightarrow> bool" where
  "same_buffer d d' \<longleftrightarrow> d_cs d' = d_cs d \<and> d_pending d' = d_pending d \<and> d_flushed d' = d_flushed d
     \<and> d_chunk_index d' = d_chunk_index d \<and> d_pos d' = d_pos d"

lemma claim_buffer: "claim_version d s = (r, d', s') \<Longrightarrow> same_buffer d d'"
  by (auto simp: claim_version_def same_buffer_def Let_def split: if_splits prod.splits sum.splits option.splits)

lemma stage_buffer: "stage_own L p d s = (r, d', s') \<Longrightarrow> d' = d"
  by (auto simp: stage_own_def run_op_def split: prod.splits)

lemma flush_one_buffer:
  assumes "flush_one_chunk L d s = (Inr u, d', s')"
  shows "d_cs d' = d_cs d \<and> d_pending d' = drop (d_cs d) (d_pending d) \<and> d_flushed d' = d_flushed d + d_cs d
     \<and> d_chunk_index d' = Suc (d_chunk_index d) \<and> d_pos d' = d_pos d"
proof -
  let ?m = "d_bind claim_version (\<lambda>_. stage_own L (take (d_cs d) (d_pending d)))"
  obtain x d1 s1 where tx: "d_txn ?m d s = (Inr x, d1, s1)"
    and d': "d' = d1\<lparr>d_chunk_index := Suc (d_chunk_index d1), d_flushed := d_flushed d1 + d_cs d1,
      d_pending := drop (d_cs d1) (d_pending d1)\<rparr>"
    using assms by (auto simp: flush_one_chunk_def split: prod.splits sum.splits)
  from tx obtain s2 where "?m d (s\<lparr>in_txn := True\<rparr>) = (Inr x, d1, s2)"
    by (auto simp: d_txn_def split: if_splits prod.splits sum.splits)
  then obtain y d2 s3 where c: "claim_version d (s\<lparr>in_txn := True\<rparr>) = (Inr y, d2, s3)"
    and "stage_own L (take (d_cs d) (d_pending d)) d2 s3 = (Inr x, d1, s2)"
    by (auto simp: d_bind_def split: prod.splits sum.splits)
  from stage_buffer [OF this(2)] claim_buffer [OF c] have "same_buffer d d1" by simp
  then show ?thesis by (simp add: d' same_buffer_def)
qed

section \<open>The loop\<close>

lemma more_fuel:
  "0 < d_cs d \<Longrightarrow> length (d_pending d) < j \<Longrightarrow> length (d_pending d) < k \<Longrightarrow> flush_full L j d s = flush_full L k d s"
proof (induction "length (d_pending d)" arbitrary: d s j k rule: less_induct)
  case less
  obtain j' k' where jk: "j = Suc j'" "k = Suc k'" using less.prems by (cases j; cases k) auto
  have "flush_full L j' d' s' = flush_full L k' d' s'"
    if "flush_one_chunk L d s = (Inr u, d', s')" "d_cs d \<le> length (d_pending d)" for u d' s'
    using less.hyps [of d' j' k' s'] less.prems that(2) flush_one_buffer [OF that(1)] jk by auto
  with jk show ?case by (auto split: prod.splits sum.splits)
qed

lemma flush_full_result:
  assumes "0 < d_cs d" and "length (d_pending d) < k"
  shows "case flush_full L k d s of
      (Inr _, d', s') \<Rightarrow> d_pending d' = drop (length (d_pending d) div d_cs d * d_cs d) (d_pending d)
        \<and> d_flushed d' + length (d_pending d') = d_flushed d + length (d_pending d)
        \<and> d_chunk_index d' = d_chunk_index d + length (d_pending d) div d_cs d
    | (Inl e, d', s') \<Rightarrow> (\<exists>d1 s1. flush_one_chunk L d1 s1 = (Inl e, d', s'))"
  using assms
proof (induction "length (d_pending d)" arbitrary: d s k rule: less_induct)
  case less
  obtain k' where k: "k = Suc k'" using less.prems by (cases k) auto
  show ?case
  proof (cases "d_cs d \<le> length (d_pending d)")
    case True
    show ?thesis
    proof (cases "flush_one_chunk L d s")
      case (fields r d1 s1)
      show ?thesis
      proof (cases r)
        case (Inl e)
        with fields True k show ?thesis by (auto intro: exI [of _ d] exI [of _ s])
      next
        case (Inr u)
        note d1 = flush_one_buffer [OF fields [unfolded Inr]]
        let ?n = "length (d_pending d)" and ?cs = "d_cs d"
        have lt: "length (d_pending d1) < ?n" "length (d_pending d1) < k'" using d1 less.prems True k by auto
        have n: "?n div ?cs = Suc ((?n - ?cs) div ?cs)" using True less.prems(1) by (simp add: le_div_geq)
        have "flush_full L k d s = flush_full L k' d1 s1" using fields Inr True k by simp
        with less.hyps [OF lt(1) _ lt(2), of s1] d1 less.prems(1) True n show ?thesis
          by (auto simp: add.commute split: prod.splits sum.splits)
      qed
    qed
  next
    case False
    with k less.prems(1) show ?thesis by (simp add: div_less)
  qed
qed

lemma no_chunk_size: "d_cs d = 0 \<Longrightarrow> fst (flush_full L k d s) \<noteq> Inr u"
proof (induction k arbitrary: d s)
  case (Suc k)
  have "fst (flush_full L k d' s') \<noteq> Inr u" if "flush_one_chunk L d s = (Inr v, d', s')" for v d' s'
    using Suc flush_one_buffer [OF that] by simp
  then show ?case using Suc.prems by (auto split: prod.splits sum.splits)
qed simp

text \<open>C12
  The loop that empties the buffer of a write ends: with any fuel above the pending length
  the result is one and the same, either the error of storing some chunk, or a buffer with
  less than a chunk, the rest of what was pending after its full chunks, each numbered and
  counted as flushed.
\<close>

theorem flush_terminates:
  "0 < d_cs d \<Longrightarrow> length (d_pending d) < k \<Longrightarrow>
     flush_full L k d s = flush_full L (Suc (length (d_pending d))) d s
     \<and> (case flush_full L k d s of
          (Inr _, d', s') \<Rightarrow> length (d_pending d') < d_cs d \<and> (\<exists>stored. d_pending d = stored @ d_pending d'
            \<and> length stored = (d_chunk_index d' - d_chunk_index d) * d_cs d \<and> d_flushed d' = d_flushed d + length stored)
        | (Inl e, d', s') \<Rightarrow> (\<exists>d1 s1. flush_one_chunk L d1 s1 = (Inl e, d', s')))"
proof -
  assume a: "0 < d_cs d" "length (d_pending d) < k"
  let ?n = "length (d_pending d) div d_cs d * d_cs d"
  have n: "?n \<le> length (d_pending d)" "length (d_pending d) - ?n < d_cs d" using a(1) by (simp_all add: minus_div_mult_eq_mod)
  have same: "flush_full L k d s = flush_full L (Suc (length (d_pending d))) d s" using more_fuel a by blast
  have stored: "length (d_pending d') < d_cs d \<and> (\<exists>stored. d_pending d = stored @ d_pending d'
      \<and> length stored = (d_chunk_index d' - d_chunk_index d) * d_cs d \<and> d_flushed d' = d_flushed d + length stored)"
    if "flush_full L k d s = (Inr u, d', s')" for u d' s'
  proof -
    from flush_full_result [OF a, of L s] that
    have r: "d_pending d' = drop ?n (d_pending d)" "d_flushed d' + length (d_pending d') = d_flushed d + length (d_pending d)"
      "d_chunk_index d' = d_chunk_index d + length (d_pending d) div d_cs d" by auto
    then have "length (d_pending d') < d_cs d" using n(2) by simp
    moreover have "length (take ?n (d_pending d)) = ?n" using n(1) by simp
    moreover have "d_pending d = take ?n (d_pending d) @ d_pending d'" using r(1) by simp
    moreover have "d_flushed d' = d_flushed d + ?n" using r(2) n(1) unfolding r(1) length_drop by linarith
    ultimately show ?thesis using r(3) by (intro conjI exI [of _ "take ?n (d_pending d)"]) auto
  qed
  show ?thesis
  proof (cases "flush_full L k d s")
    case (fields r d' s')
    show ?thesis
    proof (cases r)
      case (Inl e)
      with fields flush_full_result [OF a, of L s] same show ?thesis by simp
    next
      case (Inr u)
      with fields stored same show ?thesis by simp
    qed
  qed
qed

definition demo_writer :: descriptor where
  "demo_writer = (new_writer ''f'' ''fd'' 4 ''l'' True 0 0 [1, 2, 3, 4, 5, 6, 7, 8, 9] 9)\<lparr>d_version := Some 2\<rparr>"

theorem flush_terminates_witness:
  "flush_full toy_lib 100 demo_writer demo = flush_full toy_lib 10 demo_writer demo
   \<and> (\<exists>d' s'. flush_full toy_lib 100 demo_writer demo = (Inr (), d', s') \<and> length (d_pending d') < 4)"
proof -
  have p: "d_cs demo_writer = 4" "length (d_pending demo_writer) = 9" by (simp_all add: demo_writer_def new_writer_def)
  note t = flush_terminates [of demo_writer 100 toy_lib demo, unfolded p]
  then have same: "flush_full toy_lib 100 demo_writer demo = flush_full toy_lib 10 demo_writer demo" by (simp del: flush_full.simps)
  have "fst (flush_full toy_lib 10 demo_writer demo) = Inr ()" by code_simp
  then obtain d' s' where "flush_full toy_lib 100 demo_writer demo = (Inr (), d', s')" unfolding same by (metis prod.collapse)
  moreover from this t same have "length (d_pending d') < 4" by (simp del: flush_full.simps)
  ultimately show ?thesis using same by blast
qed

end
