(* ===== verification/Spec2Isabelle.thy ===== *)
theory Spec2Isabelle
  imports OpenFile FuseTable Paths Pruning Verifying PackFormat Copying DavGuards DavXml S3Objects Typing Buffering
begin

text \<open>
  aloelite is a file system in one SQLite file, written in Python: a library
  (\<open>src/aloelite\<close>) with a FUSE frontend, and a manager (\<open>src/manager\<close>) that serves unlocked
  volumes over WebDAV. This development is a shallow embedding of both: every definition
  translates the code named beside it, and the properties are theorems about those definitions.

  \<^bold>\<open>The layers and how they call each other.\<close> A file holds volumes. A volume is a tree of
  nodes whose placements have names, and its entries have versions of content, each a manifest
  of chunks in a pool. A mount is a session on a volume, and a lock belongs to a mount. A call of the
  Mount API resolves a path through the mount, runs in one transaction, and raises one of a
  closed set of errors. Frontends (path objects, FUSE handles, WebDAV verbs) are clients of that API.

  \<^bold>\<open>The core\<close> (\<open>src/aloelite\<close>), in the order of the imports:
  \<^item> \<open>Prelude\<close>: basic types, the theorem collections, lists. \<open>Vocabulary\<close>: \<open>types.py\<close>,
    \<open>errors.py\<close>. \<open>Ids\<close>: \<open>ids.py\<close>. \<open>Crypto\<close>: \<open>crypto.py\<close>, over a parameter \<open>crypto_lib\<close>
    for AEAD, HMAC and the key derivation, and the locale \<open>chunk_seam\<close> for what they promise.
  \<^item> \<open>Schema\<close>: \<open>sql/schema.sql\<close>, a record of tables (a table is a list of row records), its
    constraints and triggers as guards of the inserts and updates, its views as functions.
  \<^item> \<open>Engine\<close>: \<open>db.py\<close>, the connection \<open>db\<close> with its clock and id mint, operations \<open>'a op\<close>
    that pass it on and answer an error or a value, and \<open>txn\<close>, which rolls the tables back.
    The templates of \<open>config/sql-templates.yaml\<close> are functions beside the callers they have.
  \<^item> \<open>Resolve\<close>: \<open>resolve.py\<close>. \<open>Session\<close>, \<open>Content\<close>, \<open>Structural\<close>, \<open>Locks\<close>, \<open>Streaming\<close>,
    \<open>Maintenance\<close>, \<open>Packing\<close>: \<open>operations.py\<close> by the groups it has, \<open>descriptor.py\<close>
    and \<open>pack.py\<close>. One definition per operation, whole, with all its guards and error exits.
  \<^item> \<open>Facade\<close>: \<open>aloelite.py\<close>. \<open>Paths\<close>: \<open>path.py\<close>. \<open>OpenFile\<close> and \<open>Fuse\<close>: \<open>fuse.py\<close>, the
    dirty-extent overlay and the request handlers, with the inode table, the handles
    and the overlays as state.

  \<^bold>\<open>The manager\<close> (\<open>src/manager\<close>): \<open>DavLock\<close> (\<open>davlock.py\<close>: the lock registry and the If
  header), \<open>Urls\<close> and \<open>Dav\<close> (\<open>dav.py\<close>: helpers and verbs), \<open>DavServer\<close> (\<open>dav.py\<close>: PIN
  cache, authentication, dispatch, error answers), \<open>Store\<close> (\<open>engine/store.py\<close>),
  \<open>Direct\<close> (\<open>engine/direct.py\<close>: sessions held for several clients), \<open>SigV4\<close> (\<open>sigv4.py\<close>),
  \<open>S3\<close> (\<open>s3.py\<close>: listing, objects, multipart uploads, dispatch).

  \<^bold>\<open>What the lemmas show.\<close>
  \<^item> Content: \<open>Manifest\<close> is the content store as an abstract data type, a version is a
    string of bytes; \<open>Writes\<close>, \<open>Streams\<close> and \<open>ByteFile\<close> prove each operation of \<open>Content\<close> and
    \<open>Streaming\<close> against it. The interface is the locale \<open>byte_file\<close>, interpreted on the engine
    (\<open>entry\<close>); \<open>OpenFile\<close> proves the overlay of dirty extents inside it to be a plain array.
    \<open>Buffering\<close>: the write loop ends.
  \<^item> The file as a whole: \<open>Invariants\<close> has the locales \<open>table_invariant\<close> and
    \<open>volume_invariant\<close>: what is kept by a few row-level steps is kept by every operation.
    \<open>Integrity\<close> interprets them on the structural invariants of the schema, \<open>Reachable\<close> makes
    the API a step relation with all reachable files, \<open>Exclusion\<close> adds that locks exclude and are enforced,
    and \<open>Typing\<close> that resolution answers nodes of the right type and that leases lapse.
  \<^item> \<open>Namespace\<close>: the structural operations refine operations on an abstract set of
    placements. \<open>Creating\<close> and \<open>Copying\<close>: a created file has the given bytes, a copied one
    those of its source, and no other file changes. \<open>Pruning\<close> and \<open>Verifying\<close>: what garbage collection keeps and takes, and what
    a clean verification certifies. \<open>PackFormat\<close>: pack blobs decode. \<open>Paths\<close>: normalising a path
    does not change its meaning.
  \<^item> Frontends: \<open>FuseFiles\<close>, all handles on an inode see one file; \<open>FuseTable\<close>, the handler
    tables agree after any requests. \<open>DavLock\<close>, at most one lock governs a resource;
    \<open>DavFiles\<close>, \<open>DavGuards\<close>, \<open>DavXml\<close>, \<open>DavServer\<close>: PUT and GET, locks, escaping, PINs.
    \<open>Direct\<close>: clients of one session do not disturb each other. \<open>SigV4\<close>: what a signature binds.
    \<open>S3Objects\<close>: admission, PUT and GET, multipart uploads, and listing in pages.
  \<open>Demo\<close> is the concrete file on which witnesses are evaluated.

  \<^bold>\<open>Bounds.\<close> Python integers are \<open>int\<close> or \<open>nat\<close>, bytes are words of 8 bits, and the inode hash
  is a word of 64 bits. Views that recurse stop at \<open>depth_bound\<close> = 256 levels as the schema's
  own queries do. \<open>flush_full\<close> has the length of the buffer as fuel, which is enough
  (\<open>flush_terminates\<close>). The tree walks of \<open>Paths\<close> recurse on the frames left on Python's stack and raise
  RecursionError without, as Python does; the walk of \<open>S3\<close> swallows it. Other loops are structural.

  \<^bold>\<open>Parameters.\<close> Cryptographic primitives (\<open>crypto_lib\<close>, with \<open>lib_ok\<close> for decryption after
  encryption; \<open>signer\<close> for SHA-256 and HMAC), MsgPack, MIME types and the XML parser are arguments. Each has a concrete instance
  where a property needs one. Time is a field of the connection that a step may change at
  will; an assumption that it does not go back is in the statement where it is used.

  \<^bold>\<open>Not modelled.\<close> SQLite itself beyond the statements that the templates run; opening a file
  with its pragmas, the migrations of older files and the template loader (\<open>db.py\<close>). The HTTP
  services (\<open>api.py\<close>, \<open>web.py\<close>, \<open>tls.py\<close>): routes of a web framework, JSON and page rendering over the
  operations modelled here; the tree copies of \<open>transfer.py\<close>. The supervisor and preflight checks (processes, signals and mountpoints of the
  host), the command lines, admin helpers and PIN input (terminal and operating system). The kernel's
  side of FUSE and the event loop: a handler awaits nothing, so it is one step. Threads of the
  manager: a method under its lock is one step, and interleavings are sequences of steps.
\<close>

section \<open>File content\<close>

text \<open>C9
  \<open>write_all\<close> on a writable file commits exactly the given bytes: it succeeds, a later
  \<open>read_all\<close> returns them, the file stays a writable file, and nothing but a fresh version of
  this node changes (no other node's content, no older version, no chunk of the pool).
\<close>

theorem write_all_read_all:
  assumes "lib_ok L" and "file_at L U cs s mount path n B" and "fits U cs data"
  shows "\<exists>s'. write_all L mount path data s = (Inr (), s') \<and> read_all L mount path s' = (Inr data, s')
     \<and> file_at L U cs s' mount path n data \<and> rewrote n s s'"
  using write_all_ok [OF assms] file_at_read by blast

theorem write_all_read_all_witness:
  "\<exists>s'. write_all toy_lib ''m'' ''/a'' [7, 8] demo = (Inr (), s') \<and> read_all toy_lib ''m'' ''/a'' s' = (Inr [7, 8], s')"
  using write_all_read_all [OF toy_lib_ok demo_file(1) fits_UNIV, of "[7, 8]"] by blast

text \<open>C8
  \<open>append\<close> adds the given bytes at the end, carrying the full chunks of the old version by
  reference and re-staging only the partial tail; the result is the new size.
\<close>

theorem append_appends:
  assumes "lib_ok L" and "file_at L U cs s mount path n B" and "fits U cs (B @ data)" and "data \<noteq> []"
  shows "\<exists>s'. append_op L mount path data s = (Inr (length B + length data), s')
     \<and> read_all L mount path s' = (Inr (B @ data), s')
     \<and> file_at L U cs s' mount path n (B @ data) \<and> rewrote n s s'"
  using append_ok [OF assms] file_at_read by fastforce

theorem append_appends_witness:
  "\<exists>s'. append_op toy_lib ''m'' ''/a'' [7, 8] demo = (Inr 7, s')
     \<and> read_all toy_lib ''m'' ''/a'' s' = (Inr [1, 2, 3, 4, 5, 7, 8], s')"
  using append_appends [OF toy_lib_ok demo_file(1) fits_UNIV, of "[7, 8]"] by auto

text \<open>C2
  \<open>write_range\<close> is the array update of POSIX \<open>pwrite\<close>: the bytes at the offset are replaced,
  a gap past the old end reads as zeros, everything else is kept, whatever the alignment of
  the range with the chunks; the result is the new size.
\<close>

theorem write_range_patches:
  assumes "lib_ok L" and "file_at L U cs s mount path n B" and "0 \<le> offset"
    and "fits U cs (patched (nat offset) data B)" and "data \<noteq> []"
  shows "\<exists>s'. write_range L mount path offset data s = (Inr (max (length B) (nat offset + length data)), s')
     \<and> read_all L mount path s' = (Inr (patched (nat offset) data B), s')
     \<and> file_at L U cs s' mount path n (patched (nat offset) data B) \<and> rewrote n s s'"
  using write_range_ok [OF assms] file_at_read by blast

theorem write_range_patches_witness:
  "\<exists>s'. write_range toy_lib ''m'' ''/a'' 7 [9] demo = (Inr 8, s')
     \<and> read_all toy_lib ''m'' ''/a'' s' = (Inr [1, 2, 3, 4, 5, 0, 0, 9], s')"
  using write_range_patches [OF toy_lib_ok demo_file(1) _ fits_UNIV, of 7 "[9]"]
  by (auto simp: patched_def eval_nat_numeral)

text \<open>C7
  \<open>truncate\<close> cuts the file to the given size or extends it with zeros.
\<close>

theorem truncate_resizes:
  assumes "lib_ok L" and "file_at L U cs s mount path n B" and "0 \<le> new_size"
    and "fits U cs (resized (nat new_size) B)"
  shows "\<exists>s'. truncate_op L mount path new_size s = (Inr (), s')
     \<and> read_all L mount path s' = (Inr (resized (nat new_size) B), s')
     \<and> file_at L U cs s' mount path n (resized (nat new_size) B) \<and> rewrote n s s'"
  using truncate_ok [OF assms] file_at_read by blast

theorem truncate_resizes_witness:
  "\<exists>s'. truncate_op toy_lib ''m'' ''/a'' 2 demo = (Inr (), s') \<and> read_all toy_lib ''m'' ''/a'' s' = (Inr [1, 2], s')"
  using truncate_resizes [OF toy_lib_ok demo_file(1) _ fits_UNIV, of 2]
  by (auto simp: resized_def eval_nat_numeral)

text \<open>C11
  A write to one file leaves every other file of the mounted volumes as it was: its bytes are
  still there and it is still writable.
\<close>

theorem write_isolated:
  assumes "lib_ok L" and "file_at L U cs s mount path n B" and "file_at L U cs s mount' path' m C"
    and "m \<noteq> n" and "0 \<le> offset" and "fits U cs (patched (nat offset) data B)" and "data \<noteq> []"
  shows "\<exists>s'. write_range L mount path offset data s = (Inr (max (length B) (nat offset + length data)), s')
     \<and> file_at L U cs s' mount' path' m C \<and> read_all L mount' path' s' = (Inr C, s')"
proof -
  from write_range_ok [OF assms(1,2,5,6,7)] obtain s' where
    s': "write_range L mount path offset data s = (Inr (max (length B) (nat offset + length data)), s')"
    "file_at L U cs s' mount path n (patched (nat offset) data B)" "rewrote n s s'" by blast
  from file_at_other [OF assms(3) s'(2,3) assms(4)] file_at_read s'(1) show ?thesis by blast
qed

theorem write_isolated_witness:
  "\<exists>s'. write_range toy_lib ''m'' ''/a'' 1 [9] demo = (Inr 5, s') \<and> read_all toy_lib ''m'' ''/dir/b'' s' = (Inr [5], s')"
  using write_isolated [OF toy_lib_ok demo_file(1) demo_file(2) _ _ fits_UNIV, of 1 "[9]"] by auto

section \<open>Streams\<close>

text \<open>C1
  A write stream is atomic and isolated: however its bytes arrive in pieces, readers see the
  old bytes until the close and the whole stream after it (the old bytes first, in APPEND
  mode).
\<close>

theorem stream_commits:
  assumes "lib_ok L" and fl: "file_at L U cs s mount path n B"
    and "distinct (map mt_id (mounts (tabs s)))" and "lock_at (tabs s) (next_id s) = None"
    and new: "new = (if mode = APPEND then B else []) @ concat ps" and "fits U cs new"
  shows "\<exists>d s1 d1 s2 d2 s3. open_write L mount path mode None s = (Inr d, s1)
     \<and> d_write_list L ps d s1 = (Inr (), d1, s2) \<and> read_all L mount path s2 = (Inr B, s2)
     \<and> d_close L d1 s2 = (Inr (), d2, s3) \<and> d_closed d2 \<and> read_all L mount path s3 = (Inr new, s3)
     \<and> file_at L U cs s3 mount path n new"
  unfolding new using stream_written [OF assms(1) fl assms(3,4), of mode ps] assms(6) new file_at_read by blast

theorem stream_commits_witness:
  "\<exists>d s1 d1 s2 d2 s3. open_write toy_lib ''m'' ''/a'' APPEND None demo = (Inr d, s1)
     \<and> d_write_list toy_lib [[6, 7, 8, 9], [10]] d s1 = (Inr (), d1, s2)
     \<and> d_close toy_lib d1 s2 = (Inr (), d2, s3)
     \<and> read_all toy_lib ''m'' ''/a'' s3 = (Inr [1, 2, 3, 4, 5, 6, 7, 8, 9, 10], s3)"
proof -
  have "distinct (map mt_id (mounts (tabs demo)))" "lock_at (tabs demo) (next_id demo) = None"
    by (simp_all add: demo_def demo_tables_def demo_mount_def)
  from stream_commits [OF toy_lib_ok demo_file(1) this refl fits_UNIV, of APPEND "[[6, 7, 8, 9], [10]]"]
  show ?thesis by simp blast
qed

text \<open>C10
  Aborting a stream, whatever was written to it, leaves the file with its old bytes, still
  writable (the lock is gone).
\<close>

theorem stream_aborts:
  assumes "lib_ok L" and fl: "file_at L U cs s mount path n B"
    and "distinct (map mt_id (mounts (tabs s)))" and "lock_at (tabs s) (next_id s) = None"
    and "fits U cs ((if mode = APPEND then B else []) @ concat ps)"
  shows "\<exists>d s1 d1 s2 d2 s3. open_write L mount path mode None s = (Inr d, s1)
     \<and> d_write_list L ps d s1 = (Inr (), d1, s2) \<and> d_abort d1 s2 = (Inr (), d2, s3) \<and> d_closed d2
     \<and> read_all L mount path s3 = (Inr B, s3) \<and> file_at L U cs s3 mount path n B"
  using stream_written [OF assms] file_at_read by blast

theorem stream_aborts_witness:
  "\<exists>d s1 d1 s2 d2 s3. open_write toy_lib ''m'' ''/a'' TRUNCATE None demo = (Inr d, s1)
     \<and> d_write_list toy_lib [[6, 7, 8, 9], [10]] d s1 = (Inr (), d1, s2)
     \<and> d_abort d1 s2 = (Inr (), d2, s3) \<and> read_all toy_lib ''m'' ''/a'' s3 = (Inr [1, 2, 3, 4, 5], s3)"
proof -
  have "distinct (map mt_id (mounts (tabs demo)))" "lock_at (tabs demo) (next_id demo) = None"
    by (simp_all add: demo_def demo_tables_def demo_mount_def)
  from stream_aborts [OF toy_lib_ok demo_file(1) this fits_UNIV, of TRUNCATE "[[6, 7, 8, 9], [10]]"]
  show ?thesis by simp blast
qed

section \<open>The FUSE handle\<close>



end
